(* ===== verification/Prelude.thy ===== *)
theory Prelude
  imports Main "HOL-Library.List_Lexorder" "HOL-Library.Char_ord"
begin

text \<open>
  What every component of the model shares: the Python values the code handles (text,
  truthiness, decimal rendering, ISO timestamps), the environment it reads (clock, random
  ids, digests), rows of a table and the order of a query, and the exceptions.

  Text is \<open>string\<close>, the UTF-8 bytes of a Python \<open>str\<close>: concatenation, equality and cutting
  at an ASCII character mean the same on both. Where the code counts characters
  (\<open>edit_distance\<close>) or strips whitespace, the text is first cut into characters by
  \<open>utf8_chars\<close>.

  A timestamp is an aware UTC \<open>datetime\<close>, as its number of microseconds since the epoch.
\<close>

named_theorems frame_simps \<open>what an operation leaves unchanged\<close>
named_theorems op_defs \<open>definitions that unfold to plain record updates\<close>

section \<open>Text\<close>

definition or_empty :: "string option \<Rightarrow> string" where
  \<comment> \<open>\<open>x or ""\<close>\<close>
  "or_empty x = (case x of None \<Rightarrow> '''' | Some s \<Rightarrow> s)"

definition truthy :: "string option \<Rightarrow> bool" where
  \<comment> \<open>the truth value of a \<open>str | None\<close>\<close>
  "truthy x = (case x of None \<Rightarrow> False | Some s \<Rightarrow> s \<noteq> [])"

definition or_else :: "string option \<Rightarrow> string \<Rightarrow> string" where
  \<comment> \<open>\<open>x or y\<close>\<close>
  "or_else x y = (if truthy x then or_empty x else y)"

definition or_str :: "string option \<Rightarrow> string option \<Rightarrow> string option" where
  \<comment> \<open>\<open>a or b\<close>\<close>
  "or_str a b = (if truthy a then a else b)"

lemma or_empty_simps [simp]: "or_empty None = ''''" "or_empty (Some s) = s"
  by (simp_all add: or_empty_def)

lemma truthy_simps [simp]: "\<not> truthy None" "truthy (Some s) \<longleftrightarrow> s \<noteq> []"
  by (simp_all add: truthy_def)

fun join :: "string \<Rightarrow> string list \<Rightarrow> string" where
  "join sep [] = []"
| "join sep [s] = s"
| "join sep (s # t # ts) = s @ sep @ join sep (t # ts)"

lemma separator_prefix:
  "c \<notin> set xs \<Longrightarrow> c \<notin> set ys \<Longrightarrow> xs @ c # us = ys @ c # vs \<Longrightarrow> xs = ys \<and> us = vs"
  by (induction xs arbitrary: ys) (case_tac ys; auto)+

fun digits_of :: "nat \<Rightarrow> string" where
  "digits_of n =
     (if n < 10 then [char_of (48 + n)] else digits_of (n div 10) @ [char_of (48 + n mod 10)])"

declare digits_of.simps [simp del]

definition str_of_int :: "int \<Rightarrow> string" where
  "str_of_int i = (if i < 0 then CHR ''-'' # digits_of (nat (- i)) else digits_of (nat i))"

abbreviation str_of_nat :: "nat \<Rightarrow> string" where
  "str_of_nat n \<equiv> digits_of n"

definition digits_value :: "string \<Rightarrow> nat" where
  "digits_value s = foldl (\<lambda>a c. 10 * a + (of_char c - 48)) 0 s"

lemma digits_value_digits_of [simp]: "digits_value (digits_of n) = n"
proof (induction n rule: digits_of.induct)
  case (1 n)
  then show ?case
    by (subst digits_of.simps) (auto simp: digits_value_def of_char_of take_bit_eq_mod)
qed

definition is_digit :: "char \<Rightarrow> bool" where
  "is_digit c = (48 \<le> (of_char c :: nat) \<and> (of_char c :: nat) \<le> 57)"

lemma digits_of_digits: "list_all is_digit (digits_of n)"
proof (induction n rule: digits_of.induct)
  case (1 n)
  then show ?case
    by (subst digits_of.simps) (auto simp: is_digit_def [of "char_of n" for n] of_char_of take_bit_eq_mod)
qed

lemma digits_of_nonempty [simp]: "digits_of n \<noteq> []"
  by (subst digits_of.simps) simp

lemma not_in_digits: "\<not> is_digit c \<Longrightarrow> c \<notin> set (digits_of n)"
  using digits_of_digits [of n] by (auto simp: list_all_iff)

lemma not_in_str_of_int: "\<not> is_digit c \<Longrightarrow> c \<noteq> CHR ''-'' \<Longrightarrow> c \<notin> set (str_of_int i)"
  by (simp add: str_of_int_def not_in_digits)

lemma digits_of_eq_iff [simp]: "digits_of m = digits_of n \<longleftrightarrow> m = n"
  by (metis digits_value_digits_of)

lemma minus_Cons_digits [simp]: "CHR ''-'' # s \<noteq> digits_of n"
proof
  assume "CHR ''-'' # s = digits_of n"
  then have "CHR ''-'' \<in> set (digits_of n)" by (metis list.set_intros(1))
  moreover have "\<not> is_digit CHR ''-''" by (simp add: is_digit_def)
  ultimately show False using not_in_digits by blast
qed

lemma str_of_int_eq_iff [simp]: "str_of_int i = str_of_int j \<longleftrightarrow> i = j"
  using minus_Cons_digits [symmetric] by (auto simp: str_of_int_def)

definition pad_left :: "nat \<Rightarrow> string \<Rightarrow> string" where
  "pad_left w s = replicate (w - length s) (CHR ''0'') @ s"

definition hex_digit :: "char \<Rightarrow> int" where
  "hex_digit c =
     (let n = of_char c in
      if 48 \<le> n \<and> n \<le> 57 then n - 48
      else if 97 \<le> n \<and> n \<le> 102 then n - 87
      else if 65 \<le> n \<and> n \<le> 70 then n - 55 else 0)"

definition int_of_hex :: "string \<Rightarrow> int" where
  \<comment> \<open>\<open>int(s, 16)\<close> of a string of hexadecimal digits\<close>
  "int_of_hex s = foldl (\<lambda>acc c. 16 * acc + hex_digit c) 0 s"

definition last_segment :: "string \<Rightarrow> string" where
  \<comment> \<open>\<open>s.rsplit("/", 1)[-1]\<close>\<close>
  "last_segment s = rev (takeWhile (\<lambda>c. c \<noteq> CHR ''/'') (rev s))"

lemma last_segment_append: "CHR ''/'' \<notin> set s \<Longrightarrow> last_segment (p @ CHR ''/'' # s) = s"
proof -
  assume s: "CHR ''/'' \<notin> set s"
  then have "takeWhile (\<lambda>c. c \<noteq> CHR ''/'') (rev s @ CHR ''/'' # rev p) = rev s"
    by (induction s rule: rev_induct) auto
  then show ?thesis by (simp add: last_segment_def)
qed

definition em_dash :: string where
  "em_dash = map char_of ([226, 128, 148] :: nat list)"

definition utf8_continuation :: "char \<Rightarrow> bool" where
  "utf8_continuation c = (128 \<le> (of_char c :: nat) \<and> (of_char c :: nat) < 192)"

function utf8_chars :: "string \<Rightarrow> string list" where
  "utf8_chars [] = []"
| "utf8_chars (c # cs) =
     (c # takeWhile utf8_continuation cs) # utf8_chars (dropWhile utf8_continuation cs)"
  by pat_completeness auto
termination
  by (relation "measure length") (auto simp: length_dropWhile_le le_imp_less_Suc)

lemma concat_utf8_chars: "concat (utf8_chars s) = s"
  by (induction s rule: utf8_chars.induct) auto

lemma utf8_chars_eq_iff: "utf8_chars s = utf8_chars t \<longleftrightarrow> s = t"
  by (metis concat_utf8_chars)

definition py_space_chars :: "string list" where
  \<comment> \<open>the characters \<open>str.isspace\<close> accepts, in UTF-8\<close>
  "py_space_chars =
     map (\<lambda>n. [char_of n]) ([9, 10, 11, 12, 13, 28, 29, 30, 31, 32] :: nat list)
   @ map (map char_of) ([[194, 133], [194, 160], [225, 154, 128]] :: nat list list)
   @ map (\<lambda>n. map char_of [226, 128, n]) ([128, 129, 130, 131, 132, 133, 134, 135, 136, 137, 138,
        168, 169, 175] :: nat list)
   @ map (map char_of) ([[226, 129, 159], [227, 128, 128]] :: nat list list)"

definition strip :: "string \<Rightarrow> string" where
  \<comment> \<open>\<open>s.strip()\<close>\<close>
  "strip s =
     (let drop_ws = dropWhile (\<lambda>c. c \<in> set py_space_chars)
      in concat (rev (drop_ws (rev (drop_ws (utf8_chars s))))))"

lemma strip_Nil [simp]: "strip [] = []"
  by (simp add: strip_def)

definition lower_char :: "char \<Rightarrow> char" where
  "lower_char c =
     (let n = of_char c :: nat in if 65 \<le> n \<and> n \<le> 90 then char_of (n + 32) else c)"

definition lower :: "string \<Rightarrow> string" where
  \<comment> \<open>\<open>s.lower()\<close> on ASCII letters\<close>
  "lower s = map lower_char s"

section \<open>Time\<close>

type_synonym timestamp = int

definition microsecond :: int where "microsecond = 1"
definition one_second :: int where "one_second = 1000000"
definition one_hour :: int where "one_hour = 3600 * one_second"

definition civil_from_days :: "int \<Rightarrow> int \<times> int \<times> int" where
  \<comment> \<open>year, month and day of the proleptic Gregorian calendar, from the days since 1970-01-01\<close>
  "civil_from_days z0 =
     (let z = z0 + 719468;
          era = z div 146097;
          doe = z - era * 146097;
          yoe = (doe - doe div 1460 + doe div 36524 - doe div 146096) div 365;
          doy = doe - (365 * yoe + yoe div 4 - yoe div 100);
          mp = (5 * doy + 2) div 153;
          d = doy - (153 * mp + 2) div 5 + 1;
          m = (if mp < 10 then mp + 3 else mp - 9);
          y = yoe + era * 400 + (if m \<le> 2 then 1 else 0)
      in (y, m, d))"

definition isodate :: "timestamp \<Rightarrow> string" where
  "isodate t =
     (case civil_from_days (t div (24 * one_hour)) of (y, m, d) \<Rightarrow>
        pad_left 4 (str_of_int y) @ ''-'' @ pad_left 2 (str_of_int m) @ ''-''
          @ pad_left 2 (str_of_int d))"

definition isoformat :: "timestamp \<Rightarrow> string" where
  \<comment> \<open>\<open>datetime.isoformat()\<close> of an aware UTC datetime; the fraction is left out when zero\<close>
  "isoformat t =
     (let us = t mod one_second;
          s = t div one_second mod 60;
          mi = t div (60 * one_second) mod 60;
          h = t div one_hour mod 24
      in isodate t @ ''T'' @ pad_left 2 (str_of_int h) @ '':'' @ pad_left 2 (str_of_int mi) @ '':''
           @ pad_left 2 (str_of_int s)
           @ (if us = 0 then [] else ''.'' @ pad_left 6 (str_of_int us)) @ ''+00:00'')"

section \<open>The environment and the world\<close>

text \<open>
  What the code takes from outside: the digest functions of \<open>hashlib\<close> and \<open>hmac\<close>, the
  stream of ids \<open>uuid.uuid4()\<close> draws and the stream of readings \<open>datetime.now(timezone.utc)\<close>
  gives. Every theorem is for every environment; what it needs of one is a named hypothesis.
  The world of a component is a record that extends \<open>world\<close> with its tables.
\<close>

record env =
  sha256_hex :: "string \<Rightarrow> string"
  hmac_sha256_hex :: "string \<Rightarrow> string \<Rightarrow> string"
  uuid4 :: "nat \<Rightarrow> string"
  utcnow :: "nat \<Rightarrow> timestamp"

record world =
  uuids_drawn :: nat
  clock_reads :: nat

definition draw_uuid :: "env \<Rightarrow> 'a world_scheme \<Rightarrow> string \<times> 'a world_scheme" where
  "draw_uuid E w = (uuid4 E (uuids_drawn w), w\<lparr>uuids_drawn := Suc (uuids_drawn w)\<rparr>)"

definition read_clock :: "env \<Rightarrow> 'a world_scheme \<Rightarrow> timestamp \<times> 'a world_scheme" where
  "read_clock E w = (utcnow E (clock_reads w), w\<lparr>clock_reads := Suc (clock_reads w)\<rparr>)"

lemmas world_defs = draw_uuid_def read_clock_def Let_def

text \<open>
  A SHA-256 digest in hexadecimal: what the callers of \<open>hexdigest()\<close> rely on is that it is 64
  characters of \<open>0-9a-f\<close>. That different inputs have different digests is never assumed: a
  theorem that needs it concludes, in the alternative, with a collision between two of the
  finitely many strings that the code hashed in the case at hand.
\<close>

definition hex_alphabet :: string where
  "hex_alphabet = ''0123456789abcdef''"

definition hexdigest_ok :: "env \<Rightarrow> bool" where
  "hexdigest_ok E \<longleftrightarrow>
     (\<forall>x. length (sha256_hex E x) = 64 \<and> set (sha256_hex E x) \<subseteq> set hex_alphabet)"

lemma hexdigest_okD:
  assumes "hexdigest_ok E"
  shows "length (sha256_hex E x) = 64" "sha256_hex E x \<noteq> []"
    "CHR ''|'' \<notin> set (sha256_hex E x)" "CHR '':'' \<notin> set (sha256_hex E x)"
    "CHR ''/'' \<notin> set (sha256_hex E x)"
proof -
  from assms have len: "length (sha256_hex E x) = 64"
    and sub: "set (sha256_hex E x) \<subseteq> set hex_alphabet"
    unfolding hexdigest_ok_def by blast+
  then show "length (sha256_hex E x) = 64" by simp
  show "sha256_hex E x \<noteq> []" using len by auto
  show "CHR ''|'' \<notin> set (sha256_hex E x)" "CHR '':'' \<notin> set (sha256_hex E x)"
    "CHR ''/'' \<notin> set (sha256_hex E x)"
    using sub by (auto simp: hex_alphabet_def)
qed

definition collision :: "env \<Rightarrow> string set \<Rightarrow> bool" where
  \<comment> \<open>two different strings of the set with the same digest\<close>
  "collision E S \<longleftrightarrow> (\<exists>x\<in>S. \<exists>y\<in>S. x \<noteq> y \<and> sha256_hex E x = sha256_hex E y)"

lemma no_collisionD: "\<not> collision E S \<Longrightarrow> sha256_hex E x = sha256_hex E y \<Longrightarrow> x \<in> S \<Longrightarrow> y \<in> S \<Longrightarrow> x = y"
  by (auto simp: collision_def)

lemma collision_mono: "collision E S \<Longrightarrow> S \<subseteq> T \<Longrightarrow> collision E T"
  by (auto simp: collision_def)

text \<open>A concrete environment, at which hypotheses about the environment can be evaluated.\<close>

definition demo_digest :: "string \<Rightarrow> string" where
  "demo_digest s =
     (let n = foldl (\<lambda>a c. (31 * a + of_char c) mod 4294967296) 7 s :: nat
      in replicate 56 (CHR ''0'') @ map (\<lambda>i. hex_alphabet ! (n div 16 ^ i mod 16)) [7, 6, 5, 4, 3, 2, 1, 0])"

definition demo_env :: env where
  "demo_env = \<lparr>sha256_hex = demo_digest,
     hmac_sha256_hex = (\<lambda>k s. demo_digest (k @ ''#'' @ s)),
     uuid4 = (\<lambda>n. replicate n (CHR ''u'')), utcnow = (\<lambda>n. int n)\<rparr>"

lemma hex_alphabet_nth: "hex_alphabet ! (n mod 16) \<in> set hex_alphabet"
  by (rule nth_mem) (simp add: hex_alphabet_def)

lemma demo_env_ok: "hexdigest_ok demo_env"
proof -
  have "CHR ''0'' \<in> set hex_alphabet" by (simp add: hex_alphabet_def)
  then show ?thesis
    unfolding hexdigest_ok_def demo_env_def demo_digest_def Let_def
    using hex_alphabet_nth by auto
qed

lemma inj_demo_uuid: "inj (uuid4 demo_env)"
  by (rule injI) (metis demo_env_def env.select_convs(3) length_replicate)

lemma demo_env_clock: "strict_mono (utcnow demo_env)"
  by (simp add: demo_env_def strict_mono_def)

text \<open>The process environment \<open>os.environ\<close>.\<close>

type_synonym environ = "string \<rightharpoonup> string"

section \<open>Exceptions\<close>

text \<open>
  An exception is its class and the value it is about (the key, the id, the missing variable);
  the English of the message is shortened.
\<close>

datatype exn =
    KeyError string
  | ValueError string
  | AttributeError string
  | TypeError string
  | IntegrityError string
  | MultipleResultsFound
  | RuntimeError string
  | OSError string
  | ClientError string
  | ObjectAlreadyExistsWithDifferentContent string
  | DistinctCredentialsError string
  | IncompleteModelVersions "string list"
  | LiveResolutionInsidePinnedScope string
  | ModelRegistryResolutionError string
  | ExtractionNotFoundError string
  | UnroutableExtraction string
  | PayloadMismatchError string
  | AlreadyDecidedWithDifferentOutcome string
  | ReviewTaskNotClaimable string
  | NotTheClaimant string
  | SameActorCannotConfirm string
  | PendingCorrectionAlreadyResolved string
  | InvalidEntryStatusTransition string
  | InvalidConflictTransition string
  | InvalidRescanTaskTransition string
  | UnsupportedMediaType string
  | MissingMandatoryBatchField string
  | UnsplittableDocument string
  | ConfigNotFound string string
  | AuthorEqualsApprover string
  | MissingPurpose
  | UnknownIdentity string
  | LeakageDetected nat
  | InvalidStateTransition string
  | OCRConfigurationError string
  | OCRProcessingError string
  | OCRResponseParseError string
  | HWRNotImplementedError string
  | InsufficientControlPointsError nat
  | HTTPException nat

section \<open>Rows\<close>

definition get_by :: "('r \<Rightarrow> 'k) \<Rightarrow> 'k \<Rightarrow> 'r list \<Rightarrow> 'r option" where
  \<comment> \<open>\<open>session.get\<close>, and the first row of a query by key\<close>
  "get_by key k rows = find (\<lambda>r. key r = k) rows"

definition set_by :: "('r \<Rightarrow> 'k) \<Rightarrow> 'k \<Rightarrow> ('r \<Rightarrow> 'r) \<Rightarrow> 'r list \<Rightarrow> 'r list" where
  \<comment> \<open>assignment to attributes of the mapped object with that key\<close>
  "set_by key k f rows = map (\<lambda>r. if key r = k then f r else r) rows"

lemma get_by_None_iff: "get_by key k rows = None \<longleftrightarrow> k \<notin> key ` set rows"
  by (auto simp: get_by_def find_None_iff)

lemma get_by_SomeD: "get_by key k rows = Some r \<Longrightarrow> r \<in> set rows \<and> key r = k"
  by (auto simp: get_by_def find_Some_iff)

lemma get_by_simps [simp]:
  "get_by key k [] = None"
  "get_by key k (r # rows) = (if key r = k then Some r else get_by key k rows)"
  by (simp_all add: get_by_def)

lemma get_by_append:
  "get_by key k (xs @ ys) = (case get_by key k xs of None \<Rightarrow> get_by key k ys | Some r \<Rightarrow> Some r)"
  by (induction xs) auto

lemma get_by_map:
  assumes "\<And>r. key (f r) = key r"
  shows "get_by key k (map f rows) = map_option f (get_by key k rows)"
  unfolding get_by_def by (induction rows) (simp_all add: assms)

lemma set_by_simps [simp]:
  "set_by key k f [] = []"
  "set_by key k f (r # rows) = (if key r = k then f r else r) # set_by key k f rows"
  by (simp_all add: set_by_def)

lemma length_set_by [simp]: "length (set_by key k f rows) = length rows"
  by (simp add: set_by_def)

lemma get_by_set_by:
  assumes "\<And>r. key (f r) = key r"
  shows "get_by key j (set_by key k f rows)
    = (if j = k then map_option f (get_by key j rows) else get_by key j rows)"
  using assms by (induction rows) auto

lemma map_set_by: "(\<And>r. g (f r) = g r) \<Longrightarrow> map g (set_by key k f rows) = map g rows"
  by (simp add: set_by_def)

lemma set_by_id: "k \<notin> key ` set rows \<Longrightarrow> set_by key k f rows = rows"
  by (induction rows) auto

definition scalar_one_or_none :: "'r list \<Rightarrow> exn + 'r option" where
  "scalar_one_or_none rows =
     (case rows of [] \<Rightarrow> Inr None | [r] \<Rightarrow> Inr (Some r) | _ \<Rightarrow> Inl MultipleResultsFound)"

lemma scalar_one_or_none_simps [simp]:
  "scalar_one_or_none [] = Inr None" "scalar_one_or_none [r] = Inr (Some r)"
  "scalar_one_or_none rows = Inr None \<longleftrightarrow> rows = []"
  "scalar_one_or_none rows = Inr (Some r) \<longleftrightarrow> rows = [r]"
  by (auto simp: scalar_one_or_none_def split: list.splits)

section \<open>The order of a query\<close>

definition rows_by :: "('r \<Rightarrow> 'o::linorder) \<Rightarrow> ('r \<Rightarrow> bool) \<Rightarrow> 'r list \<Rightarrow> 'r list" where
  \<comment> \<open>\<open>WHERE\<close> and \<open>ORDER BY ... ASC\<close>\<close>
  "rows_by key P rows = sort_key key (filter P rows)"

definition first_by :: "('r \<Rightarrow> 'o::linorder) \<Rightarrow> ('r \<Rightarrow> bool) \<Rightarrow> 'r list \<Rightarrow> 'r option" where
  \<comment> \<open>\<open>ORDER BY ... ASC LIMIT 1\<close>\<close>
  "first_by key P rows = (case rows_by key P rows of [] \<Rightarrow> None | r # _ \<Rightarrow> Some r)"

definition latest_by :: "('r \<Rightarrow> 'o::linorder) \<Rightarrow> ('r \<Rightarrow> bool) \<Rightarrow> 'r list \<Rightarrow> 'r option" where
  \<comment> \<open>\<open>ORDER BY ... DESC LIMIT 1\<close>\<close>
  "latest_by key P rows = (case rev (rows_by key P rows) of [] \<Rightarrow> None | r # _ \<Rightarrow> Some r)"

lemma sort_key_Nil_iff [simp]: "sort_key f xs = [] \<longleftrightarrow> xs = []"
  by (metis length_0_conv length_sort)

lemma set_rows_by [simp]: "set (rows_by key P rows) = {r \<in> set rows. P r}"
  by (auto simp: rows_by_def)

lemma sorted_rows_by: "sorted (map key (rows_by key P rows))"
  by (simp add: rows_by_def)

lemma sort_key_map:
  assumes "\<And>x. f (g x) = f x"
  shows "sort_key f (map g xs) = map g (sort_key f xs)"
proof -
  have "insort_key f (g x) (map g ys) = map g (insort_key f x ys)" for x ys
    by (induction ys) (simp_all add: assms)
  then show ?thesis by (induction xs) simp_all
qed

lemma rows_by_map:
  assumes "\<And>r. key (f r) = key r" and "\<And>r. P (f r) = P r"
  shows "rows_by key P (map f rows) = map f (rows_by key P rows)"
  by (simp add: rows_by_def filter_map assms comp_def sort_key_map)

lemma insort_key_snoc:
  "key a \<le> key x \<Longrightarrow> insort_key key a (ys @ [x]) = insort_key key a ys @ [x]"
  by (induction ys) auto

lemma sort_key_snoc:
  "(\<And>y. y \<in> set xs \<Longrightarrow> key y \<le> key x) \<Longrightarrow> sort_key key (xs @ [x]) = sort_key key xs @ [x]"
proof (induction xs)
  case Nil
  then show ?case by simp
next
  case (Cons a xs)
  then have "key a \<le> key x" by simp
  with Cons show ?case by (simp add: insort_key_snoc)
qed

lemma rows_by_snoc:
  assumes "P x" and "\<And>y. y \<in> set rows \<Longrightarrow> P y \<Longrightarrow> key y \<le> key x"
  shows "rows_by key P (rows @ [x]) = rows_by key P rows @ [x]"
  unfolding rows_by_def using assms by (simp, intro sort_key_snoc) auto

lemma rows_by_snoc_skip: "\<not> P x \<Longrightarrow> rows_by key P (rows @ [x]) = rows_by key P rows"
  by (simp add: rows_by_def)

lemma latest_by_None_iff: "latest_by key P rows = None \<longleftrightarrow> (\<forall>r\<in>set rows. \<not> P r)"
proof -
  have "latest_by key P rows = None \<longleftrightarrow> rows_by key P rows = []"
    by (simp add: latest_by_def split: list.splits)
  also have "\<dots> \<longleftrightarrow> set (rows_by key P rows) = {}"
    by (simp only: set_empty)
  also have "\<dots> \<longleftrightarrow> (\<forall>r\<in>set rows. \<not> P r)"
    by auto
  finally show ?thesis .
qed

lemma latest_by_Some_last:
  "latest_by key P rows = Some r \<Longrightarrow> rows_by key P rows \<noteq> [] \<and> last (rows_by key P rows) = r"
  by (cases "rows_by key P rows" rule: rev_cases) (auto simp: latest_by_def)

lemma latest_by_SomeD:
  assumes "latest_by key P rows = Some r"
  shows "r \<in> set rows \<and> P r \<and> (\<forall>s\<in>set rows. P s \<longrightarrow> key s \<le> key r)"
proof -
  let ?l = "rows_by key P rows"
  from latest_by_Some_last [OF assms] obtain ys where l: "?l = ys @ [r]"
    by (metis append_butlast_last_id)
  have "sorted (map key (ys @ [r]))" using sorted_rows_by [of key P rows] l by simp
  then have le: "\<forall>s\<in>set (ys @ [r]). key s \<le> key r" by (auto simp: sorted_append)
  have "set (ys @ [r]) = {r \<in> set rows. P r}" using set_rows_by [of key P rows] l by simp
  with le show ?thesis by auto
qed

lemma first_by_None_iff: "first_by key P rows = None \<longleftrightarrow> (\<forall>r\<in>set rows. \<not> P r)"
proof -
  have "first_by key P rows = None \<longleftrightarrow> rows_by key P rows = []"
    by (simp add: first_by_def split: list.splits)
  also have "\<dots> \<longleftrightarrow> set (rows_by key P rows) = {}"
    by (simp only: set_empty)
  also have "\<dots> \<longleftrightarrow> (\<forall>r\<in>set rows. \<not> P r)"
    by auto
  finally show ?thesis .
qed

lemma first_by_SomeD:
  assumes "first_by key P rows = Some r"
  shows "r \<in> set rows \<and> P r \<and> (\<forall>s\<in>set rows. P s \<longrightarrow> key r \<le> key s)"
proof -
  let ?l = "rows_by key P rows"
  from assms obtain ys where l: "?l = r # ys"
    by (auto simp: first_by_def split: list.splits)
  have "sorted (map key (r # ys))" using sorted_rows_by [of key P rows] l by simp
  then have le: "\<forall>s\<in>set (r # ys). key r \<le> key s" by auto
  have "set (r # ys) = {r \<in> set rows. P r}" using set_rows_by [of key P rows] l by simp
  with le show ?thesis by auto
qed

section \<open>Transactions\<close>

definition rolled_back :: "'a world_scheme \<Rightarrow> 'a world_scheme \<Rightarrow> 'a world_scheme" where
  \<comment> \<open>the database as it was, with the clock and the random ids where they have got to\<close>
  "rolled_back before after =
     before\<lparr>uuids_drawn := uuids_drawn after, clock_reads := clock_reads after\<rparr>"

text \<open>
  A SQLAlchemy session: what it last committed and what it sees now. Rolling back forgets the
  difference, but not the readings of the clock and the random ids already drawn.
\<close>

record 'w session =
  committed :: 'w
  current :: 'w

definition begin_session :: "'w \<Rightarrow> 'w session" where
  "begin_session w = \<lparr>committed = w, current = w\<rparr>"

definition commit :: "'w session \<Rightarrow> 'w session" where
  "commit s = s\<lparr>committed := current s\<rparr>"

definition rollback :: "'a world_scheme session \<Rightarrow> 'a world_scheme session" where
  "rollback s = s\<lparr>current := rolled_back (committed s) (current s)\<rparr>"

definition in_session :: "('w \<Rightarrow> 'r \<times> 'w) \<Rightarrow> 'w session \<Rightarrow> 'r \<times> 'w session" where
  "in_session f s = (let (r, w) = f (current s) in (r, s\<lparr>current := w\<rparr>))"

lemmas session_defs = begin_session_def commit_def rollback_def in_session_def rolled_back_def

end
