(* ===== verification/Audit_Chain.thy ===== *)
theory Audit_Chain
  imports Prelude
begin

text \<open>
  The hash-chained, sharded audit log of \<open>libs/audit\<close> (\<open>landaudit/chain.py\<close> and the row
  \<open>AuditEntry\<close> of \<open>landaudit/models.py\<close>): the choice of a shard, \<open>append\<close>, \<open>verify_shard\<close>.
  \<open>logged\<close> relates a world to every world the code can reach from it as far as the log is
  concerned; the components that write audit entries show that their operations stay in it,
  and inherit from here that the log is only extended and keeps verifying.
\<close>

section \<open>The table\<close>

record audit_entry =
  ae_id :: string
  ae_shard :: int
  ae_prev :: "string option"
  ae_hash :: string
  ae_actor :: string
  ae_action :: string
  ae_subject :: "string option"
  ae_purpose :: "string option"
  ae_value_hash :: "string option"
  ae_at :: timestamp
  ae_district :: "string option"

record audit_world = world +
  audit_entries :: "audit_entry list"

text \<open>The chain order of a shard is \<open>ORDER BY at, id\<close>.\<close>

datatype chain_pos = Chain_Pos (pos_at: timestamp) (pos_id: string)

instantiation chain_pos :: linorder
begin

definition less_eq_chain_pos :: "chain_pos \<Rightarrow> chain_pos \<Rightarrow> bool" where
  "less_eq_chain_pos p q \<longleftrightarrow> pos_at p < pos_at q \<or> pos_at p = pos_at q \<and> pos_id p \<le> pos_id q"

definition less_chain_pos :: "chain_pos \<Rightarrow> chain_pos \<Rightarrow> bool" where
  "less_chain_pos p q \<longleftrightarrow> pos_at p < pos_at q \<or> pos_at p = pos_at q \<and> pos_id p < pos_id q"

instance
  by standard (auto simp: less_eq_chain_pos_def less_chain_pos_def chain_pos.expand)

end

definition chain_pos_of :: "audit_entry \<Rightarrow> chain_pos" where
  "chain_pos_of e = Chain_Pos (ae_at e) (ae_id e)"

section \<open>Shards\<close>

definition NUM_SHARDS :: int where "NUM_SHARDS = 8"
definition SYSTEM_SHARD_ID :: int where "SYSTEM_SHARD_ID = 0"
definition SYSTEM_SHARD_KEY :: string where "SYSTEM_SHARD_KEY = ''system''"

definition shard_for :: "env \<Rightarrow> string \<Rightarrow> int" where
  "shard_for E key =
     (if key = SYSTEM_SHARD_KEY then SYSTEM_SHARD_ID
      else int_of_hex (sha256_hex E key) mod NUM_SHARDS)"

definition shard_key_for :: "string option \<Rightarrow> string option \<Rightarrow> string" where
  "shard_key_for district batch_id =
     (if truthy district then ''district:'' @ or_empty district
      else if truthy batch_id then ''batch:'' @ or_empty batch_id
      else SYSTEM_SHARD_KEY)"

section \<open>Appending\<close>

definition hash_material ::
  "string option \<Rightarrow> string \<Rightarrow> string \<Rightarrow> string option \<Rightarrow> string option \<Rightarrow> string option \<Rightarrow> string \<Rightarrow> string"
where
  "hash_material prev_hash actor action subject purpose value_hash at_iso =
     join ''|'' [or_empty prev_hash, actor, action, or_empty subject, or_empty purpose,
                 or_empty value_hash, at_iso]"

definition compute_hash ::
  "env \<Rightarrow> string option \<Rightarrow> string \<Rightarrow> string \<Rightarrow> string option \<Rightarrow> string option \<Rightarrow> string option \<Rightarrow> string \<Rightarrow> string"
where
  "compute_hash E prev_hash actor action subject purpose value_hash at_iso =
     sha256_hex E (hash_material prev_hash actor action subject purpose value_hash at_iso)"

text \<open>The keyword arguments of one call of \<open>append\<close>, with the defaults of the signature.\<close>

record audit_call =
  ac_actor :: string
  ac_action :: string
  ac_subject :: "string option"
  ac_purpose :: "string option"
  ac_value_hash :: "string option"
  ac_shard_id :: "int option"
  ac_shard_key :: "string option"
  ac_district :: "string option"

definition audit_call :: "string \<Rightarrow> string \<Rightarrow> audit_call" where
  "audit_call actor action =
     \<lparr>ac_actor = actor, ac_action = action, ac_subject = None, ac_purpose = None,
      ac_value_hash = None, ac_shard_id = None, ac_shard_key = None, ac_district = None\<rparr>"

definition resolved_shard :: "env \<Rightarrow> audit_call \<Rightarrow> int" where
  "resolved_shard E c =
     (case ac_shard_id c of Some s \<Rightarrow> s
      | None \<Rightarrow> (case ac_shard_key c of Some k \<Rightarrow> shard_for E k
         | None \<Rightarrow> shard_for E (or_else (ac_subject c) (ac_actor c))))"

definition chain_append ::
  "env \<Rightarrow> audit_call \<Rightarrow> 'a audit_world_scheme \<Rightarrow> audit_entry \<times> 'a audit_world_scheme"
where
  "chain_append E c w =
     (let shard = resolved_shard E c;
          last_entry = latest_by chain_pos_of (\<lambda>e. ae_shard e = shard) (audit_entries w);
          (t, w) = read_clock E w;
          prev = map_option ae_hash last_entry;
          h = compute_hash E prev (ac_actor c) (ac_action c) (ac_subject c) (ac_purpose c)
                (ac_value_hash c) (isoformat t);
          (uid, w) = draw_uuid E w;
          entry = \<lparr>ae_id = uid, ae_shard = shard, ae_prev = prev, ae_hash = h,
                   ae_actor = ac_actor c, ae_action = ac_action c, ae_subject = ac_subject c,
                   ae_purpose = ac_purpose c, ae_value_hash = ac_value_hash c, ae_at = t,
                   ae_district = ac_district c\<rparr>
      in (entry, w\<lparr>audit_entries := audit_entries w @ [entry]\<rparr>))"

section \<open>Verifying\<close>

datatype chain_error = ChainTamperedError int string \<comment> \<open>shard and entry\<close>

fun first_broken :: "env \<Rightarrow> string option \<Rightarrow> audit_entry list \<Rightarrow> audit_entry option" where
  "first_broken E prev_hash [] = None"
| "first_broken E prev_hash (e # es) =
     (let expected = compute_hash E prev_hash (ae_actor e) (ae_action e) (ae_subject e)
                       (ae_purpose e) (ae_value_hash e) (isoformat (ae_at e))
      in if ae_prev e \<noteq> prev_hash \<or> ae_hash e \<noteq> expected then Some e
         else first_broken E (Some (ae_hash e)) es)"

definition shard_entries :: "int \<Rightarrow> 'a audit_world_scheme \<Rightarrow> audit_entry list" where
  "shard_entries shard w = rows_by chain_pos_of (\<lambda>e. ae_shard e = shard) (audit_entries w)"

definition verify_shard :: "env \<Rightarrow> int \<Rightarrow> bool \<Rightarrow> 'a audit_world_scheme \<Rightarrow> chain_error + bool" where
  "verify_shard E shard raise_on_mismatch w =
     (case first_broken E None (shard_entries shard w) of
        None \<Rightarrow> Inr True
      | Some e \<Rightarrow> if raise_on_mismatch then Inl (ChainTamperedError shard (ae_id e)) else Inr False)"

lemma verify_shard_True_iff:
  "verify_shard E s r w = Inr True \<longleftrightarrow> first_broken E None (shard_entries s w) = None"
  by (simp add: verify_shard_def split: option.splits)

section \<open>What an append does\<close>

lemma chain_append_entries:
  "audit_entries (snd (chain_append E c w)) = audit_entries w @ [fst (chain_append E c w)]"
  by (simp add: chain_append_def world_defs)

lemma chain_append_counters [simp]:
  "clock_reads (snd (chain_append E c w)) = Suc (clock_reads w)"
  "uuids_drawn (snd (chain_append E c w)) = Suc (uuids_drawn w)"
  by (simp_all add: chain_append_def world_defs)

lemma chain_append_more [simp]:
  "audit_world.more (snd (chain_append E c w)) = audit_world.more w"
  by (simp add: chain_append_def world_defs)

lemma chain_append_fields [simp]:
  "ae_shard (fst (chain_append E c w)) = resolved_shard E c"
  "ae_at (fst (chain_append E c w)) = utcnow E (clock_reads w)"
  "ae_id (fst (chain_append E c w)) = uuid4 E (uuids_drawn w)"
  "ae_action (fst (chain_append E c w)) = ac_action c"
  "ae_subject (fst (chain_append E c w)) = ac_subject c"
  "ae_actor (fst (chain_append E c w)) = ac_actor c"
  "ae_purpose (fst (chain_append E c w)) = ac_purpose c"
  "ae_value_hash (fst (chain_append E c w)) = ac_value_hash c"
  "ae_district (fst (chain_append E c w)) = ac_district c"
  by (simp_all add: chain_append_def world_defs)

definition head_hash :: "int \<Rightarrow> 'a audit_world_scheme \<Rightarrow> string option" where
  \<comment> \<open>the hash of the entry \<open>append\<close> would chain from\<close>
  "head_hash shard w =
     map_option ae_hash (latest_by chain_pos_of (\<lambda>e. ae_shard e = shard) (audit_entries w))"

lemma head_hash_shard_entries:
  "head_hash s w = (if shard_entries s w = [] then None else Some (ae_hash (last (shard_entries s w))))"
  by (cases "shard_entries s w" rule: rev_cases)
     (auto simp: head_hash_def latest_by_def shard_entries_def)

lemma chain_append_prev: "ae_prev (fst (chain_append E c w)) = head_hash (resolved_shard E c) w"
  by (simp add: chain_append_def world_defs head_hash_def)

definition entry_hash :: "env \<Rightarrow> string option \<Rightarrow> audit_entry \<Rightarrow> string" where
  "entry_hash E prev e = compute_hash E prev (ae_actor e) (ae_action e) (ae_subject e)
     (ae_purpose e) (ae_value_hash e) (isoformat (ae_at e))"

lemma first_broken_Cons:
  "first_broken E p (e # es) =
     (if ae_prev e = p \<and> ae_hash e = entry_hash E p e then first_broken E (Some (ae_hash e)) es
      else Some e)"
  by (simp add: entry_hash_def Let_def)

declare first_broken.simps(2) [simp del]
declare first_broken_Cons [simp]

lemma chain_append_hash:
  "ae_hash (fst (chain_append E c w)) =
     entry_hash E (head_hash (resolved_shard E c) w) (fst (chain_append E c w))"
  by (simp add: chain_append_def world_defs head_hash_def entry_hash_def)

lemma first_broken_append:
  "first_broken E p (es @ fs) =
     (case first_broken E p es of Some e \<Rightarrow> Some e
      | None \<Rightarrow> first_broken E (if es = [] then p else Some (ae_hash (last es))) fs)"
  by (induction es arbitrary: p) (auto split: option.splits)

lemma append_keeps_first_broken:
  assumes ok: "first_broken E None (shard_entries s w) = None"
    and late: "\<And>e. e \<in> set (audit_entries w) \<Longrightarrow> ae_shard e = s \<Longrightarrow> s = resolved_shard E c \<Longrightarrow>
      chain_pos_of e \<le> Chain_Pos (utcnow E (clock_reads w)) (uuid4 E (uuids_drawn w))"
  shows "first_broken E None (shard_entries s (snd (chain_append E c w))) = None"
proof (cases "s = resolved_shard E c")
  case False
  then show ?thesis
    using ok by (simp add: shard_entries_def chain_append_entries rows_by_snoc_skip)
next
  case True
  let ?e = "fst (chain_append E c w)"
  have pos: "chain_pos_of ?e = Chain_Pos (utcnow E (clock_reads w)) (uuid4 E (uuids_drawn w))"
    by (simp add: chain_pos_of_def)
  have "shard_entries s (snd (chain_append E c w)) = shard_entries s w @ [?e]"
    unfolding shard_entries_def chain_append_entries
    by (rule rows_by_snoc) (use True late pos in auto)
  then show ?thesis
    using ok True
    by (auto simp: first_broken_append chain_append_prev chain_append_hash head_hash_shard_entries)
qed

section \<open>The worlds the code reaches, as far as the log is concerned\<close>

inductive logged :: "env \<Rightarrow> 'a audit_world_scheme \<Rightarrow> 'a audit_world_scheme \<Rightarrow> bool"
  for E :: env where
  quiet: "audit_entries w' = audit_entries w \<Longrightarrow> clock_reads w \<le> clock_reads w' \<Longrightarrow> logged E w w'"
| entry: "logged E w w' \<Longrightarrow> logged E w (snd (chain_append E c w'))"
| then_quiet: "logged E w w' \<Longrightarrow> audit_entries w'' = audit_entries w' \<Longrightarrow>
     clock_reads w' \<le> clock_reads w'' \<Longrightarrow> logged E w w''"

inductive_cases loggedE: "logged E w w'"

lemma logged_refl [intro, simp]: "logged E w w"
  by (rule logged.quiet) auto

lemma logged_append [intro, simp]: "logged E w (snd (chain_append E c w))"
  by (rule logged.entry) simp

lemma logged_trans [trans]: "logged E w w' \<Longrightarrow> logged E w' w'' \<Longrightarrow> logged E w w''"
  by (rotate_tac, induction rule: logged.induct) (auto intro: logged.intros)

lemma logged_append_pair: "chain_append E c w = (e, w') \<Longrightarrow> logged E w w'"
  by (metis logged_append snd_conv)

lemma logged_extends: "logged E w w' \<Longrightarrow> \<exists>new. audit_entries w' = audit_entries w @ new"
  by (induction rule: logged.induct) (auto simp: chain_append_entries)

lemma logged_clock: "logged E w w' \<Longrightarrow> clock_reads w \<le> clock_reads w'"
  by (induction rule: logged.induct) auto

definition chain_inv :: "env \<Rightarrow> 'a audit_world_scheme \<Rightarrow> bool" where
  \<comment> \<open>every shard verifies, and every entry carries a reading the clock has already given\<close>
  "chain_inv E w \<longleftrightarrow>
     (\<forall>s. verify_shard E s True w = Inr True) \<and>
     (\<forall>e\<in>set (audit_entries w). \<exists>k<clock_reads w. ae_at e = utcnow E k)"

lemma chain_inv_append:
  assumes mono: "strict_mono (utcnow E)" and inv: "chain_inv E w"
  shows "chain_inv E (snd (chain_append E c w))"
proof -
  have late: "chain_pos_of e \<le> Chain_Pos (utcnow E (clock_reads w)) (uuid4 E (uuids_drawn w))"
    if "e \<in> set (audit_entries w)" for e
    using that inv mono
    by (fastforce simp: chain_inv_def chain_pos_of_def less_eq_chain_pos_def strict_mono_def)
  have "first_broken E None (shard_entries s (snd (chain_append E c w))) = None" for s
    using inv late by (intro append_keeps_first_broken) (auto simp: chain_inv_def verify_shard_True_iff)
  moreover have "\<forall>e\<in>set (audit_entries (snd (chain_append E c w))).
      \<exists>k<clock_reads (snd (chain_append E c w)). ae_at e = utcnow E k"
    using inv unfolding chain_inv_def chain_append_entries
    by (simp, metis less_SucI lessI)
  ultimately show ?thesis by (simp add: chain_inv_def verify_shard_True_iff)
qed

lemma chain_inv_quiet:
  "chain_inv E w \<Longrightarrow> audit_entries w' = audit_entries w \<Longrightarrow> clock_reads w \<le> clock_reads w' \<Longrightarrow>
   chain_inv E w'"
  unfolding chain_inv_def verify_shard_True_iff shard_entries_def
  by (simp, meson order_less_le_trans)

lemma logged_chain_inv: "logged E w w' \<Longrightarrow> strict_mono (utcnow E) \<Longrightarrow> chain_inv E w \<Longrightarrow> chain_inv E w'"
  by (induction rule: logged.induct) (auto intro: chain_inv_append chain_inv_quiet)

section \<open>What equal heads say about the history\<close>

definition entry_material :: "audit_entry \<Rightarrow> string" where
  "entry_material e = hash_material (ae_prev e) (ae_actor e) (ae_action e) (ae_subject e)
     (ae_purpose e) (ae_value_hash e) (isoformat (ae_at e))"

lemma entry_hash_material: "ae_prev e = p \<Longrightarrow> entry_hash E p e = sha256_hex E (entry_material e)"
  by (simp add: entry_hash_def compute_hash_def entry_material_def)

lemma first_broken_snoc:
  "first_broken E None (es @ [e]) = None \<longleftrightarrow>
     first_broken E None es = None \<and>
     ae_prev e = (if es = [] then None else Some (ae_hash (last es))) \<and>
     ae_hash e = sha256_hex E (entry_material e)"
  by (auto simp: first_broken_append entry_hash_material split: option.splits)

lemma verified_hash_digest:
  "first_broken E None es = None \<Longrightarrow> e \<in> set es \<Longrightarrow> ae_hash e = sha256_hex E (entry_material e)"
  by (induction es rule: rev_induct) (auto simp: first_broken_snoc)

lemma hash_material_prev:
  assumes "hash_material p a b c d e t = hash_material p' a' b' c' d' e' t'"
    and "CHR ''|'' \<notin> set (or_empty p)" and "CHR ''|'' \<notin> set (or_empty p')"
  shows "or_empty p = or_empty p'"
  using assms(1) separator_prefix [OF assms(2,3)] by (auto simp: hash_material_def)

lemma verified_chains_agree:
  assumes dig: "hexdigest_ok E" and nc: "\<not> collision E S"
  shows "first_broken E None xs = None \<Longrightarrow> first_broken E None ys = None \<Longrightarrow>
    entry_material ` set xs \<subseteq> S \<Longrightarrow> entry_material ` set ys \<subseteq> S \<Longrightarrow>
    (if xs = [] then None else Some (ae_hash (last xs))) =
    (if ys = [] then None else Some (ae_hash (last ys))) \<Longrightarrow>
    map entry_material xs = map entry_material ys"
proof (induction xs arbitrary: ys rule: rev_induct)
  case Nil
  then show ?case by (auto split: if_splits)
next
  case (snoc x xs)
  then obtain ys' y where ys: "ys = ys' @ [y]"
    by (cases ys rule: rev_cases) auto
  let ?head = "\<lambda>es. if es = [] then None else Some (ae_hash (last es))"
  from snoc.prems ys have x: "first_broken E None xs = None" "ae_prev x = ?head xs"
      "ae_hash x = sha256_hex E (entry_material x)"
    and y: "first_broken E None ys' = None" "ae_prev y = ?head ys'"
      "ae_hash y = sha256_hex E (entry_material y)" and eq: "ae_hash x = ae_hash y"
    by (auto simp: first_broken_snoc)
  have S: "entry_material x \<in> S" "entry_material y \<in> S" "entry_material ` set xs \<subseteq> S" "entry_material ` set ys' \<subseteq> S"
    using snoc.prems(3,4) ys by auto
  have mat: "entry_material x = entry_material y"
    by (rule no_collisionD [OF nc _ S(1,2)]) (use eq x(3) y(3) in simp)
  have digest: "\<exists>m. ?head es = Some (sha256_hex E m)"
    if "first_broken E None es = None" "es \<noteq> []" for es
    using that verified_hash_digest [OF that(1) last_in_set [OF that(2)]] by auto
  have bar: "CHR ''|'' \<notin> set (or_empty (?head es))" if "first_broken E None es = None" for es
    using digest [OF that] hexdigest_okD [OF dig] by (cases "es = []") auto
  have "or_empty (?head xs) = or_empty (?head ys')"
    using hash_material_prev [OF mat [unfolded entry_material_def]] bar [OF x(1)] bar [OF y(1)]
    unfolding x(2) y(2) by blast
  moreover have "[] \<noteq> ae_hash (last es)" if "first_broken E None es = None" "es \<noteq> []" for es
    using digest [OF that] that(2) hexdigest_okD(2) [OF dig] by (metis option.inject)
  note this [OF x(1)] this [OF y(1)]
  ultimately have "?head xs = ?head ys'"
    by (cases "xs = []"; cases "ys' = []"; simp; metis)
  then have "map entry_material xs = map entry_material ys'"
    using snoc.IH x(1) y(1) S(3,4) by blast
  with mat ys show ?case by simp
qed

lemma insort_key_split:
  "sorted (map f (ps @ x # qs)) \<Longrightarrow>
   \<exists>ps' qs'. insort_key f a (ps @ x # qs) = ps' @ x # qs' \<and> insort_key f a (ps @ qs) = ps' @ qs'"
proof (induction ps)
  case Nil
  show ?case
  proof (cases "f a \<le> f x")
    case True
    with Nil have "insort_key f a qs = a # qs" by (cases qs) auto
    with True show ?thesis by (intro exI [of _ "[a]"] exI [of _ qs]) simp
  next
    case False
    then show ?thesis by (intro exI [of _ "[]"] exI [of _ "insort_key f a qs"]) simp
  qed
next
  case (Cons p ps)
  show ?case
  proof (cases "f a \<le> f p")
    case True
    then show ?thesis by (intro exI [of _ "a # p # ps"] exI [of _ qs]) simp
  next
    case False
    from Cons obtain ps' qs' where
      "insort_key f a (ps @ x # qs) = ps' @ x # qs'" "insort_key f a (ps @ qs) = ps' @ qs'"
      by auto
    with False show ?thesis by (intro exI [of _ "p # ps'"] exI [of _ qs']) simp
  qed
qed

lemma sort_key_snoc_split:
  "\<exists>ps qs. sort_key f (xs @ [x]) = ps @ x # qs \<and> sort_key f xs = ps @ qs"
proof (induction xs)
  case Nil
  then show ?case by simp
next
  case (Cons a xs)
  then obtain ps qs where *: "sort_key f (xs @ [x]) = ps @ x # qs" "sort_key f xs = ps @ qs" by blast
  have "sorted (map f (ps @ x # qs))" using * sorted_sort_key [of f "xs @ [x]"] by metis
  from insort_key_split [OF this, of a] * show ?case by simp
qed

lemma shard_entries_append_split:
  assumes "s = resolved_shard E c"
  obtains ps qs where "shard_entries s w = ps @ qs"
    and "shard_entries s (snd (chain_append E c w)) = ps @ fst (chain_append E c w) # qs"
  using assms sort_key_snoc_split [of chain_pos_of "filter (\<lambda>e. ae_shard e = s) (audit_entries w)"
      "fst (chain_append E c w)"] that
  by (auto simp: shard_entries_def rows_by_def chain_append_entries)

lemma sorted_shard_entries: "sorted (map chain_pos_of (shard_entries s w))"
  by (simp add: shard_entries_def sorted_rows_by)

lemma shard_entries_other:
  "s \<noteq> resolved_shard E c \<Longrightarrow> shard_entries s (snd (chain_append E c w)) = shard_entries s w"
  by (simp add: shard_entries_def chain_append_entries rows_by_snoc_skip)

definition chain_appends :: "env \<Rightarrow> audit_call list \<Rightarrow> 'a audit_world_scheme \<Rightarrow> 'a audit_world_scheme" where
  \<comment> \<open>a sequence of calls of \<open>append\<close>\<close>
  "chain_appends E cs w = fold (\<lambda>c w. snd (chain_append E c w)) cs w"

lemma logged_appends: "logged E w (chain_appends E cs w)"
proof (induction cs rule: rev_induct)
  case Nil
  then show ?case by (simp add: chain_appends_def)
next
  case (snoc c cs)
  then show ?case by (auto simp: chain_appends_def intro: logged.entry)
qed

lemma length_appends: "length (audit_entries (chain_appends E cs w)) = length (audit_entries w) + length cs"
  by (induction cs rule: rev_induct) (auto simp: chain_appends_def chain_append_entries)

section \<open>A concrete log\<close>

definition demo_call :: "string \<Rightarrow> audit_call" where
  "demo_call action = (audit_call ''clerk'' action)\<lparr>ac_shard_id := Some 3\<rparr>"

definition demo_log :: audit_world where
  "demo_log = snd (chain_append demo_env (demo_call ''publish'')
     (snd (chain_append demo_env (demo_call ''review'')
       \<lparr>uuids_drawn = 0, clock_reads = 0, audit_entries = []\<rparr>)))"

lemma chain_inv_empty: "audit_entries w = [] \<Longrightarrow> chain_inv E w"
  by (simp add: chain_inv_def verify_shard_def shard_entries_def rows_by_def)

lemma demo_log_inv: "chain_inv demo_env demo_log"
  unfolding demo_log_def
  by (intro chain_inv_append demo_env_clock chain_inv_empty) simp

lemma demo_log_shard: "shard_entries 3 demo_log = audit_entries demo_log"
  by (simp add: demo_log_def chain_append_def world_defs demo_call_def audit_call_def
      resolved_shard_def shard_entries_def rows_by_def latest_by_def chain_pos_of_def
      less_eq_chain_pos_def demo_env_def)

section \<open>Properties\<close>

text \<open>C4. An untampered log verifies. Starting from an empty table, after any sequence of calls
  of \<open>append\<close>, on any shards, every shard passes \<open>verify_shard\<close>, strict or not, and the table
  has gained exactly one row per call. The clock is taken to give strictly increasing readings.\<close>

theorem appended_log_verifies:
  assumes "strict_mono (utcnow E)" and "audit_entries w = []"
  shows "verify_shard E s r (chain_appends E cs w) = Inr True \<and>
    length (audit_entries (chain_appends E cs w)) = length cs"
proof -
  have "chain_inv E (chain_appends E cs w)"
    using logged_chain_inv [OF logged_appends assms(1)] chain_inv_empty [OF assms(2)] by blast
  then show ?thesis
    using assms(2) by (simp add: chain_inv_def verify_shard_True_iff length_appends)
qed

theorem appended_log_verifies_witness:
  "verify_shard demo_env 3 True
     (chain_appends demo_env [demo_call ''review'', demo_call ''publish'']
        \<lparr>uuids_drawn = 0, clock_reads = 0, audit_entries = []\<rparr>) = Inr True"
  by (rule appended_log_verifies [OF demo_env_clock, THEN conjunct1]) simp

text \<open>C16. The head commits to the whole history. If a shard verifies in two databases and its
  last entries carry the same hash, then the two shards hold the same hashed material, entry by
  entry; or SHA-256 collides on two of the materials in the two shards. So no entry can be
  changed, dropped, added or moved below an intact head while the shard still verifies.\<close>

theorem same_head_same_history:
  assumes "hexdigest_ok E"
    and "verify_shard E s True w = Inr True" and "verify_shard E s True w' = Inr True"
    and "head_hash s w = head_hash s w'"
  shows "map entry_material (shard_entries s w) = map entry_material (shard_entries s w') \<or>
    collision E (entry_material ` (set (shard_entries s w) \<union> set (shard_entries s w')))"
  using verified_chains_agree [OF assms(1), of "entry_material ` (set (shard_entries s w) \<union> set (shard_entries s w'))"
      "shard_entries s w" "shard_entries s w'"] assms(2-)
  unfolding verify_shard_True_iff head_hash_shard_entries by blast

theorem same_head_same_history_witness:
  "map entry_material (shard_entries 3 demo_log) =
     map entry_material (shard_entries 3 (demo_log\<lparr>uuids_drawn := 9\<rparr>)) \<or>
   collision demo_env (entry_material ` (set (shard_entries 3 demo_log) \<union>
     set (shard_entries 3 (demo_log\<lparr>uuids_drawn := 9\<rparr>))))"
  by (rule same_head_same_history [OF demo_env_ok])
     (use demo_log_inv in \<open>simp_all add: chain_inv_def verify_shard_def shard_entries_def head_hash_def\<close>)

definition rewritten :: "env \<Rightarrow> audit_entry \<Rightarrow> string \<Rightarrow> string \<Rightarrow> string option \<Rightarrow> audit_entry" where
  "rewritten E e actor action value_hash =
     (let e' = e\<lparr>ae_actor := actor, ae_action := action, ae_value_hash := value_hash\<rparr>
      in e'\<lparr>ae_hash := entry_hash E (ae_prev e) e'\<rparr>)"

text \<open>The limit of the structural check: whoever rewrites the actor, the action, the
  subject, the purpose or the value hash of the last entry of a shard, and recomputes that
  entry's own hash, leaves a shard that still verifies (no later entry contradicts it).\<close>

lemma head_rewrite_verifies:
  assumes "verify_shard E s True w = Inr True"
    and "shard_entries s w = es @ [e]"
    and "shard_entries s w' = es @ [rewritten E e actor action value_hash]"
  shows "verify_shard E s True w' = Inr True"
  using assms unfolding verify_shard_True_iff
  by (simp add: first_broken_snoc rewritten_def Let_def entry_hash_def entry_material_def
      compute_hash_def)

lemma head_rewrite_verifies_witness:
  "\<exists>e es. shard_entries 3 demo_log = es @ [e] \<and>
     verify_shard demo_env 3 True
       (demo_log\<lparr>audit_entries := es @ [rewritten demo_env e ''mallory'' ''publish'' None]\<rparr>) = Inr True"
proof -
  let ?es = "butlast (audit_entries demo_log)" and ?e = "last (audit_entries demo_log)"
  let ?w = "demo_log\<lparr>audit_entries := ?es @ [rewritten demo_env ?e ''mallory'' ''publish'' None]\<rparr>"
  have "audit_entries demo_log \<noteq> []" by (simp add: demo_log_def chain_append_entries)
  then have e: "shard_entries 3 demo_log = ?es @ [?e]" by (simp add: demo_log_shard)
  have "shard_entries 3 ?w = ?es @ [rewritten demo_env ?e ''mallory'' ''publish'' None]"
    by (simp add: demo_log_def chain_append_def world_defs demo_call_def audit_call_def
        resolved_shard_def shard_entries_def rows_by_def latest_by_def chain_pos_of_def
        less_eq_chain_pos_def demo_env_def rewritten_def)
  from head_rewrite_verifies [OF _ e this] demo_log_inv e
  show ?thesis by (intro exI [of _ ?e] exI [of _ ?es]) (simp add: chain_inv_def)
qed

text \<open>A clock that steps back breaks an honest log: an entry appended to a verified shard at
  a position before the shard's last entry (an earlier reading, or the same reading and a
  smaller random id) leaves a shard that no longer verifies, with nobody having tampered.\<close>

lemma clock_step_back_breaks_log:
  assumes "hexdigest_ok E" and "verify_shard E s True w = Inr True"
    and "s = resolved_shard E c" and "shard_entries s w \<noteq> []"
    and "Chain_Pos (utcnow E (clock_reads w)) (uuid4 E (uuids_drawn w))
           < chain_pos_of (last (shard_entries s w))"
  shows "verify_shard E s False (snd (chain_append E c w)) = Inr False \<or>
    collision E (entry_material ` set (shard_entries s w))"
proof (rule disjCI)
  let ?x = "fst (chain_append E c w)" and ?w' = "snd (chain_append E c w)"
  assume nc: "\<not> collision E (entry_material ` set (shard_entries s w))"
  obtain ps qs where es: "shard_entries s w = ps @ qs" and es': "shard_entries s ?w' = ps @ ?x # qs"
    by (rule shard_entries_append_split [OF assms(3)])
  have qs: "qs \<noteq> []"
  proof
    assume "qs = []"
    with assms(4) es have "last (shard_entries s w) \<in> set ps" by auto
    moreover have "sorted (map chain_pos_of (ps @ [?x]))"
      using sorted_shard_entries [of s ?w'] es' \<open>qs = []\<close> by simp
    ultimately have "chain_pos_of (last (shard_entries s w)) \<le> chain_pos_of ?x"
      by (auto simp: sorted_append)
    with assms(5) show False by (simp add: chain_pos_of_def)
  qed
  have "first_broken E None (ps @ [?x] @ qs) \<noteq> None"
  proof
    assume "first_broken E None (ps @ [?x] @ qs) = None"
    then have "first_broken E None (ps @ [?x]) = None"
      by (simp only: append_assoc [symmetric] first_broken_append split: option.splits) auto
    then have ps: "first_broken E None ps = None"
      and prev: "ae_prev ?x = (if ps = [] then None else Some (ae_hash (last ps)))"
      by (simp_all add: first_broken_snoc)
    have "ae_prev ?x = Some (ae_hash (last (ps @ qs)))"
      using assms(3,4) es by (simp add: chain_append_prev head_hash_shard_entries)
    with prev have "map entry_material ps = map entry_material (ps @ qs)"
      using verified_chains_agree [OF assms(1) nc ps, of "ps @ qs"] assms(2) es qs
      by (auto simp: verify_shard_True_iff)
    then have "length ps = length (ps @ qs)" by (metis length_map)
    with qs show False by simp
  qed
  then show "verify_shard E s False ?w' = Inr False"
    using es' by (auto simp: verify_shard_def split: option.splits)
qed

definition late_world :: audit_world where
  \<comment> \<open>the log of \<open>demo_log\<close> on a machine whose clock was then set back to its first reading\<close>
  "late_world = demo_log\<lparr>clock_reads := 0, uuids_drawn := 0\<rparr>"

lemma clock_step_back_breaks_log_witness:
  "verify_shard demo_env 3 False (snd (chain_append demo_env (demo_call ''skip'') late_world))
     = Inr False \<or> collision demo_env (entry_material ` set (shard_entries 3 late_world))"
proof (rule clock_step_back_breaks_log [OF demo_env_ok])
  have es: "shard_entries 3 late_world = audit_entries demo_log"
    using demo_log_shard by (simp add: late_world_def shard_entries_def)
  show "verify_shard demo_env 3 True late_world = Inr True"
    using demo_log_inv by (simp add: late_world_def chain_inv_def verify_shard_def shard_entries_def)
  show "3 = resolved_shard demo_env (demo_call ''skip'')"
    by (simp add: resolved_shard_def demo_call_def)
  show "shard_entries 3 late_world \<noteq> []"
    using es by (simp add: demo_log_def chain_append_entries)
  show "Chain_Pos (utcnow demo_env (clock_reads late_world)) (uuid4 demo_env (uuids_drawn late_world))
      < chain_pos_of (last (shard_entries 3 late_world))"
    unfolding es by (simp add: late_world_def demo_log_def chain_append_entries chain_pos_of_def
        less_chain_pos_def demo_env_def)
qed

text \<open>What the digest leaves open. The separator is not escaped and a missing field is
  hashed as an empty one: moving text across a field boundary, or replacing a missing purpose
  by an empty one, gives the same digest, for every digest function.\<close>

lemma hash_material_ambiguous:
  "compute_hash E p (actor @ ''|'' @ x) action subject f g t
     = compute_hash E p actor (x @ ''|'' @ action) subject f g t \<and>
   compute_hash E p actor action subject None g t = compute_hash E p actor action subject (Some '''') g t"
  by (simp add: compute_hash_def hash_material_def)

end
