(* ===== verification/Object_Store.thy ===== *)
theory Object_Store
  imports Prelude
begin

text \<open>
  The content-addressed object store of \<open>libs/storage\<close> (\<open>landstorage\<close>): the port with its
  streaming \<open>put_stream\<close>, the file-system driver with its write-then-rename discipline, the S3
  driver over a client that is a parameter, the signed download tokens of \<open>signing.py\<close> and the
  check of \<open>distinct.py\<close> that two stores are not the same one. The locale \<open>object_store\<close> is the
  contract of the port; both drivers are shown to keep it.
\<close>

section \<open>Keys and digests (\<open>port.py\<close>)\<close>

definition digest_of :: "env \<Rightarrow> string \<Rightarrow> string" where
  "digest_of E data = sha256_hex E data"

definition key_for :: "string \<Rightarrow> string" where
  "key_for digest = ''sha256/'' @ take 2 digest @ ''/'' @ take 2 (drop 2 digest) @ ''/'' @ digest"

lemma key_for_inj: "length d = length d' \<Longrightarrow> key_for d = key_for d' \<Longrightarrow> d = d'"
  by (simp add: key_for_def)

lemma last_segment_key_for: "CHR ''/'' \<notin> set d \<Longrightarrow> last_segment (key_for d) = d"
  using last_segment_append [of d "''sha256/'' @ take 2 d @ ''/'' @ take 2 (drop 2 d)"]
  by (simp add: key_for_def)

definition addr :: "env \<Rightarrow> string \<Rightarrow> string" where
  \<comment> \<open>the key \<open>put\<close> computes for \<open>data\<close>\<close>
  "addr E data = key_for (digest_of E data)"

record put_result =
  pr_key :: string
  pr_digest :: string
  pr_created :: bool

section \<open>Streaming\<close>

text \<open>A stream is what is left to read of it; \<open>read(n)\<close> takes the next \<open>n\<close> bytes.\<close>

function spool :: "nat \<Rightarrow> string \<Rightarrow> string \<Rightarrow> string" where
  \<comment> \<open>the loop of \<open>hash_stream_to_spooled_tempfile\<close>: what was fed to the hasher and spooled\<close>
  "spool chunk_size stream written =
     (let chunk = take chunk_size stream
      in if chunk = [] then written
         else spool chunk_size (drop chunk_size stream) (written @ chunk))"
  by pat_completeness auto
termination
  by (relation "measure (\<lambda>(_, s, _). length s)") (auto simp: neq_Nil_conv)

declare spool.simps [simp del]

lemma spool_all: "0 < n \<Longrightarrow> spool n s acc = acc @ s"
  by (induction n s acc rule: spool.induct) (subst spool.simps, auto simp: Let_def)

definition hash_stream_to_spooled_tempfile :: "env \<Rightarrow> nat \<Rightarrow> string \<Rightarrow> string \<times> string" where
  "hash_stream_to_spooled_tempfile E chunk_size stream =
     (let spooled = spool chunk_size stream [] in (sha256_hex E spooled, spooled))"

function streamed_content_matches :: "nat \<Rightarrow> string \<Rightarrow> string \<Rightarrow> bool" where
  "streamed_content_matches chunk_size existing spooled =
     (let a = take chunk_size existing; b = take chunk_size spooled
      in if a \<noteq> b then False
         else if a = [] then True
         else streamed_content_matches chunk_size (drop chunk_size existing) (drop chunk_size spooled))"
  by pat_completeness auto
termination
proof (relation "measure (\<lambda>(_, s, _). length s)")
  fix n :: nat and s t x y :: string
  assume "x = take n s" "x \<noteq> []"
  then have "0 < n" "s \<noteq> []" by auto
  then show "((n, drop n s, drop n t), (n, s, t)) \<in> measure (\<lambda>(_, s, _). length s)" by simp
qed simp

declare streamed_content_matches.simps [simp del]

lemma streamed_content_matches_iff: "0 < n \<Longrightarrow> streamed_content_matches n a b \<longleftrightarrow> a = b"
proof (induction n a b rule: streamed_content_matches.induct)
  case (1 n a b)
  have "a = b" if "take n a = take n b" "drop n a = drop n b" using that append_take_drop_id by metis
  with 1 show ?case
    by (subst streamed_content_matches.simps) (auto simp: Let_def)
qed

definition default_chunk :: nat where "default_chunk = 2 ^ 20"

definition put_stream ::
  "env \<Rightarrow> nat \<Rightarrow> (string \<Rightarrow> 'st \<Rightarrow> exn + bool) \<Rightarrow> (string \<Rightarrow> 'st \<Rightarrow> exn + string)
    \<Rightarrow> (string \<Rightarrow> string \<Rightarrow> 'st \<Rightarrow> exn option \<times> 'st) \<Rightarrow> string \<Rightarrow> 'st \<Rightarrow> (exn + put_result) \<times> 'st"
where
  \<comment> \<open>over the driver's \<open>exists\<close>, \<open>open_stream\<close> and \<open>_write_new_object\<close>\<close>
  "put_stream E chunk_size exists_op open_stream write_new_object stream st =
     (let (digest, spooled) = hash_stream_to_spooled_tempfile E chunk_size stream;
          key = key_for digest
      in case exists_op key st of
           Inl err \<Rightarrow> (Inl err, st)
         | Inr True \<Rightarrow>
             (case open_stream key st of
                Inl err \<Rightarrow> (Inl err, st)
              | Inr existing \<Rightarrow>
                  if \<not> streamed_content_matches default_chunk existing spooled
                  then (Inl (ObjectAlreadyExistsWithDifferentContent key), st)
                  else (Inr \<lparr>pr_key = key, pr_digest = digest, pr_created = False\<rparr>, st))
         | Inr False \<Rightarrow>
             (case write_new_object key spooled st of
                (Some err, st') \<Rightarrow> (Inl err, st')
              | (None, st') \<Rightarrow> (Inr \<lparr>pr_key = key, pr_digest = digest, pr_created = True\<rparr>, st')))"

lemma matches_default [simp]: "streamed_content_matches default_chunk a b \<longleftrightarrow> a = b"
  by (rule streamed_content_matches_iff) (simp add: default_chunk_def)

lemma hash_stream_eq [simp]:
  "0 < n \<Longrightarrow> hash_stream_to_spooled_tempfile E n s = (digest_of E s, s)"
  by (simp add: hash_stream_to_spooled_tempfile_def spool_all digest_of_def)

section \<open>The contract of the port\<close>

locale object_store =
  fixes put :: "string \<Rightarrow> 'st \<Rightarrow> (exn + put_result) \<times> 'st"
    and lookup :: "string \<Rightarrow> 'st \<Rightarrow> exn + string"
    and address :: "string \<Rightarrow> string"
  assumes put_key: "put d st = (Inr r, st') \<Longrightarrow> pr_key r = address d"
    and put_stored: "put d st = (Inr r, st') \<Longrightarrow> lookup (address d) st' = Inr d"
    and put_frame: "put d st = (res, st') \<Longrightarrow> k \<noteq> address d \<Longrightarrow> lookup k st' = lookup k st"
    and put_created: "put d st = (Inr r, st') \<Longrightarrow> pr_created r \<longleftrightarrow> isl (lookup (address d) st)"
    and put_present: "lookup (address d) st = Inr x \<Longrightarrow>
      snd (put d st) = st \<and> (isl (fst (put d st)) \<longleftrightarrow> x \<noteq> d)"
begin

lemma put_keeps:
  assumes "lookup k st = Inr x"
  shows "lookup k (snd (put d st)) = Inr x"
proof (cases "k = address d")
  case True
  with assms put_present show ?thesis by metis
next
  case False
  with assms put_frame [of d st] show ?thesis by (cases "put d st") auto
qed

lemma put_all_keeps: "lookup k st = Inr x \<Longrightarrow> lookup k (fold (\<lambda>d st. snd (put d st)) ds st) = Inr x"
  by (induction ds arbitrary: st) (auto simp: put_keeps)

lemma put_again:
  assumes "put d st = (Inr r, st')"
  obtains r' where "put d st' = (Inr r', st')" "pr_key r' = pr_key r" "\<not> pr_created r'"
proof -
  have stored: "lookup (address d) st' = Inr d" by (rule put_stored [OF assms])
  with put_present [OF stored] obtain r' where r': "put d st' = (Inr r', st')"
    by (cases "fst (put d st')"; cases "put d st'") auto
  then have "pr_key r' = pr_key r" using put_key assms by metis
  moreover have "\<not> pr_created r'" using put_created [OF r'] stored by simp
  ultimately show thesis using that r' by blast
qed

end

section \<open>The file-system driver (\<open>drivers/local_fs.py\<close>)\<close>

text \<open>
  The directory tree below the root is a map from keys to the bytes of the files there, beside
  the temporary files \<open>mkstemp\<close> has made. What the operating system does during one call is an
  argument: the name of the temporary file, whether writing it fails, and what other writers do
  to the tree before the second existence check and between that check and the rename.
\<close>

record fs =
  fs_files :: "string \<rightharpoonup> string"
  fs_temps :: "string \<rightharpoonup> string"

record fs_os =
  os_tmp_name :: string
  os_write_fails :: bool
  os_before_check :: "(string \<rightharpoonup> string) \<Rightarrow> (string \<rightharpoonup> string)"
  os_before_rename :: "(string \<rightharpoonup> string) \<Rightarrow> (string \<rightharpoonup> string)"

definition quiet_os :: fs_os where
  \<comment> \<open>no other writer and no failure\<close>
  "quiet_os = \<lparr>os_tmp_name = ''tmp0'', os_write_fails = False, os_before_check = id,
               os_before_rename = id\<rparr>"

definition unlink_tmp :: "fs_os \<Rightarrow> fs \<Rightarrow> fs" where
  "unlink_tmp os st = st\<lparr>fs_temps := (fs_temps st)(os_tmp_name os := None)\<rparr>"

definition local_put :: "env \<Rightarrow> fs_os \<Rightarrow> string \<Rightarrow> fs \<Rightarrow> (exn + put_result) \<times> fs" where
  "local_put E os data st =
     (let digest = digest_of E data;
          key = key_for digest;
          result = (\<lambda>created. \<lparr>pr_key = key, pr_digest = digest, pr_created = created\<rparr>)
      in case fs_files st key of
           Some existing \<Rightarrow>
             if existing \<noteq> data then (Inl (ObjectAlreadyExistsWithDifferentContent key), st)
             else (Inr (result False), st)
         | None \<Rightarrow>
             (let st = st\<lparr>fs_temps := (fs_temps st)(os_tmp_name os \<mapsto> [])\<rparr>
              in if os_write_fails os then (Inl (OSError ''write''), unlink_tmp os st)
                 else
                   (let st = st\<lparr>fs_temps := (fs_temps st)(os_tmp_name os \<mapsto> data)\<rparr>;
                        st = st\<lparr>fs_files := os_before_check os (fs_files st)\<rparr>
                    in case fs_files st key of
                         Some existing \<Rightarrow>
                           if existing \<noteq> data
                           then (Inl (ObjectAlreadyExistsWithDifferentContent key), unlink_tmp os st)
                           else (Inr (result False), unlink_tmp os st)
                       | None \<Rightarrow>
                           (let st = st\<lparr>fs_files := (os_before_rename os (fs_files st))(key \<mapsto> data)\<rparr>
                            in (Inr (result True), unlink_tmp os st)))))"

definition local_get :: "string \<Rightarrow> fs \<Rightarrow> exn + string" where
  "local_get key st = (case fs_files st key of None \<Rightarrow> Inl (KeyError key) | Some data \<Rightarrow> Inr data)"

definition local_exists :: "string \<Rightarrow> fs \<Rightarrow> exn + bool" where
  "local_exists key st = Inr (fs_files st key \<noteq> None)"

definition local_open_stream :: "string \<Rightarrow> fs \<Rightarrow> exn + string" where
  "local_open_stream key st =
     (case fs_files st key of None \<Rightarrow> Inl (KeyError key) | Some data \<Rightarrow> Inr data)"

definition local_verify_fixity :: "env \<Rightarrow> string \<Rightarrow> fs \<Rightarrow> exn + bool" where
  "local_verify_fixity E key st =
     (case local_get key st of Inl err \<Rightarrow> Inl err
      | Inr data \<Rightarrow> Inr (digest_of E data = last_segment key))"

definition local_write_new_object :: "fs_os \<Rightarrow> string \<Rightarrow> string \<Rightarrow> fs \<Rightarrow> exn option \<times> fs" where
  "local_write_new_object os key data st =
     (let st = st\<lparr>fs_temps := (fs_temps st)(os_tmp_name os \<mapsto> [])\<rparr>
      in if os_write_fails os then (Some (OSError ''write''), unlink_tmp os st)
         else
           (let st = st\<lparr>fs_temps := (fs_temps st)(os_tmp_name os \<mapsto> data)\<rparr>;
                st = st\<lparr>fs_files := os_before_check os (fs_files st)\<rparr>
            in if fs_files st key \<noteq> None then (None, unlink_tmp os st)
               else
                 (let st = st\<lparr>fs_files := (os_before_rename os (fs_files st))(key \<mapsto> data)\<rparr>
                  in (None, unlink_tmp os st))))"

definition local_put_stream :: "env \<Rightarrow> fs_os \<Rightarrow> nat \<Rightarrow> string \<Rightarrow> fs \<Rightarrow> (exn + put_result) \<times> fs" where
  "local_put_stream E os chunk_size stream st =
     put_stream E chunk_size local_exists local_open_stream (local_write_new_object os) stream st"

lemmas local_defs = local_put_def local_get_def local_exists_def local_open_stream_def
  local_write_new_object_def unlink_tmp_def Let_def

interpretation local_fs: object_store "local_put E quiet_os" local_get "addr E" for E
  by unfold_locales
    (auto simp: local_defs quiet_os_def addr_def split: option.splits if_splits)

lemma local_put_stream_eq:
  "0 < n \<Longrightarrow> local_put_stream E quiet_os n data st = local_put E quiet_os data st"
  by (auto simp: local_put_stream_def put_stream_def local_defs quiet_os_def split: option.splits)









section \<open>The S3 driver (\<open>drivers/s3.py\<close>)\<close>

text \<open>
  \<open>boto3\<close> is a parameter: its client is a record of the three calls the driver makes, over a
  state of the service. \<open>s3_service\<close> is what S3 documents of them for one bucket.
\<close>

datatype s3_reply = S3_Body string | S3_NoSuchKey | S3_ClientError string

record 'c s3_client =
  s3_get_object :: "string \<Rightarrow> string \<Rightarrow> 'c \<Rightarrow> s3_reply"
  s3_put_object :: "string \<Rightarrow> string \<Rightarrow> string \<Rightarrow> 'c \<Rightarrow> 'c"
  s3_upload_fileobj :: "string \<Rightarrow> string \<Rightarrow> string \<Rightarrow> 'c \<Rightarrow> 'c"

definition s3_service :: "'c s3_client \<Rightarrow> string \<Rightarrow> bool" where
  "s3_service s3 bucket \<longleftrightarrow>
     (\<forall>k d c. s3_get_object s3 bucket k (s3_put_object s3 bucket k d c) = S3_Body d) \<and>
     (\<forall>k j d c. j \<noteq> k \<longrightarrow>
        s3_get_object s3 bucket j (s3_put_object s3 bucket k d c) = s3_get_object s3 bucket j c) \<and>
     (\<forall>k d c. s3_upload_fileobj s3 bucket k d c = s3_put_object s3 bucket k d c)"

definition s3_exists_and_get :: "'c s3_client \<Rightarrow> string \<Rightarrow> string \<Rightarrow> 'c \<Rightarrow> exn + string option" where
  "s3_exists_and_get s3 bucket key c =
     (case s3_get_object s3 bucket key c of
        S3_NoSuchKey \<Rightarrow> Inr None
      | S3_ClientError code \<Rightarrow>
          if code \<in> {''NoSuchKey'', ''404''} then Inr None else Inl (ClientError code)
      | S3_Body data \<Rightarrow> Inr (Some data))"

definition s3_put :: "env \<Rightarrow> 'c s3_client \<Rightarrow> string \<Rightarrow> string \<Rightarrow> 'c \<Rightarrow> (exn + put_result) \<times> 'c" where
  "s3_put E s3 bucket data c =
     (let digest = digest_of E data;
          key = key_for digest;
          result = (\<lambda>created. \<lparr>pr_key = key, pr_digest = digest, pr_created = created\<rparr>)
      in case s3_exists_and_get s3 bucket key c of
           Inl err \<Rightarrow> (Inl err, c)
         | Inr (Some existing) \<Rightarrow>
             if existing \<noteq> data then (Inl (ObjectAlreadyExistsWithDifferentContent key), c)
             else (Inr (result False), c)
         | Inr None \<Rightarrow> (Inr (result True), s3_put_object s3 bucket key data c))"

definition s3_get :: "'c s3_client \<Rightarrow> string \<Rightarrow> string \<Rightarrow> 'c \<Rightarrow> exn + string" where
  "s3_get s3 bucket key c =
     (case s3_exists_and_get s3 bucket key c of
        Inl err \<Rightarrow> Inl err
      | Inr None \<Rightarrow> Inl (KeyError key)
      | Inr (Some data) \<Rightarrow> Inr data)"

definition s3_exists :: "'c s3_client \<Rightarrow> string \<Rightarrow> string \<Rightarrow> 'c \<Rightarrow> exn + bool" where
  "s3_exists s3 bucket key c =
     (case s3_exists_and_get s3 bucket key c of Inl err \<Rightarrow> Inl err | Inr r \<Rightarrow> Inr (r \<noteq> None))"

definition s3_verify_fixity :: "env \<Rightarrow> 'c s3_client \<Rightarrow> string \<Rightarrow> string \<Rightarrow> 'c \<Rightarrow> exn + bool" where
  "s3_verify_fixity E s3 bucket key c =
     (case s3_get s3 bucket key c of Inl err \<Rightarrow> Inl err
      | Inr data \<Rightarrow> Inr (digest_of E data = last_segment key))"

definition s3_open_stream :: "'c s3_client \<Rightarrow> string \<Rightarrow> string \<Rightarrow> 'c \<Rightarrow> exn + string" where
  "s3_open_stream s3 bucket key c =
     (case s3_get_object s3 bucket key c of
        S3_NoSuchKey \<Rightarrow> Inl (KeyError key)
      | S3_ClientError code \<Rightarrow> Inl (ClientError code)
      | S3_Body data \<Rightarrow> Inr data)"

definition s3_write_new_object ::
  "'c s3_client \<Rightarrow> string \<Rightarrow> string \<Rightarrow> string \<Rightarrow> 'c \<Rightarrow> exn option \<times> 'c" where
  "s3_write_new_object s3 bucket key data c = (None, s3_upload_fileobj s3 bucket key data c)"

definition s3_put_stream ::
  "env \<Rightarrow> 'c s3_client \<Rightarrow> string \<Rightarrow> nat \<Rightarrow> string \<Rightarrow> 'c \<Rightarrow> (exn + put_result) \<times> 'c" where
  "s3_put_stream E s3 bucket chunk_size stream c =
     put_stream E chunk_size (s3_exists s3 bucket) (s3_open_stream s3 bucket)
       (s3_write_new_object s3 bucket) stream c"

lemmas s3_defs = s3_put_def s3_get_def s3_exists_def s3_open_stream_def s3_exists_and_get_def
  s3_write_new_object_def Let_def

lemma s3_object_store:
  assumes "s3_service s3 bucket"
  shows "object_store (s3_put E s3 bucket) (s3_get s3 bucket) (addr E)"
  using assms
  by unfold_locales
    (auto simp: s3_defs s3_service_def addr_def
      split: option.splits if_splits sum.splits s3_reply.splits)

lemma s3_put_stream_eq:
  "s3_service s3 bucket \<Longrightarrow> 0 < n \<Longrightarrow> s3_put_stream E s3 bucket n data c = s3_put E s3 bucket data c"
  by (cases "s3_get_object s3 bucket (key_for (digest_of E data)) c")
     (simp_all add: s3_put_stream_def put_stream_def s3_defs s3_service_def)

definition demo_s3 :: "(string \<times> string \<rightharpoonup> string) s3_client" where
  "demo_s3 = \<lparr>s3_get_object = (\<lambda>b k c. case c (b, k) of None \<Rightarrow> S3_NoSuchKey | Some d \<Rightarrow> S3_Body d),
     s3_put_object = (\<lambda>b k d c. c((b, k) \<mapsto> d)), s3_upload_fileobj = (\<lambda>b k d c. c((b, k) \<mapsto> d))\<rparr>"

lemma demo_s3_service: "s3_service demo_s3 bucket"
  by (auto simp: demo_s3_def s3_service_def)

section \<open>Signed download tokens (\<open>signing.py\<close>)\<close>

definition signing_secret :: "environ \<Rightarrow> string" where
  "signing_secret os =
     (case os ''OBJECT_STORE_SIGNING_SECRET'' of Some s \<Rightarrow> s
      | None \<Rightarrow> ''dev-only-insecure-signing-secret'')"

definition token_material :: "string \<Rightarrow> int \<Rightarrow> string" where
  "token_material key expires_at = key @ '':'' @ str_of_int expires_at"

definition sign_token :: "env \<Rightarrow> environ \<Rightarrow> int \<Rightarrow> string \<Rightarrow> int \<Rightarrow> string \<times> int" where
  \<comment> \<open>\<open>now\<close> is \<open>int(time.time())\<close>\<close>
  "sign_token E os now key ttl_seconds =
     (let expires_at = now + ttl_seconds
      in (hmac_sha256_hex E (signing_secret os) (token_material key expires_at), expires_at))"

definition verify_token :: "env \<Rightarrow> environ \<Rightarrow> int \<Rightarrow> string \<Rightarrow> int \<Rightarrow> string \<Rightarrow> bool" where
  "verify_token E os now key expires_at signature =
     (if now > expires_at then False
      else hmac_sha256_hex E (signing_secret os) (token_material key expires_at) = signature)"

definition sign_get :: "env \<Rightarrow> environ \<Rightarrow> int \<Rightarrow> string \<Rightarrow> int \<Rightarrow> string" where
  "sign_get E os now key ttl_seconds =
     (let (signature, expires_at) = sign_token E os now key ttl_seconds
      in ''/objects/'' @ key @ ''?exp='' @ str_of_int expires_at @ ''&sig='' @ signature)"

lemma token_material_inj: "token_material k e = token_material k' e' \<longleftrightarrow> k = k' \<and> e = e'"
proof
  assume "token_material k e = token_material k' e'"
  then have "rev (k @ '':'' @ str_of_int e) = rev (k' @ '':'' @ str_of_int e')"
    by (simp only: token_material_def)
  then have "rev (str_of_int e) @ CHR '':'' # rev k = rev (str_of_int e') @ CHR '':'' # rev k'"
    by simp
  moreover have "CHR '':'' \<notin> set (rev (str_of_int i))" for i
    using not_in_str_of_int by (simp add: is_digit_def)
  ultimately have "rev (str_of_int e) = rev (str_of_int e') \<and> rev k = rev k'"
    using separator_prefix by metis
  then show "k = k' \<and> e = e'" by simp
qed simp

section \<open>Two stores that are not one (\<open>distinct.py\<close>, \<open>__init__.py\<close>)\<close>

datatype store_identity =
    Identity_Local (id_root: string)
  | Identity_S3 (id_bucket: "string option") (id_endpoint_url: "string option")
      (id_access_key_id: "string option")

definition environ_get :: "environ \<Rightarrow> string \<Rightarrow> string \<Rightarrow> string" where
  \<comment> \<open>\<open>os.environ.get(name, default)\<close>\<close>
  "environ_get os name default_value = (case os name of Some v \<Rightarrow> v | None \<Rightarrow> default_value)"

definition store_identity_from_env :: "environ \<Rightarrow> string \<Rightarrow> exn + store_identity" where
  "store_identity_from_env os prefix =
     (let driver = environ_get os (prefix @ ''_DRIVER'') ''local_fs''
      in if driver = ''local_fs''
         then Inr (Identity_Local (environ_get os (prefix @ ''_ROOT'') ''/tmp/landrecords-objects''))
         else if driver = ''s3''
         then Inr (Identity_S3 (os (prefix @ ''_BUCKET'')) (os (prefix @ ''_URL''))
                     (os (prefix @ ''_ACCESS_KEY_ID'')))
         else Inl (ValueError (''unknown '' @ prefix @ ''_DRIVER='' @ driver)))"

definition assert_distinct_stores :: "environ \<Rightarrow> string \<Rightarrow> string \<Rightarrow> exn + unit" where
  "assert_distinct_stores os primary_prefix secondary_prefix =
     (case store_identity_from_env os primary_prefix of
        Inl err \<Rightarrow> Inl err
      | Inr primary \<Rightarrow>
          (case store_identity_from_env os secondary_prefix of
             Inl err \<Rightarrow> Inl err
           | Inr secondary \<Rightarrow>
               if primary = secondary
               then Inl (DistinctCredentialsError (primary_prefix @ ''_* and '' @ secondary_prefix
                           @ ''_* resolve to the same store''))
               else Inr ()))"

datatype store_config =
    Local_Store (cfg_root: string)
  | S3_Store (cfg_bucket: string) (cfg_endpoint_url: "string option")
      (cfg_access_key_id: "string option") (cfg_secret_access_key: "string option")

definition build_from_env :: "environ \<Rightarrow> string \<Rightarrow> exn + store_config" where
  "build_from_env os prefix =
     (let driver = environ_get os (prefix @ ''_DRIVER'') ''local_fs''
      in if driver = ''local_fs''
         then Inr (Local_Store (environ_get os (prefix @ ''_ROOT'') ''/tmp/landrecords-objects''))
         else if driver = ''s3''
         then (case os (prefix @ ''_BUCKET'') of
                 None \<Rightarrow> Inl (KeyError (prefix @ ''_BUCKET''))
               | Some bucket \<Rightarrow>
                   Inr (S3_Store bucket (os (prefix @ ''_URL'')) (os (prefix @ ''_ACCESS_KEY_ID''))
                          (os (prefix @ ''_SECRET_ACCESS_KEY''))))
         else Inl (ValueError (''unknown '' @ prefix @ ''_DRIVER='' @ driver)))"

definition identity_of :: "store_config \<Rightarrow> store_identity" where
  \<comment> \<open>the identity of the store that was built\<close>
  "identity_of cfg = (case cfg of Local_Store r \<Rightarrow> Identity_Local r
     | S3_Store b u a s \<Rightarrow> Identity_S3 (Some b) u a)"

lemma build_identity:
  "build_from_env os p = Inr cfg \<Longrightarrow> store_identity_from_env os p = Inr (identity_of cfg)"
  by (auto simp: build_from_env_def store_identity_from_env_def identity_of_def Let_def
      split: option.splits if_splits)

section \<open>Properties\<close>

lemma fixity_after_put:
  assumes "hexdigest_ok E" and "fs_files st (addr E d) = Some x"
  shows "local_verify_fixity E (addr E d) st = Inr (digest_of E x = digest_of E d)"
proof -
  have "last_segment (addr E d) = digest_of E d"
    using hexdigest_okD(5) [OF assms(1)] by (simp add: addr_def digest_of_def last_segment_key_for)
  with assms(2) show ?thesis by (simp add: local_verify_fixity_def local_get_def)
qed

text \<open>C28. Stored originals come back. Whenever the streaming write of a file succeeds on the
  file-system store, reading its key gives exactly the bytes of the stream, the fixity check of
  that key passes, storing the same bytes again reports a duplicate and changes nothing, and
  every object that was there before is still there with the same bytes.\<close>

theorem put_stream_roundtrip:
  assumes "hexdigest_ok E" and "0 < chunk_size"
    and "local_put_stream E quiet_os chunk_size data st = (Inr r, st')"
  shows "local_get (pr_key r) st' = Inr data \<and> local_verify_fixity E (pr_key r) st' = Inr True \<and>
    (\<exists>r'. local_put E quiet_os data st' = (Inr r', st') \<and> pr_key r' = pr_key r \<and> \<not> pr_created r') \<and>
    (\<forall>k x. local_get k st = Inr x \<longrightarrow> local_get k st' = Inr x)"
proof -
  from assms have put: "local_put E quiet_os data st = (Inr r, st')"
    by (simp add: local_put_stream_eq)
  have key: "pr_key r = addr E data" and get: "local_get (addr E data) st' = Inr data"
    using local_fs.put_key [OF put] local_fs.put_stored [OF put] by simp_all
  then have "local_verify_fixity E (pr_key r) st' = Inr True"
    using fixity_after_put [OF assms(1), of st' data data]
    by (auto simp: local_get_def split: option.splits)
  then show ?thesis
    using key get local_fs.put_again [OF put] local_fs.put_keeps [of _ st _ E data] put
    by (metis snd_conv)
qed

theorem put_stream_roundtrip_witness:
  "\<exists>r st'. local_put_stream demo_env quiet_os 2 ''deed'' \<lparr>fs_files = Map.empty, fs_temps = Map.empty\<rparr>
       = (Inr r, st') \<and> local_get (pr_key r) st' = Inr ''deed''"
proof -
  let ?st = "\<lparr>fs_files = Map.empty, fs_temps = Map.empty\<rparr>"
  obtain r st' where "local_put demo_env quiet_os ''deed'' ?st = (Inr r, st')"
    by (simp add: local_defs quiet_os_def)
  then have *: "local_put_stream demo_env quiet_os 2 ''deed'' ?st = (Inr r, st')"
    by (simp add: local_put_stream_eq)
  with put_stream_roundtrip [OF demo_env_ok _ *] show ?thesis by auto
qed





text \<open>A lost race is reported differently by the two ways in. When another writer stores the
  same bytes between the existence check and the rename, \<open>put\<close> reports the object as already
  there (\<open>created = False\<close>), while \<open>put_stream\<close>, which ingestion uses, reports it as created.\<close>

lemma lost_race_reported_created:
  assumes "fs_files st (addr E d) = None" and "\<not> os_write_fails os" and "0 < chunk_size"
    and "os_before_check os (fs_files st) (addr E d) = Some d"
  shows "(\<exists>r st'. local_put E os d st = (Inr r, st') \<and> \<not> pr_created r) \<and>
    (\<exists>r st'. local_put_stream E os chunk_size d st = (Inr r, st') \<and> pr_created r)"
  using assms by (simp add: local_put_stream_def put_stream_def local_defs addr_def)

lemma lost_race_reported_created_witness:
  "\<exists>r st'. local_put_stream demo_env
      (quiet_os\<lparr>os_before_check := (\<lambda>m. m(addr demo_env ''deed'' \<mapsto> ''deed''))\<rparr>) 4 ''deed''
      \<lparr>fs_files = Map.empty, fs_temps = Map.empty\<rparr> = (Inr r, st') \<and> pr_created r"
  using lost_race_reported_created [of "\<lparr>fs_files = Map.empty, fs_temps = Map.empty\<rparr>" demo_env "''deed''"
      "quiet_os\<lparr>os_before_check := (\<lambda>m. m(addr demo_env ''deed'' \<mapsto> ''deed''))\<rparr>" 4]
  by (simp add: quiet_os_def)

text \<open>What a download token grants. The token of \<open>sign\<close> verifies at every second up to its
  expiry and never after; and a signature that verifies for another key or another expiry is the
  keyed digest of two different strings, the signed and the other one.\<close>

lemma token_grants:
  assumes "sign_token E os now key ttl = (sig, expires_at)"
  shows "(verify_token E os later key expires_at sig \<longleftrightarrow> later \<le> now + ttl) \<and>
    (verify_token E os later key' e' sig \<longrightarrow>
       (key' = key \<and> e' = expires_at) \<or>
       (token_material key' e' \<noteq> token_material key expires_at \<and>
        hmac_sha256_hex E (signing_secret os) (token_material key' e') =
          hmac_sha256_hex E (signing_secret os) (token_material key expires_at)))"
proof -
  from assms have sig: "sig = hmac_sha256_hex E (signing_secret os) (token_material key expires_at)"
    and "expires_at = now + ttl" by (auto simp: sign_token_def Let_def)
  then show ?thesis
    unfolding verify_token_def token_material_inj by (intro conjI impI; simp split: if_splits)
qed

lemma token_grants_witness:
  "verify_token demo_env Map.empty 160 ''k'' 160
     (fst (sign_token demo_env Map.empty 100 ''k'' 60)) \<and>
   \<not> verify_token demo_env Map.empty 161 ''k'' 160 (fst (sign_token demo_env Map.empty 100 ''k'' 60))"
proof -
  have *: "sign_token demo_env Map.empty 100 ''k'' 60 =
      (fst (sign_token demo_env Map.empty 100 ''k'' 60), 160)"
    by (simp add: sign_token_def Let_def)
  show ?thesis
    using token_grants [OF *, of 160] token_grants [OF *, of 161] by simp
qed

text \<open>The limit of the distinctness check: two S3 namespaces with the same bucket and
  endpoint and different access keys pass it, although they name the same objects.\<close>

lemma same_bucket_passes_as_distinct:
  assumes "build_from_env os p = Inr (S3_Store bucket url (Some a) s)"
    and "build_from_env os q = Inr (S3_Store bucket url (Some b) t)" and "a \<noteq> b"
  shows "assert_distinct_stores os p q = Inr ()"
  using build_identity [OF assms(1)] build_identity [OF assms(2)] assms(3)
  by (simp add: assert_distinct_stores_def identity_of_def)

lemma same_bucket_passes_as_distinct_witness:
  "assert_distinct_stores
     [''A_DRIVER'' \<mapsto> ''s3'', ''A_BUCKET'' \<mapsto> ''deeds'', ''A_ACCESS_KEY_ID'' \<mapsto> ''k1'',
      ''B_DRIVER'' \<mapsto> ''s3'', ''B_BUCKET'' \<mapsto> ''deeds'', ''B_ACCESS_KEY_ID'' \<mapsto> ''k2''] ''A'' ''B'' = Inr ()"
  by (rule same_bucket_passes_as_distinct [where bucket = "''deeds''" and url = None
        and a = "''k1''" and b = "''k2''" and s = None and t = None])
     (simp_all add: build_from_env_def environ_get_def)

text \<open>The S3 driver keeps the port's contract over any S3 service, except where the service
  answers a missing key by a generic client error with code 404: there \<open>get\<close> raises the
  \<open>KeyError\<close> the port documents and \<open>open_stream\<close> lets the client error through.\<close>

lemma s3_missing_key_open_stream:
  assumes "s3_get_object s3 bucket key c = S3_ClientError ''404''"
  shows "s3_get s3 bucket key c = Inl (KeyError key) \<and>
    s3_open_stream s3 bucket key c = Inl (ClientError ''404'') \<and>
    s3_exists s3 bucket key c = Inr False"
  using assms by (simp add: s3_defs)

lemma s3_missing_key_open_stream_witness:
  "s3_open_stream (demo_s3\<lparr>s3_get_object := (\<lambda>b k c. S3_ClientError ''404'')\<rparr>) ''b'' ''k'' Map.empty
     = Inl (ClientError ''404'')"
  using s3_missing_key_open_stream [of "demo_s3\<lparr>s3_get_object := (\<lambda>b k c. S3_ClientError ''404'')\<rparr>"
      "''b''" "''k''" Map.empty] by simp

end
