(* ===== verification/Audit_Merkle.thy ===== *)
theory Audit_Merkle
  imports Audit_Chain Object_Store
begin

text \<open>
  The global root of the audit log and its anchoring: the Merkle tree over the shard heads
  (\<open>merkle.py\<close>), the sign-only key (\<open>kms.py\<close>), the keyed value hash (\<open>valuehash.py\<close>), the two
  witnesses (\<open>witness.py\<close>) and the periodic roll (\<open>rollup.py\<close>). A witness is used through the
  locale \<open>witness_port\<close>, which both witnesses of the code are shown to satisfy.
\<close>

section \<open>The tree over the shard heads (\<open>merkle.py\<close>)\<close>

record shard_head =
  sh_shard_id :: int
  sh_head_hash :: "string option"

definition leaf_hash :: "env \<Rightarrow> int \<Rightarrow> string option \<Rightarrow> string" where
  "leaf_hash E shard head = sha256_hex E (str_of_int shard @ '':'' @ or_empty head)"

definition pair_hash :: "env \<Rightarrow> string \<Rightarrow> string \<Rightarrow> string" where
  "pair_hash E left right = sha256_hex E (left @ right)"

fun pair_up :: "env \<Rightarrow> string list \<Rightarrow> string list" where
  "pair_up E (l # r # level) = pair_hash E l r # pair_up E level"
| "pair_up E level = []"

definition even_level :: "string list \<Rightarrow> string list" where
  "even_level level = (if length level mod 2 = 1 then level @ [last level] else level)"

lemma length_pair_up: "length (pair_up E level) = length level div 2"
  by (induction E level rule: pair_up.induct) auto

lemma length_even_level: "length (even_level level) = 2 * ((length level + 1) div 2)"
  unfolding even_level_def by simp presburger

function merkle_level :: "env \<Rightarrow> string list \<Rightarrow> string" where
  "merkle_level E level =
     (if length level > 1 then merkle_level E (pair_up E (even_level level)) else hd level)"
  by pat_completeness auto
termination
  by (relation "measure (\<lambda>(_, level). length level)") (auto simp: length_pair_up length_even_level)

declare merkle_level.simps [simp del]

definition merkle_root :: "env \<Rightarrow> string list \<Rightarrow> string" where
  "merkle_root E leaves = (if leaves = [] then sha256_hex E '''' else merkle_level E leaves)"

definition current_shard_heads :: "'a audit_world_scheme \<Rightarrow> shard_head list" where
  "current_shard_heads w =
     map (\<lambda>shard. \<lparr>sh_shard_id = shard,
            sh_head_hash = map_option ae_hash
              (latest_by chain_pos_of (\<lambda>e. ae_shard e = shard) (audit_entries w))\<rparr>)
       [0 .. NUM_SHARDS - 1]"

definition compute_root :: "env \<Rightarrow> shard_head list \<Rightarrow> string" where
  "compute_root E heads =
     merkle_root E (map (\<lambda>h. leaf_hash E (sh_shard_id h) (sh_head_hash h)) (sort_key sh_shard_id heads))"

definition roll_global_root :: "env \<Rightarrow> 'a audit_world_scheme \<Rightarrow> string \<times> shard_head list" where
  "roll_global_root E w = (let heads = current_shard_heads w in (compute_root E heads, heads))"

subsection \<open>What the root determines\<close>

text \<open>The strings hashed on the way to the root: those of the pairs of each level, and of the leaves.\<close>

fun pair_inputs :: "string list \<Rightarrow> string list" where
  "pair_inputs (l # r # level) = (l @ r) # pair_inputs level"
| "pair_inputs level = []"

function tree_inputs :: "env \<Rightarrow> string list \<Rightarrow> string set" where
  "tree_inputs E level =
     (if length level > 1
      then set (pair_inputs (even_level level)) \<union> tree_inputs E (pair_up E (even_level level)) else {})"
  by pat_completeness auto
termination tree_inputs
  by (relation "measure (\<lambda>(_, level). length level)") (auto simp: length_pair_up length_even_level)

declare tree_inputs.simps [simp del]

lemma pair_up_inj:
  assumes nc: "\<not> collision E S"
  shows "pair_up E xs = pair_up E ys \<Longrightarrow> length xs = length ys \<Longrightarrow> even (length xs) \<Longrightarrow>
    set (pair_inputs xs) \<subseteq> S \<Longrightarrow> set (pair_inputs ys) \<subseteq> S \<Longrightarrow>
    \<forall>x\<in>set xs. length x = 64 \<Longrightarrow> \<forall>y\<in>set ys. length y = 64 \<Longrightarrow> xs = ys"
proof (induction xs arbitrary: ys rule: induct_list012)
  case (3 l r level)
  from 3(4) obtain l' r' level' where ys: "ys = l' # r' # level'"
    by (cases ys; cases "tl ys") auto
  have "l @ r = l' @ r'"
    by (rule no_collisionD [OF nc]) (use 3(3,6,7) ys in \<open>simp_all add: pair_hash_def\<close>)
  moreover have "level = level'"
    by (rule 3(1)) (use 3(3-9) ys in simp_all)
  ultimately show ?case using ys 3(8,9) by simp
qed auto

lemma even_level_inj: "even_level xs = even_level ys \<Longrightarrow> length xs = length ys \<Longrightarrow> xs = ys"
  by (auto simp: even_level_def split: if_splits)

lemma pair_up_digests: "hexdigest_ok E \<Longrightarrow> x \<in> set (pair_up E xs) \<Longrightarrow> length x = 64"
  by (induction xs rule: induct_list012) (auto simp: pair_hash_def hexdigest_okD)

lemma set_even_level: "xs \<noteq> [] \<Longrightarrow> set (even_level xs) = set xs"
  by (auto simp: even_level_def)

lemma merkle_level_inj:
  assumes dig: "hexdigest_ok E" and nc: "\<not> collision E S"
  shows "merkle_level E xs = merkle_level E ys \<Longrightarrow> length xs = length ys \<Longrightarrow> xs \<noteq> [] \<Longrightarrow>
    tree_inputs E xs \<subseteq> S \<Longrightarrow> tree_inputs E ys \<subseteq> S \<Longrightarrow>
    \<forall>x\<in>set xs. length x = 64 \<Longrightarrow> \<forall>y\<in>set ys. length y = 64 \<Longrightarrow> xs = ys"
proof (induction "length xs" arbitrary: xs ys rule: less_induct)
  case less
  show ?case
  proof (cases "length xs > 1")
    case False
    with less.prems(2,3) have "length xs = 1" "length ys = 1"
      by (simp_all add: Suc_leI le_antisym flip: length_greater_0_conv)
    with less.prems(1) show ?thesis
      by (auto simp: merkle_level.simps length_Suc_conv)
  next
    case True
    let ?up = "\<lambda>l. pair_up E (even_level l)"
    have ys: "ys \<noteq> []" using True less.prems(2) by auto
    have S: "set (pair_inputs (even_level xs)) \<subseteq> S" "set (pair_inputs (even_level ys)) \<subseteq> S"
      "tree_inputs E (?up xs) \<subseteq> S" "tree_inputs E (?up ys) \<subseteq> S"
      using less.prems(2,4,5) True by (simp_all add: tree_inputs.simps [of E xs] tree_inputs.simps [of E ys])
    have "merkle_level E (?up xs) = merkle_level E (?up ys)"
      using less.prems(1,2) True by (simp add: merkle_level.simps [of E xs] merkle_level.simps [of E ys])
    then have "?up xs = ?up ys"
      by (rule less.hyps [rotated])
         (use less.prems(2) True S(3,4) pair_up_digests [OF dig] in
            \<open>auto simp: length_pair_up length_even_level simp flip: length_greater_0_conv\<close>)
    then have "even_level xs = even_level ys"
      by (rule pair_up_inj [OF nc])
         (use less.prems ys S(1,2) in \<open>simp_all add: length_even_level set_even_level\<close>)
    then show ?thesis using even_level_inj less.prems(2) by blast
  qed
qed


lemma current_shard_heads_eq:
  "current_shard_heads w = map (\<lambda>s. \<lparr>sh_shard_id = s, sh_head_hash = head_hash s w\<rparr>) [0 .. NUM_SHARDS - 1]"
  by (simp add: current_shard_heads_def head_hash_def)

lemma sort_current_shard_heads: "sort_key sh_shard_id (current_shard_heads w) = current_shard_heads w"
  by (rule sort_key_id_if_sorted)
     (simp add: current_shard_heads_eq comp_def sorted_upto)

definition head_leaves :: "env \<Rightarrow> 'a audit_world_scheme \<Rightarrow> string list" where
  "head_leaves E w = map (\<lambda>s. leaf_hash E s (head_hash s w)) [0 .. NUM_SHARDS - 1]"

lemma compute_root_heads: "compute_root E (current_shard_heads w) = merkle_level E (head_leaves E w)"
  unfolding compute_root_def sort_current_shard_heads
  by (simp add: merkle_root_def current_shard_heads_eq head_leaves_def comp_def NUM_SHARDS_def)

definition root_inputs :: "env \<Rightarrow> 'a audit_world_scheme \<Rightarrow> string set" where
  "root_inputs E w = (\<lambda>s. str_of_int s @ '':'' @ or_empty (head_hash s w)) ` {0..<NUM_SHARDS} \<union>
     tree_inputs E (head_leaves E w)"

definition hashed_strings :: "env \<Rightarrow> 'a audit_world_scheme \<Rightarrow> string set" where
  \<comment> \<open>every string hashed to verify the log and to compute its root\<close>
  "hashed_strings E w = entry_material ` set (audit_entries w) \<union> root_inputs E w"

lemma same_root_same_heads:
  assumes "hexdigest_ok E" and nc: "\<not> collision E (root_inputs E w \<union> root_inputs E w')"
    and "compute_root E (current_shard_heads w) = compute_root E (current_shard_heads w')"
    and "0 \<le> s" and "s < NUM_SHARDS"
  shows "or_empty (head_hash s w) = or_empty (head_hash s w')"
proof -
  have "head_leaves E w = head_leaves E w'"
    by (rule merkle_level_inj [OF assms(1,2) assms(3) [unfolded compute_root_heads]])
       (auto simp: head_leaves_def NUM_SHARDS_def leaf_hash_def root_inputs_def hexdigest_okD(1) [OF assms(1)])
  then have "leaf_hash E s (head_hash s w) = leaf_hash E s (head_hash s w')"
    using assms(4,5) by (simp add: head_leaves_def)
  then have "str_of_int s @ '':'' @ or_empty (head_hash s w) = str_of_int s @ '':'' @ or_empty (head_hash s w')"
    unfolding leaf_hash_def
    by (rule no_collisionD [OF nc]) (use assms(4,5) in \<open>auto simp: root_inputs_def\<close>)
  then show ?thesis by simp
qed

section \<open>Keys (\<open>kms.py\<close>, \<open>valuehash.py\<close>)\<close>

text \<open>A sign-only handle is its key id and the function that signs; the key is not a field.\<close>

record signer =
  sg_key_id :: string
  sg_sign :: "string \<Rightarrow> string"

definition local_kms_stub ::
  "env \<Rightarrow> environ \<Rightarrow> string option \<Rightarrow> string \<Rightarrow> 'a world_scheme \<Rightarrow> (exn + signer) \<times> 'a world_scheme"
where
  "local_kms_stub E os key_id seed_env_var w =
     (let (kid, w) = (if truthy key_id then (or_empty key_id, w)
                      else (let (u, w) = draw_uuid E w in (''local-kms-stub/'' @ u, w)));
          seed = os seed_env_var
      in if \<not> truthy seed then (Inl (RuntimeError (seed_env_var @ '' is not set'')), w)
         else (Inr \<lparr>sg_key_id = kid, sg_sign = hmac_sha256_hex E (or_empty seed)\<rparr>, w))"

definition verify_signature :: "signer \<Rightarrow> string \<Rightarrow> string \<Rightarrow> bool" where
  "verify_signature handle payload signature \<longleftrightarrow> sg_sign handle payload = signature"

definition env_hmac_key :: "environ \<Rightarrow> string \<Rightarrow> exn + string" where
  "env_hmac_key os env_var =
     (let value = os env_var
      in if \<not> truthy value then Inl (RuntimeError (env_var @ '' is not set'')) else Inr (or_empty value))"

definition hmac_value_hash :: "env \<Rightarrow> (exn + string) \<Rightarrow> string \<Rightarrow> exn + string" where
  \<comment> \<open>over what the key provider's \<open>get_key\<close> gives\<close>
  "hmac_value_hash E key value =
     (case key of Inl err \<Rightarrow> Inl err | Inr k \<Rightarrow> Inr (hmac_sha256_hex E k value))"

section \<open>Witnesses (\<open>witness.py\<close>)\<close>

record witness_receipt =
  wr_root :: string
  wr_anchored_at :: string
  wr_witness :: string
  wr_reference :: string
  wr_signature :: "string option"
  wr_kms_key_id :: "string option"

record chain_root =
  cr_id :: string
  cr_root :: string
  cr_rolled_at :: timestamp
  cr_shard_heads :: "shard_head list"
  cr_config_version :: "string option"

record anchor_receipt =
  ar_id :: string
  ar_chain_root_id :: string
  ar_root :: string
  ar_anchored_at :: string
  ar_witness :: string
  ar_reference :: string
  ar_signature :: "string option"
  ar_kms_key_id :: "string option"

record chain_world = audit_world +
  chain_roots :: "chain_root list"
  anchor_receipts :: "anchor_receipt list"

record anchor_world = chain_world +
  anchor_store :: fs

definition second_store_anchor ::
  "env \<Rightarrow> string \<Rightarrow> signer option \<Rightarrow> 'a anchor_world_scheme
     \<Rightarrow> (exn + witness_receipt) \<times> 'a anchor_world_scheme"
where
  "second_store_anchor E root signer w =
     (let (t, w) = read_clock E w;
          anchored_at = isoformat t;
          signature = map_option (\<lambda>s. sg_sign s root) signer;
          payload = root @ ''|'' @ anchored_at @ ''|'' @ or_empty signature;
          (result, store) = local_put E quiet_os payload (anchor_store w);
          w = w\<lparr>anchor_store := store\<rparr>
      in case result of
           Inl err \<Rightarrow> (Inl err, w)
         | Inr r \<Rightarrow> (Inr \<lparr>wr_root = root, wr_anchored_at = anchored_at, wr_witness = ''second_store'',
                        wr_reference = pr_key r, wr_signature = signature,
                        wr_kms_key_id = map_option sg_key_id signer\<rparr>, w))"

definition tsa_anchor ::
  "env \<Rightarrow> string \<Rightarrow> signer option \<Rightarrow> 'a chain_world_scheme
     \<Rightarrow> (exn + witness_receipt) \<times> 'a chain_world_scheme"
where
  "tsa_anchor E root signer w =
     (let (t, w) = read_clock E w;
          signature = map_option (\<lambda>s. sg_sign s root) signer;
          (u, w) = draw_uuid E w
      in (Inr \<lparr>wr_root = root, wr_anchored_at = isoformat t, wr_witness = ''timestamp_authority_stub'',
              wr_reference = ''stub-tsa-token:'' @ u, wr_signature = signature,
              wr_kms_key_id = map_option sg_key_id signer\<rparr>, w))"

section \<open>The periodic roll (\<open>rollup.py\<close>)\<close>

definition perform_roll ::
  "env \<Rightarrow> (string \<Rightarrow> signer option \<Rightarrow> 'a chain_world_scheme \<Rightarrow>
        (exn + witness_receipt) \<times> 'a chain_world_scheme)
    \<Rightarrow> signer option \<Rightarrow> string option \<Rightarrow> bool \<Rightarrow> 'a chain_world_scheme
    \<Rightarrow> (exn + chain_root) \<times> 'a chain_world_scheme"
where
  "perform_roll E witness signer config_version anchor w =
     (let (root, heads) = roll_global_root E w;
          (rid, w) = draw_uuid E w;
          (t, w) = read_clock E w;
          row = \<lparr>cr_id = rid, cr_root = root, cr_rolled_at = t, cr_shard_heads = heads,
                 cr_config_version = config_version\<rparr>;
          w = w\<lparr>chain_roots := chain_roots w @ [row]\<rparr>
      in if \<not> anchor then (Inr row, w)
         else case witness root signer w of
                (Inl err, w) \<Rightarrow> (Inl err, w)
              | (Inr receipt, w) \<Rightarrow>
                  (let (aid, w) = draw_uuid E w;
                       arow = \<lparr>ar_id = aid, ar_chain_root_id = cr_id row, ar_root = wr_root receipt,
                               ar_anchored_at = wr_anchored_at receipt, ar_witness = wr_witness receipt,
                               ar_reference = wr_reference receipt, ar_signature = wr_signature receipt,
                               ar_kms_key_id = wr_kms_key_id receipt\<rparr>
                   in (Inr row, w\<lparr>anchor_receipts := anchor_receipts w @ [arow]\<rparr>)))"

text \<open>What a roll relies on in a witness: a receipt is for the root it was given, signed by the
  handle it was given; and anchoring leaves the tables of the log alone.\<close>

locale witness_port =
  fixes anchor :: "string \<Rightarrow> signer option \<Rightarrow> 'a chain_world_scheme
    \<Rightarrow> (exn + witness_receipt) \<times> 'a chain_world_scheme"
  assumes receipt: "anchor root signer w = (Inr r, w') \<Longrightarrow>
      wr_root r = root \<and> wr_signature r = map_option (\<lambda>s. sg_sign s root) signer \<and>
      wr_kms_key_id r = map_option sg_key_id signer"
    and tables: "anchor root signer w = (res, w') \<Longrightarrow>
      audit_entries w' = audit_entries w \<and> chain_roots w' = chain_roots w \<and>
      anchor_receipts w' = anchor_receipts w \<and> clock_reads w \<le> clock_reads w'"
begin

lemma anchorD: "anchor root signer w = (Inr r, w') \<Longrightarrow>
    (wr_root r = root \<and> wr_signature r = map_option (\<lambda>s. sg_sign s root) signer \<and>
      wr_kms_key_id r = map_option sg_key_id signer) \<and> anchor_receipts w' = anchor_receipts w"
  using receipt tables by blast

lemma roll_rows:
  assumes "perform_roll E anchor signer cv do_anchor w = (Inr row, w')"
  shows "chain_roots w' = chain_roots w @ [row]"
    and "cr_root row = compute_root E (cr_shard_heads row)"
    and "cr_shard_heads row = current_shard_heads w"
    and "\<exists>new. anchor_receipts w' = anchor_receipts w @ new \<and> length new = (if do_anchor then 1 else 0) \<and>
      (\<forall>r\<in>set new. ar_root r = cr_root row \<and> ar_chain_root_id r = cr_id row \<and>
         ar_signature r = map_option (\<lambda>s. sg_sign s (cr_root row)) signer \<and>
         ar_kms_key_id r = map_option sg_key_id signer)"
proof -
  from assms show "chain_roots w' = chain_roots w @ [row]"
    by (auto simp: perform_roll_def roll_global_root_def world_defs dest!: tables
        split: if_splits prod.splits sum.splits)
  from assms show "cr_root row = compute_root E (cr_shard_heads row)"
    by (auto simp: perform_roll_def roll_global_root_def world_defs
        split: if_splits prod.splits sum.splits)
  from assms show "cr_shard_heads row = current_shard_heads w"
    by (auto simp: perform_roll_def roll_global_root_def world_defs
        split: if_splits prod.splits sum.splits)
  from assms show "\<exists>new. anchor_receipts w' = anchor_receipts w @ new \<and>
      length new = (if do_anchor then 1 else 0) \<and>
      (\<forall>r\<in>set new. ar_root r = cr_root row \<and> ar_chain_root_id r = cr_id row \<and>
         ar_signature r = map_option (\<lambda>s. sg_sign s (cr_root row)) signer \<and>
         ar_kms_key_id r = map_option sg_key_id signer)"
    by (cases do_anchor)
       (auto simp: perform_roll_def roll_global_root_def world_defs dest!: anchorD
         split: prod.splits sum.splits)
qed

lemma roll_logged: "logged E w (snd (perform_roll E anchor signer cv do_anchor w))"
  by (rule logged.quiet)
     (auto simp: perform_roll_def roll_global_root_def world_defs dest!: tables split: prod.splits sum.splits)

end

interpretation second_store: witness_port "second_store_anchor E" for E
  by unfold_locales
    (auto simp: second_store_anchor_def world_defs split: prod.splits sum.splits)

interpretation tsa: witness_port "tsa_anchor E" for E
  by unfold_locales (auto simp: tsa_anchor_def world_defs)

section \<open>Properties\<close>

lemma verified_head_nonempty:
  assumes "hexdigest_ok E" and "verify_shard E s True w = Inr True" and "head_hash s w = Some h"
  shows "h \<noteq> []"
proof -
  from assms(3) have "shard_entries s w \<noteq> []" and h: "h = ae_hash (last (shard_entries s w))"
    by (auto simp: head_hash_shard_entries split: if_splits)
  then have "h = sha256_hex E (entry_material (last (shard_entries s w)))"
    using verified_hash_digest assms(2) unfolding verify_shard_True_iff by fastforce
  then show ?thesis using hexdigest_okD(2) [OF assms(1)] by simp
qed

lemma verified_heads_eq:
  assumes "hexdigest_ok E" and "verify_shard E s True w = Inr True" and "verify_shard E s True w' = Inr True"
    and "or_empty (head_hash s w) = or_empty (head_hash s w')"
  shows "head_hash s w = head_hash s w'"
  using verified_head_nonempty [OF assms(1,2)] verified_head_nonempty [OF assms(1,3)] assms(4)
  by (cases "head_hash s w"; cases "head_hash s w'") auto

lemma same_root_same_history:
  assumes "hexdigest_ok E"
    and "compute_root E (current_shard_heads w) = compute_root E (current_shard_heads w')"
    and "\<forall>s. 0 \<le> s \<and> s < NUM_SHARDS \<longrightarrow>
      verify_shard E s True w = Inr True \<and> verify_shard E s True w' = Inr True"
  shows "(\<forall>s. 0 \<le> s \<and> s < NUM_SHARDS \<longrightarrow>
      map entry_material (shard_entries s w) = map entry_material (shard_entries s w')) \<or>
    collision E (hashed_strings E w \<union> hashed_strings E w')"
proof (rule disjCI, intro allI impI)
  fix s assume nc: "\<not> collision E (hashed_strings E w \<union> hashed_strings E w')" and s: "0 \<le> s \<and> s < NUM_SHARDS"
  have nr: "\<not> collision E (root_inputs E w \<union> root_inputs E w')"
    using nc collision_mono by (metis hashed_strings_def Un_upper2 Un_mono)
  have sub: "entry_material ` set (shard_entries s w) \<subseteq> hashed_strings E w \<union> hashed_strings E w'"
    "entry_material ` set (shard_entries s w') \<subseteq> hashed_strings E w \<union> hashed_strings E w'"
    by (auto simp: hashed_strings_def shard_entries_def set_rows_by)
  from s assms(3) have v: "verify_shard E s True w = Inr True" "verify_shard E s True w' = Inr True" by auto
  have "head_hash s w = head_hash s w'"
    using same_root_same_heads [OF assms(1) nr assms(2)] s verified_heads_eq [OF assms(1) v] by blast
  then show "map entry_material (shard_entries s w) = map entry_material (shard_entries s w')"
    using verified_chains_agree [OF assms(1) nc _ _ sub] v
    unfolding verify_shard_True_iff head_hash_shard_entries by blast
qed

text \<open>A roll leaves a row a verifier can recompute. When a roll anchored in the second store
  succeeds, it adds one \<open>chain_root\<close> row, whose root is the one recomputed from the row's own shard
  heads and whose heads are the current ones; one receipt for that root, whose signature the
  signing handle verifies; and it leaves the audit entries alone.\<close>

lemma roll_recomputes:
  assumes "perform_roll E (second_store_anchor E) (Some handle) cv True w = (Inr row, w')"
  shows "chain_roots w' = chain_roots w @ [row] \<and>
    cr_root row = compute_root E (cr_shard_heads row) \<and>
    cr_shard_heads row = current_shard_heads w' \<and>
    (\<exists>r sig. anchor_receipts w' = anchor_receipts w @ [r] \<and> ar_root r = cr_root row \<and>
       ar_chain_root_id r = cr_id row \<and> ar_signature r = Some sig \<and>
       verify_signature handle (cr_root row) sig) \<and>
    audit_entries w' = audit_entries w"
proof -
  have entries: "audit_entries w' = audit_entries w"
    using assms by (auto simp: perform_roll_def roll_global_root_def world_defs
        dest!: second_store.tables split: prod.splits sum.splits)
  then have "current_shard_heads w' = current_shard_heads w"
    by (simp add: current_shard_heads_def)
  with entries second_store.roll_rows [OF assms] show ?thesis
    by (auto simp: verify_signature_def length_Suc_conv)
qed

definition demo_signer :: signer where
  "demo_signer = \<lparr>sg_key_id = ''key-1'', sg_sign = hmac_sha256_hex demo_env ''seed''\<rparr>"

definition demo_anchor_world :: anchor_world where
  "demo_anchor_world = \<lparr>uuids_drawn = 2, clock_reads = 2, audit_entries = audit_entries demo_log,
     chain_roots = [], anchor_receipts = [], anchor_store = \<lparr>fs_files = Map.empty, fs_temps = Map.empty\<rparr>\<rparr>"

lemma roll_recomputes_witness:
  "\<exists>row w'. perform_roll demo_env (second_store_anchor demo_env) (Some demo_signer) None True
       demo_anchor_world = (Inr row, w') \<and> cr_root row = compute_root demo_env (cr_shard_heads row)"
proof -
  obtain row w' where *: "perform_roll demo_env (second_store_anchor demo_env) (Some demo_signer) None True
      demo_anchor_world = (Inr row, w')"
    by (auto simp: perform_roll_def roll_global_root_def world_defs second_store_anchor_def
        demo_anchor_world_def local_put_def quiet_os_def)
  with roll_recomputes [OF *] show ?thesis by blast
qed

text \<open>Value hashes are keyed. With the key missing or empty no hash is produced, and the
  caller gets an error; with a key, two values have the same hash only if their digests under that
  key agree.\<close>

lemma value_hash_keyed:
  "(hmac_value_hash E (env_hmac_key os var) v = hmac_value_hash E (env_hmac_key os var) v' \<longrightarrow>
     \<not> truthy (os var) \<or> hmac_sha256_hex E (or_empty (os var)) v = hmac_sha256_hex E (or_empty (os var)) v') \<and>
   (isl (hmac_value_hash E (env_hmac_key os var) v) \<longleftrightarrow> \<not> truthy (os var))"
  by (auto simp: hmac_value_hash_def env_hmac_key_def)

lemma value_hash_keyed_witness:
  "\<not> isl (hmac_value_hash demo_env (env_hmac_key [''AUDIT_HMAC_KEY'' \<mapsto> ''s3cr3t''] ''AUDIT_HMAC_KEY'') ''Ravi'')"
  using value_hash_keyed [of demo_env "[''AUDIT_HMAC_KEY'' \<mapsto> ''s3cr3t'']" "''AUDIT_HMAC_KEY''" "''Ravi''"]
  by simp

end
