(* ===== verification/Audit_Verify.thy ===== *)
theory Audit_Verify
  imports Audit_Merkle
begin

text \<open>
  Verification of the log: the structural check of every shard, the comparison with an anchored
  root and the localisation of a tamper window (\<open>landaudit/verify.py\<close>), and the \<open>verify-chain\<close>
  command that runs them (\<open>backend/cli/verify_chain.py\<close>), which takes its trusted root from the
  anchor store written by the second-store witness.
\<close>

section \<open>The structural check\<close>

record shard_finding =
  sf_shard_id :: int
  sf_ok :: bool
  sf_detail :: string

definition chain_error_text :: "chain_error \<Rightarrow> string" where
  "chain_error_text err = (case err of ChainTamperedError shard entry \<Rightarrow>
     ''shard '' @ str_of_int shard @ '' entry '' @ entry @ '' does not chain from its predecessor'')"

definition structural_findings :: "env \<Rightarrow> 'a audit_world_scheme \<Rightarrow> shard_finding list" where
  "structural_findings E w =
     map (\<lambda>shard. case verify_shard E shard True w of
            Inr _ \<Rightarrow> \<lparr>sf_shard_id = shard, sf_ok = True, sf_detail = ''chain recomputes consistently''\<rparr>
          | Inl err \<Rightarrow> \<lparr>sf_shard_id = shard, sf_ok = False, sf_detail = chain_error_text err\<rparr>)
       [0 .. NUM_SHARDS - 1]"

section \<open>The tamper window\<close>

record tamper_window =
  tw_shard_id :: int
  tw_last_agreeing_root_id :: "string option"
  tw_last_agreeing_rolled_at :: "string option"
  tw_earliest_disagreeing_root_id :: string
  tw_earliest_disagreeing_rolled_at :: string
  tw_detail :: string

definition window_for :: "int \<Rightarrow> chain_root option \<Rightarrow> chain_root \<Rightarrow> tamper_window" where
  "window_for shard last_agreeing roll =
     (let last_at = map_option (isoformat \<circ> cr_rolled_at) last_agreeing;
          at = isoformat (cr_rolled_at roll)
      in \<lparr>tw_shard_id = shard,
          tw_last_agreeing_root_id = map_option cr_id last_agreeing,
          tw_last_agreeing_rolled_at = last_at,
          tw_earliest_disagreeing_root_id = cr_id roll,
          tw_earliest_disagreeing_rolled_at = at,
          tw_detail = ''shard '' @ str_of_int shard @ [CHR 0x27] @ ''s head hash as recorded in chain_root ''
            @ cr_id roll @ '' (rolled at '' @ at @ '') no longer exists in the shard'' @ [CHR 0x27]
            @ ''s current chain '' @ em_dash
            @ '' the tamper (and any local forward-recompute covering it) happened no earlier than ''
            @ (case last_at of None \<Rightarrow> ''the start of the chain'' | Some t \<Rightarrow> t)
            @ '' and no later than '' @ at\<rparr>)"

definition head_present :: "int \<Rightarrow> string \<Rightarrow> 'a audit_world_scheme \<Rightarrow> bool" where
  "head_present shard h w \<longleftrightarrow> list_ex (\<lambda>e. ae_shard e = shard \<and> ae_hash e = h) (audit_entries w)"

fun walk_rolls :: "'a audit_world_scheme \<Rightarrow> int \<Rightarrow> chain_root option \<Rightarrow> chain_root list \<Rightarrow> tamper_window option"
where
  "walk_rolls w shard last_agreeing [] = None"
| "walk_rolls w shard last_agreeing (roll # rolls) =
     (case get_by sh_shard_id shard (cr_shard_heads roll) of
        None \<Rightarrow> walk_rolls w shard last_agreeing rolls
      | Some head \<Rightarrow>
          (case sh_head_hash head of
             None \<Rightarrow> walk_rolls w shard last_agreeing rolls
           | Some h \<Rightarrow>
               if \<not> head_present shard h w then Some (window_for shard last_agreeing roll)
               else walk_rolls w shard (Some roll) rolls))"

definition bound_tamper_window :: "int \<Rightarrow> 'a chain_world_scheme \<Rightarrow> tamper_window option" where
  "bound_tamper_window shard w = walk_rolls w shard None (rows_by cr_rolled_at (\<lambda>_. True) (chain_roots w))"

section \<open>Against an anchored root\<close>

record verification_report =
  vr_structural_ok :: bool
  vr_structural_findings :: "shard_finding list"
  vr_anchor_ok :: "bool option"
  vr_computed_root :: string
  vr_supplied_anchor_root :: "string option"
  vr_tamper_window :: "tamper_window option"

definition report_ok :: "verification_report \<Rightarrow> bool" where
  "report_ok r \<longleftrightarrow> vr_structural_ok r \<and> vr_anchor_ok r \<noteq> Some False"

definition verify_against_anchor ::
  "env \<Rightarrow> string option \<Rightarrow> 'a chain_world_scheme \<Rightarrow> verification_report" where
  "verify_against_anchor E trusted_root w =
     (let findings = structural_findings E w;
          structural_ok = list_all sf_ok findings;
          computed_root = compute_root E (current_shard_heads w);
          anchor_ok = map_option (\<lambda>root. computed_root = root) trusted_root;
          window =
            (if anchor_ok \<noteq> Some False then None
             else (let windows = List.map_filter (\<lambda>shard. bound_tamper_window shard w) [0 .. NUM_SHARDS - 1]
                   in case sort_key tw_earliest_disagreeing_rolled_at windows of
                        [] \<Rightarrow> None | tw # _ \<Rightarrow> Some tw))
      in \<lparr>vr_structural_ok = structural_ok, vr_structural_findings = findings,
          vr_anchor_ok = anchor_ok, vr_computed_root = computed_root,
          vr_supplied_anchor_root = trusted_root, vr_tamper_window = window\<rparr>)"

section \<open>The command (\<open>backend/cli/verify_chain.py\<close>)\<close>

definition fetch_from_anchor_store :: "string \<Rightarrow> fs \<Rightarrow> exn + string" where
  "fetch_from_anchor_store key store =
     (case local_get key store of
        Inl err \<Rightarrow> Inl err
      | Inr payload \<Rightarrow> Inr (takeWhile (\<lambda>c. c \<noteq> CHR ''|'') payload))"

datatype root_source = Anchored_Root string | Anchor_Store_Key string

definition verify_chain_main ::
  "env \<Rightarrow> root_source \<Rightarrow> bool \<Rightarrow> fs \<Rightarrow> 'a chain_world_scheme \<Rightarrow> int" where
  \<comment> \<open>the exit code; an empty \<open>--anchored-root\<close> falls through to a store read with no key, which
     fails, and the failure is reported as a usage error\<close>
  "verify_chain_main E source structural_only store w =
     (let trusted =
            (if structural_only then Inr None
             else case source of
                    Anchored_Root root \<Rightarrow>
                      if root \<noteq> [] then Inr (Some root) else Inl (TypeError ''key'')
                  | Anchor_Store_Key key \<Rightarrow>
                      (case fetch_from_anchor_store key store of
                         Inl err \<Rightarrow> Inl err | Inr root \<Rightarrow> Inr (Some root)))
      in case trusted of
           Inl _ \<Rightarrow> 2
         | Inr root \<Rightarrow> if report_ok (verify_against_anchor E root w) then 0 else 1)"

section \<open>Lemmas\<close>

lemma structural_ok_iff:
  "list_all sf_ok (structural_findings E w) \<longleftrightarrow>
     (\<forall>s. 0 \<le> s \<and> s < NUM_SHARDS \<longrightarrow> verify_shard E s True w = Inr True)"
proof -
  have "sf_ok (case verify_shard E s True w of
            Inr _ \<Rightarrow> \<lparr>sf_shard_id = s, sf_ok = True, sf_detail = ''chain recomputes consistently''\<rparr>
          | Inl err \<Rightarrow> \<lparr>sf_shard_id = s, sf_ok = False, sf_detail = chain_error_text err\<rparr>)
        \<longleftrightarrow> verify_shard E s True w = Inr True" for s
    by (simp add: verify_shard_def split: option.split)
  then have "list_all sf_ok (structural_findings E w) \<longleftrightarrow>
      (\<forall>s\<in>{0..NUM_SHARDS - 1}. verify_shard E s True w = Inr True)"
    by (simp add: structural_findings_def list_all_iff)
  then show ?thesis by auto
qed

lemma walk_rolls_None:
  "(\<And>roll head h. roll \<in> set rolls \<Longrightarrow> get_by sh_shard_id s (cr_shard_heads roll) = Some head \<Longrightarrow>
      sh_head_hash head = Some h \<Longrightarrow> head_present s h w) \<Longrightarrow> walk_rolls w s la rolls = None"
proof (induction rolls arbitrary: la)
  case Nil
  then show ?case by simp
next
  case (Cons roll rolls)
  have "walk_rolls w s la' rolls = None" for la' by (rule Cons.IH) (use Cons.prems in auto)
  with Cons.prems [of roll] show ?case by (auto split: option.splits)
qed

lemma walk_rolls_Some:
  "walk_rolls w s la rolls = Some tw \<Longrightarrow>
   \<exists>roll head h. roll \<in> set rolls \<and> get_by sh_shard_id s (cr_shard_heads roll) = Some head \<and>
     sh_head_hash head = Some h \<and> \<not> head_present s h w \<and>
     tw_shard_id tw = s \<and> tw_earliest_disagreeing_root_id tw = cr_id roll"
proof (induction rolls arbitrary: la)
  case Nil
  then show ?case by simp
next
  case (Cons roll rolls)
  let ?head = "get_by sh_shard_id s (cr_shard_heads roll)"
  show ?case
  proof (cases "\<exists>head h. ?head = Some head \<and> sh_head_hash head = Some h \<and> \<not> head_present s h w")
    case True
    with Cons.prems have "tw = window_for s la roll" by auto
    with True show ?thesis by (auto simp: window_for_def Let_def)
  next
    case False
    then have "\<exists>la'. walk_rolls w s la' rolls = Some tw"
      using Cons.prems by (auto split: option.splits)
    then show ?thesis using Cons.IH by fastforce
  qed
qed

definition rolls_inv :: "'a chain_world_scheme \<Rightarrow> bool" where
  \<comment> \<open>every head a roll has recorded is the hash of an entry of its shard\<close>
  "rolls_inv w \<longleftrightarrow> (\<forall>roll\<in>set (chain_roots w). \<forall>head\<in>set (cr_shard_heads roll).
     \<forall>h. sh_head_hash head = Some h \<longrightarrow> head_present (sh_shard_id head) h w)"

lemma head_present_extend:
  "head_present s h w \<Longrightarrow> audit_entries w' = audit_entries w @ new \<Longrightarrow> head_present s h w'"
  by (auto simp: head_present_def)

lemma rolls_inv_logged:
  assumes "rolls_inv w" and "logged E w w'" and "chain_roots w' = chain_roots w"
  shows "rolls_inv w'"
  using logged_extends [OF assms(2)] assms(1,3) head_present_extend
  unfolding rolls_inv_def by metis

lemma current_heads_present:
  assumes "head \<in> set (current_shard_heads w)" and "sh_head_hash head = Some h"
  shows "head_present (sh_shard_id head) h w"
proof -
  from assms obtain e where "latest_by chain_pos_of (\<lambda>e. ae_shard e = sh_shard_id head) (audit_entries w)
      = Some e" "h = ae_hash e"
    by (auto simp: current_shard_heads_def)
  with latest_by_SomeD show ?thesis by (fastforce simp: head_present_def list_ex_iff)
qed

lemma rolls_inv_window: "rolls_inv w \<Longrightarrow> bound_tamper_window s w = None"
  unfolding bound_tamper_window_def rolls_inv_def
  by (rule walk_rolls_None) (use get_by_SomeD in fastforce)

context witness_port
begin

lemma roll_keeps_rolls_inv:
  assumes "rolls_inv w" and "perform_roll E anchor signer cv do_anchor w = (Inr row, w')"
  shows "rolls_inv w'"
proof -
  have entries: "audit_entries w' = audit_entries w"
    using assms(2) by (auto simp: perform_roll_def roll_global_root_def world_defs dest!: tables
        split: if_splits prod.splits sum.splits)
  then have "head_present s h w' = head_present s h w" for s h by (simp add: head_present_def)
  with assms(1) roll_rows(1,3) [OF assms(2)] current_heads_present [of _ w] show ?thesis
    by (auto simp: rolls_inv_def)
qed

end

section \<open>Runs of the log\<close>

inductive log_run :: "env \<Rightarrow> anchor_world \<Rightarrow> bool" for E :: env where
  empty: "audit_entries w = [] \<Longrightarrow> chain_roots w = [] \<Longrightarrow> log_run E w"
| entry: "log_run E w \<Longrightarrow> log_run E (snd (chain_append E c w))"
| roll: "log_run E w \<Longrightarrow> perform_roll E (second_store_anchor E) signer cv anchor w = (Inr row, w') \<Longrightarrow>
     log_run E w'"

lemma chain_append_chain_roots [simp]: "chain_roots (snd (chain_append E c w)) = chain_roots w"
  by (simp add: chain_append_def world_defs)

lemma log_run_inv: "log_run E w \<Longrightarrow> strict_mono (utcnow E) \<Longrightarrow> chain_inv E w \<and> rolls_inv w"
proof (induction rule: log_run.induct)
  case (empty w)
  then show ?case by (simp add: chain_inv_empty rolls_inv_def)
next
  case (entry w c)
  then show ?case using chain_inv_append rolls_inv_logged [OF _ logged_append, of w E c] by auto
next
  case (roll w signer cv anchor row w')
  have "logged E w w'"
    using second_store.roll_logged [of E w E signer cv anchor] roll.hyps(2) by simp
  with roll logged_chain_inv second_store.roll_keeps_rolls_inv show ?case by blast
qed

lemma clean_report:
  assumes "chain_inv E w" and "trusted = None \<or> trusted = Some (compute_root E (current_shard_heads w))"
  shows "report_ok (verify_against_anchor E trusted w)"
  using assms structural_ok_iff [of E w]
  by (auto simp: report_ok_def verify_against_anchor_def Let_def chain_inv_def)

lemma accepted_root:
  "report_ok (verify_against_anchor E (Some root) w) \<longleftrightarrow>
     list_all sf_ok (structural_findings E w) \<and> compute_root E (current_shard_heads w) = root"
  by (auto simp: report_ok_def verify_against_anchor_def Let_def)

lemma compute_root_digest: "\<exists>x. compute_root E (current_shard_heads w) = sha256_hex E x"
proof -
  have "\<exists>x. merkle_level E level = sha256_hex E x"
    if "length level > 0" "\<forall>l\<in>set level. \<exists>x. l = sha256_hex E x" for level
    using that
  proof (induction "length level" arbitrary: level rule: less_induct)
    case less
    show ?case
    proof (cases "length level > 1")
      case False
      with less.prems show ?thesis by (cases level) (auto simp: merkle_level.simps)
    next
      case True
      have "\<exists>x. l = sha256_hex E x" if "l \<in> set (pair_up E ls)" for l ls
        using that by (induction ls rule: induct_list012) (auto simp: pair_hash_def)
      then have "\<exists>x. merkle_level E (pair_up E (even_level level)) = sha256_hex E x"
        by (intro less.hyps) (use True in \<open>auto simp: length_pair_up length_even_level\<close>)
      with True show ?thesis by (simp add: merkle_level.simps [of E level])
    qed
  qed
  from this [of "head_leaves E w"] show ?thesis
    unfolding compute_root_heads by (force simp: head_leaves_def NUM_SHARDS_def leaf_hash_def)
qed

lemma takeWhile_separator: "c \<notin> set xs \<Longrightarrow> takeWhile (\<lambda>x. x \<noteq> c) (xs @ c # ys) = xs"
  by (induction xs) auto

lemma anchored_root_fetched:
  assumes "hexdigest_ok E"
    and "second_store_anchor E (compute_root E (current_shard_heads w)) signer v = (Inr r, v')"
  shows "fetch_from_anchor_store (wr_reference r) (anchor_store v') = Inr (compute_root E (current_shard_heads w))"
proof -
  let ?root = "compute_root E (current_shard_heads w)"
  obtain x where "?root = sha256_hex E x" using compute_root_digest by blast
  then have bar: "CHR ''|'' \<notin> set ?root" using hexdigest_okD(3) [OF assms(1)] by simp
  from assms(2) obtain rest pr where
    put: "local_put E quiet_os (?root @ CHR ''|'' # rest) (anchor_store v) = (Inr pr, anchor_store v')"
    and ref: "wr_reference r = pr_key pr"
    by (auto simp: second_store_anchor_def world_defs split: prod.splits sum.splits)
  have "local_get (wr_reference r) (anchor_store v') = Inr (?root @ CHR ''|'' # rest)"
    using local_fs.put_key [OF put] local_fs.put_stored [OF put] ref by simp
  then show ?thesis by (simp add: fetch_from_anchor_store_def takeWhile_separator [OF bar])
qed

lemma roll_second_storeE:
  fixes w w' :: "'a anchor_world_scheme"
  assumes "perform_roll E (second_store_anchor E) signer cv True w = (Inr row, w')"
  obtains r and v v' :: "'a anchor_world_scheme" where
    "second_store_anchor E (compute_root E (current_shard_heads w)) signer v = (Inr r, v')"
    and "anchor_store w' = anchor_store v'" and "ar_reference (last (anchor_receipts w')) = wr_reference r"
    and "audit_entries w' = audit_entries w" and "clock_reads w \<le> clock_reads w'"
proof -
  let ?row = "\<lparr>cr_id = uuid4 E (uuids_drawn w), cr_root = compute_root E (current_shard_heads w),
      cr_rolled_at = utcnow E (clock_reads w), cr_shard_heads = current_shard_heads w,
      cr_config_version = cv\<rparr>"
  let ?v = "w\<lparr>uuids_drawn := Suc (uuids_drawn w), clock_reads := Suc (clock_reads w),
      chain_roots := chain_roots w @ [?row]\<rparr>"
  from assms obtain r v' where
    a: "second_store_anchor E (compute_root E (current_shard_heads w)) signer ?v = (Inr r, v')"
    and w': "anchor_store w' = anchor_store v'" "ar_reference (last (anchor_receipts w')) = wr_reference r"
      "audit_entries w' = audit_entries v'" "clock_reads w' = clock_reads v'"
    by (force simp: perform_roll_def roll_global_root_def world_defs split: prod.splits sum.splits)
  from second_store.tables [OF a] w' show ?thesis
    by (intro that [OF a w'(1,2)]) auto
qed

lemma heads_of_entries:
  "audit_entries w' = audit_entries w \<Longrightarrow> current_shard_heads w' = current_shard_heads w"
  by (simp add: current_shard_heads_def)

lemma append_changes_root:
  assumes "hexdigest_ok E" and "strict_mono (utcnow E)" and "chain_inv E w"
    and "0 \<le> resolved_shard E c" and "resolved_shard E c < NUM_SHARDS"
    and "compute_root E (current_shard_heads (snd (chain_append E c w))) = compute_root E (current_shard_heads w)"
  shows "collision E (hashed_strings E (snd (chain_append E c w)) \<union> hashed_strings E w)"
proof (rule ccontr)
  let ?w' = "snd (chain_append E c w)" and ?s = "resolved_shard E c"
  assume nc: "\<not> collision E (hashed_strings E ?w' \<union> hashed_strings E w)"
  have ok: "chain_inv E ?w'" by (rule chain_inv_append [OF assms(2,3)])
  with same_root_same_history [OF assms(1) assms(6)] assms(3) nc
  have "map entry_material (shard_entries s ?w') = map entry_material (shard_entries s w)"
    if "0 \<le> s" "s < NUM_SHARDS" for s
    using that by (auto simp: chain_inv_def)
  then have "length (shard_entries ?s ?w') = length (shard_entries ?s w)"
    using assms(4,5) by (metis length_map)
  moreover obtain ps qs where "shard_entries ?s w = ps @ qs"
    "shard_entries ?s ?w' = ps @ fst (chain_append E c w) # qs"
    by (rule shard_entries_append_split [OF refl])
  ultimately show False by simp
qed

section \<open>Properties\<close>

text \<open>C3. A clean bill means the same history. If \<open>verify-chain\<close>, given a root that was computed
  over a verified log, exits with 0 on some database, then every shard of that database holds,
  entry by entry, the hashed material of that log; or SHA-256 collides on two of the finitely
  many strings hashed to verify the two logs and compute their roots. So the forward recompute of
  a tampered shard, which the structural check accepts, cannot pass.\<close>

theorem verify_chain_sound:
  assumes "hexdigest_ok E" and "\<forall>s. verify_shard E s True w = Inr True"
    and "root = compute_root E (current_shard_heads w)"
    and "verify_chain_main E (Anchored_Root root) False store w' = 0"
  shows "(\<forall>s. 0 \<le> s \<and> s < NUM_SHARDS \<longrightarrow>
      map entry_material (shard_entries s w') = map entry_material (shard_entries s w)) \<or>
    collision E (hashed_strings E w' \<union> hashed_strings E w)"
proof -
  have "report_ok (verify_against_anchor E (Some root) w')"
    using assms(4) by (auto simp: verify_chain_main_def split: if_splits)
  then show ?thesis
    using same_root_same_history [OF assms(1), of w' w] assms(2,3)
    unfolding accepted_root structural_ok_iff by auto
qed

definition demo_chain :: chain_world where
  "demo_chain = \<lparr>uuids_drawn = 2, clock_reads = 2, audit_entries = audit_entries demo_log,
     chain_roots = [], anchor_receipts = []\<rparr>"

lemma demo_log_clock: "clock_reads demo_log = 2"
  by (simp add: demo_log_def)

lemma demo_chain_inv: "chain_inv demo_env demo_chain"
  by (rule chain_inv_quiet [OF demo_log_inv]) (simp_all add: demo_chain_def demo_log_clock)

theorem verify_chain_sound_witness:
  "(\<forall>s. 0 \<le> s \<and> s < NUM_SHARDS \<longrightarrow>
      map entry_material (shard_entries s demo_chain) = map entry_material (shard_entries s demo_log))
   \<or> collision demo_env (hashed_strings demo_env demo_chain \<union> hashed_strings demo_env demo_log)"
proof (rule verify_chain_sound [OF demo_env_ok _ refl])
  show "\<forall>s. verify_shard demo_env s True demo_log = Inr True"
    using demo_log_inv by (simp add: chain_inv_def)
  have "current_shard_heads demo_log = current_shard_heads demo_chain"
    by (simp add: demo_chain_def current_shard_heads_def)
  moreover have "compute_root demo_env (current_shard_heads demo_chain) \<noteq> []"
    using compute_root_digest [of demo_env demo_chain] hexdigest_okD(2) [OF demo_env_ok] by metis
  ultimately show "verify_chain_main demo_env (Anchored_Root (compute_root demo_env (current_shard_heads demo_log)))
      False demo_fs demo_chain = 0"
    using clean_report [OF demo_chain_inv] by (simp add: verify_chain_main_def)
qed

text \<open>C20. An anchored log verifies end to end. After a roll anchored in the second store, on a log
  whose shards verify, \<open>verify-chain --anchor-store-key\<close> with the reference of the new receipt
  reads the root back from the store and exits with 0.\<close>

theorem anchored_roll_verifies:
  fixes w w' :: "'a anchor_world_scheme"
  assumes "hexdigest_ok E" and "chain_inv E w"
    and "perform_roll E (second_store_anchor E) signer cv True w = (Inr row, w')"
  shows "verify_chain_main E (Anchor_Store_Key (ar_reference (last (anchor_receipts w')))) False
    (anchor_store w') w' = 0"
proof -
  obtain r and v v' :: "'a anchor_world_scheme" where r: "second_store_anchor E (compute_root E (current_shard_heads w)) signer v = (Inr r, v')"
    and eq: "anchor_store w' = anchor_store v'" "ar_reference (last (anchor_receipts w')) = wr_reference r"
      "audit_entries w' = audit_entries w" "clock_reads w \<le> clock_reads w'"
    by (rule roll_second_storeE [OF assms(3)])
  have "chain_inv E w'" by (rule chain_inv_quiet [OF assms(2) eq(3,4)])
  then have "report_ok (verify_against_anchor E (Some (compute_root E (current_shard_heads w))) w')"
    using clean_report heads_of_entries [OF eq(3)] by metis
  then show ?thesis
    using anchored_root_fetched [OF assms(1) r] eq by (simp add: verify_chain_main_def)
qed

lemma demo_anchor_inv: "chain_inv demo_env demo_anchor_world"
  by (rule chain_inv_quiet [OF demo_log_inv]) (simp_all add: demo_anchor_world_def demo_log_clock)

theorem anchored_roll_verifies_witness:
  "\<exists>w'. verify_chain_main demo_env (Anchor_Store_Key (ar_reference (last (anchor_receipts w')))) False
     (anchor_store w') (w' :: anchor_world) = 0"
proof -
  obtain row w' where *: "perform_roll demo_env (second_store_anchor demo_env) (Some demo_signer) None True
      demo_anchor_world = (Inr row, w')"
    by (auto simp: perform_roll_def roll_global_root_def world_defs second_store_anchor_def
        demo_anchor_world_def local_put_def quiet_os_def)
  show ?thesis by (rule exI, rule anchored_roll_verifies [OF demo_env_ok demo_anchor_inv *])
qed

text \<open>An anchored root goes stale with the next entry. After one honest append to a verified
  log, \<open>verify-chain\<close> with the root anchored just before exits with 1, although every shard
  still verifies and no roll contradicts the log (no tamper window is found): the command
  compares today's heads with the anchored root, not the log as it stood at the roll.\<close>

lemma anchored_root_goes_stale:
  assumes "hexdigest_ok E" and "strict_mono (utcnow E)" and "log_run E w"
    and "0 \<le> resolved_shard E c" and "resolved_shard E c < NUM_SHARDS"
    and "root = compute_root E (current_shard_heads w)"
    and "report = verify_against_anchor E (Some root) (snd (chain_append E c w))"
  shows "(verify_chain_main E (Anchored_Root root) False store (snd (chain_append E c w)) = 1 \<and>
    vr_structural_ok report \<and> vr_anchor_ok report = Some False \<and> vr_tamper_window report = None)
    \<or> collision E (hashed_strings E (snd (chain_append E c w)) \<union> hashed_strings E w)"
proof (rule disjCI)
  let ?w = "snd (chain_append E c w)"
  assume nc: "\<not> collision E (hashed_strings E ?w \<union> hashed_strings E w)"
  have inv: "chain_inv E w" and inv': "chain_inv E ?w" "rolls_inv ?w"
    using log_run_inv [OF _ assms(2)] assms(3) log_run.entry by blast+
  have ne: "compute_root E (current_shard_heads ?w) \<noteq> root"
    using append_changes_root [OF assms(1,2) inv assms(4,5)] nc assms(6) by blast
  have "list_all sf_ok (structural_findings E ?w)"
    using inv'(1) by (simp add: structural_ok_iff chain_inv_def)
  moreover have "List.map_filter (\<lambda>shard. bound_tamper_window shard ?w) xs = []" for xs
    using rolls_inv_window [OF inv'(2)] by (simp add: map_filter_def)
  moreover have "root \<noteq> []"
    using assms(6) compute_root_digest [of E w] hexdigest_okD(2) [OF assms(1)] by metis
  ultimately show "verify_chain_main E (Anchored_Root root) False store ?w = 1 \<and>
      vr_structural_ok report \<and> vr_anchor_ok report = Some False \<and> vr_tamper_window report = None"
    using ne unfolding assms(7) verify_chain_main_def
    by (simp add: verify_against_anchor_def report_ok_def Let_def)
qed

lemma anchored_root_goes_stale_witness:
  "verify_chain_main demo_env
      (Anchored_Root (compute_root demo_env (current_shard_heads (demo_anchor_world\<lparr>audit_entries := []\<rparr>))))
      False demo_fs (snd (chain_append demo_env (demo_call ''publish'') (demo_anchor_world\<lparr>audit_entries := []\<rparr>))) = 1
    \<or> collision demo_env (hashed_strings demo_env (snd (chain_append demo_env (demo_call ''publish'')
        (demo_anchor_world\<lparr>audit_entries := []\<rparr>))) \<union> hashed_strings demo_env (demo_anchor_world\<lparr>audit_entries := []\<rparr>))"
proof -
  have "log_run demo_env (demo_anchor_world\<lparr>audit_entries := []\<rparr>)"
    by (rule log_run.empty) (simp_all add: demo_anchor_world_def)
  from anchored_root_goes_stale [OF demo_env_ok demo_env_clock this _ _ refl refl, of "demo_call ''publish''" demo_fs]
  show ?thesis by (auto simp: demo_call_def resolved_shard_def NUM_SHARDS_def)
qed

text \<open>The tamper window accuses nobody falsely and names a real discrepancy. On every log
  reached from empty tables by appends and rolls, no shard has a tamper window; and on any
  database, a window that is reported names a recorded roll whose head for that shard is the
  hash of no entry the shard now holds.\<close>

lemma tamper_window_sound:
  "(strict_mono (utcnow E) \<longrightarrow> log_run E w \<longrightarrow> bound_tamper_window s w = None) \<and>
   (bound_tamper_window s v = Some tw \<longrightarrow>
     (\<exists>roll\<in>set (chain_roots v). \<exists>head h. get_by sh_shard_id s (cr_shard_heads roll) = Some head \<and>
        sh_head_hash head = Some h \<and> \<not> head_present s h v \<and>
        tw_shard_id tw = s \<and> tw_earliest_disagreeing_root_id tw = cr_id roll))"
  using log_run_inv [of E w] rolls_inv_window [of w s]
    walk_rolls_Some [of v s None "rows_by cr_rolled_at (\<lambda>_. True) (chain_roots v)" tw]
  unfolding bound_tamper_window_def by auto

lemma tamper_window_sound_witness:
  "bound_tamper_window 3 (snd (chain_append demo_env (demo_call ''publish'')
     (demo_anchor_world\<lparr>audit_entries := []\<rparr>))) = None"
proof -
  have "log_run demo_env (snd (chain_append demo_env (demo_call ''publish'')
      (demo_anchor_world\<lparr>audit_entries := []\<rparr>)))"
    by (rule log_run.entry, rule log_run.empty) (simp_all add: demo_anchor_world_def)
  then show ?thesis
    using tamper_window_sound [THEN conjunct1, rule_format, OF demo_env_clock] by blast
qed

end
