(* ===== verification/Queue.thy ===== *)
theory Queue
  imports Prelude
begin

text \<open>
  The broker port of \<open>libs/queue\<close> (\<open>landqueue/port.py\<close>) as two locales, what a publisher relies on
  and what a consumer relies on, and \<open>InMemoryQueue\<close> (\<open>landqueue/testing.py\<close>), the one driver
  whose whole behaviour is in the repository, which is shown to keep both.
\<close>

section \<open>Messages and the port\<close>

record 'm queue_message =
  qm_sequence_id :: string
  qm_data :: 'm
  qm_delivery_count :: nat

definition qm_pair :: "'m queue_message \<Rightarrow> string \<times> 'm" where
  "qm_pair m = (qm_sequence_id m, qm_data m)"

lemma qm_pair_simps [simp]:
  "fst (qm_pair m) = qm_sequence_id m" "snd (qm_pair m) = qm_data m"
  "qm_pair m = (sid, x) \<longleftrightarrow> qm_sequence_id m = sid \<and> qm_data m = x"
  by (auto simp: qm_pair_def)

lemma map_fst_qm_pair [simp]: "map (fst \<circ> qm_pair) ms = map qm_sequence_id ms"
  by (simp add: comp_def)

locale publisher =
  fixes publish :: "string \<Rightarrow> 'm \<Rightarrow> 'q \<Rightarrow> (exn + string) \<times> 'q"
    and published :: "string \<Rightarrow> 'q \<Rightarrow> 'm list"
    and ok :: "'q \<Rightarrow> bool"
  assumes publish_ok: "ok st \<Longrightarrow> publish q m st = (res, st') \<Longrightarrow> ok st'"
    and publish_Inr: "ok st \<Longrightarrow> publish q m st = (Inr sid, st') \<Longrightarrow>
      published q st' = published q st @ [m] \<and> (\<forall>p. p \<noteq> q \<longrightarrow> published p st' = published p st)"
    and publish_Inl: "ok st \<Longrightarrow> publish q m st = (Inl err, st') \<Longrightarrow> published p st' = published p st"
begin

definition publish_all :: "(string \<times> 'm) list \<Rightarrow> 'q \<Rightarrow> 'q" where
  "publish_all ms st = fold (\<lambda>(q, m) st. snd (publish q m st)) ms st"

lemma published_grows:
  "ok st \<Longrightarrow> publish q m st = (res, st') \<Longrightarrow> \<exists>new. published p st' = published p st @ new"
  using publish_Inr publish_Inl by (cases res; cases "p = q"; fastforce)

end

text \<open>
  \<open>outstanding q g\<close> is what the group \<open>g\<close> of queue \<open>q\<close> still owes an acknowledgement, in delivery
  order: delivered but not acknowledged, then not yet delivered. Consuming returns a prefix of
  it and removes nothing; only an acknowledgement removes a message.
\<close>

locale queue_port = publisher publish published ok
  for publish :: "string \<Rightarrow> 'm \<Rightarrow> 'q \<Rightarrow> (exn + string) \<times> 'q" and published and ok +
  fixes consume :: "string \<Rightarrow> string \<Rightarrow> nat \<Rightarrow> nat \<Rightarrow> 'q \<Rightarrow> 'm queue_message list option \<times> 'q"
    and ack :: "string \<Rightarrow> string \<Rightarrow> string \<Rightarrow> 'q \<Rightarrow> 'q"
    and outstanding :: "string \<Rightarrow> string \<Rightarrow> 'q \<Rightarrow> (string \<times> 'm) list"
    and delivered :: "string \<Rightarrow> string \<Rightarrow> 'q \<Rightarrow> (string \<times> 'm) set"
  assumes consume_ok: "ok st \<Longrightarrow> ok (snd (consume q g n b st))"
    and consume_prefix: "ok st \<Longrightarrow> consume q g n b st = (Some ms, st') \<Longrightarrow>
      \<exists>k\<le>n. map qm_pair ms = take k (outstanding q g st)"
    and consume_some: "ok st \<Longrightarrow> 0 < n \<Longrightarrow> outstanding q g st \<noteq> [] \<Longrightarrow>
      \<exists>x xs. fst (consume q g n b st) = Some (x # xs)"
    and consume_outstanding: "ok st \<Longrightarrow> outstanding p h (snd (consume q g n b st)) = outstanding p h st"
    and consume_published: "published p (snd (consume q g n b st)) = published p st"
    and consume_delivered: "ok st \<Longrightarrow> consume q g n b st = (Some ms, st') \<Longrightarrow>
      qm_pair ` set ms \<subseteq> delivered q g st'"
    and delivered_ack: "ok st \<Longrightarrow> (sid, m) \<in> delivered q g st \<Longrightarrow>
      outstanding q g (ack q g sid st) = filter (\<lambda>(s, _). s \<noteq> sid) (outstanding q g st)"
    and ack_delivered: "ok st \<Longrightarrow> (s, m) \<in> delivered q g st \<Longrightarrow> s \<noteq> sid \<Longrightarrow>
      (s, m) \<in> delivered q g (ack q g sid st)"
    and ack_absent: "ok st \<Longrightarrow> sid \<notin> fst ` set (outstanding q g st) \<Longrightarrow>
      outstanding q g (ack q g sid st) = outstanding q g st"
    and publish_delivered: "ok st \<Longrightarrow> publish p m st = (res, st') \<Longrightarrow> delivered q g st \<subseteq> delivered q g st'"
    and publish_Inl_outstanding: "ok st \<Longrightarrow> publish p m st = (Inl err, st') \<Longrightarrow>
      outstanding q g st' = outstanding q g st"
    and ack_ok: "ok st \<Longrightarrow> ok (ack q g sid st)"
    and ack_other: "p \<noteq> q \<or> h \<noteq> g \<Longrightarrow> outstanding p h (ack q g sid st) = outstanding p h st"
    and ack_published: "published p (ack q g sid st) = published p st"
    and outstanding_distinct: "ok st \<Longrightarrow> distinct (map fst (outstanding q g st))"
    and publish_outstanding: "ok st \<Longrightarrow> publish p m st = (Inr sid, st') \<Longrightarrow>
      outstanding q g st' = outstanding q g st @ (if p = q then [(sid, m)] else [])"
begin

lemma consumed_outstanding:
  "ok st \<Longrightarrow> consume q g n b st = (Some ms, st') \<Longrightarrow> m \<in> set ms \<Longrightarrow>
   qm_pair m \<in> set (outstanding q g st)"
  by (drule (1) consume_prefix) (metis image_eqI in_set_takeD list.set_map)

lemma acked_once_gone:
  assumes "ok st" and "consume q g n b st = (Some ms, st')" and "m \<in> set ms"
  shows "qm_pair m \<notin> set (outstanding q g (ack q g (qm_sequence_id m) st'))"
proof -
  have "ok st'" using consume_ok [OF assms(1), of q g n b] assms(2) by simp
  moreover have "(qm_sequence_id m, qm_data m) \<in> delivered q g st'"
    using consume_delivered [OF assms(1,2)] assms(3) by (auto simp: qm_pair_def)
  ultimately show ?thesis by (simp add: delivered_ack qm_pair_def)
qed

end

section \<open>\<open>InMemoryQueue\<close>\<close>

type_synonym qgroup = "string \<times> string"

record 'm mem_queue =
  mq_streams :: "string \<Rightarrow> (string \<times> 'm) list"
  mq_next_seq :: nat
  mq_cursors :: "qgroup \<rightharpoonup> nat"
  mq_pending :: "qgroup \<Rightarrow> 'm queue_message list"
  mq_delivery_counts :: "qgroup \<times> string \<Rightarrow> nat"

text \<open>
  A key missing from \<open>_streams\<close>, \<open>_pending\<close> or \<open>_delivery_counts\<close> reads as empty or zero in every
  place the code reads it, so these are total; \<open>_cursors\<close> is not, its keys are the groups that
  exist. \<open>_pending\<close> keeps the insertion order of the Python dictionary.
\<close>

definition mem_empty :: "'m mem_queue" where
  "mem_empty = \<lparr>mq_streams = (\<lambda>_. []), mq_next_seq = 0, mq_cursors = Map.empty,
     mq_pending = (\<lambda>_. []), mq_delivery_counts = (\<lambda>_. 0)\<rparr>"

definition mem_publish :: "string \<Rightarrow> 'm \<Rightarrow> 'm mem_queue \<Rightarrow> (exn + string) \<times> 'm mem_queue" where
  "mem_publish q m st =
     (let n = Suc (mq_next_seq st);
          sid = str_of_nat n
      in (Inr sid, st\<lparr>mq_next_seq := n,
            mq_streams := (mq_streams st)(q := mq_streams st q @ [(sid, m)])\<rparr>))"

definition mem_ensure_group :: "string \<Rightarrow> string \<Rightarrow> string \<Rightarrow> 'm mem_queue \<Rightarrow> 'm mem_queue" where
  "mem_ensure_group q g start st =
     (if mq_cursors st (q, g) \<noteq> None then st
      else st\<lparr>mq_cursors := (mq_cursors st)((q, g) \<mapsto>
                 (if start = ''0'' then 0 else length (mq_streams st q)))\<rparr>)"

definition dict_set :: "'m queue_message \<Rightarrow> 'm queue_message list \<Rightarrow> 'm queue_message list" where
  \<comment> \<open>\<open>d[m.sequence_id] = m\<close>\<close>
  "dict_set m d = (if qm_sequence_id m \<in> qm_sequence_id ` set d
     then set_by qm_sequence_id (qm_sequence_id m) (\<lambda>_. m) d else d @ [m])"

definition deliver :: "qgroup \<Rightarrow> string \<Rightarrow> 'm \<Rightarrow> 'm mem_queue \<Rightarrow> 'm queue_message \<times> 'm mem_queue" where
  \<comment> \<open>the body of both loops: count the delivery and record it as pending\<close>
  "deliver key sid data st =
     (let n = Suc (mq_delivery_counts st (key, sid));
          msg = \<lparr>qm_sequence_id = sid, qm_data = data, qm_delivery_count = n\<rparr>
      in (msg, st\<lparr>mq_delivery_counts := (mq_delivery_counts st)((key, sid) := n),
                 mq_pending := (mq_pending st)(key := dict_set msg (mq_pending st key))\<rparr>))"

fun deliver_all ::
  "qgroup \<Rightarrow> (string \<times> 'm) list \<Rightarrow> 'm mem_queue \<Rightarrow> 'm queue_message list \<times> 'm mem_queue" where
  "deliver_all key [] st = ([], st)"
| "deliver_all key ((sid, data) # rest) st =
     (let (msg, st) = deliver key sid data st; (msgs, st) = deliver_all key rest st
      in (msg # msgs, st))"

definition mem_consume ::
  "string \<Rightarrow> string \<Rightarrow> nat \<Rightarrow> nat \<Rightarrow> 'm mem_queue \<Rightarrow> 'm queue_message list option \<times> 'm mem_queue"
where
  \<comment> \<open>\<open>None\<close>: nothing to return and \<open>block_ms = 0\<close>, so the call waits for another thread to publish\<close>
  "mem_consume q g count block_ms st =
     (let st = mem_ensure_group q g ''0'' st;
          key = (q, g);
          pending = mq_pending st key
      in if pending \<noteq> []
         then (let (msgs, st) = deliver_all key
                     (map qm_pair (take count pending)) st
               in (Some msgs, st))
         else
           (let cursor = the (mq_cursors st key);
                batch = take count (drop cursor (mq_streams st q))
            in if batch \<noteq> []
               then (let st = st\<lparr>mq_cursors := (mq_cursors st)(key \<mapsto> cursor + length batch)\<rparr>;
                         (msgs, st) = deliver_all key batch st
                     in (Some msgs, st))
               else if block_ms = 0 then (None, st) else (Some [], st)))"

definition mem_ack :: "string \<Rightarrow> string \<Rightarrow> string \<Rightarrow> 'm mem_queue \<Rightarrow> 'm mem_queue" where
  "mem_ack q g sid st =
     st\<lparr>mq_pending := (mq_pending st)((q, g) :=
          filter (\<lambda>m. qm_sequence_id m \<noteq> sid) (mq_pending st (q, g)))\<rparr>"

definition mem_replay_from :: "string \<Rightarrow> string \<Rightarrow> string \<Rightarrow> 'm mem_queue \<Rightarrow> 'm mem_queue" where
  "mem_replay_from q g sid st =
     (let stream = mq_streams st q;
          index = length (takeWhile (\<lambda>(s, _). s \<noteq> sid) stream)
      in st\<lparr>mq_cursors := (mq_cursors st)((q, g) \<mapsto> (if index = length stream then 0 else index + 1)),
            mq_pending := (mq_pending st)((q, g) := [])\<rparr>)"

definition mem_pending_count :: "string \<Rightarrow> string \<Rightarrow> 'm mem_queue \<Rightarrow> nat" where
  "mem_pending_count q g st = length (mq_pending st (q, g))"

section \<open>What is outstanding\<close>

definition mem_cursor :: "string \<Rightarrow> string \<Rightarrow> 'm mem_queue \<Rightarrow> nat" where
  "mem_cursor q g st = (case mq_cursors st (q, g) of None \<Rightarrow> 0 | Some c \<Rightarrow> c)"

definition mem_outstanding :: "string \<Rightarrow> string \<Rightarrow> 'm mem_queue \<Rightarrow> (string \<times> 'm) list" where
  "mem_outstanding q g st =
     map qm_pair (mq_pending st (q, g))
     @ drop (mem_cursor q g st) (mq_streams st q)"

definition mem_delivered :: "string \<Rightarrow> string \<Rightarrow> 'm mem_queue \<Rightarrow> (string \<times> 'm) set" where
  "mem_delivered q g st = qm_pair ` set (mq_pending st (q, g))"

definition mem_published :: "string \<Rightarrow> 'm mem_queue \<Rightarrow> 'm list" where
  "mem_published q st = map snd (mq_streams st q)"

definition mem_ok :: "'m mem_queue \<Rightarrow> bool" where
  "mem_ok st \<longleftrightarrow>
     (\<forall>q. distinct (map fst (mq_streams st q)) \<and>
        (\<forall>sid\<in>fst ` set (mq_streams st q). \<exists>k\<le>mq_next_seq st. sid = str_of_nat k)) \<and>
     (\<forall>q g. distinct (map qm_sequence_id (mq_pending st (q, g))) \<and>
        qm_sequence_id ` set (mq_pending st (q, g)) \<subseteq> fst ` set (take (mem_cursor q g st) (mq_streams st q)) \<and>
        mem_cursor q g st \<le> length (mq_streams st q))"

lemma deliver_fields [simp]:
  "qm_sequence_id (fst (deliver key sid data st)) = sid"
  "qm_data (fst (deliver key sid data st)) = data"
  "mq_streams (snd (deliver key sid data st)) = mq_streams st"
  "mq_next_seq (snd (deliver key sid data st)) = mq_next_seq st"
  "mq_cursors (snd (deliver key sid data st)) = mq_cursors st"
  "k \<noteq> key \<Longrightarrow> mq_pending (snd (deliver key sid data st)) k = mq_pending st k"
  "mq_pending (snd (deliver key sid data st)) key = dict_set (fst (deliver key sid data st)) (mq_pending st key)"
  by (simp_all add: deliver_def Let_def)

lemma deliver_all_Cons [simp]:
  "fst (deliver_all key ((sid, data) # rest) st) =
     fst (deliver key sid data st) # fst (deliver_all key rest (snd (deliver key sid data st)))"
  "snd (deliver_all key ((sid, data) # rest) st) =
     snd (deliver_all key rest (snd (deliver key sid data st)))"
  by (simp_all add: split_beta Let_def)

declare deliver_all.simps(2) [simp del]

lemma deliver_all_fields [simp]:
  "map qm_pair (fst (deliver_all key batch st)) = batch"
  "mq_streams (snd (deliver_all key batch st)) = mq_streams st"
  "mq_next_seq (snd (deliver_all key batch st)) = mq_next_seq st"
  "mq_cursors (snd (deliver_all key batch st)) = mq_cursors st"
  "k \<noteq> key \<Longrightarrow> mq_pending (snd (deliver_all key batch st)) k = mq_pending st k"
  by (induction batch arbitrary: st) (auto simp del: deliver_all.simps(2))

lemma dict_set_new:
  "qm_sequence_id m \<notin> qm_sequence_id ` set d \<Longrightarrow> dict_set m d = d @ [m]"
  by (simp add: dict_set_def)

lemma dict_set_old:
  assumes "qm_pair m \<in> set (map qm_pair d)" and "distinct (map qm_sequence_id d)"
  shows "map qm_pair (dict_set m d) = map qm_pair d"
proof -
  have "qm_sequence_id m \<in> qm_sequence_id ` set d" using assms(1) by (auto simp: qm_pair_def)
  moreover have "qm_pair m = qm_pair x" if "x \<in> set d" "qm_sequence_id x = qm_sequence_id m" for x
    using assms that by (auto simp: distinct_map qm_pair_def dest: inj_onD)
  ultimately show ?thesis by (auto simp: dict_set_def set_by_def)
qed

lemma deliver_all_new:
  "distinct (map fst batch) \<Longrightarrow> fst ` set batch \<inter> qm_sequence_id ` set (mq_pending st key) = {} \<Longrightarrow>
   map qm_pair (mq_pending (snd (deliver_all key batch st)) key) = map qm_pair (mq_pending st key) @ batch"
proof (induction batch arbitrary: st)
  case Nil
  then show ?case by simp
next
  case (Cons b rest)
  obtain sid data where b: "b = (sid, data)" by (cases b)
  let ?msg = "fst (deliver key sid data st)" and ?st = "snd (deliver key sid data st)"
  have sid: "qm_sequence_id ?msg = sid" by simp
  have pend: "mq_pending ?st key = mq_pending st key @ [?msg]"
    using Cons.prems(2) b by (simp add: dict_set_new sid)
  have "map qm_pair (mq_pending (snd (deliver_all key rest ?st)) key) = map qm_pair (mq_pending ?st key) @ rest"
    by (rule Cons.IH) (use Cons.prems b sid pend in auto)
  with b pend show ?case by simp
qed

lemma deliver_all_pending:
  "set batch \<subseteq> set (map qm_pair (mq_pending st key)) \<Longrightarrow> distinct (map qm_sequence_id (mq_pending st key)) \<Longrightarrow>
   map qm_pair (mq_pending (snd (deliver_all key batch st)) key) = map qm_pair (mq_pending st key)"
proof (induction batch arbitrary: st)
  case Nil
  then show ?case by simp
next
  case (Cons b rest)
  obtain sid data where b: "b = (sid, data)" by (cases b)
  let ?msg = "fst (deliver key sid data st)" and ?st = "snd (deliver key sid data st)"
  have "qm_pair ?msg \<in> set (map qm_pair (mq_pending st key))"
    using Cons.prems(1) b by (simp add: qm_pair_def)
  from dict_set_old [OF this Cons.prems(2)]
  have same: "map qm_pair (mq_pending ?st key) = map qm_pair (mq_pending st key)" by simp
  then have "distinct (map qm_sequence_id (mq_pending ?st key))"
    using Cons.prems(2) by (metis map_fst_qm_pair map_map)
  moreover have "set rest \<subseteq> set (map qm_pair (mq_pending ?st key))"
    unfolding same using Cons.prems(1) by auto
  ultimately show ?case using Cons.IH [of ?st] same b by simp
qed

lemma ensure_group_fields [simp]:
  "mq_streams (mem_ensure_group q g start st) = mq_streams st"
  "mq_pending (mem_ensure_group q g start st) = mq_pending st"
  "mq_next_seq (mem_ensure_group q g start st) = mq_next_seq st"
  "mem_cursor p h (mem_ensure_group q g ''0'' st) = mem_cursor p h st"
  "the (mq_cursors (mem_ensure_group q g ''0'' st) (q, g)) = mem_cursor q g st"
  by (auto simp: mem_ensure_group_def mem_cursor_def split: option.splits)

lemma mem_cursor_update [simp]:
  "mem_cursor p h (st\<lparr>mq_cursors := (mq_cursors st)((q, g) \<mapsto> c)\<rparr>) =
     (if (p, h) = (q, g) then c else mem_cursor p h st)"
  by (simp add: mem_cursor_def)

lemma mem_cursor_deliver_all [simp]:
  "mem_cursor p h (snd (deliver_all key batch st)) = mem_cursor p h st"
  by (simp add: mem_cursor_def)

text \<open>The three outcomes of \<open>consume\<close>.\<close>

lemma mem_consume_pending:
  assumes "mq_pending st (q, g) \<noteq> []"
  shows "mem_consume q g n b st =
    (let d = deliver_all (q, g) (map qm_pair (take n (mq_pending st (q, g)))) (mem_ensure_group q g ''0'' st)
     in (Some (fst d), snd d))"
  using assms by (simp add: mem_consume_def Let_def split_beta)

lemma mem_consume_new:
  assumes "mq_pending st (q, g) = []" and "batch = take n (drop (mem_cursor q g st) (mq_streams st q))"
    and "batch \<noteq> []"
  shows "mem_consume q g n b st =
    (let st = mem_ensure_group q g ''0'' st;
         d = deliver_all (q, g) batch (st\<lparr>mq_cursors := (mq_cursors st)((q, g) \<mapsto> mem_cursor q g st + length batch)\<rparr>)
     in (Some (fst d), snd d))"
  using assms by (simp add: mem_consume_def Let_def split_beta)

lemma mem_consume_nothing:
  assumes "mq_pending st (q, g) = []" and "take n (drop (mem_cursor q g st) (mq_streams st q)) = []"
  shows "mem_consume q g n b st =
    (if b = 0 then None else Some [], mem_ensure_group q g ''0'' st)"
  using assms by (auto simp: mem_consume_def Let_def)

lemma mem_ok_pairs:
  "mem_ok st \<longleftrightarrow>
     (\<forall>q. distinct (map fst (mq_streams st q)) \<and>
        (\<forall>sid\<in>fst ` set (mq_streams st q). \<exists>k\<le>mq_next_seq st. sid = str_of_nat k)) \<and>
     (\<forall>q g. distinct (map fst (map qm_pair (mq_pending st (q, g)))) \<and>
        fst ` set (map qm_pair (mq_pending st (q, g))) \<subseteq> fst ` set (take (mem_cursor q g st) (mq_streams st q)) \<and>
        mem_cursor q g st \<le> length (mq_streams st q))"
  by (simp add: mem_ok_def image_image)

lemma batch_of_stream:
  assumes "mem_ok st" and "batch = take n (drop (mem_cursor q g st) (mq_streams st q))"
  shows "distinct (map fst batch)"
    and "drop (mem_cursor q g st) (mq_streams st q) =
      batch @ drop (mem_cursor q g st + length batch) (mq_streams st q)"
    and "take (mem_cursor q g st + length batch) (mq_streams st q) =
      take (mem_cursor q g st) (mq_streams st q) @ batch"
    and "mem_cursor q g st + length batch \<le> length (mq_streams st q)"
proof -
  let ?c = "mem_cursor q g st" and ?s = "mq_streams st q"
  have "distinct (map fst ?s)" using assms(1) by (simp add: mem_ok_def)
  then show "distinct (map fst batch)"
    unfolding assms(2) by (simp add: take_map [symmetric] drop_map [symmetric])
  have len: "length batch = min n (length ?s - ?c)" unfolding assms(2) by simp
  have "take (length batch) (drop ?c ?s) = batch"
    unfolding assms(2) by (simp add: min_def)
  then show "drop ?c ?s = batch @ drop (?c + length batch) ?s"
    by (metis append_take_drop_id add.commute drop_drop)
  have "?c \<le> length ?s" using assms(1) by (simp add: mem_ok_def)
  then show "?c + length batch \<le> length ?s" unfolding len by simp
  show "take (?c + length batch) ?s = take ?c ?s @ batch"
    using \<open>take (length batch) (drop ?c ?s) = batch\<close> by (simp add: take_add)
qed

lemma mem_consume_keeps:
  assumes ok: "mem_ok st"
  shows "mem_ok (snd (mem_consume q g n b st)) \<and>
    mem_outstanding p h (snd (mem_consume q g n b st)) = mem_outstanding p h st \<and>
    mq_streams (snd (mem_consume q g n b st)) = mq_streams st"
proof -
  let ?st0 = "mem_ensure_group q g ''0'' st" and ?pend = "mq_pending st (q, g)"
  let ?batch = "take n (drop (mem_cursor q g st) (mq_streams st q))"
  consider (pending) "?pend \<noteq> []" | (new) "?pend = []" "?batch \<noteq> []" | (nothing) "?pend = []" "?batch = []"
    by blast
  then show ?thesis
  proof cases
    case pending
    let ?d = "deliver_all (q, g) (map qm_pair (take n ?pend)) ?st0"
    have same: "map qm_pair (mq_pending (snd ?d) (q, g)) = map qm_pair ?pend"
      using deliver_all_pending [of "map qm_pair (take n ?pend)" ?st0 "(q, g)"] ok
      by (auto simp: mem_ok_def dest: in_set_takeD)
    then have "map qm_pair (mq_pending (snd ?d) k) = map qm_pair (mq_pending st k)" for k
      by (cases "k = (q, g)") auto
    then show ?thesis
      using ok unfolding mem_consume_pending [OF pending] Let_def snd_conv mem_ok_pairs
      by (simp add: mem_outstanding_def del: map_map)
  next
    case new
    define batch where "batch = ?batch"
    define st1 where "st1 = ?st0\<lparr>mq_cursors := (mq_cursors ?st0)((q, g) \<mapsto> mem_cursor q g ?st0 + length batch)\<rparr>"
    define d where "d = snd (deliver_all (q, g) batch st1)"
    note b = batch_of_stream [OF ok batch_def]
    have st1: "mq_pending st1 = mq_pending st" "mq_streams st1 = mq_streams st"
      "mem_cursor p h st1 = (if (p, h) = (q, g) then mem_cursor q g st + length batch else mem_cursor p h st)"
      for p h by (simp_all add: st1_def)
    have "map qm_pair (mq_pending d (q, g)) = batch"
      unfolding d_def using deliver_all_new [OF b(1), of st1 "(q, g)"] new(1) st1(1) by simp
    then have pend: "map qm_pair (mq_pending d k) = (if k = (q, g) then batch else map qm_pair (mq_pending st k))" for k
      by (cases "k = (q, g)") (auto simp: d_def st1)
    have d: "mq_streams d = mq_streams st" "mq_next_seq d = mq_next_seq st"
      "mem_cursor p h d = (if (p, h) = (q, g) then mem_cursor q g st + length batch else mem_cursor p h st)"
      for p h using st1 by (simp_all add: d_def) (simp add: st1_def)
    have "mem_ok d"
      using ok b(1,3,4) unfolding mem_ok_pairs pend d by (auto simp: image_Un simp del: map_map)
    moreover have "mem_outstanding p h d = mem_outstanding p h st"
      unfolding mem_outstanding_def pend d using b(2) new(1) by simp
    moreover have "snd (mem_consume q g n b st) = d"
      using mem_consume_new [OF new(1) refl new(2)] by (simp add: d_def st1_def batch_def Let_def)
    ultimately show ?thesis using d by simp
  next
    case nothing
    then show ?thesis
      using ok by (simp add: mem_consume_nothing mem_outstanding_def mem_ok_def)
  qed
qed

lemma deliver_all_in_pending:
  assumes "distinct (map qm_sequence_id (mq_pending st key))"
    and "set batch \<subseteq> set (map qm_pair (mq_pending st key)) \<or>
      mq_pending st key = [] \<and> distinct (map fst batch)"
  shows "set batch \<subseteq> set (map qm_pair (mq_pending (snd (deliver_all key batch st)) key))"
  using assms(2)
proof
  assume sub: "set batch \<subseteq> set (map qm_pair (mq_pending st key))"
  show ?thesis unfolding deliver_all_pending [OF sub assms(1)] by (rule sub)
next
  assume "mq_pending st key = [] \<and> distinct (map fst batch)"
  then have "map qm_pair (mq_pending (snd (deliver_all key batch st)) key) = batch"
    using deliver_all_new [of batch st key] by simp
  then show ?thesis by (simp only: subset_refl)
qed

lemma mem_consume_result:
  assumes ok: "mem_ok st" and res: "mem_consume q g n b st = (Some ms, st')"
  shows "(\<exists>k\<le>n. map qm_pair ms = take k (mem_outstanding q g st)) \<and>
    set (map qm_pair ms) \<subseteq> set (map qm_pair (mq_pending st' (q, g)))"
proof -
  let ?pend = "mq_pending st (q, g)"
  let ?batch = "take n (drop (mem_cursor q g st) (mq_streams st q))"
  consider (pending) "?pend \<noteq> []" | (new) "?pend = []" "?batch \<noteq> []" | (nothing) "?pend = []" "?batch = []"
    by blast
  then show ?thesis
  proof cases
    case pending
    let ?b = "map qm_pair (take n ?pend)" and ?st0 = "mem_ensure_group q g ''0'' st"
    have ms: "map qm_pair ms = ?b" and st': "st' = snd (deliver_all (q, g) ?b ?st0)"
      using res unfolding mem_consume_pending [OF pending] by (auto simp: Let_def simp del: map_map)
    have "set ?b \<subseteq> set (map qm_pair (mq_pending st' (q, g)))"
      unfolding st' by (rule deliver_all_in_pending) (use ok in \<open>auto simp: mem_ok_def dest: in_set_takeD\<close>)
    moreover have "?b = take (min n (length ?pend)) (mem_outstanding q g st)"
      by (simp add: mem_outstanding_def take_map min_def)
    ultimately show ?thesis unfolding ms by (metis min.cobounded1)
  next
    case new
    let ?st0 = "(mem_ensure_group q g ''0'' st)\<lparr>mq_cursors :=
      (mq_cursors (mem_ensure_group q g ''0'' st))((q, g) \<mapsto> mem_cursor q g st + length ?batch)\<rparr>"
    have ms: "map qm_pair ms = ?batch" and st': "st' = snd (deliver_all (q, g) ?batch ?st0)"
      using res unfolding mem_consume_new [OF new(1) refl new(2)] by (auto simp: Let_def)
    have "set ?batch \<subseteq> set (map qm_pair (mq_pending st' (q, g)))"
      unfolding st' by (rule deliver_all_in_pending)
        (use new(1) batch_of_stream(1) [OF ok refl] in auto)
    then show ?thesis unfolding ms using new(1) by (auto simp: mem_outstanding_def)
  next
    case nothing
    then have "ms = []" using res by (simp add: mem_consume_nothing split: if_splits)
    then show ?thesis by auto
  qed
qed

lemma mem_consume_some:
  assumes "0 < n" and "mem_outstanding q g st \<noteq> []"
  shows "\<exists>x xs. fst (mem_consume q g n b st) = Some (x # xs)"
proof -
  have nonempty: "\<exists>x xs. ms = x # xs" if "map qm_pair ms = l" "l \<noteq> []" for ms :: "'a queue_message list" and l
    using that by (cases ms) auto
  show ?thesis
  proof (cases "mq_pending st (q, g) = []")
    case False
    with assms(1) show ?thesis
      unfolding mem_consume_pending [OF False] Let_def
      by (simp, intro nonempty [OF deliver_all_fields(1)]) simp
  next
    case True
    with assms have batch: "take n (drop (mem_cursor q g st) (mq_streams st q)) \<noteq> []"
      by (simp add: mem_outstanding_def)
    then show ?thesis
      unfolding mem_consume_new [OF True refl batch] Let_def
      by (simp add: nonempty [OF deliver_all_fields(1)])
  qed
qed

lemma mem_ack_delivered:
  assumes ok: "mem_ok st" and "qm_pair m \<in> set (map qm_pair (mq_pending st (q, g)))"
  shows "mem_outstanding q g (mem_ack q g (qm_sequence_id m) st) =
    filter (\<lambda>(sid, _). sid \<noteq> qm_sequence_id m) (mem_outstanding q g st)"
proof -
  let ?sid = "qm_sequence_id m" and ?c = "mem_cursor q g st" and ?s = "mq_streams st q"
  have "?sid \<in> qm_sequence_id ` set (mq_pending st (q, g))"
    using assms(2) by (auto simp: qm_pair_def)
  then have "?sid \<in> fst ` set (take ?c ?s)" using ok unfolding mem_ok_def by blast
  moreover have "distinct (map fst (take ?c ?s @ drop ?c ?s))" using ok by (simp add: mem_ok_def)
  ultimately have "?sid \<notin> fst ` set (drop ?c ?s)" by (auto simp only: map_append distinct_append set_map)
  then have "filter (\<lambda>(sid, _). sid \<noteq> ?sid) (drop ?c ?s) = drop ?c ?s"
    by (auto simp: filter_id_conv intro: rev_image_eqI)
  moreover have "filter (\<lambda>(sid, _). sid \<noteq> ?sid) (map qm_pair l) =
      map qm_pair (filter (\<lambda>x. qm_sequence_id x \<noteq> ?sid) l)" for l :: "'a queue_message list"
    by (simp add: filter_map comp_def split_beta)
  moreover have "mem_cursor q g (mem_ack q g ?sid st) = ?c" by (simp add: mem_cursor_def mem_ack_def)
  ultimately show ?thesis by (simp add: mem_outstanding_def mem_ack_def)
qed

lemma mem_ack_ok:
  assumes ok: "mem_ok st"
  shows "mem_ok (mem_ack q g sid st)"
proof -
  let ?st = "mem_ack q g sid st"
  have same: "mq_streams ?st = mq_streams st" "mq_next_seq ?st = mq_next_seq st"
    "mem_cursor p h ?st = mem_cursor p h st" for p h
    by (simp_all add: mem_cursor_def mem_ack_def)
  have pend: "\<exists>P. mq_pending ?st k = filter P (mq_pending st k)" for k
    by (auto simp: mem_ack_def intro: exI [of _ "\<lambda>_. True"])
  show ?thesis
    unfolding mem_ok_def same
  proof (intro conjI allI)
    fix p h
    show "distinct (map fst (mq_streams st p))"
      "\<forall>sid\<in>fst ` set (mq_streams st p). \<exists>k\<le>mq_next_seq st. sid = str_of_nat k"
      using ok unfolding mem_ok_def by blast+
    obtain P where P: "mq_pending ?st (p, h) = filter P (mq_pending st (p, h))" using pend by blast
    have "distinct (map qm_sequence_id (mq_pending st (p, h)))"
      and sub: "qm_sequence_id ` set (mq_pending st (p, h)) \<subseteq> fst ` set (take (mem_cursor p h st) (mq_streams st p))"
      using ok unfolding mem_ok_def by blast+
    then show "distinct (map qm_sequence_id (mq_pending ?st (p, h)))"
      unfolding P by (simp add: distinct_map_filter)
    show "qm_sequence_id ` set (mq_pending ?st (p, h)) \<subseteq> fst ` set (take (mem_cursor p h st) (mq_streams st p))"
      using sub unfolding P by (auto simp only: set_filter)
    show "mem_cursor p h st \<le> length (mq_streams st p)"
      using ok unfolding mem_ok_def by blast
  qed
qed

lemma mem_publish_ok:
  assumes ok: "mem_ok st"
  shows "mem_ok (snd (mem_publish q m st))"
proof -
  have cur: "mem_cursor p h (snd (mem_publish q m st)) = mem_cursor p h st" for p h
    by (simp add: mem_publish_def mem_cursor_def Let_def)
  have new: "str_of_nat (Suc (mq_next_seq st)) \<notin> fst ` set (mq_streams st q)"
    using ok by (fastforce simp: mem_ok_def)
  have sub: "fst ` set (take c (mq_streams st p)) \<subseteq> fst ` set (take c (mq_streams (snd (mem_publish q m st)) p))" for c p
    by (auto simp: mem_publish_def Let_def)
  show ?thesis
    unfolding mem_ok_def cur
  proof (intro conjI allI)
    fix p h
    show "distinct (map fst (mq_streams (snd (mem_publish q m st)) p))"
      using ok new by (simp add: mem_publish_def mem_ok_def Let_def)
    show "\<forall>sid\<in>fst ` set (mq_streams (snd (mem_publish q m st)) p).
        \<exists>k\<le>mq_next_seq (snd (mem_publish q m st)). sid = str_of_nat k"
    proof
      fix sid assume "sid \<in> fst ` set (mq_streams (snd (mem_publish q m st)) p)"
      then have "sid \<in> fst ` set (mq_streams st p) \<or> sid = str_of_nat (Suc (mq_next_seq st))"
        by (auto simp: mem_publish_def Let_def split: if_splits)
      moreover have "\<forall>sid\<in>fst ` set (mq_streams st p). \<exists>k\<le>mq_next_seq st. sid = str_of_nat k"
        using ok unfolding mem_ok_def by blast
      ultimately show "\<exists>k\<le>mq_next_seq (snd (mem_publish q m st)). sid = str_of_nat k"
        by (auto simp: mem_publish_def Let_def intro: le_SucI)
    qed
    show "distinct (map qm_sequence_id (mq_pending (snd (mem_publish q m st)) (p, h)))"
      using ok by (simp add: mem_publish_def mem_ok_def Let_def)
    have "qm_sequence_id ` set (mq_pending st (p, h)) \<subseteq> fst ` set (take (mem_cursor p h st) (mq_streams st p))"
      using ok by (simp add: mem_ok_def)
    then show "qm_sequence_id ` set (mq_pending (snd (mem_publish q m st)) (p, h))
        \<subseteq> fst ` set (take (mem_cursor p h st) (mq_streams (snd (mem_publish q m st)) p))"
      using sub by (simp add: mem_publish_def Let_def) blast
    show "mem_cursor p h st \<le> length (mq_streams (snd (mem_publish q m st)) p)"
      using ok by (simp add: mem_publish_def mem_ok_def Let_def le_SucI)
  qed
qed

lemma mem_publish_outstanding:
  assumes ok: "mem_ok st"
  shows "mem_outstanding q g (snd (mem_publish p m st)) =
    mem_outstanding q g st @ (if p = q then [(str_of_nat (Suc (mq_next_seq st)), m)] else [])"
proof -
  have "mem_cursor q g st \<le> length (mq_streams st q)" using ok by (simp add: mem_ok_def)
  then show ?thesis
    by (simp add: mem_publish_def mem_outstanding_def mem_cursor_def Let_def)
qed

lemma mem_outstanding_distinct:
  assumes ok: "mem_ok st"
  shows "distinct (map fst (mem_outstanding q g st))"
proof -
  let ?c = "mem_cursor q g st" and ?s = "mq_streams st q"
  have "distinct (map fst (take ?c ?s @ drop ?c ?s))" using ok by (simp add: mem_ok_def)
  then have "fst ` set (take ?c ?s) \<inter> fst ` set (drop ?c ?s) = {}" "distinct (map fst (drop ?c ?s))"
    by (auto simp only: map_append distinct_append set_map)
  moreover have "qm_sequence_id ` set (mq_pending st (q, g)) \<subseteq> fst ` set (take ?c ?s)"
    "distinct (map qm_sequence_id (mq_pending st (q, g)))"
    using ok unfolding mem_ok_def by blast+
  ultimately show ?thesis
    unfolding mem_outstanding_def map_append map_map map_fst_qm_pair distinct_append set_map by blast
qed

interpretation mem: queue_port mem_publish mem_published mem_ok mem_consume mem_ack mem_outstanding mem_delivered
proof unfold_locales
  fix st :: "'a mem_queue" and q g p h sid :: string and n b :: nat and m :: 'a
    and ms :: "'a queue_message list" and x :: "'a queue_message" and res st'
  show "mem_ok st'" if "mem_ok st" "mem_publish q m st = (res, st')"
    using mem_publish_ok [OF that(1), of q m] that(2) by simp
  show "mem_published q st' = mem_published q st @ [m] \<and> (\<forall>p. p \<noteq> q \<longrightarrow> mem_published p st' = mem_published p st)"
    if "mem_publish q m st = (Inr sid, st')"
    using that by (auto simp: mem_publish_def mem_published_def Let_def)
  show "mem_published p st' = mem_published p st" if "mem_publish q m st = (Inl err, st')" for err
    using that by (simp add: mem_publish_def Let_def)
  show "mem_ok (snd (mem_consume q g n b st))" if "mem_ok st"
    using mem_consume_keeps [OF that] by blast
  show "\<exists>k\<le>n. map qm_pair ms = take k (mem_outstanding q g st)"
    if "mem_ok st" "mem_consume q g n b st = (Some ms, st')"
    using mem_consume_result [OF that] by blast
  show "\<exists>x xs. fst (mem_consume q g n b st) = Some (x # xs)"
    if "0 < n" "mem_outstanding q g st \<noteq> []"
    by (rule mem_consume_some [OF that])
  show "mem_outstanding p h (snd (mem_consume q g n b st)) = mem_outstanding p h st" if "mem_ok st"
    using mem_consume_keeps [OF that] by blast
  show "mem_published p (snd (mem_consume q g n b st)) = mem_published p st"
    by (simp add: mem_consume_def mem_published_def Let_def split_beta)
  show "qm_pair ` set ms \<subseteq> mem_delivered q g st'"
    if "mem_ok st" "mem_consume q g n b st = (Some ms, st')"
    using mem_consume_result [OF that] by (auto simp: mem_delivered_def)
  show "mem_outstanding q g (mem_ack q g sid st) = filter (\<lambda>(s, _). s \<noteq> sid) (mem_outstanding q g st)"
    if "mem_ok st" "(sid, m) \<in> mem_delivered q g st"
    using mem_ack_delivered [of st "\<lparr>qm_sequence_id = sid, qm_data = m, qm_delivery_count = 0\<rparr>" q g] that
    by (simp add: mem_delivered_def qm_pair_def)
  show "mem_outstanding q g (mem_ack q g sid st) = mem_outstanding q g st"
    if "mem_ok st" "sid \<notin> fst ` set (mem_outstanding q g st)"
  proof -
    have "qm_sequence_id m \<noteq> sid" if "m \<in> set (mq_pending st (q, g))" for m
      using \<open>sid \<notin> fst ` set (mem_outstanding q g st)\<close> that by (force simp: mem_outstanding_def qm_pair_def)
    then have "filter (\<lambda>m. qm_sequence_id m \<noteq> sid) (mq_pending st (q, g)) = mq_pending st (q, g)"
      by (simp add: filter_id_conv)
    then show ?thesis by (simp add: mem_outstanding_def mem_ack_def mem_cursor_def)
  qed
  show "(s, m) \<in> mem_delivered q g (mem_ack q g sid st)" if "(s, m) \<in> mem_delivered q g st" "s \<noteq> sid" for s
    using that by (auto simp: mem_delivered_def mem_ack_def qm_pair_def)
  show "mem_delivered q g st \<subseteq> mem_delivered q g st'" if "mem_publish p m st = (res, st')"
    using that by (auto simp: mem_delivered_def mem_publish_def Let_def)
  show "mem_outstanding q g st' = mem_outstanding q g st" if "mem_publish p m st = (Inl err, st')" for err
    using that by (simp add: mem_publish_def Let_def)
  show "mem_ok (mem_ack q g sid st)" if "mem_ok st" by (rule mem_ack_ok [OF that])
  show "mem_outstanding p h (mem_ack q g sid st) = mem_outstanding p h st" if "p \<noteq> q \<or> h \<noteq> g"
    using that by (auto simp: mem_outstanding_def mem_ack_def mem_cursor_def)
  show "mem_published p (mem_ack q g sid st) = mem_published p st"
    by (simp add: mem_published_def mem_ack_def)
  show "distinct (map fst (mem_outstanding q g st))" if "mem_ok st"
    by (rule mem_outstanding_distinct [OF that])
  show "mem_outstanding q g st' = mem_outstanding q g st @ (if p = q then [(sid, m)] else [])"
    if "mem_ok st" "mem_publish p m st = (Inr sid, st')"
    using mem_publish_outstanding [OF that(1), of q g p m] that(2)
    by (auto simp: mem_publish_def Let_def)
qed

lemma mem_empty_ok [simp]: "mem_ok mem_empty"
  by (simp add: mem_ok_def mem_empty_def mem_cursor_def)

section \<open>Redelivery and replay\<close>

lemma deliver_counts:
  "mq_delivery_counts (snd (deliver key sid data st)) =
     (mq_delivery_counts st)((key, sid) := Suc (mq_delivery_counts st (key, sid)))"
  "qm_delivery_count (fst (deliver key sid data st)) = Suc (mq_delivery_counts st (key, sid))"
  by (simp_all add: deliver_def Let_def)

lemma deliver_all_counts:
  "sid \<notin> fst ` set batch \<Longrightarrow>
   mq_delivery_counts (snd (deliver_all key batch st)) (key, sid) = mq_delivery_counts st (key, sid)"
  by (induction batch arbitrary: st) (auto simp: deliver_counts)

lemma deliver_all_first:
  assumes "batch = (sid, data) # rest" and "distinct (map fst batch)"
  shows "\<exists>xs. fst (deliver_all key batch st) = \<lparr>qm_sequence_id = sid, qm_data = data,
      qm_delivery_count = Suc (mq_delivery_counts st (key, sid))\<rparr> # xs"
    and "mq_delivery_counts (snd (deliver_all key batch st)) (key, sid) = Suc (mq_delivery_counts st (key, sid))"
  using assms by (auto simp: deliver_counts deliver_all_counts deliver_def Let_def)

lemma mem_consume_first:
  assumes ok: "mem_ok st" and "0 < n" and out: "mem_outstanding q g st = (sid, data) # rest"
  shows "\<exists>xs st'. mem_consume q g n b st = (Some (\<lparr>qm_sequence_id = sid, qm_data = data,
      qm_delivery_count = Suc (mq_delivery_counts st ((q, g), sid))\<rparr> # xs), st') \<and>
    mq_delivery_counts st' ((q, g), sid) = Suc (mq_delivery_counts st ((q, g), sid))"
proof -
  have counts: "mq_delivery_counts (mem_ensure_group q g ''0'' st) = mq_delivery_counts st"
    by (simp add: mem_ensure_group_def)
  have dist: "distinct (map fst (mem_outstanding q g st))" by (rule mem_outstanding_distinct [OF ok])
  show ?thesis
  proof (cases "mq_pending st (q, g) = []")
    case False
    then obtain p ps where pend: "mq_pending st (q, g) = p # ps" by (cases "mq_pending st (q, g)") auto
    let ?b = "map qm_pair (take n (mq_pending st (q, g)))"
    have b: "?b = (sid, data) # tl ?b"
      using pend out \<open>0 < n\<close> by (cases n) (auto simp: mem_outstanding_def)
    have d: "distinct (map fst ?b)"
      using dist by (simp add: mem_outstanding_def take_map [symmetric])
    from deliver_all_first [OF b d, of "(q, g)" "mem_ensure_group q g ''0'' st"] show ?thesis
      unfolding mem_consume_pending [OF False] Let_def by (simp add: counts)
  next
    case True
    define batch where "batch = take n (drop (mem_cursor q g st) (mq_streams st q))"
    have b: "batch = (sid, data) # tl batch"
      using True out \<open>0 < n\<close> by (cases n) (auto simp: mem_outstanding_def batch_def)
    have d: "distinct (map fst batch)" by (rule batch_of_stream(1) [OF ok batch_def])
    have "batch \<noteq> []" using b by auto
    define st1 where "st1 = (mem_ensure_group q g ''0'' st)\<lparr>mq_cursors :=
      (mq_cursors (mem_ensure_group q g ''0'' st))((q, g) \<mapsto> mem_cursor q g st + length batch)\<rparr>"
    have st1: "mq_delivery_counts st1 = mq_delivery_counts st" by (simp add: st1_def counts)
    have "mem_consume q g n b st = (Some (fst (deliver_all (q, g) batch st1)), snd (deliver_all (q, g) batch st1))"
      using mem_consume_new [OF True batch_def \<open>batch \<noteq> []\<close>] by (simp add: st1_def Let_def)
    with deliver_all_first [OF b d, of "(q, g)" st1] show ?thesis
      by (auto simp: st1)
  qed
qed

lemma replay_index:
  assumes "distinct (map fst s)" and "s = xs @ (sid, d) # ys"
  shows "length (takeWhile (\<lambda>(t, _). t \<noteq> sid) s) = length xs"
  using assms by (subst assms(2), subst takeWhile_append2) (force simp: image_iff)+

section \<open>Properties\<close>

text \<open>At-least-once delivery. A message that was delivered first in a batch and has not been
  acknowledged is delivered again, first, by the next \<open>consume\<close> of its group, with its delivery
  count one higher; and until then it stays among what the group owes an acknowledgement.\<close>

lemma mem_redelivers:
  assumes "mem_ok st" and "0 < n" and "0 < n'"
    and "mem_consume q g n b st = (Some (x # xs), st')"
  shows "qm_pair x \<in> set (mem_outstanding q g st') \<and>
    (\<exists>y ys st''. mem_consume q g n' b' st' = (Some (y # ys), st'') \<and> qm_pair y = qm_pair x \<and>
      qm_delivery_count y = Suc (qm_delivery_count x))"
proof -
  have st': "st' = snd (mem_consume q g n b st)" using assms(4) by simp
  have ok': "mem_ok st'" and same: "mem_outstanding q g st' = mem_outstanding q g st"
    using mem_consume_keeps [OF assms(1)] st' by blast+
  obtain k where k: "map qm_pair (x # xs) = take k (mem_outstanding q g st)"
    using mem_consume_result [OF assms(1,4)] by blast
  then obtain rest where out: "mem_outstanding q g st = (qm_sequence_id x, qm_data x) # rest"
    by (cases k; cases "mem_outstanding q g st") (auto simp: qm_pair_def)
  have x': "x = \<lparr>qm_sequence_id = qm_sequence_id x, qm_data = qm_data x,
      qm_delivery_count = Suc (mq_delivery_counts st ((q, g), qm_sequence_id x))\<rparr>"
    and c: "mq_delivery_counts st' ((q, g), qm_sequence_id x) = Suc (mq_delivery_counts st ((q, g), qm_sequence_id x))"
    using mem_consume_first [OF assms(1,2) out, of b] assms(4) by auto
  have x: "qm_delivery_count x = Suc (mq_delivery_counts st ((q, g), qm_sequence_id x))"
    by (subst x') simp
  show ?thesis
    using mem_consume_first [OF ok' assms(3) out [folded same], of b'] x c out same
    by (auto simp: qm_pair_def)
qed

lemma mem_redelivers_witness:
  "\<exists>y ys st''. mem_consume ''IN'' ''g'' 5 0
      (snd (mem_consume ''IN'' ''g'' 5 0 (snd (mem_publish ''IN'' (7::nat) mem_empty)))) = (Some (y # ys), st'')
    \<and> qm_delivery_count y = 2"
proof -
  let ?st = "snd (mem_publish ''IN'' (7::nat) mem_empty)"
  have "mem_outstanding ''IN'' ''g'' ?st = (str_of_nat (Suc 0), 7) # []"
    by (simp add: mem_outstanding_def mem_publish_def mem_empty_def mem_cursor_def Let_def)
  from mem_consume_first [OF mem_publish_ok [OF mem_empty_ok] _ this, of 5 0]
  obtain xs st' where first: "mem_consume ''IN'' ''g'' 5 0 ?st = (Some (\<lparr>qm_sequence_id = str_of_nat (Suc 0),
      qm_data = 7, qm_delivery_count = 1\<rparr> # xs), st')"
    by (auto simp: mem_publish_def mem_empty_def Let_def)
  from mem_redelivers [OF mem_publish_ok [OF mem_empty_ok] _ _ first, of 5 0]
  show ?thesis using first by auto
qed

text \<open>Replay resumes strictly after the given position. After \<open>replay_from\<close> with the id of a
  message still in the stream, the group owes exactly the messages published after it; with any
  other id, in particular \<open>"0"\<close>, it owes the whole stream; no other group is affected.\<close>

lemma mem_replay_position:
  assumes "mem_ok st"
  shows "(mq_streams st q = xs @ (sid, d) # ys \<longrightarrow> mem_outstanding q g (mem_replay_from q g sid st) = ys) \<and>
    (sid \<notin> fst ` set (mq_streams st q) \<longrightarrow>
       mem_outstanding q g (mem_replay_from q g sid st) = mq_streams st q) \<and>
    ((p, h) \<noteq> (q, g) \<longrightarrow> mem_outstanding p h (mem_replay_from q g sid st) = mem_outstanding p h st)"
proof (intro conjI impI)
  have "distinct (map fst (mq_streams st q))" using assms by (simp add: mem_ok_def)
  then show "mem_outstanding q g (mem_replay_from q g sid st) = ys" if "mq_streams st q = xs @ (sid, d) # ys"
    using replay_index [OF _ that] that
    by (simp add: mem_outstanding_def mem_replay_from_def mem_cursor_def Let_def)
  show "mem_outstanding q g (mem_replay_from q g sid st) = mq_streams st q" if "sid \<notin> fst ` set (mq_streams st q)"
  proof -
    have "takeWhile (\<lambda>(t, _). t \<noteq> sid) (mq_streams st q) = mq_streams st q"
      using that by (force simp: takeWhile_eq_all_conv)
    then have "length (takeWhile (\<lambda>(t, _). t \<noteq> sid) (mq_streams st q)) = length (mq_streams st q)"
      by (rule arg_cong)
    then show ?thesis by (simp add: mem_outstanding_def mem_replay_from_def mem_cursor_def Let_def)
  qed
  show "mem_outstanding p h (mem_replay_from q g sid st) = mem_outstanding p h st" if "(p, h) \<noteq> (q, g)"
    using that by (auto simp: mem_outstanding_def mem_replay_from_def mem_cursor_def Let_def)
qed

lemma mem_replay_position_witness:
  "mem_outstanding ''IN'' ''g'' (mem_replay_from ''IN'' ''g'' ''0'' (mem_empty :: nat mem_queue)) = []"
  using mem_replay_position [OF mem_empty_ok, where q = "''IN''" and g = "''g''" and sid = "''0''",
      THEN conjunct2, THEN conjunct1] by (simp add: mem_empty_def)

end
