(* ===== verification/Outbox.thy ===== *)
theory Outbox
  imports Audit_Merkle Queue
begin

text \<open>
  The transactional outbox of \<open>libs/outbox\<close>: the row \<open>OutboxMessage\<close>, \<open>write\<close> and the relay's
  \<open>drain_once\<close> over any broker that keeps the locale \<open>publisher\<close>. A message is \<open>dispatched\<close> only
  after its publication; a drain that fails in the middle is rolled back and leaves the rows for
  the next one.
\<close>

section \<open>The table and its writer\<close>

record 'm outbox_message =
  ob_id :: string
  ob_queue :: string
  ob_envelope :: 'm
  ob_created_at :: timestamp
  ob_dispatched :: bool
  ob_dispatched_at :: "timestamp option"
  ob_dispatch_attempts :: nat

record 'm outbox_world = chain_world +
  outbox :: "'m outbox_message list"

definition outbox_write ::
  "env \<Rightarrow> string \<Rightarrow> 'm \<Rightarrow> ('m, 'a) outbox_world_scheme \<Rightarrow> 'm outbox_message \<times> ('m, 'a) outbox_world_scheme"
where
  "outbox_write E queue envelope w =
     (let (oid, w) = draw_uuid E w;
          (t, w) = read_clock E w;
          message = \<lparr>ob_id = oid, ob_queue = queue, ob_envelope = envelope, ob_created_at = t,
                     ob_dispatched = False, ob_dispatched_at = None, ob_dispatch_attempts = 0\<rparr>
      in (message, w\<lparr>outbox := outbox w @ [message]\<rparr>))"

lemma outbox_write_outbox:
  "outbox (snd (outbox_write E q m w)) = outbox w @ [fst (outbox_write E q m w)]"
  by (simp add: outbox_write_def world_defs)

lemma outbox_write_fields [simp]:
  "ob_queue (fst (outbox_write E q m w)) = q" "ob_envelope (fst (outbox_write E q m w)) = m"
  "\<not> ob_dispatched (fst (outbox_write E q m w))"
  "ob_created_at (fst (outbox_write E q m w)) = utcnow E (clock_reads w)"
  by (simp_all add: outbox_write_def world_defs)

lemma outbox_write_frame [simp]:
  "audit_entries (snd (outbox_write E q m w)) = audit_entries w"
  "chain_roots (snd (outbox_write E q m w)) = chain_roots w"
  "outbox_world.more (snd (outbox_write E q m w)) = outbox_world.more w"
  "clock_reads (snd (outbox_write E q m w)) = Suc (clock_reads w)"
  by (simp_all add: outbox_write_def world_defs)

lemma outbox_write_logged [intro, simp]: "logged E w (snd (outbox_write E q m w))"
  by (rule logged.quiet) simp_all

section \<open>The relay\<close>

definition mark_dispatched :: "timestamp \<Rightarrow> 'm outbox_message \<Rightarrow> 'm outbox_message" where
  "mark_dispatched t row =
     row\<lparr>ob_dispatched := True, ob_dispatched_at := Some t,
         ob_dispatch_attempts := ob_dispatch_attempts row + 1\<rparr>"

fun dispatch_rows ::
  "env \<Rightarrow> (string \<Rightarrow> 'm \<Rightarrow> 'q \<Rightarrow> (exn + string) \<times> 'q) \<Rightarrow> 'm outbox_message list
    \<Rightarrow> ('m, 'a) outbox_world_scheme \<Rightarrow> 'q \<Rightarrow> exn option \<times> ('m, 'a) outbox_world_scheme \<times> 'q"
where
  "dispatch_rows E publish [] w q = (None, w, q)"
| "dispatch_rows E publish (row # rows) w q =
     (case publish (ob_queue row) (ob_envelope row) q of
        (Inl err, q) \<Rightarrow> (Some err, w, q)
      | (Inr _, q) \<Rightarrow>
          (let (t, w) = read_clock E w
           in dispatch_rows E publish rows
                (w\<lparr>outbox := set_by ob_id (ob_id row) (mark_dispatched t) (outbox w)\<rparr>) q))"

definition pending_rows :: "(string \<Rightarrow> bool) \<Rightarrow> nat \<Rightarrow> ('m, 'a) outbox_world_scheme \<Rightarrow> 'm outbox_message list" where
  \<comment> \<open>\<open>locked\<close>: the rows another relay's transaction holds, which \<open>SKIP LOCKED\<close> passes over\<close>
  "pending_rows locked batch_size w =
     take batch_size (rows_by ob_created_at (\<lambda>r. \<not> ob_dispatched r \<and> \<not> locked (ob_id r)) (outbox w))"

definition drain_once ::
  "env \<Rightarrow> (string \<Rightarrow> 'm \<Rightarrow> 'q \<Rightarrow> (exn + string) \<times> 'q) \<Rightarrow> (string \<Rightarrow> bool) \<Rightarrow> nat
    \<Rightarrow> ('m, 'a) outbox_world_scheme \<Rightarrow> 'q \<Rightarrow> (exn + nat) \<times> ('m, 'a) outbox_world_scheme \<times> 'q"
where
  "drain_once E publish locked batch_size w q =
     (let pending = pending_rows locked batch_size w
      in case dispatch_rows E publish pending w q of
           (Some err, w', q') \<Rightarrow> (Inl err, rolled_back w w', q')
         | (None, w', q') \<Rightarrow> (Inr (length pending), w', q'))"

lemma rolled_back_tables [simp]:
  "outbox (rolled_back w w') = outbox w" "audit_entries (rolled_back v v') = audit_entries v"
  by (simp_all add: rolled_back_def)

section \<open>The relay over any broker\<close>

definition sent_on :: "string \<Rightarrow> 'm outbox_message list \<Rightarrow> 'm list" where
  "sent_on q rows = map ob_envelope (filter (\<lambda>r. ob_queue r = q) rows)"

lemma sent_on_simps [simp]:
  "sent_on q [] = []"
  "sent_on q (r # rows) = (if ob_queue r = q then [ob_envelope r] else []) @ sent_on q rows"
  by (simp_all add: sent_on_def)

definition dispatched_published :: "(string \<Rightarrow> 'q \<Rightarrow> 'm list) \<Rightarrow> ('m, 'a) outbox_world_scheme \<Rightarrow> 'q \<Rightarrow> bool" where
  \<comment> \<open>nothing is marked dispatched that was not published on its queue\<close>
  "dispatched_published published w q \<longleftrightarrow>
     (\<forall>row\<in>set (outbox w). ob_dispatched row \<longrightarrow> ob_envelope row \<in> set (published (ob_queue row) q))"

definition marked :: "string set \<Rightarrow> 'm outbox_message list \<Rightarrow> 'm outbox_message list \<Rightarrow> bool" where
  \<comment> \<open>\<open>new\<close> is \<open>old\<close> with the rows of these ids marked dispatched\<close>
  "marked ids old new \<longleftrightarrow> list_all2 (\<lambda>r r'. ob_id r' = ob_id r \<and> ob_queue r' = ob_queue r \<and>
     ob_envelope r' = ob_envelope r \<and> ob_created_at r' = ob_created_at r \<and>
     ob_dispatched r' = (ob_dispatched r \<or> ob_id r \<in> ids) \<and>
     (ob_id r \<notin> ids \<longrightarrow> r' = r)) old new"

lemma marked_refl: "marked {} rows rows"
  by (simp add: marked_def list_all2_same)

lemma marked_step:
  "marked ids (set_by ob_id i (mark_dispatched t) rows) new \<Longrightarrow> marked (insert i ids) rows new"
  unfolding marked_def set_by_def list_all2_map1
  by (erule list_all2_mono) (auto simp: mark_dispatched_def split: if_splits)

context publisher
begin

lemma dispatch_rows_ok:
  assumes "ok q" and "dispatch_rows E publish rows w q = (res, w', q')"
  shows "ok q'" and "logged E w w'"
    and "\<exists>new. \<forall>p. published p q' = published p q @ sent_on p new \<and> (\<exists>rest. rows = new @ rest) \<and>
      (res = None \<longrightarrow> new = rows)"
    and "res = None \<Longrightarrow> marked (ob_id ` set rows) (outbox w) (outbox w')"
proof -
  have "ok q' \<and> logged E w w' \<and>
    (\<exists>new. \<forall>p. published p q' = published p q @ sent_on p new \<and> (\<exists>rest. rows = new @ rest) \<and>
      (res = None \<longrightarrow> new = rows)) \<and>
    (res = None \<longrightarrow> marked (ob_id ` set rows) (outbox w) (outbox w'))"
    using assms
  proof (induction rows arbitrary: w q)
    case Nil
    then show ?case by (auto intro: exI [of _ "[]"] simp: marked_refl)
  next
    case (Cons row rows)
    obtain r q1 where pub: "publish (ob_queue row) (ob_envelope row) q = (r, q1)" by fastforce
    have ok1: "ok q1" by (rule publish_ok [OF Cons.prems(1) pub])
    show ?case
    proof (cases r)
      case (Inl err)
      with Cons.prems pub have "res = Some err" "w' = w" "q' = q1" by auto
      with ok1 publish_Inl [OF Cons.prems(1) pub [unfolded Inl]] show ?thesis
        by (auto intro: exI [of _ "[]"])
    next
      case (Inr sid)
      let ?w1 = "w\<lparr>clock_reads := Suc (clock_reads w),
        outbox := set_by ob_id (ob_id row) (mark_dispatched (utcnow E (clock_reads w))) (outbox w)\<rparr>"
      have rest: "dispatch_rows E publish rows ?w1 q1 = (res, w', q')"
        using Cons.prems(2) pub Inr by (simp add: world_defs)
      note pub1 = publish_Inr [OF Cons.prems(1) pub [unfolded Inr]]
      from Cons.IH [OF ok1 rest] obtain new where
        IH: "ok q'" "logged E ?w1 w'" "res = None \<longrightarrow> marked (ob_id ` set rows) (outbox ?w1) (outbox w')"
        "\<forall>p. published p q' = published p q1 @ sent_on p new" "\<exists>rest. rows = new @ rest"
        "res = None \<longrightarrow> new = rows" by blast
      have "logged E w ?w1" by (rule logged.quiet) simp_all
      with IH(2) have "logged E w w'" by (rule logged_trans [rotated])
      moreover have "\<forall>p. published p q' = published p q @ sent_on p (row # new)"
        using IH(4) pub1 by auto
      moreover have "res = None \<longrightarrow> marked (ob_id ` set (row # rows)) (outbox w) (outbox w')"
        using IH(3) by (auto intro: marked_step)
      ultimately show ?thesis using IH(1,5,6) by (metis append_Cons)
    qed
  qed
  then show "ok q'" and "logged E w w'"
    and "\<exists>new. \<forall>p. published p q' = published p q @ sent_on p new \<and> (\<exists>rest. rows = new @ rest) \<and>
      (res = None \<longrightarrow> new = rows)"
    and "res = None \<Longrightarrow> marked (ob_id ` set rows) (outbox w) (outbox w')" by blast+
qed

end

lemma set_pending_rows:
  "set (pending_rows locked n w) \<subseteq> {r \<in> set (outbox w). \<not> ob_dispatched r \<and> \<not> locked (ob_id r)}"
  unfolding pending_rows_def by (auto dest: in_set_takeD)

lemma marked_undispatched:
  "marked ids old new \<Longrightarrow>
   filter (\<lambda>r. \<not> ob_dispatched r) new = filter (\<lambda>r. \<not> ob_dispatched r \<and> ob_id r \<notin> ids) old"
  unfolding marked_def by (induction old new rule: list_all2_induct) auto

lemma marked_dispatchedD:
  "marked ids old new \<Longrightarrow> r' \<in> set new \<Longrightarrow> ob_dispatched r' \<Longrightarrow>
   \<exists>r\<in>set old. ob_id r = ob_id r' \<and> ob_queue r = ob_queue r' \<and> ob_envelope r = ob_envelope r' \<and>
     (ob_dispatched r \<or> ob_id r \<in> ids)"
  unfolding marked_def by (induction old new rule: list_all2_induct) auto

lemma marked_ids: "marked ids old new \<Longrightarrow> map ob_id new = map ob_id old"
  unfolding marked_def by (induction old new rule: list_all2_induct) auto

lemma in_sent_on: "r \<in> set rows \<Longrightarrow> ob_envelope r \<in> set (sent_on (ob_queue r) rows)"
  by (auto simp: sent_on_def)

lemma distinct_pending:
  assumes "distinct (map ob_id (outbox w))"
  shows "distinct (map ob_id (pending_rows locked n w))"
proof -
  have "distinct (map ob_id (filter P (outbox w)))" for P
    using assms by (rule distinct_map_filter)
  then have "distinct (map ob_id (rows_by ob_created_at P (outbox w)))" for P
    unfolding rows_by_def by (simp add: distinct_map)
  then show ?thesis
    unfolding pending_rows_def by (simp add: take_map [symmetric])
qed

lemma length_pending:
  "length (pending_rows locked n w) =
     min n (length (filter (\<lambda>r. \<not> ob_dispatched r \<and> \<not> locked (ob_id r)) (outbox w)))"
  by (simp add: pending_rows_def rows_by_def min.commute)

lemma filter_not_in_ids:
  assumes "distinct (map f xs)" and "set P \<subseteq> set xs" and "distinct (map f P)" and "\<forall>x\<in>set P. Q x"
  shows "length (filter (\<lambda>x. Q x \<and> f x \<notin> f ` set P) xs) = length (filter Q xs) - length P"
proof -
  have inj: "inj_on f (set xs)" and dx: "distinct xs" using assms(1) by (auto simp: distinct_map)
  have dP: "distinct P" using assms(3) by (simp add: distinct_map)
  have "set (filter (\<lambda>x. Q x \<and> f x \<notin> f ` set P) xs) = set (filter Q xs) - set P"
    using inj assms(2) by (auto dest: inj_onD)
  moreover have "set P \<subseteq> set (filter Q xs)" using assms(2,4) by auto
  ultimately have "card (set (filter (\<lambda>x. Q x \<and> f x \<notin> f ` set P) xs)) = card (set (filter Q xs)) - card (set P)"
    by (simp only: card_Diff_subset finite_set)
  then show ?thesis
    using dx dP by (simp only: distinct_card distinct_filter)
qed

context publisher
begin

lemma drain_success:
  assumes "ok q" and "drain_once E publish locked n w q = (Inr k, w', q')"
  shows "k = length (pending_rows locked n w)"
    and "published p q' = published p q @ sent_on p (pending_rows locked n w)"
    and "marked (ob_id ` set (pending_rows locked n w)) (outbox w) (outbox w')"
    and "ok q'" and "logged E w w'"
proof -
  from assms(2) have d: "dispatch_rows E publish (pending_rows locked n w) w q = (None, w', q')"
    and k: "k = length (pending_rows locked n w)"
    by (auto simp: drain_once_def Let_def split: prod.splits option.splits)
  from k show "k = length (pending_rows locked n w)" .
  note D = dispatch_rows_ok [OF assms(1) d]
  from D(3) show "published p q' = published p q @ sent_on p (pending_rows locked n w)" by auto
  from D(4) show "marked (ob_id ` set (pending_rows locked n w)) (outbox w) (outbox w')" by simp
  from D(1,2) show "ok q'" "logged E w w'" .
qed

lemma drain_failure:
  assumes "ok q" and "drain_once E publish locked n w q = (Inl err, w', q')"
  shows "outbox w' = outbox w" and "audit_entries w' = audit_entries w" and "ok q'"
    and "\<exists>new rest. pending_rows locked n w = new @ rest \<and> published p q' = published p q @ sent_on p new"
proof -
  from assms(2) obtain e w1 where d: "dispatch_rows E publish (pending_rows locked n w) w q = (Some e, w1, q')"
    and w': "w' = rolled_back w w1"
    by (auto simp: drain_once_def Let_def split: prod.splits option.splits)
  show "outbox w' = outbox w" "audit_entries w' = audit_entries w" by (simp_all add: w')
  note D = dispatch_rows_ok [OF assms(1) d]
  from D(1) show "ok q'" .
  from D(3) show "\<exists>new rest. pending_rows locked n w = new @ rest \<and> published p q' = published p q @ sent_on p new"
    by metis
qed

lemma drain_keeps_dispatched_published:
  assumes ok: "ok q" and ids: "distinct (map ob_id (outbox w))"
    and inv: "dispatched_published published w q"
    and d: "drain_once E publish locked n w q = (res, w', q')"
  shows "dispatched_published published w' q'"
proof (cases res)
  case (Inl err)
  from drain_failure [OF ok d [unfolded Inl]] inv show ?thesis
    unfolding dispatched_published_def by (metis UnCI set_append)
next
  case (Inr k)
  note D = drain_success [OF ok d [unfolded Inr]]
  show ?thesis
    unfolding dispatched_published_def
  proof (intro ballI impI)
    fix r' assume r': "r' \<in> set (outbox w')" "ob_dispatched r'"
    obtain r where r: "r \<in> set (outbox w)" "ob_id r = ob_id r'" "ob_queue r = ob_queue r'"
        "ob_envelope r = ob_envelope r'" "ob_dispatched r \<or> ob_id r \<in> ob_id ` set (pending_rows locked n w)"
      using marked_dispatchedD [OF D(3) r'] by blast
    from r(5) have "ob_envelope r \<in> set (published (ob_queue r) q')"
    proof
      assume "ob_dispatched r"
      then show ?thesis using inv r(1) unfolding D(2) dispatched_published_def by simp
    next
      assume "ob_id r \<in> ob_id ` set (pending_rows locked n w)"
      then obtain x where x: "x \<in> set (pending_rows locked n w)" "ob_id x = ob_id r" by auto
      then have "x \<in> set (outbox w)" using set_pending_rows by blast
      then have "x = r" using ids r(1) x(2) by (auto simp: distinct_map dest: inj_onD)
      then show ?thesis using in_sent_on [OF x(1)] unfolding D(2) by simp
    qed
    then show "ob_envelope r' \<in> set (published (ob_queue r') q')" using r by simp
  qed
qed

lemma drain_progress:
  assumes "ok q" and ids: "distinct (map ob_id (outbox w))"
    and "drain_once E publish (\<lambda>_. False) n w q = (Inr k, w', q')"
  shows "length (filter (\<lambda>r. \<not> ob_dispatched r) (outbox w')) =
    length (filter (\<lambda>r. \<not> ob_dispatched r) (outbox w)) - n"
proof -
  let ?P = "pending_rows (\<lambda>_. False) n w"
  note D = drain_success [OF assms(1,3)]
  have "length (filter (\<lambda>r. \<not> ob_dispatched r) (outbox w')) =
      length (filter (\<lambda>r. \<not> ob_dispatched r) (outbox w)) - length ?P"
    unfolding marked_undispatched [OF D(3)]
    by (rule filter_not_in_ids [OF ids _ distinct_pending [OF ids]]) (use set_pending_rows in fastforce)+
  then show ?thesis using length_pending [of "\<lambda>_. False" n w] by (simp add: min_def split: if_splits)
qed

end

section \<open>Properties\<close>

text \<open>The relay publishes, in the order of \<open>created_at\<close>, exactly the rows it then marks. A drain
  over the in-memory broker returns the number of rows it took (the oldest undispatched rows no
  other relay has locked, up to the batch size), appends their envelopes to their queues in that
  order, marks exactly those rows dispatched and leaves every other row as it was.\<close>

lemma drain_publishes_and_marks:
  fixes w w' :: "('m, 'a) outbox_world_scheme"
  assumes "mem_ok q" and "drain_once E mem_publish locked batch_size w q = (res, w', q')"
  shows "res = Inr (length (pending_rows locked batch_size w)) \<and>
    (\<forall>p. mem_published p q' = mem_published p q @ sent_on p (pending_rows locked batch_size w)) \<and>
    marked (ob_id ` set (pending_rows locked batch_size w)) (outbox w) (outbox w')"
proof -
  have "fst (dispatch_rows E mem_publish rows v st) = None" for rows and v :: "('m, 'a) outbox_world_scheme" and st
    by (induction rows arbitrary: v st) (auto simp: mem_publish_def Let_def split_beta)
  from this [of "pending_rows locked batch_size w" w q] obtain k where "res = Inr k"
    using assms(2) by (cases "dispatch_rows E mem_publish (pending_rows locked batch_size w) w q")
      (auto simp: drain_once_def Let_def)
  with mem.drain_success [OF assms(1), of E locked batch_size w k w' q'] assms(2) show ?thesis
    by simp
qed

definition demo_outbox :: "nat outbox_world" where
  "demo_outbox = snd (outbox_write demo_env ''IN'' 2 (snd (outbox_write demo_env ''IN'' (1::nat)
     \<lparr>uuids_drawn = 0, clock_reads = 0, audit_entries = [], chain_roots = [], anchor_receipts = [],
      outbox = []\<rparr>)))"

lemma demo_outbox_ids: "distinct (map ob_id (outbox demo_outbox))"
  by (simp add: demo_outbox_def outbox_write_def world_defs demo_env_def)

lemma drain_publishes_and_marks_witness:
  "\<exists>w' q'. drain_once demo_env mem_publish (\<lambda>_. False) 1 demo_outbox mem_empty = (Inr 1, w', q') \<and>
     mem_published ''IN'' q' = [1]"
proof -
  have p: "pending_rows (\<lambda>_. False) 1 demo_outbox = [hd (outbox demo_outbox)]"
    "ob_envelope (hd (outbox demo_outbox)) = 1" "ob_queue (hd (outbox demo_outbox)) = ''IN''"
    by (simp_all add: pending_rows_def demo_outbox_def outbox_write_def world_defs demo_env_def rows_by_def)
  obtain res w' q' where d: "drain_once demo_env mem_publish (\<lambda>_. False) 1 demo_outbox mem_empty = (res, w', q')"
    using prod_cases3 by blast
  from drain_publishes_and_marks [OF mem_empty_ok d] show ?thesis
    unfolding d p(1) using p(2,3) by (auto simp: mem_published_def mem_empty_def)
qed

text \<open>C17. Nothing is marked dispatched that was not published. The invariant holds after writing a
  message to the outbox and after every drain over every broker that keeps the port's contract,
  whether it succeeds or fails half-way; and a drain that fails leaves the whole outbox as it
  was, having published a prefix of the rows it took (which the next drain publishes again).\<close>

theorem dispatched_is_published:
  assumes "publisher publish published ok" and "ok q"
    and "distinct (map ob_id (outbox w))" and "dispatched_published published w q"
    and "drain_once E publish locked batch_size w q = (res, w', q')"
  shows "dispatched_published published w' q' \<and>
    dispatched_published published (snd (outbox_write E queue m w)) q \<and>
    (isl res \<longrightarrow> outbox w' = outbox w \<and>
       (\<exists>new rest. pending_rows locked batch_size w = new @ rest \<and>
          published p q' = published p q @ sent_on p new))"
proof (intro conjI impI)
  show "dispatched_published published w' q'"
    by (rule publisher.drain_keeps_dispatched_published [OF assms])
  show "dispatched_published published (snd (outbox_write E queue m w)) q"
    using assms(4) by (auto simp: dispatched_published_def outbox_write_outbox)
  assume "isl res"
  then obtain err where d: "drain_once E publish locked batch_size w q = (Inl err, w', q')"
    using assms(5) by (auto simp: isl_def)
  note F = publisher.drain_failure [OF assms(1,2) d]
  show "outbox w' = outbox w" by (rule F(1))
  show "\<exists>new rest. pending_rows locked batch_size w = new @ rest \<and> published p q' = published p q @ sent_on p new"
    by (rule F(4))
qed

definition flaky_publish :: "string \<Rightarrow> nat \<Rightarrow> (nat \<times> (string \<times> nat) list) \<Rightarrow> (exn + string) \<times> (nat \<times> (string \<times> nat) list)" where
  \<comment> \<open>a broker whose connection is lost after a number of publications\<close>
  "flaky_publish q m st = (case st of (0, log) \<Rightarrow> (Inl (OSError ''broker''), st)
     | (Suc k, log) \<Rightarrow> (Inr ''id'', (k, log @ [(q, m)])))"

lemma flaky_publisher:
  "publisher flaky_publish (\<lambda>q st. map snd (filter (\<lambda>(p, m). p = q) (snd st))) (\<lambda>_. True)"
  by unfold_locales (auto simp: flaky_publish_def split: nat.splits prod.splits)

theorem dispatched_is_published_witness:
  "\<exists>w' q'. drain_once demo_env flaky_publish (\<lambda>_. False) 2 demo_outbox (1, []) = (Inl (OSError ''broker''), w', q') \<and>
     outbox w' = outbox demo_outbox \<and> snd q' = [(''IN'', 1)]"
proof -
  have d: "drain_once demo_env flaky_publish (\<lambda>_. False) 2 demo_outbox (1, []) = (Inl (OSError ''broker''),
      fst (snd (drain_once demo_env flaky_publish (\<lambda>_. False) 2 demo_outbox (1, []))), (0, [(''IN'', 1)]))"
    by (simp add: drain_once_def pending_rows_def demo_outbox_def outbox_write_def world_defs demo_env_def
        rows_by_def flaky_publish_def numeral_2_eq_2)
  have "dispatched_published (\<lambda>q st. map snd (filter (\<lambda>(p, m). p = q) (snd st))) demo_outbox (1, [])"
    by (simp add: dispatched_published_def demo_outbox_def outbox_write_outbox outbox_write_def world_defs)
  from dispatched_is_published [OF flaky_publisher _ demo_outbox_ids this d] show ?thesis
    using d by (metis (no_types, lifting) isl_def snd_conv)
qed

primrec drains :: "env \<Rightarrow> nat \<Rightarrow> nat \<Rightarrow> ('m, 'a) outbox_world_scheme \<Rightarrow> 'm mem_queue \<Rightarrow>
    ('m, 'a) outbox_world_scheme \<times> 'm mem_queue" where
  "drains E batch_size 0 w q = (w, q)"
| "drains E batch_size (Suc k) w q =
     (case drain_once E mem_publish (\<lambda>_. False) batch_size w q of (_, w, q) \<Rightarrow> drains E batch_size k w q)"

lemma drain_mem:
  fixes w :: "('m, 'a) outbox_world_scheme"
  assumes "mem_ok q"
  shows "\<exists>k w' q'. drain_once E mem_publish locked n w q = (Inr k, w', q')"
proof -
  have "fst (dispatch_rows E mem_publish rows v st) = None" for rows and v :: "('m, 'a) outbox_world_scheme" and st
    by (induction rows arbitrary: v st) (auto simp: mem_publish_def Let_def split_beta)
  from this [of "pending_rows locked n w" w q] show ?thesis
    by (cases "dispatch_rows E mem_publish (pending_rows locked n w) w q")
       (simp add: drain_once_def Let_def)
qed

text \<open>C18. Every message is dispatched in the end. When no other relay holds locks, a successful drain
  lowers the number of undispatched rows by the batch size (or to zero); so over the in-memory
  broker, which never fails, as many drains as there are batches leave none undispatched.\<close>

theorem drains_dispatch_all:
  fixes w :: "('m, 'a) outbox_world_scheme"
  assumes "mem_ok q" and "distinct (map ob_id (outbox w))"
    and "length (filter (\<lambda>r. \<not> ob_dispatched r) (outbox w)) \<le> k * batch_size"
    and "dispatched_published mem_published w q"
  shows "\<forall>r\<in>set (outbox (fst (drains E batch_size k w q))).
    ob_dispatched r \<and> ob_envelope r \<in> set (mem_published (ob_queue r) (snd (drains E batch_size k w q)))"
  using assms
proof (induction k arbitrary: w q)
  case 0
  then show ?case by (auto simp: dispatched_published_def filter_empty_conv)
next
  case (Suc k)
  obtain c w1 q1 where d: "drain_once E mem_publish (\<lambda>_. False) batch_size w q = (Inr c, w1, q1)"
    using drain_mem [OF Suc.prems(1)] by metis
  note D = mem.drain_success [OF Suc.prems(1) d]
  have "length (filter (\<lambda>r. \<not> ob_dispatched r) (outbox w1)) \<le> k * batch_size"
    using mem.drain_progress [OF Suc.prems(1,2) d] Suc.prems(3) by simp
  moreover have "distinct (map ob_id (outbox w1))" using marked_ids [OF D(3)] Suc.prems(2) by simp
  moreover have "drains E batch_size (Suc k) w q = drains E batch_size k w1 q1" using d by simp
  ultimately show ?case
    using Suc.IH [OF D(4)] mem.drain_keeps_dispatched_published [OF Suc.prems(1,2,4) d] by (simp only:)
qed

lemma demo_outbox_undispatched: "length (filter (\<lambda>r. \<not> ob_dispatched r) (outbox demo_outbox)) \<le> 2 * 1"
  by (simp add: demo_outbox_def outbox_write_def world_defs)

lemma demo_outbox_published: "dispatched_published mem_published demo_outbox mem_empty"
  by (simp add: demo_outbox_def outbox_write_def world_defs dispatched_published_def)

theorem drains_dispatch_all_witness:
  "list_all (\<lambda>r. ob_dispatched r \<and> ob_envelope r \<in> set (mem_published (ob_queue r) (snd (drains demo_env 1 2 demo_outbox mem_empty))))
     (outbox (fst (drains demo_env 1 2 demo_outbox mem_empty)))"
  unfolding list_all_iff
  by (rule drains_dispatch_all [OF mem_empty_ok demo_outbox_ids demo_outbox_undispatched demo_outbox_published])

end
