(* ===== verification/Envelope.thy ===== *)
theory Envelope
  imports Outbox
begin

text \<open>
  The work envelope of \<open>libs/envelope\<close> (\<open>landenvelope\<close>): its row, \<open>pin\<close> and \<open>read\<close>, and the scope
  that refuses a live lookup while an envelope is pinned; and the message shape of
  \<open>libs/observability\<close> (\<open>emit\<close>, \<open>trace_id_for\<close>) that carries the envelope between queues.
\<close>

section \<open>The row\<close>

record work_envelope =
  we_envelope_id :: string
  we_document_id :: string
  we_page_id :: string
  we_pinned_at :: timestamp
  we_model_versions :: "(string \<times> string) list"
  we_config_version :: string

record 'm envelope_world = "'m outbox_world" +
  work_envelopes :: "work_envelope list"

definition REQUIRED_MODEL_KEYS :: "string list" where
  "REQUIRED_MODEL_KEYS =
     [''triage_classifier'', ''printed_ocr'', ''hwr'', ''confidence_calibrator'', ''novelty_detector'']"

section \<open>\<open>pin.py\<close>\<close>

definition find_by_page :: "string \<Rightarrow> ('m, 'a) envelope_world_scheme \<Rightarrow> exn + work_envelope option" where
  "find_by_page page_id w =
     scalar_one_or_none (filter (\<lambda>e. we_page_id e = page_id) (work_envelopes w))"

definition missing_keys :: "(string \<times> string) list \<Rightarrow> string list" where
  "missing_keys model_versions = sort (filter (\<lambda>k. k \<notin> fst ` set model_versions) REQUIRED_MODEL_KEYS)"

definition extra_keys :: "(string \<times> string) list \<Rightarrow> string list" where
  "extra_keys model_versions =
     sort (filter (\<lambda>k. k \<notin> set REQUIRED_MODEL_KEYS) (map fst model_versions))"

text \<open>
  \<open>winner\<close> is the envelope, if any, that another transaction commits for the page between this
  one's lookup and its insert; the unique constraint on \<open>page_id\<close> then rejects the insert, the
  savepoint undoes it, and the winner is returned.
\<close>

definition pin ::
  "env \<Rightarrow> work_envelope option \<Rightarrow> string \<Rightarrow> string \<Rightarrow> (string \<times> string) list \<Rightarrow> string
    \<Rightarrow> ('m, 'a) envelope_world_scheme \<Rightarrow> (exn + work_envelope) \<times> ('m, 'a) envelope_world_scheme"
where
  "pin E winner document_id page_id model_versions config_version w =
     (case find_by_page page_id w of
        Inl err \<Rightarrow> (Inl err, w)
      | Inr (Some existing) \<Rightarrow> (Inr existing, w)
      | Inr None \<Rightarrow>
          if missing_keys model_versions \<noteq> [] then
            (Inl (IncompleteModelVersions (missing_keys model_versions)), w)
          else if extra_keys model_versions \<noteq> [] then
            (Inl (IncompleteModelVersions (extra_keys model_versions)), w)
          else
            (let (eid, w) = draw_uuid E w;
                 (t, w) = read_clock E w;
                 envelope = \<lparr>we_envelope_id = eid, we_document_id = document_id, we_page_id = page_id,
                             we_pinned_at = t, we_model_versions = model_versions,
                             we_config_version = config_version\<rparr>
             in case winner of
                  Some e \<Rightarrow> (Inr e, w\<lparr>work_envelopes := work_envelopes w @ [e]\<rparr>)
                | None \<Rightarrow> (Inr envelope, w\<lparr>work_envelopes := work_envelopes w @ [envelope]\<rparr>)))"

definition read_envelope :: "string \<Rightarrow> ('m, 'a) envelope_world_scheme \<Rightarrow> exn + work_envelope" where
  "read_envelope envelope_id w =
     (case get_by we_envelope_id envelope_id (work_envelopes w) of
        None \<Rightarrow> Inl (KeyError envelope_id) | Some e \<Rightarrow> Inr e)"

definition one_per_page :: "('m, 'a) envelope_world_scheme \<Rightarrow> bool" where
  "one_per_page w \<longleftrightarrow> distinct (map we_page_id (work_envelopes w))"

lemma find_by_page_get:
  assumes "one_per_page w"
  shows "find_by_page page_id w = Inr (get_by we_page_id page_id (work_envelopes w))"
proof -
  have "filter (\<lambda>e. we_page_id e = p) l = (case get_by we_page_id p l of None \<Rightarrow> [] | Some e \<Rightarrow> [e])"
    if "distinct (map we_page_id l)" for p l
    using that by (induction l) (auto simp: get_by_None_iff filter_empty_conv split: option.splits, (metis get_by_SomeD image_eqI)+)
  from this [OF assms [unfolded one_per_page_def], of page_id] show ?thesis
    by (simp add: find_by_page_def split: option.split)
qed

lemma pin_existing:
  assumes "find_by_page page_id w = Inr (Some e)"
  shows "pin E winner d page_id mv cv w = (Inr e, w)"
  using assms by (simp add: pin_def)

lemma pin_envelopes:
  assumes "pin E winner d page_id mv cv w = (res, w')"
  shows "\<exists>new. work_envelopes w' = work_envelopes w @ new \<and> (new = [] \<or> (\<exists>e. new = [e] \<and> res = Inr e))"
    and "audit_entries w' = audit_entries w" and "outbox w' = outbox w" and "chain_roots w' = chain_roots w"
    and "clock_reads w \<le> clock_reads w'" and "envelope_world.more w' = envelope_world.more w"
  using assms
  by (auto simp: pin_def world_defs split: sum.splits option.splits if_splits)

lemma pin_logged: "logged E w (snd (pin E winner d p mv cv w))"
  by (cases "pin E winner d p mv cv w") (auto intro: logged.quiet dest: pin_envelopes)

lemma pin_fresh:
  assumes "one_per_page w" and "\<forall>e. winner = Some e \<longrightarrow> we_page_id e = page_id"
    and "pin E winner d page_id mv cv w = (Inr e, w')"
  shows "one_per_page w' \<and> we_page_id e = page_id \<and> find_by_page page_id w' = Inr (Some e)"
proof (cases "get_by we_page_id page_id (work_envelopes w)")
  case (Some x)
  then have f: "find_by_page page_id w = Inr (Some x)" using find_by_page_get [OF assms(1)] by simp
  with assms(3) have "e = x" "w' = w" by (simp_all add: pin_existing)
  with f Some assms(1) get_by_SomeD [OF Some] show ?thesis by simp
next
  case None
  then have "find_by_page page_id w = Inr None" using find_by_page_get [OF assms(1)] by simp
  with assms(2,3) have new: "work_envelopes w' = work_envelopes w @ [e]" and p: "we_page_id e = page_id"
    by (auto simp: pin_def world_defs split: if_splits option.splits)
  have "one_per_page w'"
    using assms(1) None p by (simp add: one_per_page_def new get_by_None_iff)
  then show ?thesis
    using find_by_page_get [of w' page_id] None p by (simp add: new get_by_append)
qed

section \<open>\<open>scope.py\<close>\<close>

text \<open>
  The context variable is the envelope id in scope, if any. A handler body is a function of the
  context; the context manager runs it under the new id and restores the old one.
\<close>

type_synonym pinned_context = "string option"

definition pinned_scope :: "string \<Rightarrow> (pinned_context \<Rightarrow> 'r) \<Rightarrow> pinned_context \<Rightarrow> 'r \<times> pinned_context" where
  "pinned_scope envelope_id body ctx = (let token = ctx; result = body (Some envelope_id) in (result, token))"

definition guard_resolve_active :: "string \<Rightarrow> pinned_context \<Rightarrow> exn + unit" where
  "guard_resolve_active what ctx =
     (case ctx of None \<Rightarrow> Inr () | Some envelope_id \<Rightarrow> Inl (LiveResolutionInsidePinnedScope what))"

section \<open>Queue messages (\<open>observability/envelope.py\<close>, \<open>tracing.py\<close>)\<close>

record 'p emitted =
  em_message_id :: string
  em_trace_id :: string
  em_emitted_at :: string
  em_producer :: string
  em_work_envelope :: "work_envelope option"
  em_payload :: 'p
  em_queue :: string

definition emit ::
  "env \<Rightarrow> string \<Rightarrow> string \<Rightarrow> 'p \<Rightarrow> work_envelope option \<Rightarrow> string \<Rightarrow> 'a world_scheme
     \<Rightarrow> 'p emitted \<times> 'a world_scheme" where
  "emit E queue producer payload work_envelope trace_id w =
     (let (mid, w) = draw_uuid E w;
          (t, w) = read_clock E w
      in (\<lparr>em_message_id = mid, em_trace_id = trace_id, em_emitted_at = isoformat t,
           em_producer = producer, em_work_envelope = work_envelope, em_payload = payload,
           em_queue = queue\<rparr>, w))"

definition trace_id_for :: "string \<Rightarrow> string \<Rightarrow> string" where
  "trace_id_for document_id page_id = document_id @ '':'' @ page_id"

lemma emit_fields [simp]:
  "em_payload (fst (emit E q p x we t w)) = x" "em_queue (fst (emit E q p x we t w)) = q"
  "em_work_envelope (fst (emit E q p x we t w)) = we" "em_trace_id (fst (emit E q p x we t w)) = t"
  "em_producer (fst (emit E q p x we t w)) = p"
  by (simp_all add: emit_def world_defs)

lemma emit_frame [simp]:
  "world.more (snd (emit E q p x we t w)) = world.more w"
  "clock_reads (snd (emit E q p x we t w)) = Suc (clock_reads w)"
  by (simp_all add: emit_def world_defs)

lemma emit_tables [simp]:
  "audit_entries (snd (emit E q p x we t v)) = audit_entries v"
  "chain_roots (snd (emit E q p x we t v')) = chain_roots v'"
  "outbox (snd (emit E q p x we t u)) = outbox u"
  "work_envelopes (snd (emit E q p x we t u')) = work_envelopes u'"
  by (simp_all add: emit_def world_defs)

section \<open>Properties\<close>

text \<open>C14. An envelope is pinned once. While there is one envelope per page, a successful \<open>pin\<close> keeps it
  so and every later \<open>pin\<close> for the same page, with whatever model versions, configuration and
  races, returns that same envelope and changes nothing; and no \<open>pin\<close> ever changes or removes an
  envelope that is there.\<close>

theorem pin_once:
  assumes "one_per_page w" and "\<forall>e. winner = Some e \<longrightarrow> we_page_id e = page_id"
    and "pin E winner d page_id mv cv w = (Inr e, w')"
  shows "one_per_page w' \<and> pin E winner' d' page_id mv' cv' w' = (Inr e, w') \<and>
    take (length (work_envelopes w)) (work_envelopes w') = work_envelopes w"
  using pin_fresh [OF assms] pin_envelopes(1) [OF assms(3)] pin_existing by fastforce

definition demo_versions :: "string \<Rightarrow> (string \<times> string) list" where
  "demo_versions v = map (\<lambda>k. (k, v)) REQUIRED_MODEL_KEYS"

definition demo_envelope_world :: "nat envelope_world" where
  "demo_envelope_world = \<lparr>uuids_drawn = 0, clock_reads = 0, audit_entries = [], chain_roots = [],
     anchor_receipts = [], outbox = [], work_envelopes = []\<rparr>"

lemma demo_versions_ok: "missing_keys (demo_versions v) = []" "extra_keys (demo_versions v) = []"
  by (simp_all add: demo_versions_def missing_keys_def extra_keys_def REQUIRED_MODEL_KEYS_def)

theorem pin_once_witness:
  "\<exists>e w'. pin demo_env None ''doc'' ''page'' (demo_versions ''v1'') ''cfg'' demo_envelope_world = (Inr e, w') \<and>
     pin demo_env None ''doc'' ''page'' (demo_versions ''v2'') ''cfg2'' w' = (Inr e, w')"
proof -
  have one: "one_per_page demo_envelope_world" by (simp add: one_per_page_def demo_envelope_world_def)
  obtain e w' where *: "pin demo_env None ''doc'' ''page'' (demo_versions ''v1'') ''cfg'' demo_envelope_world = (Inr e, w')"
    by (auto simp: pin_def find_by_page_def world_defs demo_versions_ok demo_envelope_world_def)
  with pin_once [OF one _ *] show ?thesis by blast
qed

text \<open>A pinned envelope names all five models. A \<open>pin\<close> that inserts an envelope of its own takes it
  from model versions with exactly the five required keys; with a key missing or one too many it
  raises and changes nothing.\<close>

lemma pin_complete:
  assumes "find_by_page page_id w = Inr None"
    and "pin E None d page_id mv cv w = (res, w')"
  shows "(set (map fst mv) = set REQUIRED_MODEL_KEYS \<and>
      (\<exists>e. res = Inr e \<and> we_model_versions e = mv \<and> we_config_version e = cv \<and>
         work_envelopes w' = work_envelopes w @ [e])) \<or>
    (set (map fst mv) \<noteq> set REQUIRED_MODEL_KEYS \<and> isl res \<and> w' = w)"
proof -
  have "missing_keys mv = [] \<longleftrightarrow> set REQUIRED_MODEL_KEYS \<subseteq> set (map fst mv)"
    by (auto simp: missing_keys_def filter_empty_conv)
  moreover have "extra_keys mv = [] \<longleftrightarrow> set (map fst mv) \<subseteq> set REQUIRED_MODEL_KEYS"
    by (auto simp: extra_keys_def filter_empty_conv)
  ultimately show ?thesis
    using assms by (auto simp: pin_def world_defs split: if_splits)
qed

lemma pin_complete_witness:
  "isl (fst (pin demo_env None ''doc'' ''page'' [(''hwr'', ''v1'')] ''cfg'' demo_envelope_world))"
proof -
  have "find_by_page ''page'' demo_envelope_world = Inr None"
    by (simp add: find_by_page_def demo_envelope_world_def)
  from pin_complete [OF this, of demo_env "''doc''" "[(''hwr'', ''v1'')]" "''cfg''"]
  show ?thesis by (cases "pin demo_env None ''doc'' ''page'' [(''hwr'', ''v1'')] ''cfg'' demo_envelope_world")
    (auto simp: REQUIRED_MODEL_KEYS_def)
qed

end
