(* ===== verification/Entities.thy ===== *)
theory Entities
  imports Envelope Complex_Main
begin

text \<open>
  The tables of \<open>services/backend\<close> (\<open>backend/models/entities.py\<close>): one record per mapped class,
  its \<open>CHECK\<close> constraints as a predicate on the row, and \<open>db\<close>, the database the domain functions
  work on: the shared tables of the libraries (audit log, roots, outbox, envelopes) extended by
  these. A column a string with a closed set of values stays a string, as in the code, which
  stores and compares strings. A \<open>float\<close> is a real number: no rounding; the domain code only
  copies and compares it.
\<close>

type_synonym pyfloat = real

section \<open>Ingest\<close>

record batch =
  ba_id :: string
  ba_district :: string
  ba_tehsil :: "string option"
  ba_village :: "string option"
  ba_series :: "string option"
  ba_custodian :: "string option"
  ba_scanning_date :: "timestamp option"
  ba_ingested_at :: timestamp

record source_document =
  sd_id :: string
  sd_batch_id :: string
  sd_sha256 :: string
  sd_storage_uri :: string
  sd_mime :: string
  sd_page_count :: nat

record page =
  pg_id :: string
  pg_document_id :: string
  pg_index :: nat
  pg_storage_uri :: "string option"
  pg_index_position :: "int option"
  pg_quality_score :: "pyfloat option"
  pg_legibility_band :: "string option"
  pg_script :: "string option"
  pg_language :: "string option"
  pg_doc_type :: "string option"
  pg_page_role :: "string option"
  pg_writer_cluster_id :: "string option"
  pg_novelty_score :: "pyfloat option"
  pg_route :: "string list option"

definition page_ck :: "page \<Rightarrow> bool" where
  "page_ck p \<longleftrightarrow> (case pg_legibility_band p of None \<Rightarrow> True
     | Some b \<Rightarrow> b \<in> {''good'', ''marginal'', ''poor''})"

record volume_index =
  vi_id :: string
  vi_batch_id :: string
  vi_expected_sequence :: "int list"
  vi_observed_sequence :: "int list"
  vi_gaps :: "int list"
  vi_state :: string

definition volume_index_ck :: "volume_index \<Rightarrow> bool" where
  "volume_index_ck v \<longleftrightarrow> vi_state v \<in> {''pending'', ''complete'', ''gap_detected'', ''acknowledged''}"

record fixity_check =
  fc_id :: string
  fc_document_id :: string
  fc_expected_digest :: string
  fc_observed_digest :: "string option"
  fc_checked_at :: timestamp
  fc_outcome :: string
  fc_store :: string

definition fixity_check_ck :: "fixity_check \<Rightarrow> bool" where
  "fixity_check_ck c \<longleftrightarrow> fc_outcome c \<in> {''match'', ''mismatch''} \<and> fc_store c \<in> {''primary'', ''secondary''}"

record rescan_task =
  rt_id :: string
  rt_page_id :: string
  rt_reason_code :: string
  rt_owner :: "string option"
  rt_state :: string
  rt_opened_at :: timestamp
  rt_closed_at :: "timestamp option"

definition rescan_task_ck :: "rescan_task \<Rightarrow> bool" where
  "rescan_task_ck t \<longleftrightarrow> rt_state t \<in> {''open'', ''assigned'', ''closed''}"

section \<open>Extraction and decision\<close>

record bbox = bb_x :: rat  bb_y :: rat  bb_w :: rat  bb_h :: rat

record extraction =
  ex_id :: string
  ex_page_id :: string
  ex_field_name :: string
  ex_raw_value :: string
  ex_canonical_value :: "string option"
  ex_unconstrained_value :: "string option"
  ex_bbox :: "bbox option"
  ex_engine :: "string option"
  ex_model_version :: "string option"
  ex_config_version :: "string option"
  ex_token_confidence :: "pyfloat option"
  ex_calibrated_confidence :: "pyfloat option"
  ex_novelty_score :: "pyfloat option"
  ex_routing_outcome :: "string option"
  ex_entry_status :: string
  ex_attestation_refs :: "string list"
  ex_top_k :: "(string \<times> pyfloat) list"

definition extraction_ck :: "extraction \<Rightarrow> bool" where
  "extraction_ck e \<longleftrightarrow>
     ex_entry_status e \<in> {''unknown'', ''live'', ''cancelled'', ''superseded'', ''amended''} \<and>
     (case ex_routing_outcome e of None \<Rightarrow> True
      | Some out \<Rightarrow> out \<in> {''auto_accept'', ''audit_sample'', ''review'', ''conflict'',
                          ''outside_calibrated_regime''})"

record decision_record =
  dr_id :: string
  dr_extraction_id :: string
  dr_outcome :: string
  dr_envelope_id :: "string option"
  dr_decided_at :: timestamp

record operational_alert =
  oa_id :: string
  oa_kind :: string
  oa_cluster_key :: string
  oa_extraction_ids :: "string list"
  oa_opened_at :: timestamp

record validation_result =
  vr_id :: string
  vr_record_id :: string
  vr_validator :: string
  vr_verdict :: string
  vr_reason_code :: "string option"
  vr_fields :: "string list"
  vr_config_version :: "string option"
  vr_consumed_constraints :: "string list"

definition validation_result_ck :: "validation_result \<Rightarrow> bool" where
  "validation_result_ck v \<longleftrightarrow>
     vr_validator v \<in> {''syntactic'', ''arithmetic'', ''referential'', ''lineage'', ''geospatial'',
       ''legacy_reconciliation''} \<and>
     vr_verdict v \<in> {''pass'', ''fail'', ''not_applicable''} \<and>
     (vr_consumed_constraints v = [] \<or> vr_verdict v = ''not_applicable'')"

section \<open>Review\<close>

record review_task =
  rv_id :: string
  rv_extraction_id :: string
  rv_reason :: "string option"
  rv_source_stream :: string
  rv_assignee :: "string option"
  rv_opened_at :: timestamp
  rv_closed_at :: "timestamp option"
  rv_cluster_id :: "string option"
  rv_cluster_size :: "nat option"
  rv_hour_into_session :: "int option"

definition review_task_ck :: "review_task \<Rightarrow> bool" where
  "review_task_ck t \<longleftrightarrow> rv_source_stream t \<in> {''routed'', ''audit''}"

record audit_sample =
  as_id :: string
  as_extraction_id :: string
  as_review_task_id :: "string option"
  as_model_confidence :: "pyfloat option"
  as_officer_verdict :: string
  as_agreed :: "bool option"
  as_stratum :: "string option"

definition audit_sample_ck :: "audit_sample \<Rightarrow> bool" where
  "audit_sample_ck s \<longleftrightarrow> as_officer_verdict s \<in> {''agree'', ''disagree'', ''pending''}"

record review_session =
  rs_id :: string
  rs_actor :: string
  rs_started_at :: timestamp
  rs_last_activity_at :: timestamp
  rs_ended_at :: "timestamp option"

record correction =
  co_id :: string
  co_extraction_id :: string
  co_crop_uri :: string
  co_predicted :: "string option"
  co_corrected :: "string option"
  co_edit_distance :: "nat option"
  co_actor :: string
  co_model_version :: "string option"
  co_config_version :: "string option"
  co_stream :: string
  co_source_page_digest :: string
  co_reliability_weight :: "pyfloat option"
  co_created_at :: timestamp

definition correction_ck :: "correction \<Rightarrow> bool" where
  "correction_ck c \<longleftrightarrow> co_stream c \<in> {''routed'', ''audit'', ''downstream'', ''legacy_digital''}"

record pending_correction =
  pc_id :: string
  pc_extraction_id :: string
  pc_crop_uri :: string
  pc_predicted :: "string option"
  pc_corrected :: "string option"
  pc_edit_distance :: nat
  pc_field_class :: string
  pc_first_actor :: string
  pc_model_version :: "string option"
  pc_config_version :: "string option"
  pc_stream :: string
  pc_source_page_digest :: string
  pc_opened_at :: timestamp
  pc_state :: string
  pc_confirmed_by :: "string option"
  pc_confirmed_at :: "timestamp option"
  pc_resulting_correction_id :: "string option"

definition pending_correction_ck :: "pending_correction \<Rightarrow> bool" where
  "pending_correction_ck p \<longleftrightarrow> pc_state p \<in> {''pending'', ''confirmed''}"

section \<open>Publication\<close>

record published_record =
  re_id :: string
  re_record_group_id :: string
  re_version :: nat
  re_parcel_ref :: "string option"
  re_ulpin :: "string option"
  re_lgd_codes :: "(string \<times> string) list option"
  re_status :: "string option"
  re_published_at :: "timestamp option"

record conflict =
  cf_id :: string
  cf_records :: "string list"
  cf_rule :: string
  cf_evidence :: "(string \<times> string) list"
  cf_origin :: string
  cf_state :: string
  cf_assignee :: "string option"
  cf_opened_at :: timestamp

definition conflict_ck :: "conflict \<Rightarrow> bool" where
  "conflict_ck c \<longleftrightarrow> cf_origin c \<in> {''validator'', ''downstream''} \<and>
     cf_state c \<in> {''open'', ''under_enquiry'', ''resolved'', ''referred''}"

record owner_share =
  os_id :: string
  os_owner_id :: string
  os_record_id :: string
  os_share_numerator :: int
  os_share_denominator :: int
  os_relationship :: "string option"

definition owner_share_ck :: "owner_share \<Rightarrow> bool" where
  "owner_share_ck s \<longleftrightarrow> os_share_denominator s \<noteq> 0"

record record_assembly =
  ra_id :: string
  ra_record_id :: string
  ra_extraction_ids :: "string list"
  ra_strategy :: string
  ra_rationale :: string
  ra_actor :: string

definition record_assembly_ck :: "record_assembly \<Rightarrow> bool" where
  "record_assembly_ck a \<longleftrightarrow> ra_strategy a \<in> {''single_page'', ''continuation'', ''carried_forward''}"

record transform_dict =
  td_angle_degrees :: rat
  td_original_size :: "nat \<times> nat"
  td_processed_size :: "nat \<times> nat"

record field_provenance =
  fp_id :: string
  fp_extraction_id :: string
  fp_document_id :: string
  fp_page_split_transform :: "(string \<times> string) list option"
  fp_deskew_transform :: "transform_dict option"
  fp_recorded_at :: timestamp

section \<open>Configuration\<close>

record config_version =
  cv_id :: string
  cv_scope :: string
  cv_key :: string
  cv_value :: string \<comment> \<open>the JSON text\<close>
  cv_effective_from :: timestamp
  cv_author :: string
  cv_approver :: string
  cv_superseded_by :: "string option"

definition config_version_ck :: "config_version \<Rightarrow> bool" where
  "config_version_ck c \<longleftrightarrow> cv_scope c \<in> {''district'', ''state'', ''global''} \<and> cv_author c \<noteq> cv_approver c"

record closed_set_entry =
  ce_id :: string
  ce_type :: string
  ce_district :: "string option"
  ce_code :: string
  ce_source :: string
  ce_provenance :: string
  ce_config_version :: string

definition closed_set_entry_ck :: "closed_set_entry \<Rightarrow> bool" where
  "closed_set_entry_ck e \<longleftrightarrow> ce_provenance e \<in> {''schema'', ''lgd'', ''lrms''}"

section \<open>Messages\<close>

text \<open>
  The payloads the backend puts on its queues. A page payload carries the columns of a page;
  the two the triage worker reads are optional, as ingestion sends them as \<open>None\<close>. The
  configuration event is a bare dictionary, not an emitted envelope.
\<close>

datatype payload =
    Ingestion_Payload (pl_document_id: string) (pl_storage_key: string) (pl_mime: string)
  | Page_Payload (pl_id: string) (pl_page_document_id: string) (pl_index: nat)
      (pl_doc_type: "string option") (pl_page_role: "string option")
      (pl_config_version: "string option")
  | Lane_Payload (pl_lane_document_id: string) (pl_page_id: string)
      (pl_lane_doc_type: "string option") (pl_lane_page_role: "string option")
  | Decision_Payload (pl_extraction_id: "string option") (pl_routing_outcome: "string option")
      (pl_calibrated_confidence: "pyfloat option") (pl_novelty_cluster_id: "string option")

datatype message =
    Emitted "payload emitted"
  | Config_Event (ev_scope: string) (ev_key: string) (ev_config_version: string)

section \<open>The database\<close>

record db = "message envelope_world" +
  batches :: "batch list"
  documents :: "source_document list"
  pages :: "page list"
  volume_indexes :: "volume_index list"
  fixity_checks :: "fixity_check list"
  rescan_tasks :: "rescan_task list"
  extractions :: "extraction list"
  decision_records :: "decision_record list"
  operational_alerts :: "operational_alert list"
  review_tasks :: "review_task list"
  audit_samples :: "audit_sample list"
  review_sessions :: "review_session list"
  corrections :: "correction list"
  pending_corrections :: "pending_correction list"
  records :: "published_record list"
  conflicts :: "conflict list"
  field_provenances :: "field_provenance list"
  config_versions :: "config_version list"
  closed_set_entries :: "closed_set_entry list"
  record_assemblies :: "record_assembly list"

definition empty_db :: db where
  "empty_db = \<lparr>uuids_drawn = 0, clock_reads = 0, audit_entries = [], chain_roots = [],
     anchor_receipts = [], outbox = [], work_envelopes = [], batches = [], documents = [], pages = [],
     volume_indexes = [], fixity_checks = [], rescan_tasks = [], extractions = [],
     decision_records = [], operational_alerts = [], review_tasks = [], audit_samples = [],
     review_sessions = [], corrections = [], pending_corrections = [], records = [], conflicts = [],
     field_provenances = [], config_versions = [], closed_set_entries = [],
     record_assemblies = []\<rparr>"

text \<open>Rows that only append to the tables, and the frame of the shared operations on them.\<close>

lemma audit_entries_db_update [simp]: "audit_entries empty_db = []"
  by (simp add: empty_db_def)

end
