(* ===== verification/Audit_Log.thy ===== *)
theory Audit_Log
  imports Entities
begin

text \<open>
  The backend's wrapper around the audit chain (\<open>backend/domain/audit_log.py\<close>): what each domain
  event records, and on which shard. \<open>audited\<close> is a call of \<open>append\<close> whose result is not used;
  \<open>audited_eq\<close> unfolds it to a record update, from which the tables it leaves alone are read
  off.
\<close>

section \<open>Appending to the log\<close>

definition audited :: "env \<Rightarrow> audit_call \<Rightarrow> 'a audit_world_scheme \<Rightarrow> 'a audit_world_scheme" where
  "audited E c w = snd (chain_append E c w)"

lemma audited_eq:
  "audited E c w = w\<lparr>uuids_drawn := Suc (uuids_drawn w), clock_reads := Suc (clock_reads w),
     audit_entries := audit_entries w @ [fst (chain_append E c w)]\<rparr>"
  by (simp add: audited_def chain_append_def world_defs)

lemma audited_entries: "audit_entries (audited E c w) = audit_entries w @ [fst (chain_append E c w)]"
  by (simp add: audited_eq)

lemma audited_counters [simp]:
  "clock_reads (audited E c w) = Suc (clock_reads w)" "uuids_drawn (audited E c w) = Suc (uuids_drawn w)"
  by (simp_all add: audited_eq)

lemma audited_frame [simp]:
  fixes v :: "('m, 'b) outbox_world_scheme"
  shows "outbox (audited E c v) = outbox v" "chain_roots (audited E c v) = chain_roots v"
  by (simp_all add: audited_eq)

lemma audited_db_frame [simp]:
  fixes d :: "'a db_scheme"
  shows "batches (audited E c d) = batches d" "documents (audited E c d) = documents d"
    "pages (audited E c d) = pages d" "volume_indexes (audited E c d) = volume_indexes d"
    "fixity_checks (audited E c d) = fixity_checks d" "rescan_tasks (audited E c d) = rescan_tasks d"
    "extractions (audited E c d) = extractions d" "decision_records (audited E c d) = decision_records d"
    "operational_alerts (audited E c d) = operational_alerts d" "review_tasks (audited E c d) = review_tasks d"
    "audit_samples (audited E c d) = audit_samples d" "review_sessions (audited E c d) = review_sessions d"
    "corrections (audited E c d) = corrections d" "pending_corrections (audited E c d) = pending_corrections d"
    "records (audited E c d) = records d" "conflicts (audited E c d) = conflicts d"
    "field_provenances (audited E c d) = field_provenances d" "config_versions (audited E c d) = config_versions d"
    "closed_set_entries (audited E c d) = closed_set_entries d" "work_envelopes (audited E c d) = work_envelopes d"
  by (simp_all add: audited_eq)

lemma audited_logged [intro, simp]: "logged E w (audited E c w)"
  by (simp add: audited_def)

text \<open>
  Every operation of the backend either leaves the log alone or appends to it; \<open>logged_quiet\<close>
  and \<open>logged_then_audited\<close> are the two steps its proof is made of.
\<close>

lemma logged_quiet:
  "audit_entries w' = audit_entries w \<Longrightarrow> clock_reads w \<le> clock_reads w' \<Longrightarrow> logged E w w'"
  by (rule logged.quiet)

lemma logged_then_audited: "logged E w w' \<Longrightarrow> logged E w (audited E c w')"
  by (simp add: audited_def logged.entry)

lemma logged_then_quiet:
  "logged E w w' \<Longrightarrow> audit_entries w'' = audit_entries w' \<Longrightarrow> clock_reads w' \<le> clock_reads w'' \<Longrightarrow>
   logged E w w''"
  by (rule logged.then_quiet)

lemmas logged_steps = logged_then_audited logged_quiet

section \<open>Hashing a value\<close>

definition hash_value :: "env \<Rightarrow> environ \<Rightarrow> string \<Rightarrow> exn + string" where
  "hash_value E os value = hmac_value_hash E (env_hmac_key os ''AUDIT_HMAC_KEY'') value"

definition shard_key_for_record :: "string option \<Rightarrow> string option \<Rightarrow> string" where
  "shard_key_for_record district batch_id = shard_key_for district batch_id"

definition district_shard_key :: "string option \<Rightarrow> string option" where
  \<comment> \<open>\<open>shard_key_for_record(district=district) if district else None\<close>\<close>
  "district_shard_key district =
     (if truthy district then Some (shard_key_for_record district None) else None)"

section \<open>The events\<close>

definition page_ingested_call :: "string \<Rightarrow> string option \<Rightarrow> audit_call" where
  "page_ingested_call page_id district = (audit_call ''system:ingest'' ''page.ingested'')
     \<lparr>ac_subject := Some page_id, ac_shard_key := district_shard_key district, ac_district := district\<rparr>"

definition record_page_ingested ::
  "env \<Rightarrow> string \<Rightarrow> string option \<Rightarrow> 'a audit_world_scheme \<Rightarrow> 'a audit_world_scheme" where
  "record_page_ingested E page_id district w = audited E (page_ingested_call page_id district) w"

definition page_processed_call :: "string \<Rightarrow> string option \<Rightarrow> audit_call" where
  "page_processed_call page_id district = (audit_call ''system:decision-engine'' ''page.processed'')
     \<lparr>ac_subject := Some page_id, ac_shard_key := district_shard_key district, ac_district := district\<rparr>"

definition record_page_processed ::
  "env \<Rightarrow> string \<Rightarrow> string option \<Rightarrow> 'a audit_world_scheme \<Rightarrow> 'a audit_world_scheme" where
  "record_page_processed E page_id district w = audited E (page_processed_call page_id district) w"

definition record_permission_check ::
  "env \<Rightarrow> string \<Rightarrow> string \<Rightarrow> bool \<Rightarrow> 'a audit_world_scheme \<Rightarrow> 'a audit_world_scheme" where
  "record_permission_check E actor permission allowed w =
     audited E ((audit_call actor (if allowed then ''rbac.checked'' else ''rbac.denied''))
       \<lparr>ac_subject := Some permission, ac_shard_key := Some SYSTEM_SHARD_KEY\<rparr>) w"

definition field_identity :: "string \<Rightarrow> int \<Rightarrow> string \<Rightarrow> string" where
  "field_identity record_id version field_name =
     record_id @ '':'' @ str_of_int version @ '':'' @ field_name"

definition record_unmasked_read ::
  "env \<Rightarrow> string \<Rightarrow> string \<Rightarrow> int \<Rightarrow> string \<Rightarrow> string \<Rightarrow> string option
     \<Rightarrow> 'a audit_world_scheme \<Rightarrow> 'a audit_world_scheme" where
  "record_unmasked_read E actor record_id version field_name purpose district w =
     audited E ((audit_call actor ''field.unmasked_read'')
       \<lparr>ac_subject := Some (field_identity record_id version field_name), ac_purpose := Some purpose,
        ac_shard_key := district_shard_key district\<rparr>) w"

definition record_publish ::
  "env \<Rightarrow> string \<Rightarrow> string \<Rightarrow> nat \<Rightarrow> string option \<Rightarrow> 'a audit_world_scheme \<Rightarrow> 'a audit_world_scheme" where
  "record_publish E actor record_id version district w =
     audited E ((audit_call actor ''record.published'')
       \<lparr>ac_subject := Some (record_id @ '':'' @ str_of_nat version),
        ac_shard_key := district_shard_key district, ac_district := district\<rparr>) w"

definition record_config_version_write ::
  "env \<Rightarrow> string \<Rightarrow> string \<Rightarrow> string \<Rightarrow> string \<Rightarrow> string \<Rightarrow> 'a audit_world_scheme \<Rightarrow> 'a audit_world_scheme" where
  "record_config_version_write E config_version_id scope key author approver w =
     (let subject = scope @ '':'' @ key @ '':'' @ config_version_id;
          w = audited E ((audit_call author ''config_version.authored'')
                \<lparr>ac_subject := Some subject, ac_shard_key := Some SYSTEM_SHARD_KEY\<rparr>) w
      in audited E ((audit_call approver ''config_version.approved'')
                \<lparr>ac_subject := Some subject, ac_shard_key := Some SYSTEM_SHARD_KEY\<rparr>) w)"

definition record_field_edit ::
  "env \<Rightarrow> environ \<Rightarrow> string \<Rightarrow> string \<Rightarrow> int \<Rightarrow> string \<Rightarrow> string \<Rightarrow> string option \<Rightarrow> string option
     \<Rightarrow> string option \<Rightarrow> 'a audit_world_scheme \<Rightarrow> (exn + unit) \<times> 'a audit_world_scheme" where
  "record_field_edit E os actor record_id version field_name reason_code old_value new_value district w =
     (case hash_value E os (or_empty old_value @ '' '' @ or_empty new_value) of
        Inl err \<Rightarrow> (Inl err, w)
      | Inr h \<Rightarrow> (Inr (), audited E ((audit_call actor ''field.edited'')
          \<lparr>ac_subject := Some (field_identity record_id version field_name),
           ac_purpose := Some reason_code, ac_value_hash := Some h,
           ac_shard_key := district_shard_key district\<rparr>) w))"

definition record_dead_lettered ::
  "env \<Rightarrow> string \<Rightarrow> string \<Rightarrow> nat \<Rightarrow> string \<Rightarrow> 'a audit_world_scheme \<Rightarrow> 'a audit_world_scheme" where
  "record_dead_lettered E queue message_id delivery_count error_class w =
     audited E ((audit_call ''system:worker-runner'' ''queue.dead_lettered'')
       \<lparr>ac_subject := Some (queue @ '':'' @ message_id),
        ac_purpose := Some (''delivery_count='' @ str_of_nat delivery_count @ '':error='' @ error_class),
        ac_shard_key := Some SYSTEM_SHARD_KEY\<rparr>) w"

definition record_payload_mismatch ::
  "env \<Rightarrow> string \<Rightarrow> string list \<Rightarrow> 'a audit_world_scheme \<Rightarrow> 'a audit_world_scheme" where
  "record_payload_mismatch E extraction_id field_names w =
     audited E ((audit_call ''system:decision-engine'' ''decision.payload_mismatch'')
       \<lparr>ac_subject := Some extraction_id,
        ac_purpose := Some (''mismatched_fields='' @ join '','' field_names),
        ac_shard_key := Some SYSTEM_SHARD_KEY\<rparr>) w"

lemmas record_event_defs = record_page_ingested_def record_page_processed_def
  record_permission_check_def record_unmasked_read_def record_publish_def
  record_config_version_write_def record_dead_lettered_def record_payload_mismatch_def

lemma system_shard: "resolved_shard E (c\<lparr>ac_shard_id := None, ac_shard_key := Some SYSTEM_SHARD_KEY\<rparr>) = SYSTEM_SHARD_ID"
  by (simp add: resolved_shard_def shard_for_def)

end
