(* ===== verification/Access.thy ===== *)
theory Access
  imports Audit_Log
begin

text \<open>
  Who may do what, and what of a field they see: the permission matrix
  (\<open>backend/domain/access_control.py\<close>), the request dependency that checks and audits a permission
  (\<open>backend/api/auth.py\<close>) and the masking policy (\<open>landmasking/policy.py\<close>). The process-wide
  identity provider, which \<open>set_identity_provider\<close> swaps, is an argument.
\<close>

section \<open>Roles and permissions\<close>

datatype role = OPERATOR | VERIFIER | SUPERVISOR | AUDITOR | ADMINISTRATOR

primrec role_value :: "role \<Rightarrow> string" where
  "role_value OPERATOR = ''operator''"
| "role_value VERIFIER = ''verifier''"
| "role_value SUPERVISOR = ''supervisor''"
| "role_value AUDITOR = ''auditor''"
| "role_value ADMINISTRATOR = ''administrator''"

datatype permission =
    DOCUMENT_INGEST | REVIEW_CLAIM | REVIEW_SUBMIT | REVIEW_CONFIRM | CONFLICT_READ | CONFLICT_ASSIGN
  | CONFLICT_TRANSITION | RECORD_READ_MASKED | RECORD_READ_UNMASKED | RECORD_PUBLISH | PROVENANCE_READ
  | CHAIN_VERIFY | CONFIG_WRITE | DASHBOARD_READ | TRAINING_STORE_READ

primrec permission_value :: "permission \<Rightarrow> string" where
  "permission_value DOCUMENT_INGEST = ''document.ingest''"
| "permission_value REVIEW_CLAIM = ''review.claim''"
| "permission_value REVIEW_SUBMIT = ''review.submit''"
| "permission_value REVIEW_CONFIRM = ''review.confirm''"
| "permission_value CONFLICT_READ = ''conflict.read''"
| "permission_value CONFLICT_ASSIGN = ''conflict.assign''"
| "permission_value CONFLICT_TRANSITION = ''conflict.transition''"
| "permission_value RECORD_READ_MASKED = ''record.read.masked''"
| "permission_value RECORD_READ_UNMASKED = ''record.read.unmasked''"
| "permission_value RECORD_PUBLISH = ''record.publish''"
| "permission_value PROVENANCE_READ = ''provenance.read''"
| "permission_value CHAIN_VERIFY = ''chain.verify''"
| "permission_value CONFIG_WRITE = ''config.write''"
| "permission_value DASHBOARD_READ = ''dashboard.read''"
| "permission_value TRAINING_STORE_READ = ''training_store.read''"

primrec PERMISSION_MATRIX :: "role \<Rightarrow> permission list" where
  "PERMISSION_MATRIX OPERATOR = [DOCUMENT_INGEST, REVIEW_CLAIM, REVIEW_SUBMIT, RECORD_READ_MASKED]"
| "PERMISSION_MATRIX VERIFIER =
     [REVIEW_CLAIM, REVIEW_SUBMIT, REVIEW_CONFIRM, CONFLICT_READ, RECORD_READ_MASKED, PROVENANCE_READ]"
| "PERMISSION_MATRIX SUPERVISOR =
     [REVIEW_CONFIRM, CONFLICT_READ, CONFLICT_ASSIGN, CONFLICT_TRANSITION, RECORD_READ_MASKED,
      RECORD_PUBLISH, PROVENANCE_READ, DASHBOARD_READ]"
| "PERMISSION_MATRIX AUDITOR =
     [CONFLICT_READ, RECORD_READ_MASKED, PROVENANCE_READ, RECORD_READ_UNMASKED, CHAIN_VERIFY, DASHBOARD_READ]"
| "PERMISSION_MATRIX ADMINISTRATOR =
     [DOCUMENT_INGEST, CONFIG_WRITE, TRAINING_STORE_READ, RECORD_READ_MASKED, DASHBOARD_READ]"

definition has_permission :: "role \<Rightarrow> permission \<Rightarrow> bool" where
  "has_permission r p \<longleftrightarrow> p \<in> set (PERMISSION_MATRIX r)"

record identity =
  id_actor :: string
  id_roles :: "role list"

definition identity_has :: "identity \<Rightarrow> permission \<Rightarrow> bool" where
  "identity_has i p \<longleftrightarrow> list_ex (\<lambda>r. has_permission r p) (id_roles i)"

type_synonym identity_provider = "string \<Rightarrow> exn + identity"

definition mock_resolve :: "(string \<times> role list) list \<Rightarrow> identity_provider" where
  "mock_resolve roster credential =
     (case map_of roster credential of
        None \<Rightarrow> Inl (UnknownIdentity credential)
      | Some roles \<Rightarrow> Inr \<lparr>id_actor = credential, id_roles = roles\<rparr>)"

definition default_mock_identity_provider :: identity_provider where
  "default_mock_identity_provider = mock_resolve
     [(''operator1'', [OPERATOR]), (''verifier1'', [VERIFIER]), (''supervisor1'', [SUPERVISOR]),
      (''auditor1'', [AUDITOR]), (''admin1'', [ADMINISTRATOR])]"

section \<open>The request dependency\<close>

definition get_identity :: "identity_provider \<Rightarrow> string \<Rightarrow> exn + identity" where
  "get_identity provider x_actor =
     (case provider x_actor of
        Inl err \<Rightarrow> (case err of UnknownIdentity s \<Rightarrow> Inl (HTTPException 401) | _ \<Rightarrow> Inl err)
      | Inr i \<Rightarrow> Inr i)"

definition require_permission ::
  "env \<Rightarrow> identity_provider \<Rightarrow> permission \<Rightarrow> string \<Rightarrow> 'a audit_world_scheme session
    \<Rightarrow> (exn + identity) \<times> 'a audit_world_scheme session"
where
  "require_permission E provider permission x_actor s =
     (case get_identity provider x_actor of
        Inl err \<Rightarrow> (Inl err, s)
      | Inr identity \<Rightarrow>
          (let allowed = identity_has identity permission;
               s = commit (s\<lparr>current := record_permission_check E (id_actor identity)
                                 (permission_value permission) allowed (current s)\<rparr>)
           in if \<not> allowed then (Inl (HTTPException 403), s) else (Inr identity, s)))"

definition guarded ::
  "env \<Rightarrow> identity_provider \<Rightarrow> permission \<Rightarrow> string
    \<Rightarrow> (identity \<Rightarrow> 'a audit_world_scheme session \<Rightarrow> (exn + 'r) \<times> 'a audit_world_scheme session)
    \<Rightarrow> 'a audit_world_scheme \<Rightarrow> (exn + 'r) \<times> 'a audit_world_scheme"
where
  \<comment> \<open>a request to a route with \<open>Depends(require_permission(...))\<close>: a session of its own, closed
    at the end, so what the route did not commit is rolled back\<close>
  "guarded E provider permission x_actor route w =
     (case require_permission E provider permission x_actor (begin_session w) of
        (Inl err, s) \<Rightarrow> (Inl err, current (rollback s))
      | (Inr identity, s) \<Rightarrow>
          (case route identity s of (res, s) \<Rightarrow> (res, current (rollback s))))"

section \<open>Masking\<close>

definition MASK_TOKEN :: string where
  \<comment> \<open>three bullets, in UTF-8\<close>
  "MASK_TOKEN = concat (replicate 3 [CHR 0xE2, CHR 0x80, CHR 0xA2])"

definition ROLES_THAT_SEE_PERSONAL_DATA_UNMASKED :: "string list" where
  "ROLES_THAT_SEE_PERSONAL_DATA_UNMASKED = [''auditor_unmasked_read'']"

definition PERSONAL_DATA_FIELD_CLASSES :: "string list" where
  "PERSONAL_DATA_FIELD_CLASSES = [''owner_name'', ''relationship'', ''address'']"

record masked_triple =
  mt_value :: "string option"
  mt_raw_value :: "string option"
  mt_crop_uri :: "string option"
  mt_masked :: bool

definition is_personal_data :: "string \<Rightarrow> bool" where
  "is_personal_data c \<longleftrightarrow> c \<in> set PERSONAL_DATA_FIELD_CLASSES"

definition mask_apply ::
  "string option \<Rightarrow> string option \<Rightarrow> string option \<Rightarrow> string \<Rightarrow> string \<Rightarrow> masked_triple" where
  "mask_apply val raw_value crop_uri fclass viewer =
     (if \<not> is_personal_data fclass \<or> viewer \<in> set ROLES_THAT_SEE_PERSONAL_DATA_UNMASKED
      then \<lparr>mt_value = val, mt_raw_value = raw_value, mt_crop_uri = crop_uri, mt_masked = False\<rparr>
      else \<lparr>mt_value = map_option (\<lambda>_. MASK_TOKEN) val, mt_raw_value = map_option (\<lambda>_. MASK_TOKEN) raw_value,
            mt_crop_uri = None, mt_masked = True\<rparr>)"

section \<open>Lemmas\<close>

lemma role_value_inj: "inj role_value"
  by (rule injI) (case_tac x; case_tac y; simp)

lemma unmasked_role: "role_value r \<notin> set ROLES_THAT_SEE_PERSONAL_DATA_UNMASKED"
  by (cases r) (simp_all add: ROLES_THAT_SEE_PERSONAL_DATA_UNMASKED_def)

lemma mask_apply_hidden:
  assumes "is_personal_data c" and "viewer \<notin> set ROLES_THAT_SEE_PERSONAL_DATA_UNMASKED"
  shows "mask_apply v r u c viewer = \<lparr>mt_value = map_option (\<lambda>_. MASK_TOKEN) v,
    mt_raw_value = map_option (\<lambda>_. MASK_TOKEN) r, mt_crop_uri = None, mt_masked = True\<rparr>"
  using assms by (simp add: mask_apply_def)

lemma mask_apply_shown: "\<not> is_personal_data c \<Longrightarrow> mask_apply v r u c viewer =
    \<lparr>mt_value = v, mt_raw_value = r, mt_crop_uri = u, mt_masked = False\<rparr>"
  by (simp add: mask_apply_def)

lemma require_permission_cases:
  assumes "require_permission E provider p x (begin_session w) = (res, s)"
  obtains (unknown) err where "get_identity provider x = Inl err" "res = Inl err" "s = begin_session w"
  | (denied) i where "get_identity provider x = Inr i" "\<not> identity_has i p" "res = Inl (HTTPException 403)"
      "s = begin_session (record_permission_check E (id_actor i) (permission_value p) False w)"
  | (allowed) i where "get_identity provider x = Inr i" "identity_has i p" "res = Inr i"
      "s = begin_session (record_permission_check E (id_actor i) (permission_value p) True w)"
  using assms by (auto simp: require_permission_def session_defs Let_def split: sum.splits if_splits)

lemma guarded_cases:
  assumes "guarded E provider p x route w = (res, w')"
  obtains (unknown) err where "get_identity provider x = Inl err" "res = Inl err" "w' = rolled_back w w"
  | (denied) i where "get_identity provider x = Inr i" "\<not> identity_has i p" "res = Inl (HTTPException 403)"
      "w' = (let v = record_permission_check E (id_actor i) (permission_value p) False w in rolled_back v v)"
  | (allowed) i s where "get_identity provider x = Inr i" "identity_has i p"
      "route i (begin_session (record_permission_check E (id_actor i) (permission_value p) True w)) = (res, s)"
      "w' = current (rollback s)"
proof -
  obtain pres s where p: "require_permission E provider p x (begin_session w) = (pres, s)" by fastforce
  from p show thesis
  proof (cases rule: require_permission_cases)
    case (unknown err)
    then show thesis using assms p that(1) by (simp add: guarded_def session_defs)
  next
    case (denied i)
    then show thesis using assms p that(2) by (simp add: guarded_def session_defs)
  next
    case (allowed i)
    obtain rres s' where r: "route i s = (rres, s')" by fastforce
    then have "(res, w') = (rres, current (rollback s'))" using assms p allowed(3) by (simp add: guarded_def)
    then show thesis using that(3) [OF allowed(1,2)] r allowed(4) by simp
  qed
qed

end
