(* ===== verification/Decision.thy ===== *)
theory Decision
  imports Audit_Log
begin

text \<open>
  The decision engine: \<open>route\<close> and its five outcomes (\<open>backend/domain/decision.py\<close>), the
  \<open>page.processed\<close> event (\<open>backend/domain/page_lifecycle.py\<close>) and the consumer of
  \<open>DECISION_QUEUE\<close> (\<open>backend/workers/decision_engine.py\<close>). \<open>route\<close> is one function of the
  database; the consumer works on a session, because it commits on its own before it raises.
  The returned dictionary is a \<open>route_result\<close>, one constructor per shape.
\<close>

section \<open>Page lifecycle\<close>

definition VALID_ROUTING_OUTCOMES :: "string list" where
  "VALID_ROUTING_OUTCOMES =
     [''auto_accept'', ''audit_sample'', ''review'', ''conflict'', ''outside_calibrated_regime'']"

definition terminal_outcome :: "string option \<Rightarrow> bool" where
  "terminal_outcome out \<longleftrightarrow> (case out of None \<Rightarrow> False | Some s \<Rightarrow> s \<in> set VALID_ROUTING_OUTCOMES)"

definition district_for_page :: "string \<Rightarrow> 'a db_scheme \<Rightarrow> string option" where
  "district_for_page page_id w =
     (case get_by pg_id page_id (pages w) of
        None \<Rightarrow> None
      | Some page \<Rightarrow>
          (case get_by sd_id (pg_document_id page) (documents w) of
             None \<Rightarrow> None
           | Some doc \<Rightarrow> map_option ba_district (get_by ba_id (sd_batch_id doc) (batches w))))"

definition processed_shard :: "env \<Rightarrow> string \<Rightarrow> string option \<Rightarrow> int" where
  "processed_shard E page_id district =
     (if truthy district then shard_for E (shard_key_for district None) else shard_for E page_id)"

definition processed_entry :: "env \<Rightarrow> string \<Rightarrow> string option \<Rightarrow> audit_entry \<Rightarrow> bool" where
  "processed_entry E page_id district e \<longleftrightarrow>
     ae_shard e = processed_shard E page_id district \<and> ae_action e = ''page.processed'' \<and>
     ae_subject e = Some page_id"

definition already_processed :: "env \<Rightarrow> string \<Rightarrow> string option \<Rightarrow> 'a db_scheme \<Rightarrow> bool" where
  "already_processed E page_id district w =
     list_ex (processed_entry E page_id district) (audit_entries w)"

definition mark_processed_if_terminal :: "env \<Rightarrow> string \<Rightarrow> 'a db_scheme \<Rightarrow> bool \<times> 'a db_scheme" where
  "mark_processed_if_terminal E page_id w =
     (let district = district_for_page page_id w;
          outcomes = map ex_routing_outcome (filter (\<lambda>x. ex_page_id x = page_id) (extractions w))
      in if already_processed E page_id district w then (False, w)
         else if outcomes = [] then (False, w)
         else if list_ex (\<lambda>out. \<not> terminal_outcome out) outcomes then (False, w)
         else (True, record_page_processed E page_id district w))"

section \<open>The five outcomes\<close>

datatype route_result =
    Auto_Accept_Result (rr_extraction: string) (rr_replayed: bool)
  | Review_Result (rr_task: "string option") (rr_replayed: bool)
  | Audit_Sample_Result (rr_task: "string option") (rr_sample: "string option") (rr_replayed: bool)
  | Conflict_Result (rr_conflict: "string option") (rr_replayed: bool)
  | Outside_Result (rr_extraction: string) (rr_alert: "string option") (rr_deduplicated: bool)
      (rr_replayed: bool)

definition NOVELTY_CLUSTER_ALERT_DEDUP_WINDOW :: int where
  "NOVELTY_CLUSTER_ALERT_DEDUP_WINDOW = 6 * one_hour"

definition new_review_task ::
  "env \<Rightarrow> string \<Rightarrow> string \<Rightarrow> 'a db_scheme \<Rightarrow> review_task \<times> 'a db_scheme" where
  \<comment> \<open>\<open>session.add(ReviewTask(...))\<close> and \<open>flush\<close>: the column defaults draw an id and read the clock\<close>
  "new_review_task E extraction_id source_stream w =
     (let (tid, w) = draw_uuid E w;
          (t, w) = read_clock E w;
          task = \<lparr>rv_id = tid, rv_extraction_id = extraction_id, rv_reason = None,
                  rv_source_stream = source_stream, rv_assignee = None, rv_opened_at = t,
                  rv_closed_at = None, rv_cluster_id = None, rv_cluster_size = None,
                  rv_hour_into_session = None\<rparr>
      in (task, w\<lparr>review_tasks := review_tasks w @ [task]\<rparr>))"

definition auto_accept :: "env \<Rightarrow> extraction \<Rightarrow> 'a db_scheme \<Rightarrow> route_result \<times> 'a db_scheme" where
  "auto_accept E x w = (Auto_Accept_Result (ex_id x) False, w)"

definition audit_sample_outcome :: "env \<Rightarrow> extraction \<Rightarrow> 'a db_scheme \<Rightarrow> route_result \<times> 'a db_scheme" where
  "audit_sample_outcome E x w =
     (let (task, w) = new_review_task E (ex_id x) ''audit'' w;
          (sid, w) = draw_uuid E w;
          sample = \<lparr>as_id = sid, as_extraction_id = ex_id x, as_review_task_id = Some (rv_id task),
                    as_model_confidence = ex_calibrated_confidence x, as_officer_verdict = ''pending'',
                    as_agreed = None, as_stratum = None\<rparr>
      in (Audit_Sample_Result (Some (rv_id task)) (Some sid) False,
          w\<lparr>audit_samples := audit_samples w @ [sample]\<rparr>))"

definition targeted_review :: "env \<Rightarrow> extraction \<Rightarrow> 'a db_scheme \<Rightarrow> route_result \<times> 'a db_scheme" where
  "targeted_review E x w =
     (let (task, w) = new_review_task E (ex_id x) ''routed'' w
      in (Review_Result (Some (rv_id task)) False, w))"

definition open_conflict_placeholder :: "env \<Rightarrow> extraction \<Rightarrow> 'a db_scheme \<Rightarrow> route_result \<times> 'a db_scheme" where
  "open_conflict_placeholder E x w =
     (let (cid, w) = draw_uuid E w;
          (t, w) = read_clock E w;
          conflict = \<lparr>cf_id = cid, cf_records = [ex_id x], cf_rule = ''pending-validator-evidence-wiring'',
                      cf_evidence = [(''extraction_id'', ex_id x)], cf_origin = ''validator'',
                      cf_state = ''open'', cf_assignee = None, cf_opened_at = t\<rparr>
      in (Conflict_Result (Some cid) False, w\<lparr>conflicts := conflicts w @ [conflict]\<rparr>))"

definition open_alert :: "int \<Rightarrow> string \<Rightarrow> operational_alert \<Rightarrow> bool" where
  "open_alert cutoff cluster_key a \<longleftrightarrow>
     oa_kind a = ''outside_calibrated_regime'' \<and> oa_cluster_key a = cluster_key \<and> oa_opened_at a \<ge> cutoff"

definition fold_into_alert :: "string \<Rightarrow> operational_alert \<Rightarrow> operational_alert" where
  "fold_into_alert extraction_id a =
     (if extraction_id \<notin> set (oa_extraction_ids a)
      then a\<lparr>oa_extraction_ids := oa_extraction_ids a @ [extraction_id]\<rparr> else a)"

definition outside_calibrated_regime ::
  "env \<Rightarrow> extraction \<Rightarrow> string \<Rightarrow> 'a db_scheme \<Rightarrow> route_result \<times> 'a db_scheme" where
  "outside_calibrated_regime E x cluster_key w =
     (let (now, w) = read_clock E w;
          cutoff = now - NOVELTY_CLUSTER_ALERT_DEDUP_WINDOW
      in case latest_by oa_opened_at (open_alert cutoff cluster_key) (operational_alerts w) of
           Some existing \<Rightarrow>
             (Outside_Result (ex_id x) (Some (oa_id existing)) True False,
              w\<lparr>operational_alerts :=
                  set_by oa_id (oa_id existing) (fold_into_alert (ex_id x)) (operational_alerts w)\<rparr>)
         | None \<Rightarrow>
             (let (aid, w) = draw_uuid E w;
                  (t, w) = read_clock E w;
                  alert = \<lparr>oa_id = aid, oa_kind = ''outside_calibrated_regime'', oa_cluster_key = cluster_key,
                           oa_extraction_ids = [ex_id x], oa_opened_at = t\<rparr>
              in (Outside_Result (ex_id x) (Some aid) False False,
                  w\<lparr>operational_alerts := operational_alerts w @ [alert]\<rparr>)))"

definition perform_outcome ::
  "env \<Rightarrow> string \<Rightarrow> extraction \<Rightarrow> string option \<Rightarrow> 'a db_scheme \<Rightarrow> route_result \<times> 'a db_scheme" where
  "perform_outcome E outcome x novelty_cluster_id w =
     (if outcome = ''auto_accept'' then auto_accept E x w
      else if outcome = ''audit_sample'' then audit_sample_outcome E x w
      else if outcome = ''review'' then targeted_review E x w
      else if outcome = ''conflict'' then open_conflict_placeholder E x w
      else outside_calibrated_regime E x (or_else novelty_cluster_id (ex_id x)) w)"

section \<open>Routing\<close>

definition task_of :: "string \<Rightarrow> 'a db_scheme \<Rightarrow> exn + review_task option" where
  "task_of extraction_id w =
     scalar_one_or_none (filter (\<lambda>t. rv_extraction_id t = extraction_id) (review_tasks w))"

definition replayed_result :: "string \<Rightarrow> string \<Rightarrow> 'a db_scheme \<Rightarrow> exn + route_result" where
  "replayed_result outcome xid w =
     (if outcome = ''auto_accept'' then Inr (Auto_Accept_Result xid True)
      else if outcome = ''review'' then
        (case task_of xid w of
           Inl err \<Rightarrow> Inl err
         | Inr task \<Rightarrow> Inr (Review_Result (map_option rv_id task) True))
      else if outcome = ''audit_sample'' then
        (case task_of xid w of
           Inl err \<Rightarrow> Inl err
         | Inr task \<Rightarrow>
             (case scalar_one_or_none (filter (\<lambda>s. as_extraction_id s = xid) (audit_samples w)) of
                Inl err \<Rightarrow> Inl err
              | Inr sample \<Rightarrow> Inr (Audit_Sample_Result (map_option rv_id task) (map_option as_id sample) True)))
      else if outcome = ''conflict'' then
        (case scalar_one_or_none (filter (\<lambda>c. xid \<in> set (cf_records c)) (conflicts w)) of
           Inl err \<Rightarrow> Inl err
         | Inr conflict \<Rightarrow> Inr (Conflict_Result (map_option cf_id conflict) True))
      else
        (case scalar_one_or_none (filter (\<lambda>a. xid \<in> set (oa_extraction_ids a)) (operational_alerts w)) of
           Inl err \<Rightarrow> Inl err
         | Inr alert \<Rightarrow> Inr (Outside_Result xid (map_option oa_id alert) True True)))"

definition decided :: "string \<Rightarrow> 'a db_scheme \<Rightarrow> exn + decision_record option" where
  "decided extraction_id w =
     scalar_one_or_none (filter (\<lambda>d. dr_extraction_id d = extraction_id) (decision_records w))"

definition route_call :: "string \<Rightarrow> string \<Rightarrow> audit_call" where
  "route_call outcome extraction_id =
     (audit_call ''system:decision-engine'' (''decision.route.'' @ outcome))\<lparr>ac_subject := Some extraction_id\<rparr>"

definition decide ::
  "env \<Rightarrow> extraction \<Rightarrow> string \<Rightarrow> string option \<Rightarrow> string option \<Rightarrow> 'a db_scheme \<Rightarrow> route_result \<times> 'a db_scheme"
where
  \<comment> \<open>the part of \<open>route\<close> after the replay check\<close>
  "decide E x outcome novelty_cluster_id envelope_id w =
     (let (result, w) = perform_outcome E outcome x novelty_cluster_id w;
          (did, w) = draw_uuid E w;
          (t, w) = read_clock E w;
          dec_rec = \<lparr>dr_id = did, dr_extraction_id = ex_id x, dr_outcome = outcome,
                     dr_envelope_id = envelope_id, dr_decided_at = t\<rparr>;
          w = w\<lparr>decision_records := decision_records w @ [dec_rec]\<rparr>;
          w = audited E (route_call outcome (ex_id x)) w;
          (marked, w) = mark_processed_if_terminal E (ex_page_id x) w
      in (result, w))"

definition route ::
  "env \<Rightarrow> string \<Rightarrow> string option \<Rightarrow> string option \<Rightarrow> 'a db_scheme \<Rightarrow> (exn + route_result) \<times> 'a db_scheme"
where
  "route E extraction_id novelty_cluster_id envelope_id w =
     (case get_by ex_id extraction_id (extractions w) of
        None \<Rightarrow> (Inl (ExtractionNotFoundError extraction_id), w)
      | Some x \<Rightarrow>
          (case ex_routing_outcome x of
             None \<Rightarrow> (Inl (UnroutableExtraction extraction_id), w)
           | Some outcome \<Rightarrow>
               if outcome \<notin> set VALID_ROUTING_OUTCOMES then (Inl (UnroutableExtraction extraction_id), w)
               else
                 (case decided extraction_id w of
                    Inl err \<Rightarrow> (Inl err, w)
                  | Inr (Some existing) \<Rightarrow>
                      if dr_outcome existing \<noteq> outcome
                      then (Inl (AlreadyDecidedWithDifferentOutcome extraction_id), w)
                      else (replayed_result outcome extraction_id w, w)
                  | Inr None \<Rightarrow>
                      (let (result, w) = decide E x outcome novelty_cluster_id envelope_id w
                       in (Inr result, w)))))"

section \<open>The worker\<close>

definition payload_fields ::
  "payload \<Rightarrow> string option \<times> string option \<times> pyfloat option \<times> string option" where
  \<comment> \<open>what \<open>payload.get\<close> finds under the keys of a decision payload\<close>
  "payload_fields p =
     (case p of
        Decision_Payload xid ro cc nc \<Rightarrow> (xid, ro, cc, nc)
      | Page_Payload pid d i dt pr cv \<Rightarrow> (Some pid, None, None, None)
      | Ingestion_Payload d s m \<Rightarrow> (None, None, None, None)
      | Lane_Payload d p dt pr \<Rightarrow> (None, None, None, None))"

definition mismatched_fields :: "string option \<Rightarrow> pyfloat option \<Rightarrow> extraction \<Rightarrow> string list" where
  "mismatched_fields routing_outcome calibrated_confidence x =
     (if routing_outcome \<noteq> None \<and> routing_outcome \<noteq> ex_routing_outcome x then [''routing_outcome''] else [])
   @ (if calibrated_confidence \<noteq> None \<and> calibrated_confidence \<noteq> ex_calibrated_confidence x
      then [''calibrated_confidence''] else [])"

definition message_envelope_id :: "payload emitted \<Rightarrow> string option" where
  \<comment> \<open>\<open>(message.get("work_envelope") or {}).get("envelope_id")\<close>, an empty id as a missing one\<close>
  "message_envelope_id m =
     (case em_work_envelope m of
        None \<Rightarrow> None
      | Some e \<Rightarrow> if we_envelope_id e = [] then None else Some (we_envelope_id e))"

record decision_message =
  \<comment> \<open>a message of \<open>DECISION_QUEUE\<close>: the emitted keys, and the two that \<open>handle\<close> also looks for beside them\<close>
  dm_message :: message
  dm_novelty_cluster_id :: "string option"
  dm_envelope_id :: "string option"

definition plain_message :: "message \<Rightarrow> decision_message" where
  "plain_message m = \<lparr>dm_message = m, dm_novelty_cluster_id = None, dm_envelope_id = None\<rparr>"

definition decision_handle ::
  "env \<Rightarrow> decision_message \<Rightarrow> db session \<Rightarrow> (exn + route_result) \<times> db session"
where
  "decision_handle E message s =
     (case dm_message message of
        Config_Event sc k v \<Rightarrow> (Inl (ValueError ''DecisionEnvelope missing required payload.id''), s)
      | Emitted m \<Rightarrow>
          (case payload_fields (em_payload m) of
             (xid, ro, cc, nc) \<Rightarrow>
               if \<not> truthy xid then (Inl (ValueError ''DecisionEnvelope missing required payload.id''), s)
               else
                 (let extraction_id = or_empty xid in
                  case get_by ex_id extraction_id (extractions (current s)) of
                    None \<Rightarrow> (Inl (ExtractionNotFoundError extraction_id), s)
                  | Some x \<Rightarrow>
                      (let mism = mismatched_fields ro cc x in
                       if mism \<noteq> [] then
                         (Inl (PayloadMismatchError extraction_id),
                          commit (s\<lparr>current := record_payload_mismatch E extraction_id mism (current s)\<rparr>))
                       else
                         in_session (route E extraction_id (or_str nc (dm_novelty_cluster_id message))
                           (or_str (message_envelope_id m) (dm_envelope_id message))) s))))"

section \<open>What an outcome changes\<close>

lemma perform_outcome_frame:
  assumes "perform_outcome E outcome x nc w = (r, w')"
  shows "audit_entries w' = audit_entries w \<and> decision_records w' = decision_records w \<and>
    extractions w' = extractions w \<and> pages w' = pages w \<and> documents w' = documents w \<and>
    batches w' = batches w \<and> outbox w' = outbox w \<and> work_envelopes w' = work_envelopes w \<and>
    clock_reads w \<le> clock_reads w' \<and> uuids_drawn w \<le> uuids_drawn w'"
  using assms
  by (auto simp: perform_outcome_def auto_accept_def audit_sample_outcome_def targeted_review_def
      open_conflict_placeholder_def outside_calibrated_regime_def new_review_task_def world_defs
      split: if_splits option.splits)

lemma audit_sample_rows:
  assumes "audit_sample_outcome E x w = (r, v)"
  shows "\<exists>task sample. r = Audit_Sample_Result (Some (rv_id task)) (Some (as_id sample)) False \<and>
    review_tasks v = review_tasks w @ [task] \<and> rv_extraction_id task = ex_id x \<and>
    rv_source_stream task = ''audit'' \<and> rv_assignee task = None \<and> rv_closed_at task = None \<and>
    audit_samples v = audit_samples w @ [sample] \<and> as_extraction_id sample = ex_id x \<and>
    as_review_task_id sample = Some (rv_id task) \<and> as_officer_verdict sample = ''pending'' \<and>
    as_model_confidence sample = ex_calibrated_confidence x \<and>
    conflicts v = conflicts w \<and> operational_alerts v = operational_alerts w"
  using assms
  by (intro exI [of _ "last (review_tasks v)"] exI [of _ "last (audit_samples v)"])
     (auto simp: audit_sample_outcome_def new_review_task_def world_defs)

lemma targeted_review_rows:
  assumes "targeted_review E x w = (r, v)"
  shows "\<exists>task. r = Review_Result (Some (rv_id task)) False \<and>
    review_tasks v = review_tasks w @ [task] \<and> rv_extraction_id task = ex_id x \<and>
    rv_source_stream task = ''routed'' \<and> rv_assignee task = None \<and> rv_closed_at task = None \<and>
    audit_samples v = audit_samples w \<and> conflicts v = conflicts w \<and> operational_alerts v = operational_alerts w"
  using assms
  by (intro exI [of _ "last (review_tasks v)"]) (auto simp: targeted_review_def new_review_task_def world_defs)

lemma open_conflict_rows:
  assumes "open_conflict_placeholder E x w = (r, v)"
  shows "\<exists>c. r = Conflict_Result (Some (cf_id c)) False \<and>
    conflicts v = conflicts w @ [c] \<and> cf_records c = [ex_id x] \<and> cf_origin c = ''validator'' \<and>
    cf_state c = ''open'' \<and>
    review_tasks v = review_tasks w \<and> audit_samples v = audit_samples w \<and> operational_alerts v = operational_alerts w"
  using assms
  by (intro exI [of _ "last (conflicts v)"]) (auto simp: open_conflict_placeholder_def world_defs)

lemma outside_rows:
  assumes "outside_calibrated_regime E x key w = (r, v)"
  shows "review_tasks v = review_tasks w \<and> audit_samples v = audit_samples w \<and> conflicts v = conflicts w \<and>
   (case latest_by oa_opened_at
        (open_alert (utcnow E (clock_reads w) - NOVELTY_CLUSTER_ALERT_DEDUP_WINDOW) key) (operational_alerts w) of
      Some b \<Rightarrow> r = Outside_Result (ex_id x) (Some (oa_id b)) True False \<and> uuids_drawn v = uuids_drawn w \<and>
        operational_alerts v = set_by oa_id (oa_id b) (fold_into_alert (ex_id x)) (operational_alerts w)
    | None \<Rightarrow> \<exists>a. r = Outside_Result (ex_id x) (Some (oa_id a)) False False \<and>
        operational_alerts v = operational_alerts w @ [a] \<and> oa_extraction_ids a = [ex_id x] \<and>
        oa_cluster_key a = key \<and> oa_kind a = ''outside_calibrated_regime'' \<and>
        oa_id a = uuid4 E (uuids_drawn w) \<and> uuids_drawn v = Suc (uuids_drawn w) \<and>
        oa_opened_at a = utcnow E (Suc (clock_reads w)))"
proof (cases "latest_by oa_opened_at
    (open_alert (utcnow E (clock_reads w) - NOVELTY_CLUSTER_ALERT_DEDUP_WINDOW) key) (operational_alerts w)")
  case (Some b)
  then show ?thesis using assms by (auto simp: outside_calibrated_regime_def world_defs)
next
  case None
  then show ?thesis using assms
    by (auto simp: outside_calibrated_regime_def world_defs intro!: exI [of _ "last (operational_alerts v)"])
qed

lemma mark_processed_cases:
  "snd (mark_processed_if_terminal E p w) = w \<or>
   snd (mark_processed_if_terminal E p w) = record_page_processed E p (district_for_page p w) w"
  by (auto simp: mark_processed_if_terminal_def Let_def)

lemma mark_processed_frame [simp]:
  "decision_records (snd (mark_processed_if_terminal E p w)) = decision_records w"
  "extractions (snd (mark_processed_if_terminal E p w)) = extractions w"
  "review_tasks (snd (mark_processed_if_terminal E p w)) = review_tasks w"
  "audit_samples (snd (mark_processed_if_terminal E p w)) = audit_samples w"
  "conflicts (snd (mark_processed_if_terminal E p w)) = conflicts w"
  "operational_alerts (snd (mark_processed_if_terminal E p w)) = operational_alerts w"
  "pages (snd (mark_processed_if_terminal E p w)) = pages w"
  "documents (snd (mark_processed_if_terminal E p w)) = documents w"
  "batches (snd (mark_processed_if_terminal E p w)) = batches w"
  "uuids_drawn w \<le> uuids_drawn (snd (mark_processed_if_terminal E p w))"
  using mark_processed_cases [of E p w] by (auto simp: record_page_processed_def)

lemma mark_processed_logged: "logged E w (snd (mark_processed_if_terminal E p w))"
  using mark_processed_cases [of E p w] by (auto simp: record_page_processed_def)

text \<open>\<open>decide\<close> in one equation: the outcome's rows, the decision record, the audit entry, the page event.\<close>

lemma decide_eq:
  assumes "perform_outcome E outcome x nc w = (r, v)"
  shows "\<exists>d v'. decide E x outcome nc env w =
      (r, snd (mark_processed_if_terminal E (ex_page_id x) (audited E (route_call outcome (ex_id x)) v'))) \<and>
    v' = v\<lparr>uuids_drawn := Suc (uuids_drawn v), clock_reads := Suc (clock_reads v),
           decision_records := decision_records v @ [d]\<rparr> \<and>
    dr_extraction_id d = ex_id x \<and> dr_outcome d = outcome \<and> dr_envelope_id d = env"
proof -
  let ?d = "\<lparr>dr_id = uuid4 E (uuids_drawn v), dr_extraction_id = ex_id x, dr_outcome = outcome,
      dr_envelope_id = env, dr_decided_at = utcnow E (clock_reads v)\<rparr>"
  have "decide E x outcome nc env w =
      (r, snd (mark_processed_if_terminal E (ex_page_id x) (audited E (route_call outcome (ex_id x))
        (v\<lparr>uuids_drawn := Suc (uuids_drawn v), clock_reads := Suc (clock_reads v),
           decision_records := decision_records v @ [?d]\<rparr>))))"
    using assms by (simp add: decide_def world_defs split: prod.split)
  then show ?thesis by (intro exI [of _ ?d] exI conjI) simp_all
qed

lemma decide_tables:
  assumes "perform_outcome E outcome x nc w = (r, v)" and "decide E x outcome nc env w = (r', w')"
  shows "r' = r \<and> (\<exists>d. decision_records w' = decision_records w @ [d] \<and> dr_extraction_id d = ex_id x \<and>
      dr_outcome d = outcome \<and> dr_envelope_id d = env) \<and>
    extractions w' = extractions w \<and> review_tasks w' = review_tasks v \<and> audit_samples w' = audit_samples v \<and>
    conflicts w' = conflicts v \<and> operational_alerts w' = operational_alerts v \<and>
    uuids_drawn v \<le> uuids_drawn w' \<and> pages w' = pages w \<and> documents w' = documents w \<and> batches w' = batches w"
proof -
  note f = perform_outcome_frame [OF assms(1)]
  from decide_eq [OF assms(1), of env] obtain d v' where
    dec: "decide E x outcome nc env w =
      (r, snd (mark_processed_if_terminal E (ex_page_id x) (audited E (route_call outcome (ex_id x)) v')))"
    and v': "v' = v\<lparr>uuids_drawn := Suc (uuids_drawn v), clock_reads := Suc (clock_reads v),
           decision_records := decision_records v @ [d]\<rparr>"
    and d: "dr_extraction_id d = ex_id x" "dr_outcome d = outcome" "dr_envelope_id d = env" by blast
  let ?m = "mark_processed_if_terminal E (ex_page_id x) (audited E (route_call outcome (ex_id x)) v')"
  have "uuids_drawn v \<le> uuids_drawn (snd ?m)"
    using mark_processed_frame(10) [of "audited E (route_call outcome (ex_id x)) v'" E "ex_page_id x"]
    by (simp add: v')
  with dec assms(2) f d show ?thesis by (auto simp: v')
qed

lemma decide_logged: "logged E w (snd (decide E x outcome nc env w))"
proof -
  obtain r v where p: "perform_outcome E outcome x nc w = (r, v)" by fastforce
  from decide_eq [OF p, of env] perform_outcome_frame [OF p] obtain v' where
    dec: "snd (decide E x outcome nc env w) =
      snd (mark_processed_if_terminal E (ex_page_id x) (audited E (route_call outcome (ex_id x)) v'))"
    and v': "audit_entries v' = audit_entries w" "clock_reads w \<le> clock_reads v'" by auto
  have "logged E w (audited E (route_call outcome (ex_id x)) v')"
    by (rule logged_then_audited, rule logged_quiet, fact+)
  from logged_trans [OF this mark_processed_logged] dec show ?thesis by simp
qed

lemma route_cases:
  assumes "route E xid nc env w = (res, w')"
  obtains (refused) err where "res = Inl err" "w' = w"
  | (replay) x outcome d where "get_by ex_id xid (extractions w) = Some x" "ex_routing_outcome x = Some outcome"
      "outcome \<in> set VALID_ROUTING_OUTCOMES"
      "decided xid w = Inr (Some d)" "dr_outcome d = outcome" "res = replayed_result outcome xid w" "w' = w"
  | (fresh) x outcome r where "get_by ex_id xid (extractions w) = Some x" "ex_routing_outcome x = Some outcome"
      "outcome \<in> set VALID_ROUTING_OUTCOMES" "decided xid w = Inr None"
      "decide E x outcome nc env w = (r, w')" "res = Inr r"
proof (cases "get_by ex_id xid (extractions w)")
  case None
  with assms show ?thesis by (intro refused) (auto simp: route_def)
next
  case (Some x)
  note x = this
  show ?thesis
  proof (cases "ex_routing_outcome x")
    case None
    with x assms show ?thesis by (intro refused) (auto simp: route_def)
  next
    case (Some outcome)
    note out = this
    show ?thesis
    proof (cases "outcome \<in> set VALID_ROUTING_OUTCOMES")
      case False
      with x out assms show ?thesis by (intro refused) (auto simp: route_def)
    next
      case True
      show ?thesis
      proof (cases "decided xid w")
        case (Inl err)
        with x out True assms show ?thesis by (intro refused) (auto simp: route_def)
      next
        case (Inr od)
        note d = this
        show ?thesis
        proof (cases od)
          case None
          obtain r v where "decide E x outcome nc env w = (r, v)" by fastforce
          with None x out True d assms show ?thesis by (intro fresh) (auto simp: route_def)
        next
          case (Some e)
          show ?thesis
          proof (cases "dr_outcome e = outcome")
            case True
            with Some x out \<open>outcome \<in> set VALID_ROUTING_OUTCOMES\<close> d assms show ?thesis
              by (intro replay) (auto simp: route_def)
          next
            case False
            with Some x out True d assms show ?thesis by (intro refused) (auto simp: route_def)
          qed
        qed
      qed
    qed
  qed
qed

lemma route_logged: "logged E w (snd (route E xid nc env w))"
proof -
  obtain res w' where "route E xid nc env w = (res, w')" by fastforce
  then show ?thesis
  proof (cases rule: route_cases)
    case (fresh x outcome r)
    have "logged E w (snd (decide E x outcome nc env w))" by (rule decide_logged)
    with fresh \<open>route E xid nc env w = (res, w')\<close> show ?thesis by simp
  qed (use \<open>route E xid nc env w = (res, w')\<close> in auto)
qed

section \<open>The rows of an undecided extraction\<close>

text \<open>
  Between decisions, an extraction without a decision record has no review task, audit sample,
  conflict or alert naming it, and alerts have ids of their own.
\<close>

definition decision_inv :: "env \<Rightarrow> 'a db_scheme \<Rightarrow> bool" where
  "decision_inv E w \<longleftrightarrow>
     distinct (map dr_extraction_id (decision_records w)) \<and>
     distinct (map oa_id (operational_alerts w)) \<and>
     (\<forall>a\<in>set (operational_alerts w). \<exists>k<uuids_drawn w. oa_id a = uuid4 E k) \<and>
     (\<forall>t\<in>set (review_tasks w). rv_extraction_id t \<in> dr_extraction_id ` set (decision_records w)) \<and>
     (\<forall>s\<in>set (audit_samples w). as_extraction_id s \<in> dr_extraction_id ` set (decision_records w)) \<and>
     (\<forall>c\<in>set (conflicts w). set (cf_records c) \<subseteq> dr_extraction_id ` set (decision_records w)) \<and>
     (\<forall>a\<in>set (operational_alerts w). set (oa_extraction_ids a) \<subseteq> dr_extraction_id ` set (decision_records w))"

lemma decision_invD:
  assumes "decision_inv E w"
  shows "distinct (map dr_extraction_id (decision_records w))" "distinct (map oa_id (operational_alerts w))"
    "\<forall>a\<in>set (operational_alerts w). \<exists>k<uuids_drawn w. oa_id a = uuid4 E k"
    "\<forall>t\<in>set (review_tasks w). rv_extraction_id t \<in> dr_extraction_id ` set (decision_records w)"
    "\<forall>s\<in>set (audit_samples w). as_extraction_id s \<in> dr_extraction_id ` set (decision_records w)"
    "\<forall>c\<in>set (conflicts w). set (cf_records c) \<subseteq> dr_extraction_id ` set (decision_records w)"
    "\<forall>a\<in>set (operational_alerts w). set (oa_extraction_ids a) \<subseteq> dr_extraction_id ` set (decision_records w)"
  using assms unfolding decision_inv_def by - ((elim conjE, assumption)+)

lemma decided_None_iff: "decided xid w = Inr None \<longleftrightarrow> xid \<notin> dr_extraction_id ` set (decision_records w)"
  by (auto simp: decided_def filter_empty_conv)

definition as_replay :: "route_result \<Rightarrow> route_result" where
  "as_replay r =
     (case r of
        Auto_Accept_Result x b \<Rightarrow> Auto_Accept_Result x True
      | Review_Result t b \<Rightarrow> Review_Result t True
      | Audit_Sample_Result t s b \<Rightarrow> Audit_Sample_Result t s True
      | Conflict_Result c b \<Rightarrow> Conflict_Result c True
      | Outside_Result x a d b \<Rightarrow> Outside_Result x a True True)"

lemma replayed_result_replay:
  "replayed_result outcome xid w = Inr r \<Longrightarrow> as_replay r = r"
  by (auto simp: replayed_result_def as_replay_def split: if_splits sum.splits)

lemma filter_none: "(\<forall>y\<in>set ys. \<not> P y) \<Longrightarrow> filter P ys = []"
  by (simp add: filter_empty_conv)

lemma fold_alert_filter:
  assumes "distinct (map oa_id as)" and "\<forall>a\<in>set as. xid \<notin> set (oa_extraction_ids a)" and "b \<in> set as"
  shows "\<exists>b'. filter (\<lambda>a. xid \<in> set (oa_extraction_ids a)) (set_by oa_id (oa_id b) (fold_into_alert xid) as) = [b'] \<and>
    oa_id b' = oa_id b"
  using assms
proof (induction as)
  case Nil
  then show ?case by simp
next
  case (Cons a as)
  have id: "oa_id (fold_into_alert xid a) = oa_id a" by (simp add: fold_into_alert_def)
  have in_ids: "xid \<in> set (oa_extraction_ids (fold_into_alert xid a))" by (simp add: fold_into_alert_def)
  show ?case
  proof (cases "oa_id a = oa_id b")
    case True
    then have "set_by oa_id (oa_id b) (fold_into_alert xid) as = as"
      using Cons.prems(1) by (intro set_by_id) auto
    with True Cons.prems(2) id in_ids show ?thesis by (simp add: filter_none)
  next
    case False
    with Cons show ?thesis by auto
  qed
qed

lemma undecided_rows:
  assumes "decision_inv E w" and "xid \<notin> dr_extraction_id ` set (decision_records w)"
  shows "filter (\<lambda>t. rv_extraction_id t = xid) (review_tasks w) = []"
    and "filter (\<lambda>s. as_extraction_id s = xid) (audit_samples w) = []"
    and "filter (\<lambda>c. xid \<in> set (cf_records c)) (conflicts w) = []"
    and "filter (\<lambda>a. xid \<in> set (oa_extraction_ids a)) (operational_alerts w) = []"
proof -
  show "filter (\<lambda>t. rv_extraction_id t = xid) (review_tasks w) = []"
    using decision_invD(4) [OF assms(1)] assms(2) unfolding filter_empty_conv by blast
  show "filter (\<lambda>s. as_extraction_id s = xid) (audit_samples w) = []"
    using decision_invD(5) [OF assms(1)] assms(2) unfolding filter_empty_conv by blast
  show "filter (\<lambda>c. xid \<in> set (cf_records c)) (conflicts w) = []"
    using decision_invD(6) [OF assms(1)] assms(2) unfolding filter_empty_conv by blast
  show "filter (\<lambda>a. xid \<in> set (oa_extraction_ids a)) (operational_alerts w) = []"
    using decision_invD(7) [OF assms(1)] assms(2) unfolding filter_empty_conv by blast
qed

lemma perform_outcome_replay:
  assumes inv: "decision_inv E w" and x: "ex_id x = xid" "xid \<notin> dr_extraction_id ` set (decision_records w)"
    and p: "perform_outcome E outcome x nc w = (r, v)" and out: "outcome \<in> set VALID_ROUTING_OUTCOMES"
    and w': "review_tasks w' = review_tasks v" "audit_samples w' = audit_samples v"
      "conflicts w' = conflicts v" "operational_alerts w' = operational_alerts v"
  shows "replayed_result outcome xid w' = Inr (as_replay r)"
proof -
  note t = undecided_rows(1) [OF inv x(2)] and s = undecided_rows(2) [OF inv x(2)]
    and c = undecided_rows(3) [OF inv x(2)]
  have a: "\<forall>a\<in>set (operational_alerts w). xid \<notin> set (oa_extraction_ids a)"
    using decision_invD(7) [OF inv] x(2) by blast
  note d = decision_invD(2) [OF inv]
  consider (accept) "outcome = ''auto_accept''" | (sample) "outcome = ''audit_sample''"
    | (review) "outcome = ''review''" | (conflict) "outcome = ''conflict''"
    | (outside) "outcome = ''outside_calibrated_regime''"
    using out unfolding VALID_ROUTING_OUTCOMES_def list.set insert_iff empty_iff by (elim disjE FalseE)
  then show ?thesis
  proof cases
    case accept
    with p x(1) have "r = Auto_Accept_Result xid False" by (simp add: perform_outcome_def auto_accept_def)
    with accept show ?thesis by (simp add: replayed_result_def as_replay_def)
  next
    case sample
    with p have "audit_sample_outcome E x w = (r, v)" by (simp add: perform_outcome_def)
    from audit_sample_rows [OF this] x(1) obtain task smpl where
      v: "review_tasks v = review_tasks w @ [task]" "rv_extraction_id task = xid"
        "audit_samples v = audit_samples w @ [smpl]" "as_extraction_id smpl = xid"
      and r: "r = Audit_Sample_Result (Some (rv_id task)) (Some (as_id smpl)) False"
      by blast
    show ?thesis unfolding r sample replayed_result_def task_of_def w' v as_replay_def
      using v(2,4) t s by simp
  next
    case review
    with p have "targeted_review E x w = (r, v)" by (simp add: perform_outcome_def)
    from targeted_review_rows [OF this] x(1) obtain task where
      v: "review_tasks v = review_tasks w @ [task]" "rv_extraction_id task = xid"
      and r: "r = Review_Result (Some (rv_id task)) False"
      by blast
    show ?thesis unfolding r review replayed_result_def task_of_def w' v as_replay_def
      using v(2) t by simp
  next
    case conflict
    with p have "open_conflict_placeholder E x w = (r, v)" by (simp add: perform_outcome_def)
    from open_conflict_rows [OF this] x(1) obtain cf where
      v: "conflicts v = conflicts w @ [cf]" "cf_records cf = [xid]"
      and r: "r = Conflict_Result (Some (cf_id cf)) False"
      by blast
    show ?thesis unfolding r conflict replayed_result_def w' v as_replay_def
      using v(2) c by simp
  next
    case outside
    define cutoff where "cutoff = utcnow E (clock_reads w) - NOVELTY_CLUSTER_ALERT_DEDUP_WINDOW"
    define key where "key = or_else nc (ex_id x)"
    have p': "outside_calibrated_regime E x key w = (r, v)" using p outside by (simp add: perform_outcome_def key_def)
    show ?thesis
    proof (cases "latest_by oa_opened_at (open_alert cutoff key) (operational_alerts w)")
      case None
      with outside_rows [OF p'] x(1) obtain alert where v: "operational_alerts v = operational_alerts w @ [alert]"
          "oa_extraction_ids alert = [xid]" and r: "r = Outside_Result xid (Some (oa_id alert)) False False"
        by (auto simp: cutoff_def)
      show ?thesis unfolding r outside replayed_result_def w' v as_replay_def
        using v(2) a by (simp add: filter_none)
    next
      case (Some b)
      then have b: "b \<in> set (operational_alerts w)" by (rule latest_by_SomeD [THEN conjunct1])
      have v: "operational_alerts v = set_by oa_id (oa_id b) (fold_into_alert xid) (operational_alerts w)"
        and r: "r = Outside_Result xid (Some (oa_id b)) True False"
        using outside_rows [OF p'] Some x(1) by (simp_all add: cutoff_def)
      from fold_alert_filter [OF d a b] obtain b' where
        "filter (\<lambda>a. xid \<in> set (oa_extraction_ids a)) (operational_alerts v) = [b']" "oa_id b' = oa_id b"
        unfolding v by blast
      then show ?thesis unfolding r outside replayed_result_def w' as_replay_def by simp
    qed
  qed
qed

text \<open>The same rows, as a bound on whom they name.\<close>

definition rows_within :: "string set \<Rightarrow> 'a db_scheme \<Rightarrow> bool" where
  "rows_within S w \<longleftrightarrow>
     (\<forall>t\<in>set (review_tasks w). rv_extraction_id t \<in> S) \<and> (\<forall>s\<in>set (audit_samples w). as_extraction_id s \<in> S) \<and>
     (\<forall>c\<in>set (conflicts w). set (cf_records c) \<subseteq> S) \<and>
     (\<forall>a\<in>set (operational_alerts w). set (oa_extraction_ids a) \<subseteq> S)"

definition alerts_ok :: "env \<Rightarrow> 'a db_scheme \<Rightarrow> bool" where
  "alerts_ok E w \<longleftrightarrow> distinct (map oa_id (operational_alerts w)) \<and>
     (\<forall>a\<in>set (operational_alerts w). \<exists>k<uuids_drawn w. oa_id a = uuid4 E k)"

lemma decision_inv_iff:
  "decision_inv E w \<longleftrightarrow> distinct (map dr_extraction_id (decision_records w)) \<and> alerts_ok E w \<and>
     rows_within (dr_extraction_id ` set (decision_records w)) w"
  unfolding decision_inv_def rows_within_def alerts_ok_def by blast

lemma rows_within_cong:
  "review_tasks w' = review_tasks w \<Longrightarrow> audit_samples w' = audit_samples w \<Longrightarrow> conflicts w' = conflicts w \<Longrightarrow>
   operational_alerts w' = operational_alerts w \<Longrightarrow> rows_within S w' \<longleftrightarrow> rows_within S w"
  by (simp add: rows_within_def)

lemma alerts_ok_mono:
  "alerts_ok E w \<Longrightarrow> operational_alerts w' = operational_alerts w \<Longrightarrow> uuids_drawn w \<le> uuids_drawn w' \<Longrightarrow> alerts_ok E w'"
  unfolding alerts_ok_def by (simp, meson order_less_le_trans)

lemma set_fold_into_alert:
  "set (oa_extraction_ids (fold_into_alert x a)) = insert x (set (oa_extraction_ids a))"
  "oa_id (fold_into_alert x a) = oa_id a"
  by (auto simp: fold_into_alert_def)

lemma outside_alerts:
  assumes "inj (uuid4 E)" and "alerts_ok E w" and "outside_calibrated_regime E x key w = (r, v)"
  shows "alerts_ok E v \<and> (\<forall>a\<in>set (operational_alerts v). \<exists>b\<in>set (operational_alerts w) \<union> {b. oa_extraction_ids b = []}.
    set (oa_extraction_ids a) \<subseteq> insert (ex_id x) (set (oa_extraction_ids b)))"
proof (cases "latest_by oa_opened_at
    (open_alert (utcnow E (clock_reads w) - NOVELTY_CLUSTER_ALERT_DEDUP_WINDOW) key) (operational_alerts w)")
  case (Some b)
  with outside_rows [OF assms(3)] have
    v: "operational_alerts v = set_by oa_id (oa_id b) (fold_into_alert (ex_id x)) (operational_alerts w)"
    "uuids_drawn v = uuids_drawn w" by simp_all
  have "map oa_id (operational_alerts v) = map oa_id (operational_alerts w)"
    unfolding v by (rule map_set_by) (simp add: set_fold_into_alert)
  moreover have "\<forall>a\<in>set (operational_alerts v). \<exists>b\<in>set (operational_alerts w). oa_id a = oa_id b \<and>
      set (oa_extraction_ids a) \<subseteq> insert (ex_id x) (set (oa_extraction_ids b))"
  proof
    fix a assume "a \<in> set (operational_alerts v)"
    then obtain c where c: "c \<in> set (operational_alerts w)" "a = c \<or> a = fold_into_alert (ex_id x) c"
      unfolding v set_by_def by (auto split: if_splits)
    then have "oa_id a = oa_id c \<and> set (oa_extraction_ids a) \<subseteq> insert (ex_id x) (set (oa_extraction_ids c))"
      by (auto simp: set_fold_into_alert)
    with c(1) show "\<exists>b\<in>set (operational_alerts w). oa_id a = oa_id b \<and>
      set (oa_extraction_ids a) \<subseteq> insert (ex_id x) (set (oa_extraction_ids b))" by blast
  qed
  moreover have "\<forall>a\<in>set (operational_alerts v). \<exists>k<uuids_drawn v. oa_id a = uuid4 E k"
  proof
    fix a assume "a \<in> set (operational_alerts v)"
    then have "oa_id a \<in> oa_id ` set (operational_alerts w)"
      using calculation(1) by (metis image_eqI image_set)
    then show "\<exists>k<uuids_drawn v. oa_id a = uuid4 E k"
      using assms(2) v(2) unfolding alerts_ok_def by auto
  qed
  ultimately show ?thesis using assms(2) unfolding alerts_ok_def by (metis UnI1)
next
  case None
  with outside_rows [OF assms(3)] obtain a where
    v: "operational_alerts v = operational_alerts w @ [a]" "oa_extraction_ids a = [ex_id x]"
      "oa_id a = uuid4 E (uuids_drawn w)" "uuids_drawn v = Suc (uuids_drawn w)" by auto
  have new: "uuid4 E (uuids_drawn w) \<notin> oa_id ` set (operational_alerts w)"
  proof
    assume "uuid4 E (uuids_drawn w) \<in> oa_id ` set (operational_alerts w)"
    then obtain k where "k < uuids_drawn w" "uuid4 E (uuids_drawn w) = uuid4 E k"
      using assms(2) unfolding alerts_ok_def by (metis (no_types, lifting) imageE)
    with assms(1) show False by (auto dest: injD)
  qed
  have "alerts_ok E v"
    unfolding alerts_ok_def v(1,4)
  proof (intro conjI ballI)
    show "distinct (map oa_id (operational_alerts w @ [a]))"
      using assms(2) new v(3) by (simp add: alerts_ok_def)
    fix b assume "b \<in> set (operational_alerts w @ [a])"
    then show "\<exists>k<Suc (uuids_drawn w). oa_id b = uuid4 E k"
      using assms(2) v(3) unfolding alerts_ok_def by (auto intro: less_SucI)
  qed
  moreover have "\<forall>c\<in>set (operational_alerts v). \<exists>b\<in>set (operational_alerts w) \<union> {b. oa_extraction_ids b = []}.
    set (oa_extraction_ids c) \<subseteq> insert (ex_id x) (set (oa_extraction_ids b))"
  proof
    fix c assume "c \<in> set (operational_alerts v)"
    then consider "c = a" | "c \<in> set (operational_alerts w)" using v(1) by auto
    then show "\<exists>b\<in>set (operational_alerts w) \<union> {b. oa_extraction_ids b = []}.
        set (oa_extraction_ids c) \<subseteq> insert (ex_id x) (set (oa_extraction_ids b))"
    proof cases
      case 1
      then show ?thesis using v(2) by (intro bexI [of _ "a\<lparr>oa_extraction_ids := []\<rparr>"]) auto
    qed auto
  qed
  ultimately show ?thesis by blast
qed

lemma perform_outcome_within:
  assumes "inj (uuid4 E)" and "alerts_ok E w" and "rows_within S w"
    and p: "perform_outcome E outcome x nc w = (r, v)"
  shows "alerts_ok E v \<and> rows_within (insert (ex_id x) S) v"
proof -
  have le: "uuids_drawn w \<le> uuids_drawn v" using perform_outcome_frame [OF p] by blast
  have mono: "rows_within (insert (ex_id x) S) w" using assms(3) unfolding rows_within_def by blast
  consider (accept) "auto_accept E x w = (r, v)" | (sample) "audit_sample_outcome E x w = (r, v)"
    | (review) "targeted_review E x w = (r, v)" | (conflict) "open_conflict_placeholder E x w = (r, v)"
    | (outside) "outside_calibrated_regime E x (or_else nc (ex_id x)) w = (r, v)"
    using p unfolding perform_outcome_def by (simp split: if_splits)
  then show ?thesis
  proof cases
    case accept
    then show ?thesis using mono assms(2) by (simp add: auto_accept_def)
  next
    case sample
    from audit_sample_rows [OF this] mono have "rows_within (insert (ex_id x) S) v"
      unfolding rows_within_def by auto
    with audit_sample_rows [OF sample] alerts_ok_mono [OF assms(2) _ le] show ?thesis by blast
  next
    case review
    from targeted_review_rows [OF this] mono have "rows_within (insert (ex_id x) S) v"
      unfolding rows_within_def by auto
    with targeted_review_rows [OF review] alerts_ok_mono [OF assms(2) _ le] show ?thesis by blast
  next
    case conflict
    from open_conflict_rows [OF this] mono have "rows_within (insert (ex_id x) S) v"
      unfolding rows_within_def by auto
    with open_conflict_rows [OF conflict] alerts_ok_mono [OF assms(2) _ le] show ?thesis by blast
  next
    case outside
    note a = outside_alerts [OF assms(1,2) this]
    have "\<forall>a\<in>set (operational_alerts v). set (oa_extraction_ids a) \<subseteq> insert (ex_id x) S"
    proof
      fix a assume "a \<in> set (operational_alerts v)"
      with a obtain b where b: "b \<in> set (operational_alerts w) \<or> oa_extraction_ids b = []"
          "set (oa_extraction_ids a) \<subseteq> insert (ex_id x) (set (oa_extraction_ids b))" by blast
      moreover have "set (oa_extraction_ids b) \<subseteq> S" using b(1) assms(3) unfolding rows_within_def by auto
      ultimately show "set (oa_extraction_ids a) \<subseteq> insert (ex_id x) S" by blast
    qed
    with outside_rows [OF outside] mono a show ?thesis unfolding rows_within_def by auto
  qed
qed

lemma decide_inv:
  assumes inj: "inj (uuid4 E)" and inv: "decision_inv E w" and new: "ex_id x \<notin> dr_extraction_id ` set (decision_records w)"
    and dec: "decide E x outcome nc env w = (r, w')"
  shows "decision_inv E w'"
proof -
  obtain r' v where p: "perform_outcome E outcome x nc w = (r', v)" by fastforce
  note i = inv [unfolded decision_inv_iff]
  from perform_outcome_within [OF inj _ _ p] i have
    v: "alerts_ok E v" "rows_within (insert (ex_id x) (dr_extraction_id ` set (decision_records w))) v" by blast+
  from decide_tables [OF p dec] obtain d where
    d: "decision_records w' = decision_records w @ [d]" "dr_extraction_id d = ex_id x"
    and t: "review_tasks w' = review_tasks v" "audit_samples w' = audit_samples v" "conflicts w' = conflicts v"
      "operational_alerts w' = operational_alerts v" "uuids_drawn v \<le> uuids_drawn w'" by blast
  have "rows_within (dr_extraction_id ` set (decision_records w')) w'"
    unfolding rows_within_cong [OF t(1-4)] using v(2) d by simp
  moreover have "distinct (map dr_extraction_id (decision_records w'))"
    using i d new by simp
  ultimately show ?thesis
    unfolding decision_inv_iff using alerts_ok_mono [OF v(1) t(4,5)] by blast
qed

section \<open>The log of a decision\<close>

lemma processed_call_entry:
  "p \<noteq> [] \<Longrightarrow> processed_entry E p d (fst (chain_append E (page_processed_call p d) w))"
  by (simp add: processed_entry_def page_processed_call_def processed_shard_def resolved_shard_def
      district_shard_key_def audit_call_def shard_key_for_record_def or_else_def)

lemma mark_processed_log:
  assumes "p \<noteq> []"
  shows "\<exists>new. audit_entries (snd (mark_processed_if_terminal E p w)) = audit_entries w @ new \<and>
     (new = [] \<or>
      (\<exists>e. new = [e] \<and> processed_entry E p (district_for_page p w) e \<and>
         \<not> already_processed E p (district_for_page p w) w \<and>
         (\<exists>x\<in>set (extractions w). ex_page_id x = p) \<and>
         (\<forall>x\<in>set (extractions w). ex_page_id x = p \<longrightarrow> terminal_outcome (ex_routing_outcome x))))"
  using processed_call_entry [OF assms]
  by (auto simp: mark_processed_if_terminal_def Let_def record_page_processed_def audited_entries
      list_ex_iff filter_empty_conv)

lemma route_call_not_processed:
  "\<not> processed_entry E p d (fst (chain_append E (route_call outcome xid) w))"
  by (simp add: processed_entry_def route_call_def audit_call_def)

lemma already_processed_iff:
  "already_processed E p d w \<longleftrightarrow> filter (processed_entry E p d) (audit_entries w) \<noteq> []"
  by (auto simp: already_processed_def list_ex_iff filter_empty_conv)

definition processed_count :: "env \<Rightarrow> string \<Rightarrow> 'a db_scheme \<Rightarrow> nat" where
  "processed_count E p w = length (filter (processed_entry E p (district_for_page p w)) (audit_entries w))"

definition page_terminal :: "string \<Rightarrow> 'a db_scheme \<Rightarrow> bool" where
  "page_terminal p w \<longleftrightarrow> (\<exists>x\<in>set (extractions w). ex_page_id x = p) \<and>
     (\<forall>x\<in>set (extractions w). ex_page_id x = p \<longrightarrow> terminal_outcome (ex_routing_outcome x))"

lemma processed_entry_page: "processed_entry E p d e \<Longrightarrow> processed_entry E q d' e \<Longrightarrow> p = q"
  by (simp add: processed_entry_def)

lemma route_frame:
  assumes "route E xid nc env w = (res, w')"
  shows "extractions w' = extractions w \<and> pages w' = pages w \<and> documents w' = documents w \<and> batches w' = batches w"
  using assms
proof (cases rule: route_cases)
  case (fresh x outcome r)
  obtain r' v where "perform_outcome E outcome x nc w = (r', v)" by fastforce
  from decide_tables [OF this fresh(5)] show ?thesis by blast
qed simp_all

lemma district_for_page_cong:
  "pages w' = pages w \<Longrightarrow> documents w' = documents w \<Longrightarrow> batches w' = batches w \<Longrightarrow>
   district_for_page p w' = district_for_page p w"
  unfolding district_for_page_def by (simp split: option.split)

lemma decide_log:
  assumes "decide E x outcome nc env w = (r, w')" and page: "ex_page_id x \<noteq> []"
  shows "\<exists>e new. audit_entries w' = audit_entries w @ e # new \<and> ae_action e = ''decision.route.'' @ outcome \<and>
    ae_subject e = Some (ex_id x) \<and>
    (\<forall>p. \<not> processed_entry E p (district_for_page p w) e) \<and>
    (new = [] \<or> (\<exists>e'. new = [e'] \<and> processed_entry E (ex_page_id x) (district_for_page (ex_page_id x) w) e' \<and>
       \<not> already_processed E (ex_page_id x) (district_for_page (ex_page_id x) w) w \<and> page_terminal (ex_page_id x) w))"
proof -
  obtain r' v where p: "perform_outcome E outcome x nc w = (r', v)" by fastforce
  note f = perform_outcome_frame [OF p]
  from decide_eq [OF p, of env] assms obtain d v' where
    w': "w' = snd (mark_processed_if_terminal E (ex_page_id x) (audited E (route_call outcome (ex_id x)) v'))"
    and v': "v' = v\<lparr>uuids_drawn := Suc (uuids_drawn v), clock_reads := Suc (clock_reads v),
           decision_records := decision_records v @ [d]\<rparr>" by auto
  define a where "a = audited E (route_call outcome (ex_id x)) v'"
  define e where "e = fst (chain_append E (route_call outcome (ex_id x)) v')"
  have a: "audit_entries a = audit_entries w @ [e]" "extractions a = extractions w"
    using f by (simp_all add: a_def e_def audited_entries v')
  have da: "district_for_page q a = district_for_page q w" for q
    by (rule district_for_page_cong) (use f in \<open>simp_all add: a_def v'\<close>)
  have e: "ae_action e = ''decision.route.'' @ outcome" "ae_subject e = Some (ex_id x)"
    "\<not> processed_entry E q d' e" for q d'
    using route_call_not_processed [of E q d' outcome "ex_id x" v']
    by (simp_all add: e_def route_call_def audit_call_def)
  from mark_processed_log [OF page, of E a] obtain new where
    new: "audit_entries w' = audit_entries w @ e # new"
    and new': "new = [] \<or> (\<exists>e. new = [e] \<and> processed_entry E (ex_page_id x) (district_for_page (ex_page_id x) w) e \<and>
         \<not> already_processed E (ex_page_id x) (district_for_page (ex_page_id x) w) a \<and> page_terminal (ex_page_id x) w)"
    unfolding a da page_terminal_def w' a_def [symmetric] by auto
  have "already_processed E q d' a \<longleftrightarrow> already_processed E q d' w" for q d'
    by (simp add: already_processed_def a e)
  with new' have "new = [] \<or> (\<exists>e. new = [e] \<and> processed_entry E (ex_page_id x) (district_for_page (ex_page_id x) w) e \<and>
         \<not> already_processed E (ex_page_id x) (district_for_page (ex_page_id x) w) w \<and> page_terminal (ex_page_id x) w)"
    by blast
  with new e show ?thesis by blast
qed

lemma route_processed_count:
  assumes "route E xid nc env w = (res, w')" and pages: "\<forall>x\<in>set (extractions w). ex_page_id x \<noteq> []"
  shows "processed_count E p w' = processed_count E p w \<or>
    (processed_count E p w = 0 \<and> processed_count E p w' = 1 \<and> page_terminal p w)"
  using assms(1)
proof (cases rule: route_cases)
  case (fresh x outcome r)
  have d: "district_for_page p w' = district_for_page p w"
    using route_frame [OF assms(1)] district_for_page_cong by metis
  have page: "ex_page_id x \<noteq> []" using pages get_by_SomeD [OF fresh(1)] by blast
  from decide_log [OF fresh(5) page] obtain e new where
    log: "audit_entries w' = audit_entries w @ e # new" and e: "\<not> processed_entry E p (district_for_page p w) e"
    and new: "new = [] \<or> (\<exists>e'. new = [e'] \<and> processed_entry E (ex_page_id x) (district_for_page (ex_page_id x) w) e' \<and>
       \<not> already_processed E (ex_page_id x) (district_for_page (ex_page_id x) w) w \<and> page_terminal (ex_page_id x) w)"
    by blast
  show ?thesis
  proof (cases "\<exists>e'. new = [e'] \<and> processed_entry E p (district_for_page p w) e'")
    case False
    then have "filter (processed_entry E p (district_for_page p w)) new = []" using new by auto
    then show ?thesis by (simp add: processed_count_def d log e)
  next
    case True
    then obtain e' where e': "new = [e']" "processed_entry E p (district_for_page p w) e'" by blast
    with new processed_entry_page have "ex_page_id x = p" by auto
    with new e' have "\<not> already_processed E p (district_for_page p w) w" "page_terminal p w" by auto
    then show ?thesis using e' e by (simp add: processed_count_def d log already_processed_iff)
  qed
qed simp_all

text \<open>What each outcome promises to have created, as a contract on the new rows.\<close>

definition outcome_contract ::
  "string \<Rightarrow> string \<Rightarrow> review_task list \<Rightarrow> audit_sample list \<Rightarrow> conflict list \<Rightarrow> bool" where
  "outcome_contract outcome xid tasks samples cs \<longleftrightarrow>
     map (\<lambda>t. (rv_extraction_id t, rv_source_stream t, rv_assignee t, rv_closed_at t)) tasks =
       (if outcome = ''review'' then [(xid, ''routed'', None, None)]
        else if outcome = ''audit_sample'' then [(xid, ''audit'', None, None)] else []) \<and>
     map (\<lambda>s. (as_extraction_id s, as_review_task_id s, as_officer_verdict s)) samples =
       (if outcome = ''audit_sample'' then [(xid, Some (rv_id (hd tasks)), ''pending'')] else []) \<and>
     map (\<lambda>c. (cf_records c, cf_state c)) cs = (if outcome = ''conflict'' then [([xid], ''open'')] else [])"

lemma perform_outcome_contract:
  assumes p: "perform_outcome E outcome x nc w = (r, v)" and out: "outcome \<in> set VALID_ROUTING_OUTCOMES"
  shows "\<exists>tasks samples cs. outcome_contract outcome (ex_id x) tasks samples cs \<and>
    review_tasks v = review_tasks w @ tasks \<and> audit_samples v = audit_samples w @ samples \<and>
    conflicts v = conflicts w @ cs \<and>
    (outcome \<noteq> ''outside_calibrated_regime'' \<longrightarrow> operational_alerts v = operational_alerts w)"
proof -
  consider (accept) "outcome = ''auto_accept''" "auto_accept E x w = (r, v)"
    | (sample) "outcome = ''audit_sample''" "audit_sample_outcome E x w = (r, v)"
    | (review) "outcome = ''review''" "targeted_review E x w = (r, v)"
    | (conflict) "outcome = ''conflict''" "open_conflict_placeholder E x w = (r, v)"
    | (outside) "outcome = ''outside_calibrated_regime''"
        "outside_calibrated_regime E x (or_else nc (ex_id x)) w = (r, v)"
    using p out unfolding perform_outcome_def VALID_ROUTING_OUTCOMES_def by (simp split: if_splits)
  then show ?thesis
  proof cases
    case accept
    then show ?thesis
      by (intro exI [of _ "[]"]) (simp add: auto_accept_def outcome_contract_def)
  next
    case sample
    from audit_sample_rows [OF sample(2)] obtain task smpl where
      "review_tasks v = review_tasks w @ [task]" "rv_extraction_id task = ex_id x"
      "rv_source_stream task = ''audit''" "rv_assignee task = None" "rv_closed_at task = None"
      "audit_samples v = audit_samples w @ [smpl]" "as_extraction_id smpl = ex_id x"
      "as_review_task_id smpl = Some (rv_id task)" "as_officer_verdict smpl = ''pending''"
      "conflicts v = conflicts w" "operational_alerts v = operational_alerts w" by blast
    then show ?thesis
      by (intro exI [of _ "[task]"] exI [of _ "[smpl]"] exI [of _ "[]"]) (simp add: outcome_contract_def sample(1))
  next
    case review
    from targeted_review_rows [OF review(2)] obtain task where
      "review_tasks v = review_tasks w @ [task]" "rv_extraction_id task = ex_id x"
      "rv_source_stream task = ''routed''" "rv_assignee task = None" "rv_closed_at task = None"
      "audit_samples v = audit_samples w" "conflicts v = conflicts w"
      "operational_alerts v = operational_alerts w" by blast
    then show ?thesis
      by (intro exI [of _ "[task]"] exI [of _ "[]"]) (simp add: outcome_contract_def review(1))
  next
    case conflict
    from open_conflict_rows [OF conflict(2)] obtain c where
      "conflicts v = conflicts w @ [c]" "cf_records c = [ex_id x]" "cf_state c = ''open''"
      "review_tasks v = review_tasks w" "audit_samples v = audit_samples w"
      "operational_alerts v = operational_alerts w" by blast
    then show ?thesis
      by (intro exI [of _ "[]"] exI [of _ "[c]"]) (simp add: outcome_contract_def conflict(1))
  next
    case outside
    then show ?thesis using outside_rows [OF outside(2)]
      by (intro exI [of _ "[]"]) (simp add: outcome_contract_def)
  qed
qed

text \<open>The rows an extraction has after its decision: those its outcome asks for and no others.\<close>

definition rows_of :: "string \<Rightarrow> 'a db_scheme \<Rightarrow> review_task list \<times> audit_sample list \<times> conflict list \<times> string list" where
  "rows_of xid w =
     (filter (\<lambda>t. rv_extraction_id t = xid) (review_tasks w),
      filter (\<lambda>s. as_extraction_id s = xid) (audit_samples w),
      filter (\<lambda>c. xid \<in> set (cf_records c)) (conflicts w),
      map oa_id (filter (\<lambda>a. xid \<in> set (oa_extraction_ids a)) (operational_alerts w)))"

definition asked_for :: "string \<Rightarrow> review_task list \<times> audit_sample list \<times> conflict list \<times> string list \<Rightarrow> bool" where
  "asked_for outcome rows =
     (case rows of (tasks, samples, cs, alerts) \<Rightarrow>
        outcome \<in> set VALID_ROUTING_OUTCOMES \<and>
        map rv_source_stream tasks =
          (if outcome = ''review'' then [''routed''] else if outcome = ''audit_sample'' then [''audit''] else []) \<and>
        map as_review_task_id samples = (if outcome = ''audit_sample'' then [Some (rv_id (hd tasks))] else []) \<and>
        length cs = (if outcome = ''conflict'' then 1 else 0) \<and>
        length alerts = (if outcome = ''outside_calibrated_regime'' then 1 else 0))"

definition outcomes_performed :: "'a db_scheme \<Rightarrow> bool" where
  "outcomes_performed w \<longleftrightarrow> (\<forall>d\<in>set (decision_records w). asked_for (dr_outcome d) (rows_of (dr_extraction_id d) w))"

lemma rows_of_cong:
  "review_tasks w' = review_tasks w \<Longrightarrow> audit_samples w' = audit_samples w \<Longrightarrow> conflicts w' = conflicts w \<Longrightarrow>
   operational_alerts w' = operational_alerts w \<Longrightarrow> rows_of xid w' = rows_of xid w"
  by (simp add: rows_of_def)

lemma outcome_contract_rows:
  assumes "outcome_contract outcome xid tasks samples cs"
  shows "filter (\<lambda>t. rv_extraction_id t = y) tasks = (if y = xid then tasks else [])"
    and "filter (\<lambda>s. as_extraction_id s = y) samples = (if y = xid then samples else [])"
    and "filter (\<lambda>c. y \<in> set (cf_records c)) cs = (if y = xid then cs else [])"
  using assms by (auto simp: outcome_contract_def map_eq_Cons_conv split: if_splits)

lemma fold_alert_other:
  "y \<noteq> xid \<Longrightarrow> map oa_id (filter (\<lambda>a. y \<in> set (oa_extraction_ids a)) (set_by oa_id k (fold_into_alert xid) as)) =
     map oa_id (filter (\<lambda>a. y \<in> set (oa_extraction_ids a)) as)"
  by (induction as) (simp_all add: set_fold_into_alert)

lemma outside_alert_rows:
  assumes inv: "decision_inv E w" and p: "outside_calibrated_regime E x key w = (r, v)"
    and new: "ex_id x \<notin> dr_extraction_id ` set (decision_records w)"
  shows "length (filter (\<lambda>a. ex_id x \<in> set (oa_extraction_ids a)) (operational_alerts v)) = 1 \<and>
    (y \<noteq> ex_id x \<longrightarrow> map oa_id (filter (\<lambda>a. y \<in> set (oa_extraction_ids a)) (operational_alerts v)) =
       map oa_id (filter (\<lambda>a. y \<in> set (oa_extraction_ids a)) (operational_alerts w)))"
proof -
  have a: "\<forall>a\<in>set (operational_alerts w). ex_id x \<notin> set (oa_extraction_ids a)"
    using decision_invD(7) [OF inv] new by blast
  show ?thesis
  proof (cases "latest_by oa_opened_at
      (open_alert (utcnow E (clock_reads w) - NOVELTY_CLUSTER_ALERT_DEDUP_WINDOW) key) (operational_alerts w)")
    case None
    with outside_rows [OF p] obtain b where
      "operational_alerts v = operational_alerts w @ [b]" "oa_extraction_ids b = [ex_id x]" by auto
    then show ?thesis using a by (simp add: filter_none)
  next
    case (Some b)
    then have b: "b \<in> set (operational_alerts w)" by (rule latest_by_SomeD [THEN conjunct1])
    have v: "operational_alerts v = set_by oa_id (oa_id b) (fold_into_alert (ex_id x)) (operational_alerts w)"
      using outside_rows [OF p] Some by simp
    from fold_alert_filter [OF decision_invD(2) [OF inv] a b] show ?thesis
      unfolding v by (auto simp: fold_alert_other)
  qed
qed

lemma perform_outcome_rows:
  assumes inv: "decision_inv E w" and p: "perform_outcome E outcome x nc w = (r, v)"
    and out: "outcome \<in> set VALID_ROUTING_OUTCOMES" and new: "ex_id x \<notin> dr_extraction_id ` set (decision_records w)"
  shows "asked_for outcome (rows_of (ex_id x) v)" and "y \<noteq> ex_id x \<Longrightarrow> rows_of y v = rows_of y w"
proof -
  from perform_outcome_contract [OF p out] obtain tasks samples cs where
    c: "outcome_contract outcome (ex_id x) tasks samples cs" and
    v: "review_tasks v = review_tasks w @ tasks" "audit_samples v = audit_samples w @ samples"
      "conflicts v = conflicts w @ cs" and
    quiet: "outcome \<noteq> ''outside_calibrated_regime'' \<Longrightarrow> operational_alerts v = operational_alerts w" by blast
  note cr = outcome_contract_rows [OF c]
  note old = undecided_rows [OF inv new]
  have "length (filter (\<lambda>a. ex_id x \<in> set (oa_extraction_ids a)) (operational_alerts v)) =
      (if outcome = ''outside_calibrated_regime'' then 1 else 0) \<and>
    (y \<noteq> ex_id x \<longrightarrow> map oa_id (filter (\<lambda>a. y \<in> set (oa_extraction_ids a)) (operational_alerts v)) =
       map oa_id (filter (\<lambda>a. y \<in> set (oa_extraction_ids a)) (operational_alerts w)))" for y
  proof (cases "outcome = ''outside_calibrated_regime''")
    case True
    then have "outside_calibrated_regime E x (or_else nc (ex_id x)) w = (r, v)"
      using p by (simp add: perform_outcome_def)
    from outside_alert_rows [OF inv this new] True show ?thesis by simp
  next
    case False
    then show ?thesis using quiet old(4) by simp
  qed
  note alerts = this
  show "asked_for outcome (rows_of (ex_id x) v)"
    using c out alerts [of "ex_id x"] old
    by (auto simp: asked_for_def rows_of_def v cr outcome_contract_def map_eq_Cons_conv split: if_splits)
  show "rows_of y v = rows_of y w" if "y \<noteq> ex_id x"
    using that alerts [of y] by (simp add: rows_of_def v cr)
qed

lemma decide_outcomes:
  assumes inv: "decision_inv E w" and perf: "outcomes_performed w"
    and new: "ex_id x \<notin> dr_extraction_id ` set (decision_records w)" and out: "outcome \<in> set VALID_ROUTING_OUTCOMES"
    and dec: "decide E x outcome nc env w = (r, w')"
  shows "outcomes_performed w'"
proof -
  obtain r' v where p: "perform_outcome E outcome x nc w = (r', v)" by fastforce
  note rows = perform_outcome_rows [OF inv p out new]
  from decide_tables [OF p dec] obtain d where
    d: "decision_records w' = decision_records w @ [d]" "dr_extraction_id d = ex_id x" "dr_outcome d = outcome"
    and t: "review_tasks w' = review_tasks v" "audit_samples w' = audit_samples v" "conflicts w' = conflicts v"
      "operational_alerts w' = operational_alerts v" by blast
  have "dr_extraction_id e \<noteq> ex_id x" if "e \<in> set (decision_records w)" for e using new that by force
  then show ?thesis
    using perf rows unfolding outcomes_performed_def d(1) rows_of_cong [OF t] by (simp add: d(2,3))
qed

definition routes :: "env \<Rightarrow> (string \<times> string option \<times> string option) list \<Rightarrow> 'a db_scheme \<Rightarrow> 'a db_scheme" where
  \<comment> \<open>a sequence of calls of \<open>route\<close>\<close>
  "routes E calls w = fold (\<lambda>(xid, nc, env) w. snd (route E xid nc env w)) calls w"

lemma routes_frame: "extractions (routes E calls w) = extractions w"
proof (induction calls arbitrary: w)
  case Nil
  then show ?case by (simp add: routes_def)
next
  case (Cons c calls)
  obtain xid nc env where c: "c = (xid, nc, env)" by (cases c)
  obtain res v where r: "route E xid nc env w = (res, v)" by fastforce
  have "routes E (c # calls) w = routes E calls v" by (simp add: routes_def c r)
  then show ?case using Cons.IH [of v] route_frame [OF r] by simp
qed

section \<open>Properties\<close>

text \<open>C1. An extraction is decided exactly once. From a database whose review tasks, samples, conflicts
  and alerts all belong to decided extractions, a \<open>route\<close> that returns leaves it so, with exactly
  one decision record for the extraction, carrying the outcome of its row; and every later
  \<open>route\<close> of it (a redelivered message, with whatever cluster or envelope id) returns the same
  task, sample, conflict or alert, marked as a replay, and changes nothing, the audit log
  included.\<close>

theorem route_decides_once:
  assumes "inj (uuid4 E)" and "decision_inv E w" and "route E xid nc env w = (Inr r, w')"
  shows "decision_inv E w' \<and>
    (\<exists>x d. get_by ex_id xid (extractions w) = Some x \<and> ex_routing_outcome x = Some (dr_outcome d) \<and>
       filter (\<lambda>d. dr_extraction_id d = xid) (decision_records w') = [d]) \<and>
    route E xid nc' env' w' = (Inr (as_replay r), w')"
  using assms(3)
proof (cases rule: route_cases)
  case (replay x outcome d)
  then have d: "filter (\<lambda>d. dr_extraction_id d = xid) (decision_records w) = [d]" by (simp add: decided_def)
  have "get_by ex_id xid (extractions w) = Some x \<and> ex_routing_outcome x = Some (dr_outcome d) \<and>
       filter (\<lambda>d. dr_extraction_id d = xid) (decision_records w') = [d]"
    using replay d by simp
  moreover have "route E xid nc' env' w = (Inr r, w)" using replay by (simp add: route_def)
  moreover have "as_replay r = r" using replay(6) replayed_result_replay by metis
  ultimately show ?thesis using assms(2) replay(7) by metis
next
  case (fresh x outcome r')
  then have r': "r' = r" by simp
  have xid: "ex_id x = xid" using get_by_SomeD [OF fresh(1)] by simp
  have new: "xid \<notin> dr_extraction_id ` set (decision_records w)" using fresh(4) decided_None_iff by blast
  obtain r'' v where p: "perform_outcome E outcome x nc w = (r'', v)" by fastforce
  from decide_tables [OF p fresh(5)] r' obtain d where
    d: "decision_records w' = decision_records w @ [d]" "dr_extraction_id d = xid" "dr_outcome d = outcome"
    and r: "r'' = r" and t: "extractions w' = extractions w" "review_tasks w' = review_tasks v"
      "audit_samples w' = audit_samples v" "conflicts w' = conflicts v" "operational_alerts w' = operational_alerts v"
    unfolding xid by blast
  have inv': "decision_inv E w'"
    using decide_inv [OF assms(1,2) _ fresh(5)] new xid by blast
  have one: "filter (\<lambda>d. dr_extraction_id d = xid) (decision_records w') = [d]"
  proof -
    have "filter (\<lambda>d. dr_extraction_id d = xid) (decision_records w) = []"
      using new unfolding filter_empty_conv by blast
    then show ?thesis by (simp add: d)
  qed
  have rep: "replayed_result outcome xid w' = Inr (as_replay r)"
    using perform_outcome_replay [OF assms(2) xid new p [unfolded r] fresh(3) t(2-5)] .
  have "route E xid nc' env' w' = (Inr (as_replay r), w')"
    using fresh(1,2,3) one d(3) rep by (simp add: route_def t(1) decided_def)
  with inv' one d(3) fresh(1,2) show ?thesis by blast
qed simp

text \<open>What a decision creates. The first \<open>route\<close> of an extraction with a valid outcome always
  returns; it adds one decision record and exactly the rows of its outcome: nothing for
  auto-accept; an open, unassigned review task for review; such a task of the audit stream and a
  pending sample that refers to it for an audit sample; an open conflict naming the extraction
  for a conflict; no review task at all outside the calibrated regime.\<close>

lemma route_creates:
  assumes "get_by ex_id xid (extractions w) = Some x" and "ex_routing_outcome x = Some outcome"
    and "outcome \<in> set VALID_ROUTING_OUTCOMES" and "decided xid w = Inr None"
  shows "\<exists>r w' d tasks samples cs. route E xid nc env w = (Inr r, w') \<and>
    decision_records w' = decision_records w @ [d] \<and> dr_extraction_id d = xid \<and> dr_outcome d = outcome \<and>
    dr_envelope_id d = env \<and> extractions w' = extractions w \<and>
    outcome_contract outcome xid tasks samples cs \<and>
    review_tasks w' = review_tasks w @ tasks \<and> audit_samples w' = audit_samples w @ samples \<and>
    conflicts w' = conflicts w @ cs \<and>
    (outcome \<noteq> ''outside_calibrated_regime'' \<longrightarrow> operational_alerts w' = operational_alerts w)"
proof -
  have xid: "ex_id x = xid" using get_by_SomeD [OF assms(1)] by simp
  obtain r v where p: "perform_outcome E outcome x nc w = (r, v)" by fastforce
  obtain r' w' where dec: "decide E x outcome nc env w = (r', w')" by fastforce
  have "route E xid nc env w = (Inr r', w')" using assms dec by (simp add: route_def)
  with decide_tables [OF p dec] perform_outcome_contract [OF p assms(3)] show ?thesis
    unfolding xid by metis
qed

definition demo_extraction :: "string \<Rightarrow> string \<Rightarrow> extraction" where
  "demo_extraction xid outcome = \<lparr>ex_id = xid, ex_page_id = ''page'', ex_field_name = ''area'', ex_raw_value = ''2'',
     ex_canonical_value = None, ex_unconstrained_value = None, ex_bbox = None, ex_engine = None,
     ex_model_version = None, ex_config_version = None, ex_token_confidence = None,
     ex_calibrated_confidence = None, ex_novelty_score = None, ex_routing_outcome = Some outcome,
     ex_entry_status = ''unknown'', ex_attestation_refs = [], ex_top_k = []\<rparr>"

definition demo_decision_db :: db where
  "demo_decision_db = empty_db\<lparr>extractions := [demo_extraction ''x1'' ''review'', demo_extraction ''x2'' ''conflict'']\<rparr>"

lemma demo_decision_db_tables [simp]:
  "extractions demo_decision_db = [demo_extraction ''x1'' ''review'', demo_extraction ''x2'' ''conflict'']"
  "decision_records demo_decision_db = []" "review_tasks demo_decision_db = []"
  "audit_samples demo_decision_db = []" "conflicts demo_decision_db = []" "operational_alerts demo_decision_db = []"
  "audit_entries demo_decision_db = []" "pages demo_decision_db = []"
  by (simp_all add: demo_decision_db_def empty_db_def)

lemma demo_decision_db_inv: "decision_inv demo_env demo_decision_db"
  by (simp add: decision_inv_def)

lemma demo_extraction_simps [simp]:
  "ex_id (demo_extraction xid out) = xid" "ex_routing_outcome (demo_extraction xid out) = Some out"
  "ex_page_id (demo_extraction xid out) = ''page''"
  "ex_calibrated_confidence (demo_extraction xid out) = None"
  by (simp_all add: demo_extraction_def)

lemma route_creates_example:
  "\<exists>r w' d tasks. route demo_env ''x1'' None None demo_decision_db = (Inr r, w') \<and>
     decision_records w' = [d] \<and> map rv_extraction_id tasks = [''x1''] \<and> review_tasks w' = tasks \<and>
     conflicts w' = []"
proof -
  from route_creates [of "''x1''" demo_decision_db "demo_extraction ''x1'' ''review''" "''review''" demo_env None None]
  obtain r w' d tasks samples cs where
    "route demo_env ''x1'' None None demo_decision_db = (Inr r, w')" "decision_records w' = [d]"
    "outcome_contract ''review'' ''x1'' tasks samples cs" "review_tasks w' = tasks" "conflicts w' = cs"
    by (auto simp: VALID_ROUTING_OUTCOMES_def decided_None_iff)
  moreover from this have "map rv_extraction_id tasks = [''x1'']" "conflicts w' = []"
    by (auto simp: outcome_contract_def)
  ultimately show ?thesis by (intro exI conjI)
qed

theorem route_decides_once_witness:
  "\<exists>r w'. route demo_env ''x1'' None None demo_decision_db = (Inr r, w') \<and>
     route demo_env ''x1'' None None w' = (Inr (as_replay r), w')"
proof -
  obtain r w' where dec: "decide demo_env (demo_extraction ''x1'' ''review'') ''review'' None None demo_decision_db = (r, w')"
    by fastforce
  have "decided ''x1'' demo_decision_db = Inr None" by (simp add: decided_None_iff)
  with dec have r: "route demo_env ''x1'' None None demo_decision_db = (Inr r, w')"
    by (simp add: route_def VALID_ROUTING_OUTCOMES_def)
  from route_decides_once [OF inj_demo_uuid demo_decision_db_inv r] r show ?thesis by blast
qed

text \<open>A page is processed at most once. Over any sequence of calls of \<open>route\<close>, for any extractions
  in any order and with any redeliveries, the log gains at most one \<open>page.processed\<close> entry for
  a page that has none, none for a page that has one, and one only if the page has an extraction
  and each of them carries a valid outcome.\<close>

lemma page_processed_once:
  assumes "\<forall>x\<in>set (extractions w). ex_page_id x \<noteq> []"
  shows "processed_count E p (routes E calls w) = processed_count E p w \<or>
    (processed_count E p w = 0 \<and> processed_count E p (routes E calls w) = 1 \<and> page_terminal p w)"
  using assms
proof (induction calls arbitrary: w)
  case Nil
  then show ?case by (simp add: routes_def)
next
  case (Cons c calls)
  obtain xid nc env where c: "c = (xid, nc, env)" by (cases c)
  obtain res v where r: "route E xid nc env w = (res, v)" by fastforce
  have rs: "routes E (c # calls) w = routes E calls v" by (simp add: routes_def c r)
  have ex: "extractions v = extractions w" using route_frame [OF r] by simp
  then have "page_terminal p v \<longleftrightarrow> page_terminal p w" by (simp add: page_terminal_def)
  then show ?case
    using Cons.IH [of v] Cons.prems route_processed_count [OF r Cons.prems, of p] ex unfolding rs by auto
qed

lemma page_processed_once_example:
  "processed_count demo_env ''page'' (routes demo_env [(''x1'', None, None), (''x2'', None, None), (''x1'', None, None)]
     demo_decision_db) \<le> 1"
proof -
  have "processed_count demo_env ''page'' demo_decision_db = 0" by (simp add: processed_count_def)
  with page_processed_once [of demo_decision_db demo_env "''page''"
      "[(''x1'', None, None), (''x2'', None, None), (''x1'', None, None)]"]
  show ?thesis by auto
qed

text \<open>\<open>page.processed\<close> does not wait for the page's last decision. As soon as every extraction of a
  page carries a valid routing outcome, which is set before the decision engine sees it, the
  first \<open>route\<close> of any one of them records the page as processed, while the others may have no
  decision record yet.\<close>

lemma page_processed_before_decided:
  assumes "get_by ex_id xid (extractions w) = Some x" and "decided xid w = Inr None"
    and "page_terminal (ex_page_id x) w" and "ex_page_id x \<noteq> []"
    and "processed_count E (ex_page_id x) w = 0" and "y \<noteq> xid" and "decided y w = Inr None"
  shows "\<exists>r w'. route E xid nc env w = (Inr r, w') \<and> processed_count E (ex_page_id x) w' = 1 \<and>
    decided y w' = Inr None"
proof -
  let ?p = "ex_page_id x"
  have x: "x \<in> set (extractions w)" "ex_id x = xid" using get_by_SomeD [OF assms(1)] by auto
  with assms(3) obtain outcome where out: "ex_routing_outcome x = Some outcome" "outcome \<in> set VALID_ROUTING_OUTCOMES"
    unfolding page_terminal_def by (auto simp: terminal_outcome_def split: option.splits)
  obtain r w' where dec: "decide E x outcome nc env w = (r, w')" by fastforce
  obtain r' v where p: "perform_outcome E outcome x nc w = (r', v)" by fastforce
  note f = perform_outcome_frame [OF p]
  have route: "route E xid nc env w = (Inr r, w')" using assms(1,2) out dec by (simp add: route_def)
  from decide_eq [OF p, of env] dec obtain d v' where
    w': "w' = snd (mark_processed_if_terminal E ?p (audited E (route_call outcome (ex_id x)) v'))"
    and v': "v' = v\<lparr>uuids_drawn := Suc (uuids_drawn v), clock_reads := Suc (clock_reads v),
           decision_records := decision_records v @ [d]\<rparr>" by auto
  define a where "a = audited E (route_call outcome (ex_id x)) v'"
  have da: "district_for_page q a = district_for_page q w" for q
    by (rule district_for_page_cong) (use f in \<open>simp_all add: a_def v'\<close>)
  have d': "district_for_page ?p w' = district_for_page ?p w"
    using route_frame [OF route] district_for_page_cong by metis
  have not_yet: "\<not> already_processed E ?p (district_for_page ?p w) a"
    using assms(5) f route_call_not_processed [of E ?p "district_for_page ?p w" outcome "ex_id x" v']
    by (simp add: already_processed_iff processed_count_def a_def audited_entries v')
  have "extractions a = extractions w" using f by (simp add: a_def v')
  with assms(3) not_yet have "fst (mark_processed_if_terminal E ?p a)"
    by (auto simp: mark_processed_if_terminal_def Let_def da page_terminal_def filter_empty_conv list_ex_iff)
  then have w'_eq: "w' = record_page_processed E ?p (district_for_page ?p w) a"
    unfolding w' a_def [symmetric] by (auto simp: mark_processed_if_terminal_def Let_def da split: if_splits)

  have "filter (processed_entry E ?p (district_for_page ?p w)) (audit_entries a) = []"
    using not_yet by (simp add: already_processed_iff)
  then have "processed_count E ?p w' = 1"
    unfolding processed_count_def d'
    by (simp add: w'_eq record_page_processed_def audited_entries processed_call_entry [OF assms(4)])
  moreover have "decided y w' = Inr None"
    using assms(6,7) x(2) decide_tables [OF p dec] by (auto simp: decided_None_iff)
  ultimately show ?thesis using route by blast
qed

lemma page_processed_before_decided_witness:
  "\<exists>r w'. route demo_env ''x1'' None None demo_decision_db = (Inr r, w') \<and>
     processed_count demo_env ''page'' w' = 1 \<and> decided ''x2'' w' = Inr None"
  using page_processed_before_decided [of "''x1''" demo_decision_db "demo_extraction ''x1'' ''review''" demo_env "''x2''"]
  by (simp add: decided_None_iff page_terminal_def terminal_outcome_def VALID_ROUTING_OUTCOMES_def processed_count_def)

definition states_other :: "'v option \<Rightarrow> 'v option \<Rightarrow> bool" where
  \<comment> \<open>the message states a value, and the row does not have it\<close>
  "states_other said stored \<longleftrightarrow> (\<exists>v. said = Some v \<and> stored \<noteq> Some v)"

lemma mismatched_fields_eq:
  "mismatched_fields ro cc x =
     (if states_other ro (ex_routing_outcome x) then [''routing_outcome''] else []) @
     (if states_other cc (ex_calibrated_confidence x) then [''calibrated_confidence''] else [])"
  by (cases ro; cases cc) (auto simp: mismatched_fields_def states_other_def)

text \<open>C26. A message that contradicts the database decides nothing. If the message states a routing
  outcome or a confidence, and the extraction's row has another value or none, the handler raises
  and commits exactly one audit entry, which names the fields that differ: this is what the
  database holds after the caller's rollback, with no decision record, task, sample, conflict or
  alert added or changed. If the message contradicts neither, the handler does what \<open>route\<close> does,
  with the cluster of the payload or else of the message, and the envelope id of the work envelope
  or else of the message, and leaves the commit to the caller.\<close>

theorem mismatch_audited_only:
  assumes "get_by ex_id xid (extractions w) = Some x" and "xid \<noteq> []" and "dm_message msg = Emitted m"
    and "em_payload m = Decision_Payload (Some xid) ro cc nc"
  shows "if states_other ro (ex_routing_outcome x) \<or> states_other cc (ex_calibrated_confidence x)
    then \<exists>s' e. decision_handle E msg (begin_session w) = (Inl (PayloadMismatchError xid), s') \<and>
      committed s' = current (rollback s') \<and>
      audit_entries (committed s') = audit_entries w @ [e] \<and>
      ae_action e = ''decision.payload_mismatch'' \<and> ae_subject e = Some xid \<and>
      ae_purpose e = Some (''mismatched_fields='' @
        (if \<not> states_other cc (ex_calibrated_confidence x) then ''routing_outcome''
         else if \<not> states_other ro (ex_routing_outcome x) then ''calibrated_confidence''
         else ''routing_outcome,calibrated_confidence'')) \<and>
      extractions (committed s') = extractions w \<and> decision_records (committed s') = decision_records w \<and>
      review_tasks (committed s') = review_tasks w \<and> audit_samples (committed s') = audit_samples w \<and>
      conflicts (committed s') = conflicts w \<and> operational_alerts (committed s') = operational_alerts w
    else \<exists>res w'. route E xid (if truthy nc then nc else dm_novelty_cluster_id msg)
        (case em_work_envelope m of
           Some e \<Rightarrow> if we_envelope_id e = [] then dm_envelope_id msg else Some (we_envelope_id e)
         | None \<Rightarrow> dm_envelope_id msg) w = (res, w') \<and>
      decision_handle E msg (begin_session w) = (res, \<lparr>committed = w, current = w'\<rparr>)"
proof (cases "mismatched_fields ro cc x = []")
  case False
  let ?v = "record_payload_mismatch E xid (mismatched_fields ro cc x) w"
  have "decision_handle E msg (begin_session w) =
      (Inl (PayloadMismatchError xid), \<lparr>committed = ?v, current = ?v\<rparr>)"
    using assms False by (simp add: decision_handle_def payload_fields_def Let_def session_defs)
  moreover have "states_other ro (ex_routing_outcome x) \<or> states_other cc (ex_calibrated_confidence x)"
    using False by (auto simp: mismatched_fields_eq split: if_splits)
  ultimately show ?thesis
    by (auto simp: rollback_def rolled_back_def record_payload_mismatch_def audited_entries mismatched_fields_eq
        audit_call_def)
next
  case True
  have env: "or_str (message_envelope_id m) (dm_envelope_id msg) =
      (case em_work_envelope m of
         Some e \<Rightarrow> if we_envelope_id e = [] then dm_envelope_id msg else Some (we_envelope_id e)
       | None \<Rightarrow> dm_envelope_id msg)"
    by (simp add: or_str_def message_envelope_id_def split: option.split)
  obtain res w' where r: "route E xid (or_str nc (dm_novelty_cluster_id msg))
      (or_str (message_envelope_id m) (dm_envelope_id msg)) w = (res, w')" by fastforce
  then have "decision_handle E msg (begin_session w) = (res, \<lparr>committed = w, current = w'\<rparr>)"
    using assms True by (simp add: decision_handle_def payload_fields_def Let_def session_defs)
  moreover have "\<not> states_other ro (ex_routing_outcome x)" "\<not> states_other cc (ex_calibrated_confidence x)"
    using True by (auto simp: mismatched_fields_eq split: if_splits)
  ultimately show ?thesis using r unfolding env by (simp add: or_str_def)
qed

theorem mismatch_audited_only_witness:
  "\<exists>s' e. decision_handle demo_env (plain_message (Emitted \<lparr>em_message_id = ''m'', em_trace_id = ''t'',
       em_emitted_at = ''now'', em_producer = ''confidence-novelty'', em_work_envelope = None,
       em_payload = Decision_Payload (Some ''x1'') (Some ''review'') (Some 1) None, em_queue = ''DECISION_QUEUE''\<rparr>))
       (begin_session demo_decision_db) = (Inl (PayloadMismatchError ''x1''), s') \<and>
     audit_entries (committed s') = [e] \<and> ae_purpose e = Some ''mismatched_fields=calibrated_confidence'' \<and>
     decision_records (committed s') = []"
proof -
  let ?m = "\<lparr>em_message_id = ''m'', em_trace_id = ''t'', em_emitted_at = ''now'',
       em_producer = ''confidence-novelty'', em_work_envelope = None,
       em_payload = Decision_Payload (Some ''x1'') (Some ''review'') (Some 1) None, em_queue = ''DECISION_QUEUE''\<rparr>"
  have "get_by ex_id ''x1'' (extractions demo_decision_db) = Some (demo_extraction ''x1'' ''review'')" by simp
  moreover have "dm_message (plain_message (Emitted ?m)) = Emitted ?m" by (simp add: plain_message_def)
  moreover have "states_other (Some 1) (ex_calibrated_confidence (demo_extraction ''x1'' ''review''))"
    "\<not> states_other (Some ''review'') (ex_routing_outcome (demo_extraction ''x1'' ''review''))"
    by (simp_all add: states_other_def demo_extraction_def)
  ultimately show ?thesis
    using mismatch_audited_only [of "''x1''" demo_decision_db "demo_extraction ''x1'' ''review''" "plain_message (Emitted ?m)"
        ?m "Some ''review''" "Some 1" None demo_env] by auto
qed

text \<open>A cluster of novel pages raises one alert. Deciding an extraction outside the calibrated regime
  never creates a review task, and when an alert of the same cluster was opened within the six
  hours before, no alert is added: the newest such alert gets the extraction's id, once.\<close>

lemma novelty_alert_deduplicated:
  assumes "latest_by oa_opened_at (open_alert (utcnow E (clock_reads w) - 6 * one_hour) (or_else nc (ex_id x)))
      (operational_alerts w) = Some b"
    and "decide E x ''outside_calibrated_regime'' nc env w = (r, w')"
  shows "r = Outside_Result (ex_id x) (Some (oa_id b)) True False \<and> review_tasks w' = review_tasks w \<and>
    map oa_id (operational_alerts w') = map oa_id (operational_alerts w) \<and>
    operational_alerts w' = set_by oa_id (oa_id b)
      (\<lambda>a. if ex_id x \<in> set (oa_extraction_ids a) then a
            else a\<lparr>oa_extraction_ids := oa_extraction_ids a @ [ex_id x]\<rparr>) (operational_alerts w)"
proof -
  obtain r' v where p: "perform_outcome E ''outside_calibrated_regime'' x nc w = (r', v)" by fastforce
  then have out: "outside_calibrated_regime E x (or_else nc (ex_id x)) w = (r', v)"
    by (simp add: perform_outcome_def)
  have fold_fun: "(\<lambda>a. if ex_id x \<in> set (oa_extraction_ids a) then a
            else a\<lparr>oa_extraction_ids := oa_extraction_ids a @ [ex_id x]\<rparr>) = fold_into_alert (ex_id x)"
    by (auto simp: fold_into_alert_def)
  have ids: "map oa_id (set_by oa_id k (fold_into_alert y) as) = map oa_id as" for k y as
    by (rule map_set_by) (simp add: set_fold_into_alert)
  from outside_rows [OF out] assms(1) decide_tables [OF p assms(2)] show ?thesis
    unfolding fold_fun by (simp add: NOVELTY_CLUSTER_ALERT_DEDUP_WINDOW_def ids)
qed

lemma novelty_alert_deduplicated_witness:
  "let a = \<lparr>oa_id = ''a'', oa_kind = ''outside_calibrated_regime'', oa_cluster_key = ''c'', oa_extraction_ids = [''x0''],
            oa_opened_at = 0\<rparr>;
       r = decide demo_env (demo_extraction ''x1'' ''outside_calibrated_regime'') ''outside_calibrated_regime'' (Some ''c'') None
            (demo_decision_db\<lparr>operational_alerts := [a]\<rparr>)
   in map oa_extraction_ids (operational_alerts (snd r)) = [[''x0'', ''x1'']] \<and> review_tasks (snd r) = []"
proof -
  let ?a = "\<lparr>oa_id = ''a'', oa_kind = ''outside_calibrated_regime'', oa_cluster_key = ''c'', oa_extraction_ids = [''x0''],
            oa_opened_at = 0\<rparr>"
  let ?w = "demo_decision_db\<lparr>operational_alerts := [?a]\<rparr>"
  let ?x = "demo_extraction ''x1'' ''outside_calibrated_regime''"
  have "latest_by oa_opened_at (open_alert (utcnow demo_env (clock_reads ?w) - 6 * one_hour) (or_else (Some ''c'') (ex_id ?x)))
      (operational_alerts ?w) = Some ?a"
    by (simp add: latest_by_def rows_by_def open_alert_def or_else_def demo_env_def one_hour_def one_second_def
        demo_decision_db_def empty_db_def)
  from novelty_alert_deduplicated [OF this prod.collapse [symmetric], of None] show ?thesis by (simp add: Let_def)
qed

end
