(* ===== verification/Provenance.thy ===== *)
theory Provenance
  imports Access Decision
begin

text \<open>
  The provenance of a field (\<open>backend/domain/provenance.py\<close>) and the geometry it rests on
  (\<open>backend/domain/preprocessing.py\<close>). Coordinates are rationals in the tables; rotating them uses
  the real sine and cosine, where the code uses floating point. Pillow is the argument \<open>imaging\<close>:
  its operations on an image type of its own.
\<close>

section \<open>Preprocessing\<close>

record affine_transform =
  at_angle_degrees :: rat
  at_original_size :: "nat \<times> nat"
  at_processed_size :: "nat \<times> nat"

definition radians :: "rat \<Rightarrow> real" where
  "radians d = of_rat d * pi / 180"

definition map_point_to_original :: "affine_transform \<Rightarrow> real \<Rightarrow> real \<Rightarrow> real \<times> real" where
  "map_point_to_original t x y =
     (let (ow, oh) = at_original_size t;
          (pw, ph) = at_processed_size t;
          theta = radians (at_angle_degrees t);
          (cx_p, cy_p) = (real pw / 2, real ph / 2);
          (cx_o, cy_o) = (real ow / 2, real oh / 2);
          (dx, dy) = (x - cx_p, y - cy_p);
          rx = dx * cos theta - dy * sin theta;
          ry = dx * sin theta + dy * cos theta
      in (rx + cx_o, ry + cy_o))"

record 'im imaging =
  im_open :: "string \<Rightarrow> 'im" \<comment> \<open>\<open>Image.open\<close>\<close>
  im_size :: "'im \<Rightarrow> nat \<times> nat"
  im_denoised :: "'im \<Rightarrow> 'im" \<comment> \<open>\<open>convert("L").filter(MedianFilter(3))\<close>\<close>
  im_thumbnail :: "'im \<Rightarrow> 'im" \<comment> \<open>\<open>thumbnail((200, 200))\<close>\<close>
  im_rotate :: "bool \<Rightarrow> rat \<Rightarrow> 'im \<Rightarrow> 'im" \<comment> \<open>\<open>rotate(angle, expand, fillcolor=255)\<close>\<close>
  im_row_sums :: "'im \<Rightarrow> rat list" \<comment> \<open>\<open>ImageStat.Stat(row).sum[0]\<close> of each row\<close>
  im_binarize :: "'im \<Rightarrow> 'im"
  im_png :: "'im \<Rightarrow> string"

definition variance :: "rat list \<Rightarrow> rat" where
  "variance row_sums =
     (let n = of_nat (length row_sums);
          mean = sum_list row_sums / n
      in sum_list (map (\<lambda>v. (v - mean)\<^sup>2) row_sums) / n)"

function skew_loop :: "(rat \<Rightarrow> rat) \<Rightarrow> rat \<Rightarrow> rat \<Rightarrow> rat \<Rightarrow> rat" where
  \<comment> \<open>the \<open>while\<close>, with the default range of 5 and step of 0.5\<close>
  "skew_loop var_at angle best_angle best_variance =
     (if angle \<le> 5 + 1 / 10 ^ 9
      then (let v = var_at angle
            in if v > best_variance then skew_loop var_at (angle + 1 / 2) angle v
               else skew_loop var_at (angle + 1 / 2) best_angle best_variance)
      else best_angle)"
  by pat_completeness auto

lemma skew_step:
  assumes "(angle :: rat) \<le> 5 + 1 / 10 ^ 9"
  shows "nat \<lceil>2 * (6 - (angle + 1 / 2))\<rceil> < nat \<lceil>2 * (6 - angle)\<rceil>"
proof -
  have "2 * (6 - (angle + 1 / 2)) = 2 * (6 - angle) - 1" by (simp add: algebra_simps)
  then have "\<lceil>2 * (6 - (angle + 1 / 2))\<rceil> = \<lceil>2 * (6 - angle)\<rceil> - 1" by (simp only: ceiling_diff_one)
  moreover have "0 < \<lceil>2 * (6 - angle)\<rceil>"
  proof -
    have "angle < 6" using assms by (rule le_less_trans) simp
    then show ?thesis by (simp add: zero_less_ceiling)
  qed
  ultimately show ?thesis by simp
qed

termination skew_loop
  by (relation "measure (\<lambda>(_, angle, _). nat \<lceil>2 * (6 - angle)\<rceil>)") (use skew_step in \<open>auto simp: Let_def\<close>)

definition estimate_skew_degrees :: "'im imaging \<Rightarrow> 'im \<Rightarrow> rat" where
  "estimate_skew_degrees pil gray =
     (let thumb = im_thumbnail pil gray
      in skew_loop (\<lambda>angle. variance (im_row_sums pil (im_rotate pil False angle thumb))) (- 5) 0 (- 1))"

definition preprocess_page :: "'im imaging \<Rightarrow> string \<Rightarrow> string \<times> affine_transform" where
  "preprocess_page pil image_bytes =
     (let original = im_open pil image_bytes;
          denoised = im_denoised pil original;
          applied_angle = - estimate_skew_degrees pil denoised;
          binarized = im_binarize pil (im_rotate pil True applied_angle denoised)
      in (im_png pil binarized,
          \<lparr>at_angle_degrees = applied_angle, at_original_size = im_size pil original,
           at_processed_size = im_size pil binarized\<rparr>))"

section \<open>Provenance\<close>

definition transform_dict_of :: "affine_transform \<Rightarrow> transform_dict" where
  "transform_dict_of t = \<lparr>td_angle_degrees = at_angle_degrees t, td_original_size = at_original_size t,
     td_processed_size = at_processed_size t\<rparr>"

definition record_provenance ::
  "env \<Rightarrow> extraction \<Rightarrow> string \<Rightarrow> (string \<times> string) list option \<Rightarrow> transform_dict option \<Rightarrow> 'a db_scheme
    \<Rightarrow> (exn + field_provenance) \<times> 'a db_scheme"
where
  \<comment> \<open>the caller's \<open>AffineTransform\<close> goes through \<open>transform_dict_of\<close>; \<open>extraction_id\<close> is unique\<close>
  "record_provenance E x document_id page_split_transform deskew_transform w =
     (let (pid, w) = draw_uuid E w;
          (t, w) = read_clock E w;
          p = \<lparr>fp_id = pid, fp_extraction_id = ex_id x, fp_document_id = document_id,
               fp_page_split_transform = page_split_transform, fp_deskew_transform = deskew_transform,
               fp_recorded_at = t\<rparr>
      in if ex_id x \<in> fp_extraction_id ` set (field_provenances w)
         then (Inl (IntegrityError ''field_provenance_extraction_id_key''), w)
         else (Inr p, w\<lparr>field_provenances := field_provenances w @ [p]\<rparr>))"

record edit_history_entry =
  eh_actor :: string
  eh_predicted :: "string option"
  eh_corrected :: "string option"
  eh_edit_distance :: "nat option"
  eh_at :: string

record resolved_provenance =
  pv_extraction_id :: string
  pv_document_id :: "string option"
  pv_page_id :: string
  pv_field_name :: string
  pv_bbox :: "bbox option"
  pv_engine :: "string option"
  pv_model_version :: "string option"
  pv_config_version :: "string option"
  pv_raw_value :: string
  pv_confidence :: "pyfloat option"
  pv_page_split_transform :: "(string \<times> string) list option"
  pv_deskew_transform :: "transform_dict option"
  pv_edit_history :: "edit_history_entry list"

definition float_or :: "pyfloat option \<Rightarrow> pyfloat option \<Rightarrow> pyfloat option" where
  \<comment> \<open>\<open>x or y\<close>: zero is false\<close>
  "float_or x y = (case x of Some c \<Rightarrow> if c \<noteq> 0 then Some c else y | None \<Rightarrow> y)"

definition history_entry :: "correction \<Rightarrow> edit_history_entry" where
  "history_entry c = \<lparr>eh_actor = co_actor c, eh_predicted = co_predicted c, eh_corrected = co_corrected c,
     eh_edit_distance = co_edit_distance c, eh_at = isoformat (co_created_at c)\<rparr>"

definition resolve_provenance :: "string \<Rightarrow> 'a db_scheme \<Rightarrow> exn + resolved_provenance" where
  "resolve_provenance extraction_id w =
     (case get_by ex_id extraction_id (extractions w) of
        None \<Rightarrow> Inl (KeyError extraction_id)
      | Some x \<Rightarrow>
          (let page = get_by pg_id (ex_page_id x) (pages w)
           in case scalar_one_or_none (filter (\<lambda>p. fp_extraction_id p = extraction_id) (field_provenances w)) of
                Inl err \<Rightarrow> Inl err
              | Inr provenance \<Rightarrow>
                  Inr \<lparr>pv_extraction_id = ex_id x,
                       pv_document_id = (case provenance of Some p \<Rightarrow> Some (fp_document_id p)
                                         | None \<Rightarrow> map_option pg_document_id page),
                       pv_page_id = ex_page_id x, pv_field_name = ex_field_name x, pv_bbox = ex_bbox x,
                       pv_engine = ex_engine x, pv_model_version = ex_model_version x,
                       pv_config_version = ex_config_version x, pv_raw_value = ex_raw_value x,
                       pv_confidence = float_or (ex_calibrated_confidence x) (ex_token_confidence x),
                       pv_page_split_transform = Option.bind provenance fp_page_split_transform,
                       pv_deskew_transform = Option.bind provenance fp_deskew_transform,
                       pv_edit_history = map history_entry
                         (rows_by co_created_at (\<lambda>c. co_extraction_id c = extraction_id) (corrections w))\<rparr>))"

record real_box = rb_x :: real  rb_y :: real  rb_w :: real  rb_h :: real

definition bbox_corners :: "bbox \<Rightarrow> (real \<times> real) list" where
  "bbox_corners b =
     (let (x, y, w, h) = (of_rat (bb_x b), of_rat (bb_y b), of_rat (bb_w b), of_rat (bb_h b))
      in [(x, y), (x + w, y), (x, y + h), (x + w, y + h)])"

definition original_bbox :: "affine_transform \<Rightarrow> bbox \<Rightarrow> real_box" where
  "original_bbox t b =
     (let mapped = map (\<lambda>(cx, cy). map_point_to_original t cx cy) (bbox_corners b);
          xs = map fst mapped;
          ys = map snd mapped
      in \<lparr>rb_x = Min (set xs), rb_y = Min (set ys), rb_w = Max (set xs) - Min (set xs),
          rb_h = Max (set ys) - Min (set ys)\<rparr>)"

definition affine_of :: "transform_dict \<Rightarrow> affine_transform" where
  "affine_of d = \<lparr>at_angle_degrees = td_angle_degrees d, at_original_size = td_original_size d,
     at_processed_size = td_processed_size d\<rparr>"

definition original_bbox_for :: "resolved_provenance \<Rightarrow> real_box option" where
  "original_bbox_for r =
     (case (pv_bbox r, pv_deskew_transform r) of
        (Some b, Some d) \<Rightarrow> Some (original_bbox (affine_of d) b) | _ \<Rightarrow> None)"

section \<open>The skew estimate\<close>

definition skew_angles :: "nat \<Rightarrow> rat list" where
  \<comment> \<open>the last \<open>k\<close> angles the loop tries\<close>
  "skew_angles k = map (\<lambda>i. 11 / 2 - of_nat i / 2) (rev [1..<Suc k])"

definition better :: "(rat \<Rightarrow> rat) \<Rightarrow> rat \<Rightarrow> rat \<times> rat \<Rightarrow> rat \<times> rat" where
  "better f a bv = (if f a > snd bv then (a, f a) else bv)"

lemma better_pair [simp]: "better f a (b, v) = (if f a > v then (a, f a) else (b, v))"
  by (simp add: better_def)

lemma skew_angles_Suc: "skew_angles (Suc k) = (11 / 2 - of_nat (Suc k) / 2) # skew_angles k"
  by (simp add: skew_angles_def)

lemma skew_loop_fold:
  "skew_loop f (11 / 2 - of_nat k / 2) b v = fst (fold (better f) (skew_angles k) (b, v))"
proof (induction k arbitrary: b v)
  case 0
  show ?case by (subst skew_loop.simps) (simp add: skew_angles_def)
next
  case (Suc k)
  let ?a = "11 / 2 - of_nat (Suc k) / 2 :: rat"
  have le: "?a \<le> 5 + 1 / 10 ^ 9"
  proof -
    have "?a \<le> 5" by (simp add: field_simps)
    then show ?thesis by (rule order_trans) simp
  qed
  have next_angle: "?a + 1 / 2 = 11 / 2 - of_nat k / 2" by (simp add: field_simps)
  have "skew_loop f ?a b v = (if f ?a > v then skew_loop f (?a + 1 / 2) ?a (f ?a) else skew_loop f (?a + 1 / 2) b v)"
    by (subst skew_loop.simps) (simp only: le if_True Let_def)
  also have "\<dots> = fst (fold (better f) (skew_angles k) (better f ?a (b, v)))"
    unfolding next_angle Suc.IH by simp
  finally show ?case by (simp add: skew_angles_Suc)
qed

lemma fold_better:
  assumes "fold (better f) as (b, f b) = (a, v)"
  shows "v = f a \<and> a \<in> insert b (set as) \<and> list_all (\<lambda>x. f x \<le> f a) (b # as)"
  using assms
proof (induction as arbitrary: b)
  case (Cons x xs)
  show ?case
  proof (cases "f x > f b")
    case True
    with Cons.prems have "fold (better f) xs (x, f x) = (a, v)" by simp
    from Cons.IH [OF this] True show ?thesis by auto
  next
    case False
    with Cons.prems have "fold (better f) xs (b, f b) = (a, v)" by simp
    from Cons.IH [OF this] False show ?thesis by auto
  qed
qed simp

lemma variance_nonneg: "0 \<le> variance rs"
  by (auto simp: variance_def Let_def intro!: divide_nonneg_nonneg sum_list_nonneg)

section \<open>The geometry\<close>

definition map_point_to_processed :: "affine_transform \<Rightarrow> real \<Rightarrow> real \<Rightarrow> real \<times> real" where
  \<comment> \<open>the rotation of the page that \<open>map_point_to_original\<close> undoes\<close>
  "map_point_to_processed t x y =
     (let theta = radians (at_angle_degrees t);
          dx = x - real (fst (at_original_size t)) / 2;
          dy = y - real (snd (at_original_size t)) / 2
      in (dx * cos theta + dy * sin theta + real (fst (at_processed_size t)) / 2,
          dy * cos theta - dx * sin theta + real (snd (at_processed_size t)) / 2))"

lemma map_point_affine:
  obtains a b c d e g where "\<And>x y. map_point_to_original t x y = (a * x + b * y + c, d * x + e * y + g)"
proof -
  let ?th = "radians (at_angle_degrees t)"
  let ?px = "real (fst (at_processed_size t)) / 2" and ?py = "real (snd (at_processed_size t)) / 2"
  let ?ox = "real (fst (at_original_size t)) / 2" and ?oy = "real (snd (at_original_size t)) / 2"
  have "map_point_to_original t x y =
    (cos ?th * x + (- sin ?th) * y + (?ox - ?px * cos ?th + ?py * sin ?th),
     sin ?th * x + cos ?th * y + (?oy - ?px * sin ?th - ?py * cos ?th))" for x y
    by (simp add: map_point_to_original_def split_beta Let_def algebra_simps)
  then show thesis by (rule that)
qed

lemma rotate_back:
  fixes c s dx dy :: real
  assumes "c\<^sup>2 + s\<^sup>2 = 1"
  shows "(dx * c + dy * s) * c - (dy * c - dx * s) * s = dx" and "(dx * c + dy * s) * s + (dy * c - dx * s) * c = dy"
proof -
  have "(dx * c + dy * s) * c - (dy * c - dx * s) * s = dx * (c\<^sup>2 + s\<^sup>2)"
    "(dx * c + dy * s) * s + (dy * c - dx * s) * c = dy * (c\<^sup>2 + s\<^sup>2)"
    by (simp_all add: algebra_simps power2_eq_square)
  then show "(dx * c + dy * s) * c - (dy * c - dx * s) * s = dx"
    "(dx * c + dy * s) * s + (dy * c - dx * s) * c = dy" using assms by simp_all
qed

lemma affine_between:
  fixes a b c x0 y0 w h x y :: real
  assumes "x0 \<le> x" "x \<le> x0 + w" "y0 \<le> y" "y \<le> y0 + h"
  defines "vs \<equiv> {a * x0 + b * y0 + c, a * (x0 + w) + b * y0 + c, a * x0 + b * (y0 + h) + c, a * (x0 + w) + b * (y0 + h) + c}"
  shows "Min vs \<le> a * x + b * y + c \<and> a * x + b * y + c \<le> Max vs"
proof -
  have ax: "min (a * x0) (a * (x0 + w)) \<le> a * x" "a * x \<le> max (a * x0) (a * (x0 + w))"
    using assms(1,2) by (cases "0 \<le> a"; simp add: min_le_iff_disj le_max_iff_disj mult_left_mono mult_left_mono_neg)+
  have bys: "min (b * y0) (b * (y0 + h)) \<le> b * y" "b * y \<le> max (b * y0) (b * (y0 + h))"
    using assms(3,4) by (cases "0 \<le> b"; simp add: min_le_iff_disj le_max_iff_disj mult_left_mono mult_left_mono_neg)+
  from ax bys show ?thesis unfolding vs_def by (simp add: min_def max_def split: if_splits)
qed

section \<open>Properties\<close>

text \<open>Deskewing loses no point. Mapping a point of the original page into the deskewed page and back
  gives the point itself, and so does the other direction, for every angle and any two page
  sizes, so a box recorded on the deskewed page names one place of the scan.\<close>

lemma map_point_roundtrip:
  "map_point_to_original t (fst (map_point_to_processed t x y)) (snd (map_point_to_processed t x y)) = (x, y) \<and>
   map_point_to_processed t (fst (map_point_to_original t x y)) (snd (map_point_to_original t x y)) = (x, y)"
  using rotate_back [of "cos (radians (at_angle_degrees t))" "sin (radians (at_angle_degrees t))"]
    rotate_back [of "cos (radians (at_angle_degrees t))" "- sin (radians (at_angle_degrees t))"]
  by (simp add: map_point_to_original_def map_point_to_processed_def split_beta Let_def algebra_simps)

text \<open>The original box covers the field. Every point of a recorded box, mapped back to the scan, lies
  in the box \<open>original_bbox_for\<close> answers, and without a recorded box or transform there is none.\<close>

lemma original_bbox_covers:
  assumes "original_bbox_for r = Some ob" and "pv_bbox r = Some b" and "pv_deskew_transform r = Some d"
    and "of_rat (bb_x b) \<le> x" "x \<le> of_rat (bb_x b) + of_rat (bb_w b)"
    and "of_rat (bb_y b) \<le> y" "y \<le> of_rat (bb_y b) + of_rat (bb_h b)"
  shows "rb_x ob \<le> fst (map_point_to_original (affine_of d) x y) \<and>
    fst (map_point_to_original (affine_of d) x y) \<le> rb_x ob + rb_w ob \<and>
    rb_y ob \<le> snd (map_point_to_original (affine_of d) x y) \<and>
    snd (map_point_to_original (affine_of d) x y) \<le> rb_y ob + rb_h ob"
proof -
  obtain a b' c d' e g where m: "\<And>x y. map_point_to_original (affine_of d) x y = (a * x + b' * y + c, d' * x + e * y + g)"
    using map_point_affine by blast
  have ob: "ob = original_bbox (affine_of d) b" using assms(1-3) by (simp add: original_bbox_for_def)
  show ?thesis
    using affine_between [OF assms(4-7), of a b' c] affine_between [OF assms(4-7), of d' e g]
    unfolding ob m by (simp add: original_bbox_def bbox_corners_def Let_def m)
qed

text \<open>The skew is the best of the angles tried. The loop tries the 21 angles from -5 to 5 degrees in
  steps of one half, and the estimate is one of them at which the variance of the row sums is
  largest.\<close>

lemma skew_is_best:
  "estimate_skew_degrees pil gray \<in> set (skew_angles 21) \<and>
   list_all (\<lambda>a. variance (im_row_sums pil (im_rotate pil False a (im_thumbnail pil gray)))
      \<le> variance (im_row_sums pil (im_rotate pil False (estimate_skew_degrees pil gray) (im_thumbnail pil gray))))
     (skew_angles 21)"
proof -
  define f where "f = (\<lambda>a. variance (im_row_sums pil (im_rotate pil False a (im_thumbnail pil gray))))"
  have e: "estimate_skew_degrees pil gray = skew_loop f (11 / 2 - of_nat 21 / 2) 0 (- 1)"
    by (simp add: estimate_skew_degrees_def f_def Let_def)
  obtain a as where as: "skew_angles 21 = a # as" using skew_angles_Suc [of 20] by auto
  have "- 1 < f a" using variance_nonneg by (simp add: f_def less_le_trans [of "- 1" 0])
  then have "fold (better f) (skew_angles 21) (0, - 1) = fold (better f) as (a, f a)"
    by (simp add: as)
  moreover obtain b v where "fold (better f) as (a, f a) = (b, v)" by fastforce
  ultimately have "estimate_skew_degrees pil gray = b" and "b \<in> set (skew_angles 21)"
    and "list_all (\<lambda>x. f x \<le> f b) (skew_angles 21)"
    using fold_better [of f as a b v] unfolding e skew_loop_fold by (simp_all add: as)
  then show ?thesis unfolding f_def by simp
qed

definition demo_provenance :: resolved_provenance where
  "demo_provenance = \<lparr>pv_extraction_id = ''x1'', pv_document_id = Some ''d'', pv_page_id = ''p'', pv_field_name = ''area'',
     pv_bbox = Some \<lparr>bb_x = 1, bb_y = 1, bb_w = 2, bb_h = 2\<rparr>, pv_engine = None, pv_model_version = None,
     pv_config_version = None, pv_raw_value = ''12'', pv_confidence = None, pv_page_split_transform = None,
     pv_deskew_transform = Some \<lparr>td_angle_degrees = 0, td_original_size = (10, 10), td_processed_size = (12, 10)\<rparr>,
     pv_edit_history = []\<rparr>"

lemma original_bbox_covers_example:
  "\<exists>ob. original_bbox_for demo_provenance = Some ob \<and> rb_x ob \<le> 1 \<and> 1 \<le> rb_x ob + rb_w ob"
proof -
  obtain ob where "original_bbox_for demo_provenance = Some ob"
    by (simp add: original_bbox_for_def demo_provenance_def)
  with original_bbox_covers [OF this, of "\<lparr>bb_x = 1, bb_y = 1, bb_w = 2, bb_h = 2\<rparr>"
      "\<lparr>td_angle_degrees = 0, td_original_size = (10, 10), td_processed_size = (12, 10)\<rparr>" 2 2] show ?thesis
    by (simp add: demo_provenance_def map_point_to_original_def affine_of_def radians_def)
qed

end
