(* ===== verification/Edit_Distance.thy ===== *)
theory Edit_Distance
  imports Prelude
begin

text \<open>
  \<open>edit_distance\<close> of \<open>backend/domain/correction.py\<close>: the two-row dynamic program, row by row and
  cell by cell as the loops run, over the characters of the two strings. The reference it is
  proved equal to is the least number of insertions, deletions and replacements of one
  character that turn one string into the other (\<open>edits\<close>).
\<close>

section \<open>The program\<close>

definition dp_cell :: "nat list \<Rightarrow> 'c \<Rightarrow> 'c list \<Rightarrow> nat \<Rightarrow> nat list \<Rightarrow> nat list" where
  \<comment> \<open>the body of the inner loop\<close>
  "dp_cell prev ca b j cur =
     (let cost = (if ca = b ! (j - 1) then 0 else 1)
      in cur[j := min (prev ! j + 1) (min (cur ! (j - 1) + 1) (prev ! (j - 1) + cost))])"

definition dp_row :: "'c list \<Rightarrow> nat \<times> 'c \<Rightarrow> nat list \<Rightarrow> nat list" where
  \<comment> \<open>the body of the outer loop\<close>
  "dp_row b ica prev =
     (case ica of (i, ca) \<Rightarrow>
        fold (dp_cell prev ca b) [1..<Suc (length b)] (i # replicate (length b) 0))"

definition edit_distance_chars :: "'c list \<Rightarrow> 'c list \<Rightarrow> nat" where
  "edit_distance_chars a b =
     (if a = b then 0
      else if a = [] then length b
      else if b = [] then length a
      else last (fold (dp_row b) (enumerate 1 a) [0..<Suc (length b)]))"

definition edit_distance :: "string \<Rightarrow> string \<Rightarrow> nat" where
  "edit_distance a b = edit_distance_chars (utf8_chars a) (utf8_chars b)"

section \<open>The reference\<close>

inductive edits :: "nat \<Rightarrow> 'c list \<Rightarrow> 'c list \<Rightarrow> bool" where
  edits_done: "edits 0 [] []"
| edits_keep: "edits n xs ys \<Longrightarrow> edits n (xs @ [c]) (ys @ [c])"
| edits_replace: "edits n xs ys \<Longrightarrow> edits (Suc n) (xs @ [c]) (ys @ [d])"
| edits_insert: "edits n xs ys \<Longrightarrow> edits (Suc n) xs (ys @ [d])"
| edits_delete: "edits n xs ys \<Longrightarrow> edits (Suc n) (xs @ [c]) ys"

text \<open>The recurrence between the two, on the reversed strings so that it peels the last character.\<close>

fun levr :: "'c list \<Rightarrow> 'c list \<Rightarrow> nat" where
  "levr [] ys = length ys"
| "levr xs [] = length xs"
| "levr (x # xs) (y # ys) =
     min (levr xs (y # ys) + 1) (min (levr (x # xs) ys + 1) (levr xs ys + (if x = y then 0 else 1)))"

definition lev :: "'c list \<Rightarrow> 'c list \<Rightarrow> nat" where
  "lev xs ys = levr (rev xs) (rev ys)"

lemma levr_Nil2 [simp]: "levr xs [] = length xs"
  by (cases xs) auto

lemma lev_simps [simp]:
  "lev [] ys = length ys" "lev xs [] = length xs"
  "lev (xs @ [x]) (ys @ [y]) =
     min (lev xs (ys @ [y]) + 1) (min (lev (xs @ [x]) ys + 1) (lev xs ys + (if x = y then 0 else 1)))"
  by (simp_all add: lev_def)

lemma lev_attained: "edits (lev xs ys) xs ys"
proof (induction xs arbitrary: ys rule: rev_induct)
  case Nil
  show ?case by (induction ys rule: rev_induct) (auto intro: edits.intros)
next
  case (snoc x xs)
  show ?case
  proof (induction ys rule: rev_induct)
    case Nil
    then show ?case using snoc.IH [of "[]"] by (auto intro: edits_delete)
  next
    case (snoc y ys)
    have "edits (Suc (lev xs (ys @ [y]))) (xs @ [x]) (ys @ [y])"
      by (rule edits_delete [OF \<open>\<And>ys. edits (lev xs ys) xs ys\<close>])
    moreover have "edits (Suc (lev (xs @ [x]) ys)) (xs @ [x]) (ys @ [y])"
      by (rule edits_insert [OF snoc.IH])
    moreover have "edits (lev xs ys + (if x = y then 0 else 1)) (xs @ [x]) (ys @ [y])"
      using \<open>\<And>ys. edits (lev xs ys) xs ys\<close> [of ys] by (auto intro: edits_keep edits_replace)
    ultimately show ?case by (simp add: min_def)
  qed
qed

lemma lev_step:
  "lev (xs @ [c]) (ys @ [d]) \<le> lev xs ys + (if c = d then 0 else 1)"
  "lev xs (ys @ [d]) \<le> Suc (lev xs ys)" "lev (xs @ [c]) ys \<le> Suc (lev xs ys)"
  by simp (cases xs rule: rev_cases, simp_all, cases ys rule: rev_cases, simp_all)

lemma lev_minimal: "edits n xs ys \<Longrightarrow> lev xs ys \<le> n"
proof (induction rule: edits.induct)
  case edits_done
  then show ?case by simp
next
  case (edits_keep n xs ys c)
  then show ?case using lev_step(1) [of xs c ys c] by simp
next
  case (edits_replace n xs ys c d)
  then show ?case using lev_step(1) [of xs c ys d] by (simp split: if_splits)
next
  case (edits_insert n xs ys d)
  then show ?case using lev_step(2) [of xs ys d] by simp
next
  case (edits_delete n xs ys c)
  then show ?case using lev_step(3) [of xs c ys] by simp
qed

section \<open>The rows\<close>

definition lev_row :: "'c list \<Rightarrow> 'c list \<Rightarrow> nat list" where
  "lev_row a b = map (\<lambda>k. lev a (take k b)) [0..<Suc (length b)]"

lemma lev_row_nth: "k \<le> length b \<Longrightarrow> lev_row a b ! k = lev a (take k b)"
  unfolding lev_row_def by (subst nth_map) (simp_all del: upt_Suc)

lemma length_lev_row [simp]: "length (lev_row a b) = Suc (length b)"
  by (simp add: lev_row_def)

lemma last_lev_row: "last (lev_row a b) = lev a b"
  by (simp add: lev_row_def)

lemma take_Suc_snoc: "j < length b \<Longrightarrow> take (Suc j) b = take j b @ [b ! j]"
  by (rule take_Suc_conv_app_nth)

lemma dp_cells:
  assumes "j \<le> length b"
  shows "fold (dp_cell (lev_row a b) ca b) [1..<Suc j] (Suc (length a) # replicate (length b) 0) =
    take (Suc j) (lev_row (a @ [ca]) b) @ replicate (length b - j) 0"
  using assms
proof (induction j)
  case 0
  have "take (Suc 0) (lev_row (a @ [ca]) b) = [lev (a @ [ca]) []]"
    by (subst take_Suc_conv_app_nth) (simp_all add: lev_row_nth)
  then show ?case by simp
next
  case (Suc j)
  let ?r = "lev_row (a @ [ca]) b"
  let ?c = "take (Suc j) ?r @ replicate (length b - j) 0"
  have len: "length (take (Suc j) ?r) = Suc j" using Suc.prems by simp
  have prev: "?c ! j = lev (a @ [ca]) (take j b)"
    using Suc.prems len by (simp add: nth_append lev_row_nth)
  have cell: "min (lev a (take (Suc j) b) + 1) (min (lev (a @ [ca]) (take j b) + 1)
      (lev a (take j b) + (if ca = b ! j then 0 else 1))) = lev (a @ [ca]) (take (Suc j) b)"
    using Suc.prems by (simp add: take_Suc_snoc)
  have "dp_cell (lev_row a b) ca b (Suc j) ?c = ?c[Suc j := lev (a @ [ca]) (take (Suc j) b)]"
    unfolding dp_cell_def Let_def using Suc.prems
    by (simp only: lev_row_nth prev diff_Suc_1 cell [symmetric])
  also have "\<dots> = take (Suc (Suc j)) ?r @ replicate (length b - Suc j) 0"
  proof -
    have rep: "replicate (length b - j) 0 = 0 # replicate (length b - Suc j) (0::nat)"
      using Suc.prems by (metis Suc_diff_le diff_Suc_Suc replicate_Suc Suc_leD Suc_diff_Suc Suc_le_lessD)
    have "take (Suc (Suc j)) ?r = take (Suc j) ?r @ [?r ! Suc j]"
      using Suc.prems by (intro take_Suc_conv_app_nth) simp
    then show ?thesis using Suc.prems len by (simp add: rep list_update_append lev_row_nth)
  qed
  finally show ?case using Suc by (simp del: upt_Suc add: upt_Suc_append)
qed

lemma dp_row_lev: "dp_row b (Suc (length a), ca) (lev_row a b) = lev_row (a @ [ca]) b"
  using dp_cells [of "length b" b a ca] by (simp add: dp_row_def del: upt_Suc)

lemma dp_rows: "fold (dp_row b) (enumerate (Suc (length a)) cs) (lev_row a b) = lev_row (a @ cs) b"
proof (induction cs arbitrary: a)
  case Nil
  then show ?case by simp
next
  case (Cons c cs)
  show ?case using Cons.IH [of "a @ [c]"] by (simp add: dp_row_lev)
qed

lemma lev_refl [simp]: "lev xs xs = 0"
proof -
  have "edits 0 xs xs" by (induction xs rule: rev_induct) (auto intro: edits.intros)
  from lev_minimal [OF this] show ?thesis by simp
qed

lemma edit_distance_lev: "edit_distance_chars a b = lev a b"
proof -
  have "lev_row [] b = [0..<Suc (length b)]"
    by (rule nth_equalityI) (simp_all add: lev_row_nth del: upt_Suc)
  then have "last (fold (dp_row b) (enumerate 1 a) [0..<Suc (length b)]) = lev a b"
    using dp_rows [of b "[]" a] last_lev_row [of a b] by simp
  then show ?thesis by (simp add: edit_distance_chars_def)
qed

section \<open>Properties\<close>

text \<open>C21. The edit distance is the least number of edits. The two-row program computes, for any two
  strings, a number of insertions, deletions and replacements of single characters that turns
  the first into the second, and no smaller number does; it is zero only for equal strings.\<close>

theorem edit_distance_least:
  "edits (edit_distance a b) (utf8_chars a) (utf8_chars b) \<and>
   (edits n (utf8_chars a) (utf8_chars b) \<longrightarrow> edit_distance a b \<le> n) \<and>
   (edit_distance a b = 0 \<longleftrightarrow> a = b)"
proof -
  have "a = b" if "edits 0 (utf8_chars a) (utf8_chars b)"
  proof -
    have "xs = ys" if "edits k xs ys" "k = 0" for k :: nat and xs ys :: "string list"
      using that by (induction rule: edits.induct) auto
    then show ?thesis using that utf8_chars_eq_iff by blast
  qed
  moreover have "edits (lev (utf8_chars a) (utf8_chars b)) (utf8_chars a) (utf8_chars b)" by (rule lev_attained)
  ultimately show ?thesis
    unfolding edit_distance_def edit_distance_lev using lev_minimal by (metis lev_refl)
qed

theorem edit_distance_least_witness:
  "edit_distance ''abc'' ''axc'' \<le> 1"
proof -
  have "edits 0 [] ([] :: string list)" by (rule edits_done)
  from edits_keep [OF edits_replace [OF edits_keep [OF this, of "''a''"], of "''b''" "''x''"], of "''c''"]
  have "edits 1 [''a'', ''b'', ''c''] [''a'', ''x'', ''c'']" by simp
  moreover have "utf8_chars ''abc'' = [''a'', ''b'', ''c'']" "utf8_chars ''axc'' = [''a'', ''x'', ''c'']"
    by (simp_all add: utf8_continuation_def)
  ultimately show ?thesis using edit_distance_least [of "''abc''" "''axc''" 1] by simp
qed

end
