(* ===== verification/Review.thy ===== *)
theory Review
  imports Decision Edit_Distance
begin

text \<open>
  The review of an extraction by an officer: corrections and maker-checker
  (\<open>backend/domain/correction.py\<close>), review sessions (\<open>review_session.py\<close>), claiming, submitting
  and skipping a task (\<open>review_workflow.py\<close>), the verdict on an audit sample
  (\<open>audit_sample_verdict.py\<close>), the one transition to \<open>live\<close> (\<open>entry_status.py\<close>) and the routes
  of \<open>api/review_tasks.py\<close>, which turn exceptions into statuses and say what is committed.
  \<open>bbox_str\<close> is Python's rendering of a bounding box in an f-string. An operation that raises
  after it has changed something returns the changed database: the caller's session decides
  what becomes of it.
\<close>

section \<open>Corrections\<close>

definition MAKER_CHECKER_EDIT_DISTANCE_THRESHOLD :: nat where
  "MAKER_CHECKER_EDIT_DISTANCE_THRESHOLD = 4"

definition MAKER_CHECKER_FIELD_CLASSES :: "string list" where
  "MAKER_CHECKER_FIELD_CLASSES = [''owner_name'', ''share_fraction'', ''area'', ''survey_number'']"

definition source_page_digest_for :: "page option \<Rightarrow> exn + string" where
  "source_page_digest_for p =
     (case p of
        None \<Rightarrow> Inl (AttributeError ''storage_uri'')
      | Some page \<Rightarrow>
          if \<not> truthy (pg_storage_uri page) then Inl (ValueError (pg_id page))
          else Inr (last_segment (or_empty (pg_storage_uri page))))"

datatype submitted =
    Submitted (sub_correction: correction)
  | Held (sub_pending: pending_correction)

definition crop_path :: "(bbox option \<Rightarrow> string) \<Rightarrow> extraction \<Rightarrow> string" where
  "crop_path bbox_str x = ''/pages/'' @ ex_page_id x @ ''/crop?bbox='' @ bbox_str (ex_bbox x)"

definition needs_maker_checker :: "string \<Rightarrow> nat \<Rightarrow> bool" where
  "needs_maker_checker fclass distance \<longleftrightarrow>
     fclass \<in> set MAKER_CHECKER_FIELD_CLASSES \<and> distance > MAKER_CHECKER_EDIT_DISTANCE_THRESHOLD"

definition submit_correction ::
  "env \<Rightarrow> (bbox option \<Rightarrow> string) \<Rightarrow> extraction \<Rightarrow> string \<Rightarrow> string \<Rightarrow> string \<Rightarrow> 'a db_scheme
    \<Rightarrow> (exn + submitted) \<times> 'a db_scheme"
where
  "submit_correction E bbox_str x corrected actor stream w =
     (case source_page_digest_for (get_by pg_id (ex_page_id x) (pages w)) of
        Inl err \<Rightarrow> (Inl err, w)
      | Inr digest \<Rightarrow>
          (let predicted = or_else (ex_canonical_value x) (ex_raw_value x);
               distance = edit_distance predicted corrected;
               fclass = ex_field_name x;
               (cid, w) = draw_uuid E w;
               (t, w) = read_clock E w
           in if needs_maker_checker fclass distance then
                (let pend = \<lparr>pc_id = cid, pc_extraction_id = ex_id x, pc_crop_uri = crop_path bbox_str x,
                             pc_predicted = Some predicted, pc_corrected = Some corrected,
                             pc_edit_distance = distance, pc_field_class = fclass, pc_first_actor = actor,
                             pc_model_version = ex_model_version x, pc_config_version = ex_config_version x,
                             pc_stream = stream, pc_source_page_digest = digest, pc_opened_at = t,
                             pc_state = ''pending'', pc_confirmed_by = None, pc_confirmed_at = None,
                             pc_resulting_correction_id = None\<rparr>;
                     w = w\<lparr>pending_corrections := pending_corrections w @ [pend]\<rparr>
                 in (Inr (Held pend), audited E ((audit_call actor ''correction.pending_maker_checker'')
                       \<lparr>ac_subject := Some (ex_id x), ac_purpose := Some ''maker_checker_hold''\<rparr>) w))
              else
                (let corr = \<lparr>co_id = cid, co_extraction_id = ex_id x, co_crop_uri = crop_path bbox_str x,
                             co_predicted = Some predicted, co_corrected = Some corrected,
                             co_edit_distance = Some distance, co_actor = actor,
                             co_model_version = ex_model_version x, co_config_version = ex_config_version x,
                             co_stream = stream, co_source_page_digest = digest, co_reliability_weight = None,
                             co_created_at = t\<rparr>;
                     w = w\<lparr>corrections := corrections w @ [corr]\<rparr>
                 in (Inr (Submitted corr), audited E ((audit_call actor ''correction.submitted'')
                       \<lparr>ac_subject := Some (ex_id x), ac_purpose := Some ''review_submit''\<rparr>) w))))"

definition claimant_of :: "string \<Rightarrow> 'a db_scheme \<Rightarrow> string option" where
  "claimant_of extraction_id w =
     Option.bind (get_by rv_extraction_id extraction_id (review_tasks w)) rv_assignee"

definition confirm_pending_correction ::
  "env \<Rightarrow> string \<Rightarrow> string \<Rightarrow> 'a db_scheme \<Rightarrow> (exn + correction) \<times> 'a db_scheme"
where
  "confirm_pending_correction E pending_id actor w =
     (case get_by pc_id pending_id (pending_corrections w) of
        None \<Rightarrow> (Inl (KeyError pending_id), w)
      | Some p \<Rightarrow>
          if pc_state p \<noteq> ''pending'' then (Inl (PendingCorrectionAlreadyResolved pending_id), w)
          else if actor = pc_first_actor p \<or> claimant_of (pc_extraction_id p) w = Some actor then
            (Inl (SameActorCannotConfirm actor),
             audited E ((audit_call actor ''correction.confirm_rejected'')
               \<lparr>ac_subject := Some (pc_extraction_id p), ac_purpose := Some ''maker_checker_confirm''\<rparr>) w)
          else
            (let (cid, w) = draw_uuid E w;
                 (t, w) = read_clock E w;
                 corr = \<lparr>co_id = cid, co_extraction_id = pc_extraction_id p, co_crop_uri = pc_crop_uri p,
                         co_predicted = pc_predicted p, co_corrected = pc_corrected p,
                         co_edit_distance = Some (pc_edit_distance p), co_actor = actor,
                         co_model_version = pc_model_version p, co_config_version = pc_config_version p,
                         co_stream = pc_stream p, co_source_page_digest = pc_source_page_digest p,
                         co_reliability_weight = None, co_created_at = t\<rparr>;
                 w = w\<lparr>corrections := corrections w @ [corr]\<rparr>;
                 (now, w) = read_clock E w;
                 p' = p\<lparr>pc_state := ''confirmed'', pc_confirmed_by := Some actor, pc_confirmed_at := Some now,
                        pc_resulting_correction_id := Some cid\<rparr>;
                 w = w\<lparr>pending_corrections := set_by pc_id pending_id (\<lambda>_. p') (pending_corrections w)\<rparr>
             in (Inr corr, audited E ((audit_call actor ''correction.confirmed'')
                   \<lparr>ac_subject := Some (pc_extraction_id p), ac_purpose := Some ''maker_checker_confirm''\<rparr>) w)))"

section \<open>Sessions\<close>

definition REVIEW_SESSION_GAP :: int where
  "REVIEW_SESSION_GAP = one_hour"

definition touch_session ::
  "env \<Rightarrow> string \<Rightarrow> timestamp option \<Rightarrow> 'a db_scheme \<Rightarrow> (review_session \<times> int) \<times> 'a db_scheme" where
  "touch_session E actor moment w =
     (let (now, w) = (case moment of Some t \<Rightarrow> (t, w) | None \<Rightarrow> read_clock E w);
          found = latest_by rs_started_at (\<lambda>s. rs_actor s = actor \<and> rs_ended_at s = None) (review_sessions w);
          (open_session, w) =
            (case found of
               None \<Rightarrow> (None, w)
             | Some s \<Rightarrow>
                 if now - rs_last_activity_at s > REVIEW_SESSION_GAP
                 then (None, w\<lparr>review_sessions := set_by rs_id (rs_id s)
                                (\<lambda>r. r\<lparr>rs_ended_at := Some (rs_last_activity_at r)\<rparr>) (review_sessions w)\<rparr>)
                 else (Some s, w));
          (s, w) =
            (case open_session of
               None \<Rightarrow>
                 (let (sid, w) = draw_uuid E w;
                      s = \<lparr>rs_id = sid, rs_actor = actor, rs_started_at = now, rs_last_activity_at = now,
                           rs_ended_at = None\<rparr>
                  in (s, w\<lparr>review_sessions := review_sessions w @ [s]\<rparr>))
             | Some s \<Rightarrow>
                 (s\<lparr>rs_last_activity_at := now\<rparr>,
                  w\<lparr>review_sessions := set_by rs_id (rs_id s) (rs_last_activity_at_update (\<lambda>_. now)) (review_sessions w)\<rparr>))
      in ((s, (now - rs_started_at s) div one_hour), w))"

section \<open>Verdicts and entry status\<close>

definition record_officer_verdict ::
  "env \<Rightarrow> audit_sample \<Rightarrow> string \<Rightarrow> string \<Rightarrow> 'a db_scheme \<Rightarrow> (exn + audit_sample) \<times> 'a db_scheme" where
  "record_officer_verdict E sample verdict actor w =
     (if verdict \<notin> {''agree'', ''disagree''} then (Inl (ValueError verdict), w)
      else
        (let sample' = sample\<lparr>as_officer_verdict := verdict, as_agreed := Some (verdict = ''agree'')\<rparr>;
             w = w\<lparr>audit_samples := set_by as_id (as_id sample) (\<lambda>_. sample') (audit_samples w)\<rparr>
         in (Inr sample', audited E ((audit_call actor ''audit_sample.verdict_recorded'')
               \<lparr>ac_subject := Some (as_extraction_id sample), ac_purpose := Some ''audit_verdict''\<rparr>) w)))"

definition mark_live ::
  "env \<Rightarrow> string \<Rightarrow> string \<Rightarrow> string \<Rightarrow> 'a db_scheme \<Rightarrow> (exn + extraction) \<times> 'a db_scheme" where
  "mark_live E extraction_id actor reason_code w =
     (case get_by ex_id extraction_id (extractions w) of
        None \<Rightarrow> (Inl (KeyError extraction_id), w)
      | Some x \<Rightarrow>
          if ex_entry_status x \<noteq> ''unknown'' then (Inl (InvalidEntryStatusTransition (ex_entry_status x)), w)
          else
            (let x' = x\<lparr>ex_entry_status := ''live''\<rparr>;
                 w = w\<lparr>extractions := set_by ex_id extraction_id (\<lambda>_. x') (extractions w)\<rparr>
             in (Inr x', audited E ((audit_call actor ''extraction.entry_status.mark_live'')
                   \<lparr>ac_subject := Some extraction_id, ac_purpose := Some reason_code\<rparr>) w)))"

section \<open>The workflow\<close>

definition claimable :: "(string \<Rightarrow> bool) \<Rightarrow> review_task \<Rightarrow> bool" where
  \<comment> \<open>\<open>locked\<close>: the rows other claims hold, which \<open>SKIP LOCKED\<close> passes over\<close>
  "claimable locked t \<longleftrightarrow> rv_assignee t = None \<and> rv_closed_at t = None \<and> \<not> locked (rv_id t)"

definition claim_next ::
  "env \<Rightarrow> (string \<Rightarrow> bool) \<Rightarrow> string \<Rightarrow> 'a db_scheme \<Rightarrow> review_task option \<times> 'a db_scheme" where
  "claim_next E locked actor w =
     (case first_by rv_opened_at (claimable locked) (review_tasks w) of
        None \<Rightarrow> (None, w)
      | Some task \<Rightarrow>
          (let ((s, hour_into_session), w) = touch_session E actor None w;
               task' = task\<lparr>rv_assignee := Some actor, rv_hour_into_session := Some hour_into_session\<rparr>
           in (Some task', w\<lparr>review_tasks := set_by rv_id (rv_id task) (\<lambda>_. task') (review_tasks w)\<rparr>)))"

definition with_bbox :: "(bbox option \<Rightarrow> string) \<Rightarrow> string \<Rightarrow> bbox option \<Rightarrow> string" where
  "with_bbox bbox_str signed bbox =
     signed @ (if CHR ''?'' \<in> set signed then ''&bbox='' else ''?bbox='') @ bbox_str bbox"

definition CROP_URL_TTL_SECONDS :: int where
  "CROP_URL_TTL_SECONDS = 120"

definition crop_url_for ::
  "env \<Rightarrow> (bbox option \<Rightarrow> string) \<Rightarrow> (string \<Rightarrow> int \<Rightarrow> string) \<Rightarrow> review_task \<Rightarrow> string \<Rightarrow> 'a db_scheme
    \<Rightarrow> (exn + string) \<times> 'a db_scheme"
where
  "crop_url_for E bbox_str store_sign_get task actor w =
     (case get_by ex_id (rv_extraction_id task) (extractions w) of
        None \<Rightarrow> (Inl (KeyError (rv_extraction_id task)), w)
      | Some x \<Rightarrow>
          (let uri = Option.bind (get_by pg_id (ex_page_id x) (pages w)) pg_storage_uri
           in if \<not> truthy uri then (Inl (ValueError (ex_page_id x)), w)
              else
                (let url = with_bbox bbox_str (store_sign_get (or_empty uri) CROP_URL_TTL_SECONDS) (ex_bbox x)
                 in (Inr url, audited E ((audit_call actor ''review.crop.delivered'')
                       \<lparr>ac_subject := Some (ex_id x), ac_purpose := Some ''review_crop''\<rparr>) w))))"

definition claimed_task :: "string \<Rightarrow> string \<Rightarrow> 'a db_scheme \<Rightarrow> exn + review_task" where
  \<comment> \<open>the guards \<open>submit\<close> and \<open>skip\<close> open with\<close>
  "claimed_task task_id actor w =
     (case get_by rv_id task_id (review_tasks w) of
        None \<Rightarrow> Inl (KeyError task_id)
      | Some task \<Rightarrow>
          if rv_closed_at task \<noteq> None then Inl (ReviewTaskNotClaimable task_id)
          else if rv_assignee task \<noteq> Some actor then Inl (NotTheClaimant task_id)
          else Inr task)"

definition sample_verdict ::
  "env \<Rightarrow> string \<Rightarrow> string option \<Rightarrow> string \<Rightarrow> 'a db_scheme \<Rightarrow> (exn + unit) \<times> 'a db_scheme" where
  "sample_verdict E task_id verdict actor w =
     (case scalar_one_or_none (filter (\<lambda>s. as_review_task_id s = Some task_id) (audit_samples w)) of
        Inl err \<Rightarrow> (Inl err, w)
      | Inr None \<Rightarrow> (Inr (), w)
      | Inr (Some sample) \<Rightarrow>
          (case verdict of
             None \<Rightarrow> (Inr (), w)
           | Some v \<Rightarrow>
               (case record_officer_verdict E sample v actor w of
                  (Inl err, w) \<Rightarrow> (Inl err, w) | (Inr _, w) \<Rightarrow> (Inr (), w))))"

definition submit ::
  "env \<Rightarrow> (bbox option \<Rightarrow> string) \<Rightarrow> string \<Rightarrow> string \<Rightarrow> string \<Rightarrow> string option \<Rightarrow> 'a db_scheme
    \<Rightarrow> (exn + submitted) \<times> 'a db_scheme"
where
  "submit E bbox_str task_id actor corrected_value verdict w =
     (case claimed_task task_id actor w of
        Inl err \<Rightarrow> (Inl err, w)
      | Inr task \<Rightarrow>
          (case get_by ex_id (rv_extraction_id task) (extractions w) of
             None \<Rightarrow> (Inl (AttributeError ''page_id''), w)
           | Some x \<Rightarrow>
               (case submit_correction E bbox_str x corrected_value actor (rv_source_stream task) w of
                  (Inl err, w) \<Rightarrow> (Inl err, w)
                | (Inr result, w) \<Rightarrow>
                    (case sample_verdict E task_id verdict actor w of
                       (Inl err, w) \<Rightarrow> (Inl err, w)
                     | (Inr _, w) \<Rightarrow>
                         (let (now, w) = read_clock E w;
                              w = w\<lparr>review_tasks := set_by rv_id task_id (rv_closed_at_update (\<lambda>_. Some now)) (review_tasks w)\<rparr>
                          in (Inr result, audited E ((audit_call actor ''review.task.submit'')
                                \<lparr>ac_subject := Some task_id, ac_purpose := Some ''review_submit''\<rparr>) w))))))"

definition skip ::
  "env \<Rightarrow> string \<Rightarrow> string \<Rightarrow> 'a db_scheme \<Rightarrow> (exn + unit) \<times> 'a db_scheme" where
  "skip E task_id actor w =
     (case claimed_task task_id actor w of
        Inl err \<Rightarrow> (Inl err, w)
      | Inr task \<Rightarrow>
          (let w = w\<lparr>review_tasks := set_by rv_id task_id (rv_assignee_update (\<lambda>_. None)) (review_tasks w)\<rparr>
           in (Inr (), audited E ((audit_call actor ''review.task.skip'')\<lparr>ac_subject := Some task_id\<rparr>) w)))"

section \<open>The public view\<close>

record review_task_public_view =
  rp_id :: string
  rp_extraction_id :: string
  rp_reason :: "string option"
  rp_assignee :: "string option"
  rp_opened_at :: string
  rp_closed_at :: "string option"
  rp_cluster_id :: "string option"
  rp_cluster_size :: "nat option"
  rp_hour_into_session :: "int option"

definition strip_review_task_internals :: "review_task \<Rightarrow> review_task_public_view" where
  "strip_review_task_internals t =
     \<lparr>rp_id = rv_id t, rp_extraction_id = rv_extraction_id t, rp_reason = rv_reason t,
      rp_assignee = rv_assignee t, rp_opened_at = isoformat (rv_opened_at t),
      rp_closed_at = map_option isoformat (rv_closed_at t), rp_cluster_id = rv_cluster_id t,
      rp_cluster_size = rv_cluster_size t, rp_hour_into_session = rv_hour_into_session t\<rparr>"

section \<open>The routes\<close>

definition review_status :: "exn \<Rightarrow> nat" where
  \<comment> \<open>the status of an exception \<open>submit\<close> or \<open>skip\<close> raises; 500 when the route does not catch it\<close>
  "review_status err =
     (case err of KeyError k \<Rightarrow> 404 | ReviewTaskNotClaimable k \<Rightarrow> 409 | NotTheClaimant k \<Rightarrow> 409 | _ \<Rightarrow> 500)"

definition route_result_of :: "('w \<Rightarrow> (exn + 'r) \<times> 'w) \<Rightarrow> (exn \<Rightarrow> nat) \<Rightarrow> 'w session \<Rightarrow> (exn + 'r) \<times> 'w session" where
  \<comment> \<open>a route that commits when the operation returns and answers with a status when it raises\<close>
  "route_result_of op status s =
     (case in_session op s of
        (Inl err, s) \<Rightarrow> (Inl (HTTPException (status err)), s)
      | (Inr r, s) \<Rightarrow> (Inr r, commit s))"

definition fetch_next ::
  "env \<Rightarrow> (string \<Rightarrow> bool) \<Rightarrow> string \<Rightarrow> 'a db_scheme session \<Rightarrow> review_task_public_view option \<times> 'a db_scheme session"
where
  "fetch_next E locked actor s =
     (let (t, s) = in_session (claim_next E locked actor) s
      in (map_option strip_review_task_internals t, commit s))"

definition fetch_crop ::
  "env \<Rightarrow> (bbox option \<Rightarrow> string) \<Rightarrow> (string \<Rightarrow> int \<Rightarrow> string) \<Rightarrow> string \<Rightarrow> string \<Rightarrow> 'a db_scheme session
    \<Rightarrow> (exn + string) \<times> 'a db_scheme session"
where
  "fetch_crop E bbox_str store_sign_get task_id actor s =
     (case get_by rv_id task_id (review_tasks (current s)) of
        None \<Rightarrow> (Inl (HTTPException 404), s)
      | Some task \<Rightarrow>
          if rv_assignee task \<noteq> Some actor then (Inl (HTTPException 403), s)
          else route_result_of (crop_url_for E bbox_str store_sign_get task actor) (\<lambda>_. 422) s)"

definition submit_review_task ::
  "env \<Rightarrow> (bbox option \<Rightarrow> string) \<Rightarrow> string \<Rightarrow> string \<Rightarrow> string \<Rightarrow> string option \<Rightarrow> 'a db_scheme session
    \<Rightarrow> (exn + submitted) \<times> 'a db_scheme session"
where
  "submit_review_task E bbox_str task_id actor corrected_value verdict s =
     route_result_of (submit E bbox_str task_id actor corrected_value verdict) review_status s"

definition skip_review_task ::
  "env \<Rightarrow> string \<Rightarrow> string \<Rightarrow> 'a db_scheme session \<Rightarrow> (exn + unit) \<times> 'a db_scheme session" where
  "skip_review_task E task_id actor s = route_result_of (skip E task_id actor) review_status s"

definition confirm_pending_correction_route ::
  "env \<Rightarrow> string \<Rightarrow> string \<Rightarrow> 'a db_scheme session \<Rightarrow> (exn + correction) \<times> 'a db_scheme session" where
  "confirm_pending_correction_route E pending_id actor s =
     (case in_session (confirm_pending_correction E pending_id actor) s of
        (Inl err, s) \<Rightarrow>
          (case err of
             KeyError k \<Rightarrow> (Inl (HTTPException 404), s)
           | PendingCorrectionAlreadyResolved k \<Rightarrow> (Inl (HTTPException 409), s)
           | SameActorCannotConfirm k \<Rightarrow> (Inl (HTTPException 403), commit s)
           | _ \<Rightarrow> (Inl (HTTPException 500), s))
      | (Inr c, s) \<Rightarrow> (Inr c, commit s))"

definition list_review_tasks :: "'a db_scheme \<Rightarrow> review_task_public_view list" where
  "list_review_tasks w =
     map strip_review_task_internals (rows_by rv_opened_at (\<lambda>t. rv_closed_at t = None) (review_tasks w))"

section \<open>What each operation changes\<close>

lemma touch_session_frame:
  assumes "touch_session E actor moment w = (r, w')"
  shows "review_tasks w' = review_tasks w \<and> extractions w' = extractions w \<and> pages w' = pages w \<and>
    corrections w' = corrections w \<and> pending_corrections w' = pending_corrections w \<and>
    audit_samples w' = audit_samples w \<and> audit_entries w' = audit_entries w \<and>
    uuids_drawn w \<le> uuids_drawn w' \<and> clock_reads w \<le> clock_reads w'"
  using assms
  by (auto simp: touch_session_def world_defs split: option.splits if_splits)

lemma claim_next_cases:
  assumes "claim_next E locked actor w = (r, w')"
  obtains (empty) "r = None" "w' = w" "\<forall>t\<in>set (review_tasks w). \<not> claimable locked t"
  | (claimed) t h where "first_by rv_opened_at (claimable locked) (review_tasks w) = Some t"
      "r = Some (t\<lparr>rv_assignee := Some actor, rv_hour_into_session := Some h\<rparr>)"
      "review_tasks w' = set_by rv_id (rv_id t) (\<lambda>_. t\<lparr>rv_assignee := Some actor, rv_hour_into_session := Some h\<rparr>) (review_tasks w)"
      "extractions w' = extractions w" "corrections w' = corrections w" "pages w' = pages w"
      "pending_corrections w' = pending_corrections w" "uuids_drawn w \<le> uuids_drawn w'"
proof (cases "first_by rv_opened_at (claimable locked) (review_tasks w)")
  case None
  then have "r = None" "w' = w" using assms by (simp_all add: claim_next_def)
  with None show ?thesis using empty first_by_None_iff [of rv_opened_at "claimable locked" "review_tasks w"] by blast
next
  case (Some t)
  obtain s h v where v: "touch_session E actor None w = ((s, h), v)" by (metis prod.exhaust_sel)
  from assms Some v show ?thesis
    using touch_session_frame [OF v] by (intro claimed) (auto simp: claim_next_def Let_def)
qed

lemma submit_correction_cases:
  assumes "submit_correction E bs x corrected actor stream w = (r, w')"
  obtains (err) e where "r = Inl e" "w' = w"
  | (held) p where "r = Inr (Held p)" "pending_corrections w' = pending_corrections w @ [p]"
      "corrections w' = corrections w" "pc_extraction_id p = ex_id x" "pc_corrected p = Some corrected"
      "pc_predicted p = Some (or_else (ex_canonical_value x) (ex_raw_value x))" "pc_state p = ''pending''"
      "pc_first_actor p = actor" "pc_id p = uuid4 E (uuids_drawn w)"
      "needs_maker_checker (ex_field_name x) (edit_distance (or_else (ex_canonical_value x) (ex_raw_value x)) corrected)"
      "review_tasks w' = review_tasks w" "extractions w' = extractions w" "audit_samples w' = audit_samples w"
      "uuids_drawn w < uuids_drawn w'"
  | (submitted) c where "r = Inr (Submitted c)" "corrections w' = corrections w @ [c]"
      "pending_corrections w' = pending_corrections w" "co_extraction_id c = ex_id x" "co_corrected c = Some corrected"
      "co_predicted c = Some (or_else (ex_canonical_value x) (ex_raw_value x))"
      "\<not> needs_maker_checker (ex_field_name x) (edit_distance (or_else (ex_canonical_value x) (ex_raw_value x)) corrected)"
      "review_tasks w' = review_tasks w" "extractions w' = extractions w" "audit_samples w' = audit_samples w"
      "uuids_drawn w < uuids_drawn w'"
proof (cases "source_page_digest_for (get_by pg_id (ex_page_id x) (pages w))")
  case (Inl e)
  with assms show ?thesis by (intro err [of e]) (simp_all add: submit_correction_def)
next
  case (Inr digest)
  let ?d = "edit_distance (or_else (ex_canonical_value x) (ex_raw_value x)) corrected"
  show ?thesis
  proof (cases "needs_maker_checker (ex_field_name x) ?d")
    case True
    with Inr assms show ?thesis by (intro held) (auto simp: submit_correction_def world_defs)
  next
    case False
    with Inr assms show ?thesis by (intro submitted) (auto simp: submit_correction_def world_defs)
  qed
qed

lemma sample_verdict_frame:
  assumes "sample_verdict E tid verdict actor w = (r, w')"
  shows "review_tasks w' = review_tasks w \<and> extractions w' = extractions w \<and> corrections w' = corrections w \<and>
    pending_corrections w' = pending_corrections w \<and> uuids_drawn w \<le> uuids_drawn w'"
  using assms
  by (auto simp: sample_verdict_def record_officer_verdict_def Let_def split: sum.splits option.splits if_splits)

lemma confirm_cases:
  assumes "confirm_pending_correction E pid actor w = (r, w')"
  obtains (err) e where "r = Inl e" "pending_corrections w' = pending_corrections w" "corrections w' = corrections w"
      "review_tasks w' = review_tasks w" "extractions w' = extractions w" "uuids_drawn w \<le> uuids_drawn w'"
  | (confirmed) p c p' where "get_by pc_id pid (pending_corrections w) = Some p" "pc_state p = ''pending''"
      "actor \<noteq> pc_first_actor p" "claimant_of (pc_extraction_id p) w \<noteq> Some actor"
      "r = Inr c" "corrections w' = corrections w @ [c]" "co_actor c = actor" "co_id c = uuid4 E (uuids_drawn w)"
      "co_extraction_id c = pc_extraction_id p" "co_predicted c = pc_predicted p" "co_corrected c = pc_corrected p"
      "pending_corrections w' = set_by pc_id pid (\<lambda>_. p') (pending_corrections w)"
      "pc_id p' = pc_id p" "pc_extraction_id p' = pc_extraction_id p" "pc_first_actor p' = pc_first_actor p"
      "pc_predicted p' = pc_predicted p" "pc_corrected p' = pc_corrected p" "pc_state p' = ''confirmed''"
      "pc_confirmed_by p' = Some actor" "pc_resulting_correction_id p' = Some (co_id c)"
      "review_tasks w' = review_tasks w" "extractions w' = extractions w" "uuids_drawn w \<le> uuids_drawn w'"
proof (cases "get_by pc_id pid (pending_corrections w)")
  case None
  with assms show ?thesis by (intro err [of "KeyError pid"]) (auto simp: confirm_pending_correction_def)
next
  case (Some p)
  consider (resolved) "pc_state p \<noteq> ''pending''"
    | (same) "pc_state p = ''pending''" "actor = pc_first_actor p \<or> claimant_of (pc_extraction_id p) w = Some actor"
    | (ok) "pc_state p = ''pending''" "actor \<noteq> pc_first_actor p" "claimant_of (pc_extraction_id p) w \<noteq> Some actor"
    by blast
  then show ?thesis
  proof cases
    case resolved
    with Some assms show ?thesis
      by (intro err [of "PendingCorrectionAlreadyResolved pid"]) (auto simp: confirm_pending_correction_def)
  next
    case same
    with Some assms show ?thesis
      by (intro err [of "SameActorCannotConfirm actor"]) (auto simp: confirm_pending_correction_def)
  next
    case ok
    let ?p' = "p\<lparr>pc_state := ''confirmed'', pc_confirmed_by := Some actor,
      pc_confirmed_at := Some (utcnow E (Suc (clock_reads w))), pc_resulting_correction_id := Some (uuid4 E (uuids_drawn w))\<rparr>"
    from ok Some assms show ?thesis
      by (intro confirmed [where p' = ?p']) (auto simp: confirm_pending_correction_def world_defs)
  qed
qed

lemma perform_outcome_keeps:
  assumes "perform_outcome E outcome x nc w = (r, w')"
  shows "corrections w' = corrections w \<and> pending_corrections w' = pending_corrections w"
  using assms
  by (auto simp: perform_outcome_def auto_accept_def audit_sample_outcome_def targeted_review_def
      open_conflict_placeholder_def outside_calibrated_regime_def new_review_task_def world_defs
      split: if_splits option.splits)

lemma route_keeps:
  assumes "route E xid nc env w = (r, w')"
  shows "corrections w' = corrections w \<and> pending_corrections w' = pending_corrections w \<and>
    extractions w' = extractions w \<and> uuids_drawn w \<le> uuids_drawn w'"
  using assms
proof (cases rule: route_cases)
  case (fresh x outcome r')
  obtain r'' v where p: "perform_outcome E outcome x nc w = (r'', v)" by fastforce
  from decide_eq [OF p, of env] fresh(5) obtain d v' where
    w': "w' = snd (mark_processed_if_terminal E (ex_page_id x) (audited E (route_call outcome (ex_id x)) v'))"
    and v': "v' = v\<lparr>uuids_drawn := Suc (uuids_drawn v), clock_reads := Suc (clock_reads v),
           decision_records := decision_records v @ [d]\<rparr>" by auto
  have "corrections w' = corrections v' \<and> pending_corrections w' = pending_corrections v'"
    unfolding w' using mark_processed_cases [of E "ex_page_id x" "audited E (route_call outcome (ex_id x)) v'"]
    by (auto simp: record_page_processed_def)
  with perform_outcome_keeps [OF p] v' show ?thesis
    using route_frame [OF assms] decide_tables [OF p fresh(5)] perform_outcome_frame [OF p] by auto
qed simp_all

lemma submit_cases:
  assumes "submit E bs tid actor v verdict w = (r, w')"
  obtains (refused) e where "r = Inl e" "w' = w"
  | (written) task x res w1 where "get_by rv_id tid (review_tasks w) = Some task" "rv_closed_at task = None"
      "rv_assignee task = Some actor" "get_by ex_id (rv_extraction_id task) (extractions w) = Some x"
      "submit_correction E bs x v actor (rv_source_stream task) w = (Inr res, w1)"
      "extractions w' = extractions w" "corrections w' = corrections w1" "pending_corrections w' = pending_corrections w1"
      "uuids_drawn w1 \<le> uuids_drawn w'"
      "r = Inr res \<Longrightarrow> \<exists>now. review_tasks w' = set_by rv_id tid (rv_closed_at_update (\<lambda>_. Some now)) (review_tasks w)"
      "\<And>y. r = Inr y \<Longrightarrow> y = res"
proof (cases "claimed_task tid actor w")
  case (Inl e)
  with assms show ?thesis by (intro refused [of e]) (auto simp: submit_def)
next
  case (Inr task)
  then have t: "get_by rv_id tid (review_tasks w) = Some task" "rv_closed_at task = None" "rv_assignee task = Some actor"
    by (auto simp: claimed_task_def split: option.splits if_splits)
  show ?thesis
  proof (cases "get_by ex_id (rv_extraction_id task) (extractions w)")
    case None
    with Inr assms show ?thesis by (intro refused [of "AttributeError ''page_id''"]) (auto simp: submit_def)
  next
    case (Some x)
    obtain rc w1 where c: "submit_correction E bs x v actor (rv_source_stream task) w = (rc, w1)" by fastforce
    show ?thesis
    proof (cases rc)
      case (Inl e)
      with c have "w1 = w" by (auto elim: submit_correction_cases)
      with Inl c Some Inr assms show ?thesis by (intro refused [of e]) (auto simp: submit_def)
    next
      case (Inr res)
      note c = c [unfolded Inr]
      then have f1: "review_tasks w1 = review_tasks w" "extractions w1 = extractions w" by (auto elim: submit_correction_cases)
      obtain rv w2 where v: "sample_verdict E tid verdict actor w1 = (rv, w2)" by fastforce
      note f2 = sample_verdict_frame [OF v]
      have "(\<exists>e. r = Inl e \<and> w' = w2) \<or> (r = Inr res \<and>
          w' = audited E ((audit_call actor ''review.task.submit'')\<lparr>ac_subject := Some tid, ac_purpose := Some ''review_submit''\<rparr>)
            (w2\<lparr>clock_reads := Suc (clock_reads w2),
                review_tasks := set_by rv_id tid (rv_closed_at_update (\<lambda>_. Some (utcnow E (clock_reads w2)))) (review_tasks w2)\<rparr>))"
        using assms c Some \<open>claimed_task tid actor w = Inr task\<close> v
        by (cases rv) (auto simp: submit_def world_defs)
      then show ?thesis
        using f1 f2 by (intro written [OF t Some c]) auto
    qed
  qed
qed

section \<open>The review as a state machine\<close>

text \<open>Any operation of an officer, or a decision that opens a task, in any order.\<close>

inductive review_step :: "env \<Rightarrow> 'a db_scheme \<Rightarrow> 'a db_scheme \<Rightarrow> bool" for E :: env where
  step_claim: "claim_next E locked actor w = (r, w') \<Longrightarrow> review_step E w w'"
| step_submit: "submit E bs tid actor v verdict w = (r', w') \<Longrightarrow> review_step E w w'"
| step_skip: "skip E tid actor w = (r'', w') \<Longrightarrow> review_step E w w'"
| step_confirm: "confirm_pending_correction E pid actor w = (r''', w') \<Longrightarrow> review_step E w w'"
| step_route: "route E xid nc env w = (r'''', w') \<Longrightarrow> review_step E w w'"

inductive review_run :: "env \<Rightarrow> 'a db_scheme \<Rightarrow> 'a db_scheme \<Rightarrow> bool" for E :: env where
  run_start: "review_run E w w"
| run_step: "review_run E w w' \<Longrightarrow> review_step E w' w'' \<Longrightarrow> review_run E w w''"

inductive_cases review_stepE: "review_step E w w'"

definition justified :: "'a db_scheme \<Rightarrow> correction \<Rightarrow> bool" where
  \<comment> \<open>the edit needs no second officer, or a second officer confirmed it\<close>
  "justified w c \<longleftrightarrow>
     (\<exists>x. get_by ex_id (co_extraction_id c) (extractions w) = Some x \<and>
        \<not> (ex_field_name x \<in> {''owner_name'', ''share_fraction'', ''area'', ''survey_number''} \<and>
           4 < edit_distance (or_empty (co_predicted c)) (or_empty (co_corrected c)))) \<or>
     (\<exists>p\<in>set (pending_corrections w). pc_state p = ''confirmed'' \<and> pc_resulting_correction_id p = Some (co_id c) \<and>
        pc_confirmed_by p = Some (co_actor c) \<and> pc_first_actor p \<noteq> co_actor c \<and>
        pc_extraction_id p = co_extraction_id c \<and> pc_corrected p = co_corrected c)"

definition maker_checker_inv :: "env \<Rightarrow> 'a db_scheme \<Rightarrow> bool" where
  "maker_checker_inv E w \<longleftrightarrow>
     distinct (map pc_id (pending_corrections w)) \<and>
     (\<forall>p\<in>set (pending_corrections w). \<exists>k<uuids_drawn w. pc_id p = uuid4 E k) \<and>
     (\<forall>c\<in>set (corrections w). justified w c)"

lemma maker_checker_inv_mono:
  assumes "maker_checker_inv E w" and "pending_corrections w' = pending_corrections w"
    and "corrections w' = corrections w" and "extractions w' = extractions w" and "uuids_drawn w \<le> uuids_drawn w'"
  shows "maker_checker_inv E w'"
proof -
  have "\<forall>p\<in>set (pending_corrections w). \<exists>k<uuids_drawn w'. pc_id p = uuid4 E k"
    using assms(1,5) unfolding maker_checker_inv_def by (meson order_less_le_trans)
  then show ?thesis using assms(1) by (simp add: maker_checker_inv_def justified_def assms(2-4))
qed

lemma justified_mono:
  "justified w c \<Longrightarrow> extractions w' = extractions w \<Longrightarrow>
   (\<And>p. p \<in> set (pending_corrections w) \<Longrightarrow> pc_state p = ''confirmed'' \<Longrightarrow> p \<in> set (pending_corrections w')) \<Longrightarrow>
   justified w' c"
  unfolding justified_def by auto

lemma submit_correction_inv:
  assumes inj: "inj (uuid4 E)" and inv: "maker_checker_inv E w"
    and x: "get_by ex_id xid (extractions w) = Some x"
    and c: "submit_correction E bs x v actor stream w = (Inr res, w')"
  shows "maker_checker_inv E w'"
  using c
proof (cases rule: submit_correction_cases)
  case (held p)
  have "pc_id p \<notin> pc_id ` set (pending_corrections w)"
  proof
    assume "pc_id p \<in> pc_id ` set (pending_corrections w)"
    then obtain k where "k < uuids_drawn w" "uuid4 E (uuids_drawn w) = uuid4 E k"
      using inv held(9) unfolding maker_checker_inv_def by (metis (no_types, lifting) imageE)
    with inj show False by (auto dest: injD)
  qed
  moreover have "\<forall>q\<in>set (pending_corrections w). \<exists>k<uuids_drawn w'. pc_id q = uuid4 E k"
    using inv held(14) unfolding maker_checker_inv_def by (meson order_less_trans)
  moreover have "justified w' c" if "c \<in> set (corrections w)" for c
  proof (rule justified_mono)
    show "justified w c" using inv that by (simp add: maker_checker_inv_def)
  qed (use held in auto)
  ultimately show ?thesis using inv held by (auto simp: maker_checker_inv_def)
next
  case (submitted corr)
  have "\<not> needs_maker_checker (ex_field_name x) (edit_distance (or_empty (co_predicted corr)) (or_empty (co_corrected corr)))"
    using submitted(5,6,7) by simp
  then have "justified w' corr"
    unfolding justified_def needs_maker_checker_def MAKER_CHECKER_FIELD_CLASSES_def MAKER_CHECKER_EDIT_DISTANCE_THRESHOLD_def
    using x submitted(4,9) get_by_SomeD [OF x] by auto
  moreover have "justified w' c" if "c \<in> set (corrections w)" for c
  proof (rule justified_mono)
    show "justified w c" using inv that by (simp add: maker_checker_inv_def)
  qed (use submitted in auto)
  moreover have "\<forall>q\<in>set (pending_corrections w). \<exists>k<uuids_drawn w'. pc_id q = uuid4 E k"
    using inv submitted(11) unfolding maker_checker_inv_def by (meson order_less_trans)
  ultimately show ?thesis using inv submitted(2,3) by (auto simp: maker_checker_inv_def)
qed simp

lemma confirm_inv:
  assumes inv: "maker_checker_inv E w" and c: "confirm_pending_correction E pid actor w = (r, w')"
  shows "maker_checker_inv E w'"
  using c
proof (cases rule: confirm_cases)
  case (err e)
  then show ?thesis by (intro maker_checker_inv_mono [OF inv])
next
  case (confirmed p corr p')
  note p = get_by_SomeD [OF confirmed(1)]
  have d: "distinct (map pc_id (pending_corrections w))" using inv by (simp add: maker_checker_inv_def)
  have only_p: "q = p" if "q \<in> set (pending_corrections w)" "pc_id q = pid" for q
    using d that p by (auto simp: distinct_map dest: inj_onD)
  have rows: "set (pending_corrections w') = insert p' (set (pending_corrections w) - {p})"
    unfolding confirmed(12) set_by_def using p only_p by auto
  have ids: "map pc_id (pending_corrections w') = map pc_id (pending_corrections w)"
    unfolding confirmed(12) set_by_def using confirmed(13) p by auto
  have "justified w' corr"
    unfolding justified_def rows using confirmed by auto
  moreover have "justified w' c" if "c \<in> set (corrections w)" for c
  proof (rule justified_mono)
    show "justified w c" using inv that by (simp add: maker_checker_inv_def)
    show "extractions w' = extractions w" by (rule confirmed(22))
    fix q assume q: "q \<in> set (pending_corrections w)" "pc_state q = ''confirmed''"
    then have "q \<noteq> p" using confirmed(2) by auto
    with q(1) show "q \<in> set (pending_corrections w')" unfolding rows by blast
  qed
  moreover have "\<forall>q\<in>set (pending_corrections w'). \<exists>k<uuids_drawn w'. pc_id q = uuid4 E k"
  proof
    fix q assume "q \<in> set (pending_corrections w')"
    then have "pc_id q \<in> set (map pc_id (pending_corrections w))" unfolding ids [symmetric] by simp
    then obtain k where "k < uuids_drawn w" "pc_id q = uuid4 E k"
      using inv unfolding maker_checker_inv_def by auto
    then show "\<exists>k<uuids_drawn w'. pc_id q = uuid4 E k"
      using confirmed(23) by (meson order_less_le_trans)
  qed
  ultimately show ?thesis using d confirmed(6) ids by (auto simp: maker_checker_inv_def)
qed

lemma review_step_inv:
  assumes inj: "inj (uuid4 E)" and step: "review_step E w w'" and inv: "maker_checker_inv E w"
  shows "maker_checker_inv E w'"
  using step
proof cases
  case (step_claim locked actor r)
  then show ?thesis
  proof (cases rule: claim_next_cases)
    case (claimed t h)
    then show ?thesis by (intro maker_checker_inv_mono [OF inv])
  qed (use inv in simp)
next
  case (step_submit bs tid actor v verdict r)
  then show ?thesis
  proof (cases rule: submit_cases)
    case (written task x res w1)
    have inv1: "maker_checker_inv E w1" by (rule submit_correction_inv [OF inj inv written(4,5)])
    have "extractions w1 = extractions w" using written(5) by (auto elim: submit_correction_cases)
    then show ?thesis by (intro maker_checker_inv_mono [OF inv1]) (simp_all add: written(6-9))
  qed (use inv in simp)
next
  case (step_skip tid actor r)
  then have "maker_checker_inv E w \<Longrightarrow> maker_checker_inv E w'"
    by (auto simp: skip_def Let_def split: sum.splits elim!: maker_checker_inv_mono)
  then show ?thesis using inv by blast
next
  case (step_confirm pid actor r)
  then show ?thesis by (rule confirm_inv [OF inv])
next
  case (step_route xid nc env r)
  then show ?thesis using route_keeps [OF step_route] by (intro maker_checker_inv_mono [OF inv]) auto
qed

section \<open>Indistinguishable streams\<close>

text \<open>What an officer can ask of the queue, and the answers. Each request has a session of its own.\<close>

datatype queue_request =
    Fetch_Next "string \<Rightarrow> bool" string
  | List_Open
  | Fetch_Crop string string
  | Skip_Task string string

datatype queue_answer =
    Next_Answer "review_task_public_view option"
  | List_Answer "review_task_public_view list"
  | Crop_Answer "exn + string"
  | Skip_Answer "exn + unit"

definition serve ::
  "env \<Rightarrow> (bbox option \<Rightarrow> string) \<Rightarrow> (string \<Rightarrow> int \<Rightarrow> string) \<Rightarrow> queue_request \<Rightarrow> 'a db_scheme
    \<Rightarrow> queue_answer \<times> 'a db_scheme"
where
  "serve E bbox_str store_sign_get req w =
     (case req of
        Fetch_Next locked actor \<Rightarrow>
          (case fetch_next E locked actor (begin_session w) of (t, s) \<Rightarrow> (Next_Answer t, current (rollback s)))
      | List_Open \<Rightarrow> (List_Answer (list_review_tasks w), w)
      | Fetch_Crop tid actor \<Rightarrow>
          (case fetch_crop E bbox_str store_sign_get tid actor (begin_session w) of
             (r, s) \<Rightarrow> (Crop_Answer r, current (rollback s)))
      | Skip_Task tid actor \<Rightarrow>
          (case skip_review_task E tid actor (begin_session w) of (r, s) \<Rightarrow> (Skip_Answer r, current (rollback s))))"

fun serve_all ::
  "env \<Rightarrow> (bbox option \<Rightarrow> string) \<Rightarrow> (string \<Rightarrow> int \<Rightarrow> string) \<Rightarrow> queue_request list \<Rightarrow> 'a db_scheme
    \<Rightarrow> queue_answer list \<times> 'a db_scheme"
where
  "serve_all E bs sg [] w = ([], w)"
| "serve_all E bs sg (req # reqs) w =
     (let (a, w) = serve E bs sg req w; (as, w) = serve_all E bs sg reqs w in (a # as, w))"

definition relabel :: "(review_task \<Rightarrow> string) \<Rightarrow> review_task \<Rightarrow> review_task" where
  "relabel f t = t\<lparr>rv_source_stream := f t\<rparr>"

definition relabelled :: "(review_task \<Rightarrow> string) \<Rightarrow> 'a db_scheme \<Rightarrow> 'a db_scheme" where
  "relabelled f w = w\<lparr>review_tasks := map (relabel f) (review_tasks w)\<rparr>"

abbreviation unstreamed :: "review_task \<Rightarrow> review_task" where
  "unstreamed \<equiv> relabel (\<lambda>_. [])"

lemma relabel_fields [simp]:
  "rv_id (relabel f t) = rv_id t" "rv_opened_at (relabel f t) = rv_opened_at t"
  "rv_extraction_id (relabel f t) = rv_extraction_id t"
  "rv_assignee (relabel f t) = rv_assignee t" "rv_closed_at (relabel f t) = rv_closed_at t"
  "strip_review_task_internals (relabel f t) = strip_review_task_internals t"
  "unstreamed (relabel f t) = unstreamed t"
  by (simp_all add: relabel_def strip_review_task_internals_def)

text \<open>Two databases that differ in the streams of their tasks alone.\<close>

definition streams_apart :: "'a db_scheme \<Rightarrow> 'a db_scheme \<Rightarrow> bool" where
  "streams_apart w v \<longleftrightarrow>
     map unstreamed (review_tasks v) = map unstreamed (review_tasks w) \<and> v\<lparr>review_tasks := []\<rparr> = w\<lparr>review_tasks := []\<rparr>"

lemma streams_apartE:
  assumes "streams_apart w v"
  obtains ts where "v = w\<lparr>review_tasks := ts\<rparr>" "map unstreamed ts = map unstreamed (review_tasks w)"
proof -
  have "v = (v\<lparr>review_tasks := []\<rparr>)\<lparr>review_tasks := review_tasks v\<rparr>" by simp
  also have "\<dots> = w\<lparr>review_tasks := review_tasks v\<rparr>" using assms by (simp add: streams_apart_def)
  finally show thesis using that assms by (simp add: streams_apart_def)
qed

lemma streams_apartI:
  "map unstreamed ts = map unstreamed us \<Longrightarrow> streams_apart (w\<lparr>review_tasks := us\<rparr>) (w\<lparr>review_tasks := ts\<rparr>)"
  by (simp add: streams_apart_def)

lemma streams_apart_rolled_back:
  assumes "streams_apart w v" and "streams_apart x y"
  shows "streams_apart (rolled_back w x) (rolled_back v y)"
proof -
  obtain ts us where "v = w\<lparr>review_tasks := ts\<rparr>" "y = x\<lparr>review_tasks := us\<rparr>"
    and "map unstreamed ts = map unstreamed (review_tasks w)"
    using assms by (metis streams_apartE)
  then show ?thesis by (simp add: rolled_back_def streams_apart_def)
qed

lemma streams_apart_relabelled: "streams_apart w (relabelled f w)"
  by (simp add: streams_apart_def relabelled_def)

lemma same_views:
  "map unstreamed ts = map unstreamed us \<Longrightarrow>
     map strip_review_task_internals ts = map strip_review_task_internals us"
proof -
  have "map strip_review_task_internals xs = map strip_review_task_internals (map unstreamed xs)" for xs by simp
  then show "map unstreamed ts = map unstreamed us \<Longrightarrow> ?thesis" by metis
qed

lemma same_view:
  assumes "unstreamed t = unstreamed u"
  shows "strip_review_task_internals t = strip_review_task_internals u" "rv_id t = rv_id u"
    "rv_extraction_id t = rv_extraction_id u" "rv_assignee t = rv_assignee u" "rv_closed_at t = rv_closed_at u"
  by (metis assms relabel_fields)+

lemma rows_unstreamed:
  assumes "map unstreamed ts = map unstreamed us" and P: "\<And>t. P (unstreamed t) = P t"
  shows "map unstreamed (rows_by rv_opened_at P ts) = map unstreamed (rows_by rv_opened_at P us)"
  using assms(1) rows_by_map [of rv_opened_at unstreamed P, OF _ P, symmetric] by simp

lemma first_unstreamed:
  assumes "map unstreamed ts = map unstreamed us" and P: "\<And>t. P (unstreamed t) = P t"
  shows "map_option unstreamed (first_by rv_opened_at P ts) = map_option unstreamed (first_by rv_opened_at P us)"
  using rows_unstreamed [where P = P, OF assms] by (auto simp: first_by_def split: list.splits)

lemma get_unstreamed:
  assumes "map unstreamed ts = map unstreamed us"
  shows "map_option unstreamed (get_by rv_id k ts) = map_option unstreamed (get_by rv_id k us)"
  using assms get_by_map [of rv_id unstreamed k, symmetric] by simp

lemma set_unstreamed:
  assumes "map unstreamed ts = map unstreamed us" and F: "\<And>t u. unstreamed t = unstreamed u \<Longrightarrow> unstreamed (F t) = unstreamed (G u)"
  shows "map unstreamed (set_by rv_id k F ts) = map unstreamed (set_by rv_id k G us)"
  using assms(1)
proof (induction ts arbitrary: us)
  case (Cons t ts)
  then obtain u vs where u: "us = u # vs" "unstreamed t = unstreamed u" "map unstreamed ts = map unstreamed vs"
    by (cases us) auto
  with Cons.IH [OF u(3)] F [OF u(2)] same_view(2) [OF u(2)] show ?case by simp
qed simp

lemma claimable_unstreamed: "claimable locked (unstreamed t) = claimable locked t"
  by (simp add: claimable_def)

subsection \<open>Each request keeps them apart and is answered alike\<close>

lemma touch_session_tasks:
  "touch_session E actor moment (w\<lparr>review_tasks := ts\<rparr>) =
     (let (r, v) = touch_session E actor moment w in (r, v\<lparr>review_tasks := ts\<rparr>))"
  by (simp add: touch_session_def world_defs split: option.split)

lemma claim_next_apart:
  assumes "streams_apart w v"
  shows "map_option unstreamed (fst (claim_next E locked actor v)) = map_option unstreamed (fst (claim_next E locked actor w)) \<and>
    streams_apart (snd (claim_next E locked actor w)) (snd (claim_next E locked actor v))"
proof -
  obtain ts where v: "v = w\<lparr>review_tasks := ts\<rparr>" and ts: "map unstreamed ts = map unstreamed (review_tasks w)"
    using assms by (rule streams_apartE)
  note first = first_unstreamed [where P = "claimable locked", OF ts claimable_unstreamed]
  show ?thesis
  proof (cases "first_by rv_opened_at (claimable locked) (review_tasks w)")
    case None
    with first assms show ?thesis by (simp add: claim_next_def v)
  next
    case (Some t)
    with first obtain u where u: "first_by rv_opened_at (claimable locked) ts = Some u" "unstreamed u = unstreamed t"
      by auto
    obtain s h x where x: "touch_session E actor None w = ((s, h), x)" by (metis prod.exhaust_sel)
    have xt: "review_tasks x = review_tasks w" using touch_session_frame [OF x] by blast
    let ?f = "\<lambda>t. t\<lparr>rv_assignee := Some actor, rv_hour_into_session := Some h\<rparr>"
    have f: "unstreamed (?f u) = unstreamed (?f t)"
      using u(2) by (cases t; cases u) (simp add: relabel_def)
    have "streams_apart (x\<lparr>review_tasks := set_by rv_id (rv_id t) (\<lambda>_. ?f t) (review_tasks w)\<rparr>)
        (x\<lparr>review_tasks := set_by rv_id (rv_id u) (\<lambda>_. ?f u) ts\<rparr>)"
      unfolding same_view(2) [OF u(2)] by (rule streams_apartI, rule set_unstreamed [OF ts f])
    with Some u x xt f show ?thesis by (simp add: claim_next_def v touch_session_tasks Let_def)
  qed
qed

lemma fetch_next_apart:
  assumes "streams_apart w v"
  shows "fst (fetch_next E locked actor (begin_session v)) = fst (fetch_next E locked actor (begin_session w)) \<and>
    streams_apart (current (rollback (snd (fetch_next E locked actor (begin_session w)))))
      (current (rollback (snd (fetch_next E locked actor (begin_session v)))))"
proof -
  obtain a x where w: "claim_next E locked actor w = (a, x)" by fastforce
  obtain b y where v: "claim_next E locked actor v = (b, y)" by fastforce
  have "map_option unstreamed b = map_option unstreamed a" "streams_apart x y"
    using claim_next_apart [OF assms, of E locked actor] by (simp_all add: w v)
  then have "map_option strip_review_task_internals b = map_option strip_review_task_internals a"
    by (cases a; cases b) (auto dest: same_view(1))
  with \<open>streams_apart x y\<close> show ?thesis by (simp add: fetch_next_def session_defs w v)
qed

lemma skip_apart:
  assumes "streams_apart w v"
  shows "fst (skip E tid actor v) = fst (skip E tid actor w) \<and> streams_apart (snd (skip E tid actor w)) (snd (skip E tid actor v))"
proof -
  obtain ts where v: "v = w\<lparr>review_tasks := ts\<rparr>" and ts: "map unstreamed ts = map unstreamed (review_tasks w)"
    using assms by (rule streams_apartE)
  have refused: "map_sum id unstreamed (claimed_task tid actor v) = map_sum id unstreamed (claimed_task tid actor w)"
  proof (cases "get_by rv_id tid (review_tasks w)")
    case None
    then have "get_by rv_id tid ts = None" using get_unstreamed [OF ts, of tid] by simp
    with None show ?thesis by (simp add: claimed_task_def v)
  next
    case (Some t)
    then obtain u where u: "get_by rv_id tid ts = Some u" "unstreamed u = unstreamed t"
      using get_unstreamed [OF ts, of tid] by auto
    with Some same_view(4,5) [OF u(2)] show ?thesis by (simp add: claimed_task_def v)
  qed
  show ?thesis
  proof (cases "claimed_task tid actor w")
    case (Inl e)
    with refused have "claimed_task tid actor v = Inl e" by (cases "claimed_task tid actor v") auto
    with Inl assms show ?thesis by (simp add: skip_def)
  next
    case (Inr t)
    with refused obtain u where u: "claimed_task tid actor v = Inr u" by (cases "claimed_task tid actor v") auto
    let ?F = "rv_assignee_update (\<lambda>_. None)"
    have F: "unstreamed (?F t) = unstreamed (?F u)" if "unstreamed t = unstreamed u" for t u
      using that by (cases t; cases u) (simp add: relabel_def)
    have "streams_apart (w\<lparr>review_tasks := set_by rv_id tid ?F (review_tasks w)\<rparr>) (w\<lparr>review_tasks := set_by rv_id tid ?F ts\<rparr>)"
      by (rule streams_apartI, rule set_unstreamed [OF ts F])
    then show ?thesis using Inr u
      by (simp add: skip_def Let_def v streams_apart_def audited_eq chain_append_def world_defs)
  qed
qed

lemma fetch_crop_apart:
  assumes "streams_apart w v"
  shows "fst (fetch_crop E bs sg tid actor (begin_session v)) = fst (fetch_crop E bs sg tid actor (begin_session w)) \<and>
    streams_apart (current (rollback (snd (fetch_crop E bs sg tid actor (begin_session w)))))
      (current (rollback (snd (fetch_crop E bs sg tid actor (begin_session v)))))"
proof -
  obtain ts where v: "v = w\<lparr>review_tasks := ts\<rparr>" and ts: "map unstreamed ts = map unstreamed (review_tasks w)"
    using assms by (rule streams_apartE)
  show ?thesis
  proof (cases "get_by rv_id tid (review_tasks w)")
    case None
    then have "get_by rv_id tid ts = None" using get_unstreamed [OF ts, of tid] by simp
    then show ?thesis using None assms by (simp add: fetch_crop_def session_defs v)
  next
    case (Some t)
    then obtain u where u: "get_by rv_id tid ts = Some u" "unstreamed u = unstreamed t"
      using get_unstreamed [OF ts, of tid] by auto
    note same = same_view(3,4) [OF u(2)]
    have ta: "streams_apart w (w\<lparr>review_tasks := ts\<rparr>)" using assms v by simp
    show ?thesis using Some u(1) same ta
      by (auto simp: fetch_crop_def route_result_of_def crop_url_for_def session_defs v Let_def streams_apart_def
          audited_eq chain_append_def world_defs split: option.splits)
  qed
qed

lemma serve_apart:
  assumes "streams_apart w v"
  shows "fst (serve E bs sg req v) = fst (serve E bs sg req w) \<and>
    streams_apart (snd (serve E bs sg req w)) (snd (serve E bs sg req v))"
proof (cases req)
  case (Fetch_Next locked actor)
  then show ?thesis using fetch_next_apart [OF assms] by (simp add: serve_def case_prod_beta)
next
  case List_Open
  have "map unstreamed (review_tasks v) = map unstreamed (review_tasks w)" using assms by (simp add: streams_apart_def)
  from same_views [OF rows_unstreamed [where P = "\<lambda>t. rv_closed_at t = None", OF this]] List_Open assms
  show ?thesis by (simp add: serve_def list_review_tasks_def)
next
  case (Fetch_Crop tid actor)
  then show ?thesis using fetch_crop_apart [OF assms] by (simp add: serve_def case_prod_beta)
next
  case (Skip_Task tid actor)
  obtain a x where w: "skip E tid actor w = (a, x)" by fastforce
  obtain b y where v: "skip E tid actor v = (b, y)" by fastforce
  have "b = a" "streams_apart x y" using skip_apart [OF assms, of E tid actor] by (simp_all add: w v)
  moreover have "streams_apart (rolled_back w x) (rolled_back v y)"
    by (rule streams_apart_rolled_back) fact+
  ultimately show ?thesis using Skip_Task
    by (cases a) (simp_all add: serve_def skip_review_task_def route_result_of_def session_defs w v)
qed

lemma serve_all_apart:
  "streams_apart w v \<Longrightarrow> fst (serve_all E bs sg reqs v) = fst (serve_all E bs sg reqs w) \<and>
    streams_apart (snd (serve_all E bs sg reqs w)) (snd (serve_all E bs sg reqs v))"
proof (induction reqs arbitrary: w v)
  case (Cons req reqs)
  note s = serve_apart [OF Cons.prems, of E bs sg req]
  then show ?case using Cons.IH [OF s [THEN conjunct2]] by (simp add: case_prod_beta Let_def)
qed simp

section \<open>Properties\<close>

text \<open>C5. Two officers for a large edit. From a database where it holds, over any sequence of claims,
  submissions, skips, confirmations and decisions, in any order and by any officers: every
  correction either is of a field outside the maker-checker classes, or changes at most four
  characters, or was confirmed by an officer other than the one who submitted it.\<close>

theorem maker_checker_run:
  assumes "inj (uuid4 E)" and "maker_checker_inv E w" and "review_run E w w'"
  shows "maker_checker_inv E w' \<and> (\<forall>c\<in>set (corrections w'). justified w' c)"
proof -
  from assms(3,2) have "maker_checker_inv E w'"
  proof (induction rule: review_run.induct)
    case (run_step w w' w'')
    then show ?case using review_step_inv [OF assms(1) run_step.hyps(2)] by blast
  qed
  then show ?thesis by (simp add: maker_checker_inv_def)
qed

definition demo_pending :: pending_correction where
  "demo_pending = \<lparr>pc_id = [], pc_extraction_id = ''x1'', pc_crop_uri = ''c'', pc_predicted = Some ''Ramesh'',
     pc_corrected = Some ''Suresh Kumar'', pc_edit_distance = 8, pc_field_class = ''owner_name'',
     pc_first_actor = ''operator1'', pc_model_version = None, pc_config_version = None, pc_stream = ''routed'',
     pc_source_page_digest = ''d'', pc_opened_at = 0, pc_state = ''pending'', pc_confirmed_by = None,
     pc_confirmed_at = None, pc_resulting_correction_id = None\<rparr>"

definition demo_review_db :: db where
  "demo_review_db = demo_decision_db\<lparr>pending_corrections := [demo_pending], uuids_drawn := 1\<rparr>"

theorem maker_checker_run_witness:
  "let w' = snd (confirm_pending_correction demo_env [] ''verifier1'' demo_review_db)
   in map co_actor (corrections w') = [''verifier1''] \<and> list_all (justified w') (corrections w')"
proof -
  let ?c = "confirm_pending_correction demo_env [] ''verifier1'' demo_review_db"
  have run: "review_run demo_env demo_review_db (snd ?c)"
    by (rule run_step [OF run_start step_confirm [OF prod.collapse [symmetric]]])
  have "maker_checker_inv demo_env demo_review_db"
    by (simp add: maker_checker_inv_def demo_review_db_def demo_decision_db_def empty_db_def demo_pending_def demo_env_def)
  from maker_checker_run [OF inj_demo_uuid this run]
  have "list_all (justified (snd ?c)) (corrections (snd ?c))" by (simp add: list_all_iff)
  moreover have "map co_actor (corrections (snd ?c)) = [''verifier1'']"
    by (simp add: confirm_pending_correction_def demo_review_db_def demo_decision_db_def empty_db_def demo_pending_def
        claimant_of_def world_defs)
  ultimately show ?thesis by (simp add: Let_def)
qed

text \<open>C27. The stream of a task cannot be told from the queue. Change the source stream of any tasks in any
  way: whatever officers then ask of the queue, in any order and with any concurrent claims (the
  next task, the list of the open ones, the crop of a task, giving a task back), each of them gets
  exactly the same answers, and the same session rows, audit entries and views of the tasks are left
  behind.\<close>

theorem streams_indistinguishable:
  "fst (serve_all E bbox_str store_sign_get requests (relabelled f w)) =
     fst (serve_all E bbox_str store_sign_get requests w) \<and>
   review_sessions (snd (serve_all E bbox_str store_sign_get requests (relabelled f w))) =
     review_sessions (snd (serve_all E bbox_str store_sign_get requests w)) \<and>
   audit_entries (snd (serve_all E bbox_str store_sign_get requests (relabelled f w))) =
     audit_entries (snd (serve_all E bbox_str store_sign_get requests w)) \<and>
   map strip_review_task_internals (review_tasks (snd (serve_all E bbox_str store_sign_get requests (relabelled f w)))) =
     map strip_review_task_internals (review_tasks (snd (serve_all E bbox_str store_sign_get requests w)))"
proof -
  let ?w = "snd (serve_all E bbox_str store_sign_get requests w)"
  have answers: "fst (serve_all E bbox_str store_sign_get requests (relabelled f w)) =
      fst (serve_all E bbox_str store_sign_get requests w)"
    and apart: "streams_apart ?w (snd (serve_all E bbox_str store_sign_get requests (relabelled f w)))"
    using serve_all_apart [OF streams_apart_relabelled] by blast+
  from apart obtain ts where "snd (serve_all E bbox_str store_sign_get requests (relabelled f w)) = ?w\<lparr>review_tasks := ts\<rparr>"
    and ts: "map unstreamed ts = map unstreamed (review_tasks ?w)" by (rule streams_apartE)
  with answers same_views [OF ts] show ?thesis by simp
qed

text \<open>A task is submitted once, by its claimant. \<open>submit\<close> and \<open>skip\<close> refuse, and change nothing,
  unless the task is open and claimed by the caller. When \<open>submit\<close> returns, exactly one row was
  added, a correction or a pending one, for the task's extraction with the officer's value, and
  the task is closed: submitting or skipping it again is refused whoever asks, and it is not
  claimed again.\<close>

lemma submit_once:
  assumes "submit E bs tid actor v verdict w = (Inr res, w')"
  shows "(\<exists>task. get_by rv_id tid (review_tasks w) = Some task \<and> rv_assignee task = Some actor \<and> rv_closed_at task = None \<and>
      ((\<exists>c. res = Submitted c \<and> corrections w' = corrections w @ [c] \<and> pending_corrections w' = pending_corrections w \<and>
         co_extraction_id c = rv_extraction_id task \<and> co_corrected c = Some v) \<or>
      (\<exists>p. res = Held p \<and> pending_corrections w' = pending_corrections w @ [p] \<and> corrections w' = corrections w \<and>
         pc_extraction_id p = rv_extraction_id task \<and> pc_corrected p = Some v))) \<and>
    submit E bs' tid actor' v' verdict' w' = (Inl (ReviewTaskNotClaimable tid), w') \<and>
    skip E tid actor' w' = (Inl (ReviewTaskNotClaimable tid), w') \<and>
    (\<forall>t\<in>set (review_tasks w'). rv_id t = tid \<longrightarrow> \<not> claimable locked t)"
  using assms
proof (cases rule: submit_cases)
  case (written task x res' w1)
  have res: "res' = res" using written(11) by simp
  obtain now where rows: "review_tasks w' = set_by rv_id tid (rv_closed_at_update (\<lambda>_. Some now)) (review_tasks w)"
    using written(10) [OF res [symmetric, THEN arg_cong]] by blast
  have "get_by rv_id tid (review_tasks w') = Some (task\<lparr>rv_closed_at := Some now\<rparr>)"
    using written(1) by (simp add: rows get_by_set_by)
  then have refused: "claimed_task tid actor' w' = Inl (ReviewTaskNotClaimable tid)"
    by (simp add: claimed_task_def)
  have "ex_id x = rv_extraction_id task" using get_by_SomeD [OF written(4)] by simp
  with written(5) have new: "(\<exists>c. res = Submitted c \<and> corrections w' = corrections w @ [c] \<and> pending_corrections w' = pending_corrections w \<and>
         co_extraction_id c = rv_extraction_id task \<and> co_corrected c = Some v) \<or>
      (\<exists>p. res = Held p \<and> pending_corrections w' = pending_corrections w @ [p] \<and> corrections w' = corrections w \<and>
         pc_extraction_id p = rv_extraction_id task \<and> pc_corrected p = Some v)"
    unfolding res by (cases rule: submit_correction_cases) (simp_all add: written(7,8))
  have "\<forall>t\<in>set (review_tasks w'). rv_id t = tid \<longrightarrow> \<not> claimable locked t"
  proof (intro ballI impI)
    fix t assume "t \<in> set (review_tasks w')" "rv_id t = tid"
    then obtain u where "t = u\<lparr>rv_closed_at := Some now\<rparr>"
      unfolding rows set_by_def by (auto split: if_splits)
    then show "\<not> claimable locked t" by (simp add: claimable_def)
  qed
  moreover have "submit E bs' tid actor' v' verdict' w' = (Inl (ReviewTaskNotClaimable tid), w')"
    "skip E tid actor' w' = (Inl (ReviewTaskNotClaimable tid), w')"
    by (simp_all add: submit_def skip_def refused)
  moreover from new written(1-3) have "\<exists>task. get_by rv_id tid (review_tasks w) = Some task \<and> rv_assignee task = Some actor \<and>
      rv_closed_at task = None \<and>
      ((\<exists>c. res = Submitted c \<and> corrections w' = corrections w @ [c] \<and> pending_corrections w' = pending_corrections w \<and>
         co_extraction_id c = rv_extraction_id task \<and> co_corrected c = Some v) \<or>
      (\<exists>p. res = Held p \<and> pending_corrections w' = pending_corrections w @ [p] \<and> corrections w' = corrections w \<and>
         pc_extraction_id p = rv_extraction_id task \<and> pc_corrected p = Some v))"
    by blast
  ultimately show ?thesis by (simp only: simp_thms)
qed simp

definition demo_task :: review_task where
  "demo_task = \<lparr>rv_id = ''t1'', rv_extraction_id = ''x1'', rv_reason = None, rv_source_stream = ''audit'',
     rv_assignee = Some ''operator1'', rv_opened_at = 0, rv_closed_at = None, rv_cluster_id = None,
     rv_cluster_size = None, rv_hour_into_session = Some 0\<rparr>"

definition demo_submit_db :: db where
  "demo_submit_db = demo_decision_db\<lparr>review_tasks := [demo_task],
     pages := [\<lparr>pg_id = ''page'', pg_document_id = ''doc'', pg_index = 0, pg_storage_uri = Some ''sha256/ab/cd/abcd'',
       pg_index_position = None, pg_quality_score = None, pg_legibility_band = None, pg_script = None,
       pg_language = None, pg_doc_type = None, pg_page_role = None, pg_writer_cluster_id = None,
       pg_novelty_score = None, pg_route = None\<rparr>]\<rparr>"

lemma submit_once_example:
  "\<exists>res w'. submit demo_env (\<lambda>_. ''None'') ''t1'' ''operator1'' ''3'' None demo_submit_db = (Inr res, w') \<and>
     skip demo_env ''t1'' ''operator1'' w' = (Inl (ReviewTaskNotClaimable ''t1''), w')"
proof -
  have "\<exists>res w'. submit demo_env (\<lambda>_. ''None'') ''t1'' ''operator1'' ''3'' None demo_submit_db = (Inr res, w')"
    by (simp add: submit_def claimed_task_def demo_submit_db_def demo_task_def submit_correction_def
        source_page_digest_for_def sample_verdict_def world_defs)
  then obtain res w' where s: "submit demo_env (\<lambda>_. ''None'') ''t1'' ''operator1'' ''3'' None demo_submit_db = (Inr res, w')"
    by blast
  from submit_once [OF this] s show ?thesis by blast
qed

theorem streams_indistinguishable_witness:
  "fst (serve_all demo_env (\<lambda>_. ''None'') (\<lambda>k n. k) [Skip_Task ''t1'' ''operator1'', Fetch_Next (\<lambda>_. False) ''verifier1'']
       (relabelled (\<lambda>_. ''routed'') demo_submit_db)) =
     fst (serve_all demo_env (\<lambda>_. ''None'') (\<lambda>k n. k) [Skip_Task ''t1'' ''operator1'', Fetch_Next (\<lambda>_. False) ''verifier1'']
       demo_submit_db) \<and>
   map rv_source_stream (review_tasks (relabelled (\<lambda>_. ''routed'') demo_submit_db)) \<noteq>
     map rv_source_stream (review_tasks demo_submit_db)"
  using streams_indistinguishable [of demo_env "\<lambda>_. ''None''" "\<lambda>k n. k"
      "[Skip_Task ''t1'' ''operator1'', Fetch_Next (\<lambda>_. False) ''verifier1'']" "\<lambda>_. ''routed''" demo_submit_db]
  by (simp add: relabelled_def relabel_def demo_submit_db_def demo_task_def)

end
