(* ===== verification/Publication.thy ===== *)
theory Publication
  imports Decision
begin

text \<open>
  Completeness of a volume (\<open>backend/domain/completeness.py\<close>), the conflict register
  (\<open>conflict_register.py\<close>), the gate that both block publication through
  (\<open>publication_gate.py\<close>), the publication of a new version of a record (\<open>publication.py\<close>) and
  the intake of defects from a counterparty (\<open>publication_adapters.py\<close>). A check of the gate is
  a function of the database; the exception of a blocked publication carries every reason.
\<close>

section \<open>Completeness\<close>

definition record_index_position :: "string \<Rightarrow> int \<Rightarrow> 'a db_scheme \<Rightarrow> (exn + unit) \<times> 'a db_scheme" where
  "record_index_position page_id index_position w =
     (case get_by pg_id page_id (pages w) of
        None \<Rightarrow> (Inl (KeyError page_id), w)
      | Some page \<Rightarrow>
          (Inr (), w\<lparr>pages := set_by pg_id page_id (pg_index_position_update (\<lambda>_. Some index_position)) (pages w)\<rparr>))"

definition observed_positions :: "string \<Rightarrow> 'a db_scheme \<Rightarrow> int list" where
  "observed_positions batch_id w =
     sort (List.map_filter pg_index_position
       (filter (\<lambda>p. case get_by sd_id (pg_document_id p) (documents w) of
                      None \<Rightarrow> False | Some d \<Rightarrow> sd_batch_id d = batch_id) (pages w)))"

definition expected_and_gaps :: "int list \<Rightarrow> int list \<times> int list" where
  "expected_and_gaps observed =
     (if observed \<noteq> []
      then (let expected = [hd observed..last observed]
            in (expected, filter (\<lambda>i. i \<notin> set observed) expected))
      else ([], []))"

definition rebuild :: "env \<Rightarrow> string \<Rightarrow> 'a db_scheme \<Rightarrow> volume_index \<times> 'a db_scheme" where
  "rebuild E batch_id w =
     (let observed = observed_positions batch_id w;
          (expected, gaps) = expected_and_gaps observed;
          (vi, w) =
            (case get_by vi_batch_id batch_id (volume_indexes w) of
               Some vi \<Rightarrow> (vi, w)
             | None \<Rightarrow>
                 (let (vid, w) = draw_uuid E w;
                      vi = \<lparr>vi_id = vid, vi_batch_id = batch_id, vi_expected_sequence = [],
                            vi_observed_sequence = [], vi_gaps = [], vi_state = ''pending''\<rparr>
                  in (vi, w\<lparr>volume_indexes := volume_indexes w @ [vi]\<rparr>)));
          new_state = (if gaps \<noteq> [] then (if vi_state vi \<noteq> ''acknowledged'' then ''gap_detected'' else vi_state vi)
                       else if expected \<noteq> [] then ''complete'' else ''pending'');
          vi' = vi\<lparr>vi_expected_sequence := expected, vi_observed_sequence := observed, vi_gaps := gaps,
                   vi_state := new_state\<rparr>;
          w = w\<lparr>volume_indexes := set_by vi_id (vi_id vi) (\<lambda>_. vi') (volume_indexes w)\<rparr>;
          w = (if gaps \<noteq> [] \<and> vi_state vi \<noteq> ''acknowledged''
               then audited E ((audit_call ''system:completeness'' ''volume_index.gap_detected'')
                      \<lparr>ac_subject := Some batch_id, ac_purpose := Some ''FR-ING-08''\<rparr>) w
               else w)
      in (vi', w))"

definition acknowledge_gap ::
  "env \<Rightarrow> string \<Rightarrow> string \<Rightarrow> string option \<Rightarrow> 'a db_scheme \<Rightarrow> (exn + volume_index) \<times> 'a db_scheme" where
  "acknowledge_gap E batch_id actor reason_code w =
     (case get_by vi_batch_id batch_id (volume_indexes w) of
        None \<Rightarrow> (Inl (KeyError batch_id), w)
      | Some vi \<Rightarrow>
          if vi_state vi \<noteq> ''gap_detected'' then (Inl (ValueError (vi_state vi)), w)
          else
            (let vi' = vi\<lparr>vi_state := ''acknowledged''\<rparr>;
                 w = w\<lparr>volume_indexes := set_by vi_id (vi_id vi) (\<lambda>_. vi') (volume_indexes w)\<rparr>
             in (Inr vi', audited E ((audit_call actor ''volume_index.gap_acknowledged'')
                   \<lparr>ac_subject := Some batch_id, ac_purpose := reason_code\<rparr>) w)))"

definition current_alert :: "string \<Rightarrow> 'a db_scheme \<Rightarrow> int list option" where
  "current_alert batch_id w =
     (case get_by vi_batch_id batch_id (volume_indexes w) of
        None \<Rightarrow> None
      | Some vi \<Rightarrow> if vi_gaps vi = [] \<or> vi_state vi = ''acknowledged'' then None else Some (vi_gaps vi))"

section \<open>The gate\<close>

datatype block_reason =
    Volume_Gap string "int list"
  | Open_Conflict string "string list" "string list"

definition evaluate :: "('a db_scheme \<Rightarrow> block_reason option) list \<Rightarrow> 'a db_scheme \<Rightarrow> bool \<times> block_reason list" where
  "evaluate checks w = (let reasons = List.map_filter (\<lambda>check. check w) checks in (reasons \<noteq> [], reasons))"

definition attempt_publish ::
  "('a db_scheme \<Rightarrow> block_reason option) list \<Rightarrow> 'a db_scheme \<Rightarrow> block_reason list + unit" where
  "attempt_publish checks w =
     (let (blocked, reasons) = evaluate checks w in if blocked then Inl reasons else Inr ())"

definition check_volume_completeness :: "string \<Rightarrow> 'a db_scheme \<Rightarrow> block_reason option" where
  "check_volume_completeness batch_id w = map_option (Volume_Gap batch_id) (current_alert batch_id w)"

definition BLOCKING_CONFLICT_STATES :: "string list" where
  "BLOCKING_CONFLICT_STATES = [''open'', ''under_enquiry'', ''referred'']"

definition open_conflicts_of :: "string \<Rightarrow> 'a db_scheme \<Rightarrow> conflict list" where
  "open_conflicts_of record_id w =
     filter (\<lambda>c. record_id \<in> set (cf_records c) \<and> cf_state c \<in> set BLOCKING_CONFLICT_STATES) (conflicts w)"

definition check_open_conflict :: "string \<Rightarrow> 'a db_scheme \<Rightarrow> block_reason option" where
  "check_open_conflict record_id w =
     (let open_conflicts = open_conflicts_of record_id w
      in if open_conflicts = [] then None
         else Some (Open_Conflict record_id (map cf_id open_conflicts) (map cf_rule open_conflicts)))"

section \<open>The conflict register\<close>

definition VALID_CONFLICT_STATES :: "string list" where
  "VALID_CONFLICT_STATES = [''open'', ''under_enquiry'', ''resolved'', ''referred'']"

definition open_conflict ::
  "env \<Rightarrow> string list \<Rightarrow> string \<Rightarrow> (string \<times> string) list \<Rightarrow> string \<Rightarrow> 'a db_scheme \<Rightarrow> conflict \<times> 'a db_scheme" where
  "open_conflict E recs rule evidence origin w =
     (let (cid, w) = draw_uuid E w;
          (t, w) = read_clock E w;
          conflict = \<lparr>cf_id = cid, cf_records = recs, cf_rule = rule, cf_evidence = evidence, cf_origin = origin,
                      cf_state = ''open'', cf_assignee = None, cf_opened_at = t\<rparr>;
          w = w\<lparr>conflicts := conflicts w @ [conflict]\<rparr>
      in (conflict, audited E ((audit_call (''system:'' @ origin) ''conflict.opened'')
            \<lparr>ac_subject := Some cid, ac_purpose := Some rule\<rparr>) w))"

definition is_publish_blocked :: "string \<Rightarrow> 'a db_scheme \<Rightarrow> bool" where
  "is_publish_blocked record_id w = (check_open_conflict record_id w \<noteq> None)"

definition assign ::
  "env \<Rightarrow> string \<Rightarrow> string \<Rightarrow> string \<Rightarrow> 'a db_scheme \<Rightarrow> (exn + conflict) \<times> 'a db_scheme" where
  "assign E conflict_id assignee actor w =
     (case get_by cf_id conflict_id (conflicts w) of
        None \<Rightarrow> (Inl (KeyError conflict_id), w)
      | Some c \<Rightarrow>
          (let c' = c\<lparr>cf_assignee := Some assignee\<rparr>;
               w = w\<lparr>conflicts := set_by cf_id conflict_id (\<lambda>_. c') (conflicts w)\<rparr>
           in (Inr c', audited E ((audit_call actor ''conflict.assigned'')
                 \<lparr>ac_subject := Some conflict_id, ac_purpose := Some assignee\<rparr>) w)))"

definition transition_conflict ::
  "env \<Rightarrow> string \<Rightarrow> string \<Rightarrow> string \<Rightarrow> string option \<Rightarrow> 'a db_scheme \<Rightarrow> (exn + conflict) \<times> 'a db_scheme" where
  "transition_conflict E conflict_id new_state actor resolution w =
     (if new_state \<notin> set VALID_CONFLICT_STATES then (Inl (InvalidConflictTransition new_state), w)
      else case get_by cf_id conflict_id (conflicts w) of
             None \<Rightarrow> (Inl (KeyError conflict_id), w)
           | Some c \<Rightarrow>
               if cf_state c = new_state then (Inl (InvalidConflictTransition conflict_id), w)
               else if new_state = ''resolved'' \<and> \<not> truthy resolution
                 then (Inl (InvalidConflictTransition ''a resolution reason is required''), w)
               else
                 (let c' = c\<lparr>cf_state := new_state\<rparr>;
                      w = w\<lparr>conflicts := set_by cf_id conflict_id (\<lambda>_. c') (conflicts w)\<rparr>
                  in (Inr c', audited E ((audit_call actor (''conflict.transitioned.'' @ new_state))
                        \<lparr>ac_subject := Some conflict_id, ac_purpose := resolution\<rparr>) w)))"

definition list_conflicts :: "string option \<Rightarrow> 'a db_scheme \<Rightarrow> conflict list" where
  "list_conflicts state w =
     rows_by cf_opened_at (\<lambda>c. case state of None \<Rightarrow> True | Some s \<Rightarrow> cf_state c = s) (conflicts w)"

definition list_aged :: "env \<Rightarrow> int \<Rightarrow> 'a db_scheme \<Rightarrow> conflict list \<times> 'a db_scheme" where
  "list_aged E older_than w =
     (let (now, w) = read_clock E w; cutoff = now - older_than
      in (rows_by cf_opened_at (\<lambda>c. cf_state c \<in> set BLOCKING_CONFLICT_STATES \<and> cf_opened_at c < cutoff) (conflicts w), w))"

definition report_defect ::
  "env \<Rightarrow> string \<Rightarrow> string \<Rightarrow> string \<Rightarrow> (string \<times> string) list \<Rightarrow> 'a db_scheme \<Rightarrow> conflict \<times> 'a db_scheme" where
  \<comment> \<open>of the adapter \<open>name\<close>\<close>
  "report_defect E name record_id rule evidence w =
     open_conflict E [record_id] rule
       (filter (\<lambda>(k, v). k \<noteq> ''reported_by'') evidence @ [(''reported_by'', name)]) ''downstream'' w"

section \<open>Publishing\<close>

datatype publish_error = Publish_Blocked "block_reason list" | Publish_Error exn

definition latest_version :: "string \<Rightarrow> 'a db_scheme \<Rightarrow> published_record option" where
  "latest_version record_group_id w = latest_by re_version (\<lambda>r. re_record_group_id r = record_group_id) (records w)"

definition inherit :: "'x option \<Rightarrow> (published_record \<Rightarrow> 'x option) \<Rightarrow> published_record option \<Rightarrow> 'x option" where
  \<comment> \<open>\<open>x if x is not None else (previous.x if previous else None)\<close>\<close>
  "inherit x sel previous = (case x of Some v \<Rightarrow> Some v | None \<Rightarrow> Option.bind previous sel)"

definition batch_district :: "string option \<Rightarrow> 'a db_scheme \<Rightarrow> string option" where
  "batch_district batch_id w =
     (case batch_id of None \<Rightarrow> None | Some b \<Rightarrow> map_option ba_district (get_by ba_id b (batches w)))"

definition publish_checks ::
  "string option \<Rightarrow> published_record option \<Rightarrow> ('a db_scheme \<Rightarrow> block_reason option) list" where
  "publish_checks batch_id previous =
     (case batch_id of None \<Rightarrow> [] | Some b \<Rightarrow> [check_volume_completeness b])
   @ (case previous of None \<Rightarrow> [] | Some p \<Rightarrow> [check_open_conflict (re_id p)])"

definition publish_new_version ::
  "env \<Rightarrow> string option \<Rightarrow> string option \<Rightarrow> string \<Rightarrow> string option \<Rightarrow> string option
    \<Rightarrow> (string \<times> string) list option \<Rightarrow> 'a db_scheme \<Rightarrow> (publish_error + published_record) \<times> 'a db_scheme"
where
  "publish_new_version E record_group_id batch_id actor parcel_ref ulpin lgd_codes w =
     (let previous = (if truthy record_group_id then latest_version (or_empty record_group_id) w else None)
      in case attempt_publish (publish_checks batch_id previous) w of
           Inl reasons \<Rightarrow> (Inl (Publish_Blocked reasons), w)
         | Inr _ \<Rightarrow>
             (let next_version = (case previous of None \<Rightarrow> 1 | Some p \<Rightarrow> re_version p + 1);
                  (t, w) = read_clock E w;
                  (rid, w) = draw_uuid E w;
                  (gid, w) = (case record_group_id of Some g \<Rightarrow> (g, w) | None \<Rightarrow> draw_uuid E w);
                  new_rec = \<lparr>re_id = rid, re_record_group_id = gid, re_version = next_version,
                             re_parcel_ref = inherit parcel_ref re_parcel_ref previous,
                             re_ulpin = inherit ulpin re_ulpin previous,
                             re_lgd_codes = inherit lgd_codes re_lgd_codes previous,
                             re_status = Some ''published'', re_published_at = Some t\<rparr>
              in if (gid, next_version) \<in> (\<lambda>r. (re_record_group_id r, re_version r)) ` set (records w)
                 then (Inl (Publish_Error (IntegrityError ''uq_record_group_version'')), w)
                 else
                   (let w = w\<lparr>records := records w @ [new_rec]\<rparr>;
                        district = batch_district batch_id w
                    in (Inr new_rec, record_publish E actor gid next_version district w))))"

section \<open>Lemmas\<close>

lemma get_by_set_by_new:
  assumes "get_by key k rows = Some r" and "key r' = k"
  shows "get_by key k (set_by idf (idf r) (\<lambda>_. r') rows) = Some r'"
  using assms by (induction rows) (auto split: if_splits)

lemma expected_and_gaps_props:
  assumes "sorted observed" and "expected_and_gaps observed = (expected, gaps)"
  shows "set gaps = {i. \<exists>lo\<in>set observed. \<exists>hi\<in>set observed. lo \<le> i \<and> i \<le> hi} - set observed"
    and "sorted_wrt (<) gaps" and "expected = [] \<longleftrightarrow> observed = []"
proof -
  have le: "hd observed \<le> x" "x \<le> last observed" if "x \<in> set observed" for x
  proof -
    show "hd observed \<le> x" using assms(1) that by (cases observed) auto
    show "x \<le> last observed" using assms(1) that by (cases observed rule: rev_cases) (auto simp: sorted_append)
  qed
  have ends: "hd observed \<in> set observed" "last observed \<in> set observed" if "observed \<noteq> []"
    using that by simp_all
  show "set gaps = {i. \<exists>lo\<in>set observed. \<exists>hi\<in>set observed. lo \<le> i \<and> i \<le> hi} - set observed"
  proof (cases "observed = []")
    case True
    then show ?thesis using assms(2) by (simp add: expected_and_gaps_def)
  next
    case False
    then have "set gaps = {i \<in> {hd observed..last observed}. i \<notin> set observed}"
      using assms(2) by (auto simp: expected_and_gaps_def Let_def)
    also have "{hd observed..last observed} = {i. \<exists>lo\<in>set observed. \<exists>hi\<in>set observed. lo \<le> i \<and> i \<le> hi}"
    proof (rule set_eqI, rule iffI)
      fix i assume "i \<in> {hd observed..last observed}"
      then show "i \<in> {i. \<exists>lo\<in>set observed. \<exists>hi\<in>set observed. lo \<le> i \<and> i \<le> hi}"
        using ends [OF False] unfolding mem_Collect_eq atLeastAtMost_iff by blast
    next
      fix i assume "i \<in> {i. \<exists>lo\<in>set observed. \<exists>hi\<in>set observed. lo \<le> i \<and> i \<le> hi}"
      then obtain lo hi where "lo \<in> set observed" "hi \<in> set observed" "lo \<le> i" "i \<le> hi" by blast
      then show "i \<in> {hd observed..last observed}" using le [of lo] le [of hi] by simp
    qed
    finally show ?thesis by auto
  qed
  show "sorted_wrt (<) gaps"
    using assms(2) by (auto simp: expected_and_gaps_def Let_def sorted_wrt_filter split: if_splits)
  show "expected = [] \<longleftrightarrow> observed = []"
    using assms(2) le(1) [of "last observed"] by (auto simp: expected_and_gaps_def Let_def split: if_splits)
qed

text \<open>The row \<open>rebuild\<close> works on: the batch's, or a new one.\<close>

definition index_row :: "env \<Rightarrow> string \<Rightarrow> 'a db_scheme \<Rightarrow> volume_index" where
  "index_row E batch_id w =
     (case get_by vi_batch_id batch_id (volume_indexes w) of
        Some vi \<Rightarrow> vi
      | None \<Rightarrow> \<lparr>vi_id = uuid4 E (uuids_drawn w), vi_batch_id = batch_id, vi_expected_sequence = [],
                 vi_observed_sequence = [], vi_gaps = [], vi_state = ''pending''\<rparr>)"

lemma index_row_batch: "vi_batch_id (index_row E b w) = b"
  by (auto simp: index_row_def split: option.split dest: get_by_SomeD)

lemma rebuild_effect:
  assumes "rebuild E b w = (vi, w')" and "expected_and_gaps (observed_positions b w) = (expected, gaps)"
  shows "vi = (index_row E b w)\<lparr>vi_expected_sequence := expected, vi_observed_sequence := observed_positions b w,
      vi_gaps := gaps, vi_state := (if gaps \<noteq> [] then (if vi_state (index_row E b w) \<noteq> ''acknowledged''
        then ''gap_detected'' else ''acknowledged'') else if expected \<noteq> [] then ''complete'' else ''pending'')\<rparr>"
    and "get_by vi_batch_id b (volume_indexes w') = Some vi"
    and "pages w' = pages w" "documents w' = documents w" "records w' = records w" "conflicts w' = conflicts w"
proof -
  show *: "vi = (index_row E b w)\<lparr>vi_expected_sequence := expected, vi_observed_sequence := observed_positions b w,
      vi_gaps := gaps, vi_state := (if gaps \<noteq> [] then (if vi_state (index_row E b w) \<noteq> ''acknowledged''
        then ''gap_detected'' else ''acknowledged'') else if expected \<noteq> [] then ''complete'' else ''pending'')\<rparr>"
    using assms by (auto simp: rebuild_def index_row_def world_defs split: option.splits)
  let ?rows = "(case get_by vi_batch_id b (volume_indexes w) of Some vi \<Rightarrow> volume_indexes w
     | None \<Rightarrow> volume_indexes w @ [index_row E b w])"
  have rows: "volume_indexes w' = set_by vi_id (vi_id (index_row E b w)) (\<lambda>_. vi) ?rows"
    using assms by (auto simp: rebuild_def index_row_def world_defs split: option.splits)
  have "get_by vi_batch_id b ?rows = Some (index_row E b w)"
    by (auto simp: index_row_def get_by_append split: option.splits)
  from get_by_set_by_new [OF this, of vi vi_id] show "get_by vi_batch_id b (volume_indexes w') = Some vi"
    unfolding rows by (simp add: * index_row_batch)
  show "pages w' = pages w" "documents w' = documents w" "records w' = records w" "conflicts w' = conflicts w"
    using assms by (auto simp: rebuild_def world_defs split: option.splits)
qed

lemma observed_positions_cong:
  "pages w' = pages w \<Longrightarrow> documents w' = documents w \<Longrightarrow> observed_positions b w' = observed_positions b w"
  by (simp add: observed_positions_def)

lemma current_alert_row:
  "get_by vi_batch_id b (volume_indexes w) = Some vi \<Longrightarrow>
   current_alert b w = (if vi_gaps vi = [] \<or> vi_state vi = ''acknowledged'' then None else Some (vi_gaps vi))"
  by (simp add: current_alert_def)

definition group_versions :: "string \<Rightarrow> 'a db_scheme \<Rightarrow> nat list" where
  "group_versions g w = map re_version (filter (\<lambda>r. re_record_group_id r = g) (records w))"

definition versions_ok :: "'a db_scheme \<Rightarrow> bool" where
  \<comment> \<open>the versions of each record group are 1, 2, 3, ... in the order they were added\<close>
  "versions_ok w \<longleftrightarrow> (\<forall>g. group_versions g w = [1..<Suc (length (group_versions g w))])"

lemma versions_ok_set: "versions_ok w \<Longrightarrow> set (group_versions g w) = {1..<Suc (length (group_versions g w))}"
  unfolding versions_ok_def by (metis set_upt)

lemma versions_ok_first:
  assumes "versions_ok w" and "(g, 1) \<notin> (\<lambda>r. (re_record_group_id r, re_version r)) ` set (records w)"
  shows "group_versions g w = []"
proof (rule ccontr)
  assume "group_versions g w \<noteq> []"
  then have "0 < length (group_versions g w)" by simp
  then have "1 \<in> set (group_versions g w)" unfolding versions_ok_set [OF assms(1), of g] by (simp add: Suc_le_eq)
  then have "(g, 1) \<in> (\<lambda>r. (re_record_group_id r, re_version r)) ` set (records w)"
    by (force simp: group_versions_def)
  with assms(2) show False by simp
qed

lemma latest_version_count:
  assumes "versions_ok w"
  shows "(case latest_version g w of None \<Rightarrow> 0 | Some p \<Rightarrow> re_version p) = length (group_versions g w)"
proof (cases "latest_version g w")
  case None
  then have "group_versions g w = []"
    by (simp add: latest_version_def latest_by_None_iff group_versions_def filter_empty_conv)
  with None show ?thesis by simp
next
  case (Some p)
  then have p: "p \<in> set (records w)" "re_record_group_id p = g"
    and mx: "\<forall>r\<in>set (records w). re_record_group_id r = g \<longrightarrow> re_version r \<le> re_version p"
    using latest_by_SomeD [of re_version "\<lambda>r. re_record_group_id r = g" "records w" p]
    by (simp_all add: latest_version_def)
  let ?n = "length (group_versions g w)"
  note eq = versions_ok_set [OF assms, of g]
  have in_g: "re_version p \<in> set (group_versions g w)" using p by (auto simp: group_versions_def)
  then have "?n \<noteq> 0" "re_version p \<le> ?n" using eq by auto
  then have "?n \<in> set (group_versions g w)" unfolding eq by (simp add: Suc_le_eq)
  then have "?n \<le> re_version p" using mx unfolding group_versions_def by auto
  with \<open>re_version p \<le> ?n\<close> Some show ?thesis by simp
qed

lemma evaluate_reasons: "fst (evaluate checks w) \<longleftrightarrow> (\<exists>c\<in>set checks. c w \<noteq> None)"
  by (auto simp: evaluate_def List.map_filter_def filter_empty_conv)

definition previous_version :: "string option \<Rightarrow> 'a db_scheme \<Rightarrow> published_record option" where
  "previous_version record_group_id w =
     (if truthy record_group_id then latest_version (or_empty record_group_id) w else None)"

definition gate_closed :: "string option \<Rightarrow> published_record option \<Rightarrow> 'a db_scheme \<Rightarrow> bool" where
  \<comment> \<open>an open gap of the batch, or a conflict that names the previous version\<close>
  "gate_closed batch_id previous w \<longleftrightarrow>
     (\<exists>b vi. batch_id = Some b \<and> get_by vi_batch_id b (volume_indexes w) = Some vi \<and>
        vi_gaps vi \<noteq> [] \<and> vi_state vi \<noteq> ''acknowledged'') \<or>
     (\<exists>p. previous = Some p \<and>
        (\<exists>c\<in>set (conflicts w). re_id p \<in> set (cf_records c) \<and> cf_state c \<in> {''open'', ''under_enquiry'', ''referred''}))"

lemma check_open_conflict_iff:
  "check_open_conflict rid w \<noteq> None \<longleftrightarrow>
     (\<exists>c\<in>set (conflicts w). rid \<in> set (cf_records c) \<and> cf_state c \<in> {''open'', ''under_enquiry'', ''referred''})"
  by (auto simp: check_open_conflict_def open_conflicts_of_def BLOCKING_CONFLICT_STATES_def Let_def filter_empty_conv)

lemma check_volume_iff:
  "check_volume_completeness b w \<noteq> None \<longleftrightarrow>
     (\<exists>vi. get_by vi_batch_id b (volume_indexes w) = Some vi \<and> vi_gaps vi \<noteq> [] \<and> vi_state vi \<noteq> ''acknowledged'')"
  by (auto simp: check_volume_completeness_def current_alert_def split: option.splits)

lemma publish_gate_iff: "fst (evaluate (publish_checks batch_id previous) w) \<longleftrightarrow> gate_closed batch_id previous w"
proof -
  have "gate_closed batch_id previous w \<longleftrightarrow>
      (\<exists>b. batch_id = Some b \<and> check_volume_completeness b w \<noteq> None) \<or>
      (\<exists>p. previous = Some p \<and> check_open_conflict (re_id p) w \<noteq> None)"
    unfolding gate_closed_def check_open_conflict_iff check_volume_iff by blast
  then show ?thesis unfolding evaluate_reasons
    by (cases batch_id; cases previous) (auto simp: publish_checks_def)
qed

lemma publish_blocked:
  assumes "gate_closed batch_id (previous_version g w) w"
  shows "\<exists>reasons. reasons \<noteq> [] \<and>
    publish_new_version E g batch_id actor pr ul lgd w = (Inl (Publish_Blocked reasons), w)"
  using assms unfolding publish_gate_iff [symmetric]
  by (auto simp: publish_new_version_def attempt_publish_def previous_version_def evaluate_def Let_def)

lemma publish_open:
  assumes "\<not> gate_closed batch_id (previous_version g w) w"
    and "publish_new_version E g batch_id actor pr ul lgd w = (res, w')"
  obtains (taken) gid where "res = Inl (Publish_Error (IntegrityError ''uq_record_group_version''))" "records w' = records w"
      "(gid, Suc (case previous_version g w of None \<Rightarrow> 0 | Some p \<Rightarrow> re_version p))
         \<in> (\<lambda>r. (re_record_group_id r, re_version r)) ` set (records w)"
      "gid = (case g of Some g \<Rightarrow> g | None \<Rightarrow> uuid4 E (Suc (uuids_drawn w)))"
    | (added) r where "res = Inr r" "records w' = records w @ [r]"
      "re_version r = Suc (case previous_version g w of None \<Rightarrow> 0 | Some p \<Rightarrow> re_version p)"
      "re_record_group_id r = (case g of Some g \<Rightarrow> g | None \<Rightarrow> uuid4 E (Suc (uuids_drawn w)))"
      "(re_record_group_id r, re_version r) \<notin> (\<lambda>r. (re_record_group_id r, re_version r)) ` set (records w)"
      "re_parcel_ref r = inherit pr re_parcel_ref (previous_version g w)"
      "re_ulpin r = inherit ul re_ulpin (previous_version g w)"
proof -
  let ?v = "case previous_version g w of None \<Rightarrow> 1 | Some p \<Rightarrow> re_version p + 1"
  let ?gid = "case g of Some g \<Rightarrow> g | None \<Rightarrow> uuid4 E (Suc (uuids_drawn w))"
  have v: "?v = Suc (case previous_version g w of None \<Rightarrow> 0 | Some p \<Rightarrow> re_version p)"
    by (simp split: option.split)
  have att: "attempt_publish (publish_checks batch_id (previous_version g w)) w = Inr ()"
    using assms(1) unfolding publish_gate_iff [symmetric]
    by (auto simp: attempt_publish_def split: prod.split)
  note unf = assms(2) [unfolded publish_new_version_def previous_version_def [symmetric] Let_def att sum.case world_defs]
  show ?thesis
  proof (cases "(?gid, ?v) \<in> (\<lambda>r. (re_record_group_id r, re_version r)) ` set (records w)")
    case True
    with unf have "res = Inl (Publish_Error (IntegrityError ''uq_record_group_version''))" "records w' = records w"
      by (auto split: option.splits if_splits)
    from taken [OF this True [unfolded v] refl] show ?thesis .
  next
    case False
    with unf have "\<exists>r. res = Inr r \<and> records w' = records w @ [r] \<and> re_version r = ?v \<and> re_record_group_id r = ?gid \<and>
        re_parcel_ref r = inherit pr re_parcel_ref (previous_version g w) \<and>
        re_ulpin r = inherit ul re_ulpin (previous_version g w)"
      by (auto simp: record_publish_def split: option.splits if_splits)
    with added False v show ?thesis by auto
  qed
qed

lemma versions_ok_snoc:
  assumes "versions_ok w" and "records w' = records w @ [r]"
    and "re_version r = Suc (length (group_versions (re_record_group_id r) w))"
  shows "versions_ok w'"
  unfolding versions_ok_def
proof
  fix g
  have g: "group_versions g w = [1..<Suc (length (group_versions g w))]" using assms(1) by (simp add: versions_ok_def)
  show "group_versions g w' = [1..<Suc (length (group_versions g w'))]"
  proof (cases "re_record_group_id r = g")
    case True
    then have "group_versions g w' = group_versions g w @ [Suc (length (group_versions g w))]"
      using assms(2,3) by (simp add: group_versions_def)
    then show ?thesis using g by simp
  next
    case False
    then have "group_versions g w' = group_versions g w" using assms(2) by (simp add: group_versions_def)
    then show ?thesis using g by simp
  qed
qed

section \<open>Properties\<close>

text \<open>Completeness of a volume. \<open>rebuild\<close> stores for the batch one index whose gaps are exactly the
  positions between the smallest and the largest one observed at which no page was observed, in
  increasing order; its state is \<open>complete\<close> just when some position was observed and none is
  missing; the alert of the batch names just those gaps, unless they were acknowledged; and a
  second \<open>rebuild\<close> finds the same index.\<close>

lemma rebuild_completeness:
  assumes "rebuild E b w = (vi, w')"
  shows "set (vi_gaps vi) = {i. \<exists>lo\<in>set (observed_positions b w). \<exists>hi\<in>set (observed_positions b w). lo \<le> i \<and> i \<le> hi}
        - set (observed_positions b w) \<and>
    sorted_wrt (<) (vi_gaps vi) \<and> get_by vi_batch_id b (volume_indexes w') = Some vi \<and>
    (vi_state vi = ''complete'' \<longleftrightarrow> observed_positions b w \<noteq> [] \<and> vi_gaps vi = []) \<and>
    current_alert b w' = (if vi_gaps vi = [] \<or> vi_state vi = ''acknowledged'' then None else Some (vi_gaps vi)) \<and>
    fst (rebuild E b w') = vi"
proof -
  obtain expected gaps where eg: "expected_and_gaps (observed_positions b w) = (expected, gaps)" by fastforce
  have "sorted (observed_positions b w)" by (simp add: observed_positions_def)
  note g = expected_and_gaps_props [OF this eg]
  note r = rebuild_effect [OF assms eg]
  have gaps: "vi_gaps vi = gaps" by (simp add: r(1))
  obtain vi2 w2 where 2: "rebuild E b w' = (vi2, w2)" by fastforce
  have obs: "observed_positions b w' = observed_positions b w" using r(3,4) by (rule observed_positions_cong)
  have "index_row E b w' = vi" using r(2) by (simp add: index_row_def)
  with rebuild_effect(1) [OF 2] eg have "vi2 = vi" by (simp add: obs r(1))
  moreover have "vi_state vi = ''complete'' \<longleftrightarrow> observed_positions b w \<noteq> [] \<and> gaps = []"
    using g(3) by (simp add: r(1))
  ultimately show ?thesis
    using g(1,2) r(2) current_alert_row [OF r(2)] unfolding gaps 2 by simp
qed

text \<open>Acknowledging a volume silences its later gaps. Once the index of a batch is acknowledged, a
  \<open>rebuild\<close> after any change of the pages keeps it acknowledged as long as some position is
  missing, be it one that nobody has acknowledged, and the volume no longer blocks
  publication.\<close>

lemma acknowledged_hides_new_gaps:
  assumes "get_by vi_batch_id b (volume_indexes w) = Some vi" and "vi_state vi = ''acknowledged''"
    and "rebuild E b (w\<lparr>pages := ps\<rparr>) = (vi', w')" and "vi_gaps vi' \<noteq> []"
  shows "vi_state vi' = ''acknowledged'' \<and> check_volume_completeness b w' = None"
proof -
  obtain expected gaps where eg: "expected_and_gaps (observed_positions b (w\<lparr>pages := ps\<rparr>)) = (expected, gaps)" by fastforce
  note r = rebuild_effect [OF assms(3) eg]
  have "index_row E b (w\<lparr>pages := ps\<rparr>) = vi" using assms(1) by (simp add: index_row_def)
  with r(1) assms(2,4) have "vi_state vi' = ''acknowledged''" by (simp split: if_splits)
  with r(2) show ?thesis by (simp add: check_volume_completeness_def current_alert_def)
qed

definition demo_page :: "string \<Rightarrow> int option \<Rightarrow> page" where
  "demo_page pid i = \<lparr>pg_id = pid, pg_document_id = ''doc'', pg_index = 0, pg_storage_uri = None, pg_index_position = i,
     pg_quality_score = None, pg_legibility_band = None, pg_script = None, pg_language = None, pg_doc_type = None,
     pg_page_role = None, pg_writer_cluster_id = None, pg_novelty_score = None, pg_route = None\<rparr>"

definition demo_document :: source_document where
  "demo_document = \<lparr>sd_id = ''doc'', sd_batch_id = ''b'', sd_sha256 = ''00'', sd_storage_uri = ''u'',
     sd_mime = ''application/pdf'', sd_page_count = 3\<rparr>"

definition demo_volume_db :: db where
  "demo_volume_db = empty_db\<lparr>documents := [demo_document],
     pages := [demo_page ''p1'' (Some 4), demo_page ''p2'' (Some 1), demo_page ''p3'' None, demo_page ''p4'' (Some 2)]\<rparr>"

lemma demo_observed: "observed_positions ''b'' demo_volume_db = [1, 2, 4]"
  by (simp add: observed_positions_def demo_volume_db_def demo_page_def demo_document_def List.map_filter_def)

lemma rebuild_completeness_example:
  "set (vi_gaps (fst (rebuild demo_env ''b'' demo_volume_db))) = {3}"
proof -
  have "set (vi_gaps (fst (rebuild demo_env ''b'' demo_volume_db))) =
      {i. \<exists>lo\<in>{1, 2, 4}. \<exists>hi\<in>{1, 2, 4}. lo \<le> i \<and> i \<le> hi} - {1, 2, 4}"
    using rebuild_completeness [of demo_env "''b''" demo_volume_db, OF prod.collapse [symmetric]]
    by (simp only: demo_observed list.set)
  also have "\<dots> = {3}" by auto
  finally show ?thesis .
qed

definition demo_ack_index :: volume_index where
  "demo_ack_index = \<lparr>vi_id = ''vi'', vi_batch_id = ''b'', vi_expected_sequence = [1, 2, 3], vi_observed_sequence = [1, 3],
     vi_gaps = [2], vi_state = ''acknowledged''\<rparr>"

lemma acknowledged_hides_new_gaps_witness:
  "check_volume_completeness ''b''
     (snd (rebuild demo_env ''b'' (demo_volume_db\<lparr>volume_indexes := [demo_ack_index], pages := pages demo_volume_db\<rparr>))) = None"
proof -
  let ?w = "demo_volume_db\<lparr>volume_indexes := [demo_ack_index]\<rparr>"
  let ?v = "?w\<lparr>pages := pages demo_volume_db\<rparr>"
  have "observed_positions ''b'' ?v = [1, 2, 4]"
    using demo_observed by (simp add: observed_positions_def)
  then have eg: "expected_and_gaps (observed_positions ''b'' ?v) = ([1, 2, 3, 4], [3])"
    by (simp add: expected_and_gaps_def Let_def upto.simps)
  from rebuild_effect(1) [OF prod.collapse [symmetric] eg, of demo_env]
  have "vi_gaps (fst (rebuild demo_env ''b'' ?v)) \<noteq> []" by simp
  from acknowledged_hides_new_gaps [OF _ _ prod.collapse [symmetric] this]
  show ?thesis by (simp add: demo_ack_index_def)
qed

lemma previous_count:
  assumes "versions_ok w" and "\<And>k. g = None \<Longrightarrow> uuid4 E k \<notin> re_record_group_id ` set (records w)"
    and "g \<noteq> Some []" and "gid = (case g of Some g \<Rightarrow> g | None \<Rightarrow> uuid4 E (Suc (uuids_drawn w)))"
  shows "(case previous_version g w of None \<Rightarrow> 0 | Some p \<Rightarrow> re_version p) = length (group_versions gid w)"
proof (cases g)
  case None
  then have "group_versions gid w = []"
    using assms(4) assms(2) [of "Suc (uuids_drawn w)"]
    by (simp add: group_versions_def filter_empty_conv image_iff eq_commute)
  with None show ?thesis by (simp add: previous_version_def)
next
  case (Some g')
  with assms(3,4) latest_version_count [OF assms(1), of gid] show ?thesis by (simp add: previous_version_def)
qed

text \<open>C6. Publishing appends the next version. While the versions of every record group are 1, 2, 3, ...
  in the order they were added, \<open>publish_new_version\<close> keeps them so and never changes a record
  that is there. It is blocked, with at least one reason and no change at all, exactly when the
  batch has an open gap or a conflict not yet resolved names the group's latest version; when it
  returns, one record is added, whose version is one more than the number there were.\<close>

theorem publish_appends_version:
  assumes "versions_ok w" and "publish_new_version E g batch_id actor pr ul lgd w = (res, w')"
    and "\<And>k. g = None \<Longrightarrow> uuid4 E k \<notin> re_record_group_id ` set (records w)"
  shows "versions_ok w' \<and>
    (gate_closed batch_id (previous_version g w) w \<longleftrightarrow> (\<exists>reasons. res = Inl (Publish_Blocked reasons))) \<and>
    (\<forall>reasons. res = Inl (Publish_Blocked reasons) \<longrightarrow> reasons \<noteq> [] \<and> w' = w) \<and>
    (g \<noteq> Some [] \<and> \<not> gate_closed batch_id (previous_version g w) w \<longrightarrow>
      (\<exists>r. res = Inr r \<and> records w' = records w @ [r] \<and> (g \<noteq> None \<longrightarrow> g = Some (re_record_group_id r)) \<and>
         re_version r = Suc (length (group_versions (re_record_group_id r) w))))"
proof (cases "gate_closed batch_id (previous_version g w) w")
  case True
  from publish_blocked [OF this, of E actor pr ul lgd] assms(1,2) True show ?thesis by auto
next
  case False
  let ?prev = "case previous_version g w of None \<Rightarrow> 0 | Some p \<Rightarrow> re_version p"
  have count: "?prev = length (group_versions gid w)"
    if "g \<noteq> Some []" and "gid = (case g of Some g \<Rightarrow> g | None \<Rightarrow> uuid4 E (Suc (uuids_drawn w)))" for gid
    using assms(3) by (intro previous_count [OF assms(1) _ that])
  from False assms(2) show ?thesis
  proof (cases rule: publish_open)
    case (taken gid)
    have "g = Some []"
    proof (rule ccontr)
      assume g: "g \<noteq> Some []"
      then have c: "?prev = length (group_versions gid w)" using taken(4) count by blast
      from taken(3) have "Suc ?prev \<in> set (group_versions gid w)" by (force simp: group_versions_def)
      then show False using c versions_ok_set [OF assms(1), of gid] by simp
    qed
    moreover have "versions_ok w'"
      using assms(1) unfolding versions_ok_def group_versions_def taken(2) .
    ultimately show ?thesis using taken(1) False by simp
  next
    case (added r)
    have v: "re_version r = Suc (length (group_versions (re_record_group_id r) w))"
    proof (cases "g = Some []")
      case True
      then have r: "re_record_group_id r = []" "re_version r = 1" using added by (auto simp: previous_version_def)
      with versions_ok_first [OF assms(1), of "[]"] added(5) show ?thesis by simp
    next
      case False
      from added(3) count [OF this added(4)] show ?thesis by simp
    qed
    moreover have "versions_ok w'" by (rule versions_ok_snoc [OF assms(1) added(2) v])
    moreover have "g \<noteq> None \<longrightarrow> g = Some (re_record_group_id r)" using added(4) by (cases g) auto
    ultimately show ?thesis using added(1,2) False by simp
  qed
qed

definition demo_record :: published_record where
  "demo_record = \<lparr>re_id = ''r1'', re_record_group_id = ''g'', re_version = 1, re_parcel_ref = Some ''p'', re_ulpin = None,
     re_lgd_codes = None, re_status = Some ''published'', re_published_at = Some 0\<rparr>"

theorem publish_appends_version_witness:
  "\<exists>r w'. publish_new_version demo_env (Some ''g'') None ''officer'' None None None (empty_db\<lparr>records := [demo_record]\<rparr>)
     = (Inr r, w') \<and> re_version r = 2"
proof -
  let ?w = "empty_db\<lparr>records := [demo_record]\<rparr>"
  have ok: "versions_ok ?w" by (simp add: versions_ok_def group_versions_def demo_record_def)
  have open_gate: "\<not> gate_closed None p ?w" for p by (simp add: gate_closed_def empty_db_def)
  have one: "length (group_versions ''g'' ?w) = 1" by (simp add: group_versions_def demo_record_def)
  obtain res w' where p: "publish_new_version demo_env (Some ''g'') None ''officer'' None None None ?w = (res, w')"
    by fastforce
  from publish_appends_version [OF ok p] open_gate one p show ?thesis by auto
qed

text \<open>The conflict register. A transition that returns moves one existing conflict to another of the
  four states and records it in the audit log with the reason, which is not empty when the
  conflict is resolved; one that raises changes nothing. A record is blocked from publication
  exactly as long as some conflict naming it is not resolved.\<close>

lemma conflict_transitions:
  assumes "\<forall>c\<in>set (conflicts w). conflict_ck c"
    and "transition_conflict E cid new_state actor resolution w = (res, w')"
  shows "(\<forall>c\<in>set (conflicts w'). conflict_ck c) \<and> (isl res \<longrightarrow> w' = w) \<and>
    (\<forall>c'. res = Inr c' \<longrightarrow>
       (\<exists>c. get_by cf_id cid (conflicts w) = Some c \<and> c' = c\<lparr>cf_state := new_state\<rparr> \<and> cf_state c \<noteq> new_state) \<and>
       conflicts w' = set_by cf_id cid (\<lambda>_. c') (conflicts w) \<and>
       (new_state = ''resolved'' \<longrightarrow> truthy resolution) \<and>
       (\<exists>e. audit_entries w' = audit_entries w @ [e] \<and> ae_subject e = Some cid \<and> ae_actor e = actor \<and>
          ae_action e = ''conflict.transitioned.'' @ new_state \<and> ae_purpose e = resolution)) \<and>
    (is_publish_blocked rid w' \<longleftrightarrow> (\<exists>c\<in>set (conflicts w'). rid \<in> set (cf_records c) \<and> cf_state c \<noteq> ''resolved''))"
proof -
  consider (err) "isl res" "w' = w"
    | (ok) c c' where "get_by cf_id cid (conflicts w) = Some c" "res = Inr c'" "c' = c\<lparr>cf_state := new_state\<rparr>"
        "cf_state c \<noteq> new_state" "new_state \<in> set VALID_CONFLICT_STATES" "new_state = ''resolved'' \<longrightarrow> truthy resolution"
        "w' = audited E ((audit_call actor (''conflict.transitioned.'' @ new_state))
                \<lparr>ac_subject := Some cid, ac_purpose := resolution\<rparr>)
              (w\<lparr>conflicts := set_by cf_id cid (\<lambda>_. c') (conflicts w)\<rparr>)"
    using assms(2) unfolding transition_conflict_def
    by (auto simp: Let_def split: if_splits option.splits)
  then have "(\<forall>c\<in>set (conflicts w'). conflict_ck c) \<and> (isl res \<longrightarrow> w' = w) \<and>
    (\<forall>c'. res = Inr c' \<longrightarrow>
       (\<exists>c. get_by cf_id cid (conflicts w) = Some c \<and> c' = c\<lparr>cf_state := new_state\<rparr> \<and> cf_state c \<noteq> new_state) \<and>
       conflicts w' = set_by cf_id cid (\<lambda>_. c') (conflicts w) \<and>
       (new_state = ''resolved'' \<longrightarrow> truthy resolution) \<and>
       (\<exists>e. audit_entries w' = audit_entries w @ [e] \<and> ae_subject e = Some cid \<and> ae_actor e = actor \<and>
          ae_action e = ''conflict.transitioned.'' @ new_state \<and> ae_purpose e = resolution))"
  proof cases
    case err
    then show ?thesis using assms(1) by (auto simp: isl_def)
  next
    case ok
    have "conflict_ck c'"
      using assms(1) get_by_SomeD [OF ok(1)] ok(5)
      by (auto simp: ok(3) conflict_ck_def VALID_CONFLICT_STATES_def)
    then have "\<forall>c\<in>set (conflicts w'). conflict_ck c"
      using assms(1) by (auto simp: ok(7) set_by_def)
    then show ?thesis using ok(1-6) by (simp add: ok(7) audited_entries audit_call_def)
  qed
  moreover from this have "is_publish_blocked rid w' \<longleftrightarrow>
      (\<exists>c\<in>set (conflicts w'). rid \<in> set (cf_records c) \<and> cf_state c \<noteq> ''resolved'')"
    unfolding is_publish_blocked_def check_open_conflict_iff by (fastforce simp: conflict_ck_def)
  ultimately show ?thesis by blast
qed

definition demo_conflict :: conflict where
  "demo_conflict = \<lparr>cf_id = ''c'', cf_records = [''r1''], cf_rule = ''shares'', cf_evidence = [], cf_origin = ''validator'',
     cf_state = ''open'', cf_assignee = None, cf_opened_at = 0\<rparr>"

lemma conflict_transitions_example:
  "\<not> is_publish_blocked ''r1'' (snd (transition_conflict demo_env ''c'' ''resolved'' ''supervisor'' (Some ''settled'')
     (empty_db\<lparr>conflicts := [demo_conflict]\<rparr>)))"
proof -
  let ?w = "empty_db\<lparr>conflicts := [demo_conflict]\<rparr>"
  let ?t = "transition_conflict demo_env ''c'' ''resolved'' ''supervisor'' (Some ''settled'') ?w"
  have "\<forall>c\<in>set (conflicts ?w). conflict_ck c" by (simp add: demo_conflict_def conflict_ck_def)
  from conflict_transitions [OF this prod.collapse [symmetric], of demo_env "''c''" "''resolved''" "''supervisor''" "Some ''settled''" "''r1''"]
  have "is_publish_blocked ''r1'' (snd ?t) \<longleftrightarrow>
      (\<exists>c\<in>set (conflicts (snd ?t)). ''r1'' \<in> set (cf_records c) \<and> cf_state c \<noteq> ''resolved'')" by blast
  then show ?thesis
    by (simp add: transition_conflict_def VALID_CONFLICT_STATES_def demo_conflict_def Let_def)
qed

end
