(* ===== verification/Records_Api.thy ===== *)
theory Records_Api
  imports Provenance Review Publication Audit_Verify
begin

text \<open>
  What leaves the process: the serializers (\<open>backend/api/serializers.py\<close>), the routes for records,
  provenance and unmasked reads (\<open>backend/api/records.py\<close>, \<open>backend/domain/unmasked_read.py\<close>), for
  conflicts (\<open>backend/api/conflicts.py\<close>) and for the chain (\<open>backend/api/chain.py\<close>). A route is a
  function of the caller's identity and a session; \<open>guarded\<close> of \<open>Access\<close> puts the permission check in
  front of it. The signing method of the object store and the text of a box are arguments.
\<close>

section \<open>Serializers\<close>

type_synonym sign_get = "string \<Rightarrow> int \<Rightarrow> string"

record conflict_public_view =
  cp_id :: string
  cp_records :: "string list"
  cp_rule :: string
  cp_evidence :: "(string \<times> string) list"
  cp_origin :: string
  cp_state :: string
  cp_assignee :: "string option"
  cp_opened_at :: string

definition conflict_to_public_view :: "conflict \<Rightarrow> conflict_public_view" where
  "conflict_to_public_view c = \<lparr>cp_id = cf_id c, cp_records = cf_records c, cp_rule = cf_rule c,
     cp_evidence = cf_evidence c, cp_origin = cf_origin c, cp_state = cf_state c,
     cp_assignee = cf_assignee c, cp_opened_at = isoformat (cf_opened_at c)\<rparr>"

record masked_extraction_view =
  mv_id :: string
  mv_page_id :: string
  mv_field_name :: string
  mv_value :: "string option"
  mv_raw_value :: "string option"
  mv_crop_uri :: "string option"
  mv_entry_status :: string
  mv_masked :: bool

record masked_record_view =
  mr_record_id :: string
  mr_version :: nat
  mr_status :: "string option"
  mr_fields :: "masked_extraction_view list"

record masked_edit_history_entry =
  mh_actor :: string
  mh_predicted :: "string option"
  mh_corrected :: "string option"
  mh_at :: string
  mh_masked :: bool

definition mask_edit_history_entry :: "edit_history_entry \<Rightarrow> string \<Rightarrow> string \<Rightarrow> masked_edit_history_entry" where
  "mask_edit_history_entry entry fclass viewer =
     (let masked = mask_apply None (eh_predicted entry) None fclass viewer;
          masked_corrected = mask_apply None (eh_corrected entry) None fclass viewer
      in \<lparr>mh_actor = eh_actor entry, mh_predicted = mt_raw_value masked,
          mh_corrected = mt_raw_value masked_corrected, mh_at = eh_at entry, mh_masked = mt_masked masked\<rparr>)"

definition crop_link :: "sign_get \<Rightarrow> (bbox option \<Rightarrow> string) \<Rightarrow> string option \<Rightarrow> bbox option \<Rightarrow> string option" where
  \<comment> \<open>a signed link when there are a box and a stored image\<close>
  "crop_link store_sign_get bbox_str uri bbox =
     (if bbox \<noteq> None \<and> truthy uri
      then Some (with_bbox bbox_str (store_sign_get (or_empty uri) CROP_URL_TTL_SECONDS) bbox) else None)"

definition mask_extraction_for_role ::
  "sign_get \<Rightarrow> (bbox option \<Rightarrow> string) \<Rightarrow> string option \<Rightarrow> extraction \<Rightarrow> string \<Rightarrow> masked_extraction_view" where
  \<comment> \<open>the extraction's dictionary and, beside it, its \<open>page_storage_uri\<close>\<close>
  "mask_extraction_for_role store_sign_get bbox_str page_storage_uri x viewer =
     (let fclass = ex_field_name x;
          would_be_masked = is_personal_data fclass \<and> viewer \<notin> set ROLES_THAT_SEE_PERSONAL_DATA_UNMASKED;
          crop_uri = (if \<not> would_be_masked then crop_link store_sign_get bbox_str page_storage_uri (ex_bbox x)
                      else None);
          masked = mask_apply (ex_canonical_value x) (Some (ex_raw_value x)) crop_uri fclass viewer
      in \<lparr>mv_id = ex_id x, mv_page_id = ex_page_id x, mv_field_name = fclass, mv_value = mt_value masked,
          mv_raw_value = mt_raw_value masked, mv_crop_uri = mt_crop_uri masked,
          mv_entry_status = ex_entry_status x, mv_masked = mt_masked masked\<rparr>)"

definition build_masked_record_view ::
  "sign_get \<Rightarrow> (bbox option \<Rightarrow> string) \<Rightarrow> string \<Rightarrow> nat \<Rightarrow> string option
    \<Rightarrow> (string option \<times> extraction) list \<Rightarrow> string \<Rightarrow> masked_record_view"
where
  "build_masked_record_view store_sign_get bbox_str record_id version status xs viewer =
     \<lparr>mr_record_id = record_id, mr_version = version, mr_status = status,
      mr_fields = map (\<lambda>(uri, x). mask_extraction_for_role store_sign_get bbox_str uri x viewer) xs\<rparr>"

section \<open>Records\<close>

definition primary_role :: "identity \<Rightarrow> string" where
  "primary_role i = Min (role_value ` set (id_roles i))"

definition publish_record ::
  "env \<Rightarrow> string option \<Rightarrow> string option \<Rightarrow> string option \<Rightarrow> string option \<Rightarrow> (string \<times> string) list option
    \<Rightarrow> identity \<Rightarrow> 'a db_scheme session \<Rightarrow> (exn + string \<times> string \<times> nat) \<times> 'a db_scheme session"
where
  "publish_record E record_group_id batch_id parcel_ref ulpin lgd_codes i s =
     (case in_session (publish_new_version E record_group_id batch_id (id_actor i) parcel_ref ulpin lgd_codes) s of
        (Inl (Publish_Blocked reasons), s) \<Rightarrow> (Inl (HTTPException 409), s)
      | (Inl (Publish_Error err), s) \<Rightarrow> (Inl err, s)
      | (Inr r, s) \<Rightarrow> (Inr (re_record_group_id r, re_id r, re_version r), commit s))"

definition requested_version :: "string \<Rightarrow> int option \<Rightarrow> 'a db_scheme \<Rightarrow> published_record option" where
  "requested_version record_group_id version w =
     (case version of
        Some v \<Rightarrow> find (\<lambda>r. re_record_group_id r = record_group_id \<and> int (re_version r) = v) (records w)
      | None \<Rightarrow> latest_version record_group_id w)"

definition assembled :: "string \<Rightarrow> 'a db_scheme \<Rightarrow> (string option \<times> extraction) list" where
  "assembled record_group_id w =
     (let extraction_ids = (case get_by ra_record_id record_group_id (record_assemblies w) of
                              None \<Rightarrow> [] | Some a \<Rightarrow> ra_extraction_ids a)
      in List.map_filter
           (\<lambda>i. map_option (\<lambda>x. (Option.bind (get_by pg_id (ex_page_id x) (pages w)) pg_storage_uri, x))
                  (get_by ex_id i (extractions w)))
           extraction_ids)"

definition get_record ::
  "sign_get \<Rightarrow> (bbox option \<Rightarrow> string) \<Rightarrow> string \<Rightarrow> int option \<Rightarrow> identity \<Rightarrow> 'a db_scheme session
    \<Rightarrow> (exn + masked_record_view) \<times> 'a db_scheme session"
where
  "get_record store_sign_get bbox_str record_group_id version i s =
     (case requested_version record_group_id version (current s) of
        None \<Rightarrow> (Inl (HTTPException 404), s)
      | Some r \<Rightarrow>
          (Inr (build_masked_record_view store_sign_get bbox_str (re_record_group_id r) (re_version r) (re_status r)
                  (assembled record_group_id (current s)) (primary_role i)), s))"

record provenance_response =
  pr_extraction_id :: string
  pr_document_id :: "string option"
  pr_page_id :: string
  pr_bbox :: "bbox option"
  pr_original_bbox :: "real_box option"
  pr_engine :: "string option"
  pr_model_version :: "string option"
  pr_config_version :: "string option"
  pr_confidence :: "pyfloat option"
  pr_page_split_transform :: "(string \<times> string) list option"
  pr_deskew_transform :: "transform_dict option"
  pr_edit_history :: "masked_edit_history_entry list"

definition get_provenance ::
  "string \<Rightarrow> identity \<Rightarrow> 'a db_scheme session \<Rightarrow> (exn + provenance_response) \<times> 'a db_scheme session" where
  "get_provenance extraction_id i s =
     (case resolve_provenance extraction_id (current s) of
        Inl err \<Rightarrow> (Inl (case err of KeyError k \<Rightarrow> HTTPException 404 | _ \<Rightarrow> err), s)
      | Inr r \<Rightarrow>
          (Inr \<lparr>pr_extraction_id = pv_extraction_id r, pr_document_id = pv_document_id r,
                pr_page_id = pv_page_id r, pr_bbox = pv_bbox r, pr_original_bbox = original_bbox_for r,
                pr_engine = pv_engine r, pr_model_version = pv_model_version r,
                pr_config_version = pv_config_version r, pr_confidence = pv_confidence r,
                pr_page_split_transform = pv_page_split_transform r, pr_deskew_transform = pv_deskew_transform r,
                pr_edit_history = map (\<lambda>h. mask_edit_history_entry h (pv_field_name r) (primary_role i))
                                    (pv_edit_history r)\<rparr>, s))"

section \<open>The unmasked read\<close>

record unmasked_field =
  uf_extraction_id :: string
  uf_field_name :: string
  uf_value :: "string option"
  uf_raw_value :: "string option"
  uf_crop_url :: "string option"

definition read_unmasked_field ::
  "env \<Rightarrow> sign_get \<Rightarrow> (bbox option \<Rightarrow> string) \<Rightarrow> string \<Rightarrow> string \<Rightarrow> string \<Rightarrow> string \<Rightarrow> int \<Rightarrow> 'a db_scheme
    \<Rightarrow> (exn + unmasked_field) \<times> 'a db_scheme"
where
  "read_unmasked_field E store_sign_get bbox_str extraction_id actor purpose record_id version w =
     (if purpose = [] \<or> strip purpose = [] then (Inl MissingPurpose, w)
      else case get_by ex_id extraction_id (extractions w) of
             None \<Rightarrow> (Inl (KeyError extraction_id), w)
           | Some x \<Rightarrow>
               (let page = get_by pg_id (ex_page_id x) (pages w);
                    doc = Option.bind page (\<lambda>p. get_by sd_id (pg_document_id p) (documents w));
                    district = Option.bind doc (\<lambda>d. map_option ba_district (get_by ba_id (sd_batch_id d) (batches w)));
                    crop_url = Option.bind page (\<lambda>p. crop_link store_sign_get bbox_str (pg_storage_uri p) (ex_bbox x));
                    unmasked = mask_apply (ex_canonical_value x) (Some (ex_raw_value x)) crop_url (ex_field_name x)
                                 ''auditor_unmasked_read'';
                    w = record_unmasked_read E actor record_id version (ex_field_name x) purpose district w
                in (Inr \<lparr>uf_extraction_id = ex_id x, uf_field_name = ex_field_name x, uf_value = mt_value unmasked,
                         uf_raw_value = mt_raw_value unmasked, uf_crop_url = mt_crop_uri unmasked\<rparr>, w)))"

definition unmasked_read_status :: "exn \<Rightarrow> nat" where
  "unmasked_read_status err = (case err of MissingPurpose \<Rightarrow> 422 | KeyError k \<Rightarrow> 404 | _ \<Rightarrow> 500)"

definition unmasked_read_route ::
  "env \<Rightarrow> sign_get \<Rightarrow> (bbox option \<Rightarrow> string) \<Rightarrow> string \<Rightarrow> string \<Rightarrow> int \<Rightarrow> string \<Rightarrow> identity \<Rightarrow> 'a db_scheme session
    \<Rightarrow> (exn + unmasked_field) \<times> 'a db_scheme session"
where
  "unmasked_read_route E store_sign_get bbox_str extraction_id record_id version purpose i s =
     route_result_of (read_unmasked_field E store_sign_get bbox_str extraction_id (id_actor i) purpose record_id version)
       unmasked_read_status s"

section \<open>Conflicts\<close>

definition list_conflicts_route :: "string option \<Rightarrow> identity \<Rightarrow> 'a db_scheme session
    \<Rightarrow> (exn + conflict_public_view list) \<times> 'a db_scheme session" where
  "list_conflicts_route state i s = (Inr (map conflict_to_public_view (list_conflicts state (current s))), s)"

definition get_conflict :: "string \<Rightarrow> identity \<Rightarrow> 'a db_scheme session
    \<Rightarrow> (exn + conflict_public_view) \<times> 'a db_scheme session" where
  "get_conflict conflict_id i s =
     (case get_by cf_id conflict_id (conflicts (current s)) of
        None \<Rightarrow> (Inl (HTTPException 404), s) | Some c \<Rightarrow> (Inr (conflict_to_public_view c), s))"

definition conflict_status :: "exn \<Rightarrow> nat" where
  "conflict_status err = (case err of KeyError k \<Rightarrow> 404 | InvalidConflictTransition k \<Rightarrow> 422 | _ \<Rightarrow> 500)"

definition viewed :: "(exn + conflict) \<times> 's \<Rightarrow> (exn + conflict_public_view) \<times> 's" where
  "viewed r = (map_sum id conflict_to_public_view (fst r), snd r)"

definition assign_conflict_route :: "env \<Rightarrow> string \<Rightarrow> string \<Rightarrow> identity \<Rightarrow> 'a db_scheme session
    \<Rightarrow> (exn + conflict_public_view) \<times> 'a db_scheme session" where
  "assign_conflict_route E conflict_id assignee i s =
     viewed (route_result_of (assign E conflict_id assignee (id_actor i)) conflict_status s)"

definition transition_conflict_route :: "env \<Rightarrow> string \<Rightarrow> string \<Rightarrow> string option \<Rightarrow> identity \<Rightarrow> 'a db_scheme session
    \<Rightarrow> (exn + conflict_public_view) \<times> 'a db_scheme session" where
  "transition_conflict_route E conflict_id new_state resolution i s =
     viewed (route_result_of (transition_conflict E conflict_id new_state (id_actor i) resolution) conflict_status s)"

section \<open>The chain\<close>

record chain_response =
  ch_structural_ok :: bool
  ch_findings :: "shard_finding list"
  ch_computed_root :: string
  ch_latest_recorded_roll_root :: "string option"

definition verify_chain_route :: "env \<Rightarrow> identity \<Rightarrow> 'a chain_world_scheme session
    \<Rightarrow> (exn + chain_response) \<times> 'a chain_world_scheme session" where
  "verify_chain_route E i s =
     (let findings = structural_findings E (current s);
          heads = current_shard_heads (current s);
          latest = latest_by cr_rolled_at (\<lambda>_. True) (chain_roots (current s))
      in (Inr \<lparr>ch_structural_ok = list_all sf_ok findings, ch_findings = findings,
               ch_computed_root = compute_root E heads,
               ch_latest_recorded_roll_root = map_option cr_root latest\<rparr>, s))"

section \<open>Redaction\<close>

text \<open>
  \<open>redacted w\<close> is the database with every value of a personal field, in extractions and in their
  corrections, overwritten. What a response does not show is what it does not change with.
\<close>

definition hide_extraction :: "extraction \<Rightarrow> extraction" where
  "hide_extraction x =
     (if is_personal_data (ex_field_name x)
      then x\<lparr>ex_raw_value := MASK_TOKEN, ex_canonical_value := map_option (\<lambda>_. MASK_TOKEN) (ex_canonical_value x),
             ex_unconstrained_value := None, ex_top_k := []\<rparr>
      else x)"

definition personal_extraction :: "'a db_scheme \<Rightarrow> string \<Rightarrow> bool" where
  "personal_extraction w i \<longleftrightarrow>
     (case get_by ex_id i (extractions w) of None \<Rightarrow> False | Some x \<Rightarrow> is_personal_data (ex_field_name x))"

definition hide_correction :: "'a db_scheme \<Rightarrow> correction \<Rightarrow> correction" where
  "hide_correction w c =
     (if personal_extraction w (co_extraction_id c)
      then c\<lparr>co_predicted := map_option (\<lambda>_. MASK_TOKEN) (co_predicted c),
             co_corrected := map_option (\<lambda>_. MASK_TOKEN) (co_corrected c), co_edit_distance := None\<rparr>
      else c)"

definition redacted :: "'a db_scheme \<Rightarrow> 'a db_scheme" where
  "redacted w = w\<lparr>extractions := map hide_extraction (extractions w), corrections := map (hide_correction w) (corrections w)\<rparr>"

lemma hide_extraction_keeps [simp]:
  "ex_id (hide_extraction x) = ex_id x" "ex_page_id (hide_extraction x) = ex_page_id x"
  "ex_field_name (hide_extraction x) = ex_field_name x" "ex_bbox (hide_extraction x) = ex_bbox x"
  "ex_engine (hide_extraction x) = ex_engine x" "ex_model_version (hide_extraction x) = ex_model_version x"
  "ex_config_version (hide_extraction x) = ex_config_version x"
  "ex_entry_status (hide_extraction x) = ex_entry_status x"
  "ex_calibrated_confidence (hide_extraction x) = ex_calibrated_confidence x"
  "ex_token_confidence (hide_extraction x) = ex_token_confidence x"
  by (simp_all add: hide_extraction_def)

lemma hide_correction_keeps [simp]:
  "co_extraction_id (hide_correction w c) = co_extraction_id c" "co_created_at (hide_correction w c) = co_created_at c"
  "co_actor (hide_correction w c) = co_actor c"
  by (simp_all add: hide_correction_def)

lemma viewer_masked:
  assumes "id_roles i \<noteq> []"
  shows "primary_role i \<notin> set ROLES_THAT_SEE_PERSONAL_DATA_UNMASKED"
proof -
  have "primary_role i \<in> role_value ` set (id_roles i)"
    unfolding primary_role_def using assms by (intro Min_in) auto
  then show ?thesis using unmasked_role by auto
qed

lemma mask_hidden_extraction:
  assumes "viewer \<notin> set ROLES_THAT_SEE_PERSONAL_DATA_UNMASKED"
  shows "mask_extraction_for_role sg bs uri (hide_extraction x) viewer = mask_extraction_for_role sg bs uri x viewer"
  using assms
  by (cases "is_personal_data (ex_field_name x)")
     (simp_all add: mask_extraction_for_role_def Let_def mask_apply_hidden mask_apply_shown hide_extraction_def
       option.map_comp comp_def)

lemma assembled_redacted:
  "assembled g (redacted w) = map (\<lambda>(uri, x). (uri, hide_extraction x)) (assembled g w)"
proof -
  have "List.map_filter (\<lambda>i. map_option (\<lambda>x. (f x, x)) (map_option hide_extraction (h i))) is =
      map (\<lambda>(uri, x). (uri, hide_extraction x)) (List.map_filter (\<lambda>i. map_option (\<lambda>x. (f x, x)) (h i)) is)"
    if "\<And>x. f (hide_extraction x) = f x" for f :: "extraction \<Rightarrow> string option" and h "is"
    by (induction "is") (auto simp: List.map_filter_simps that split: option.split)
  note hidden = this
  show ?thesis
    by (simp add: assembled_def redacted_def Let_def get_by_map, rule hidden) simp
qed

lemma history_redacted:
  assumes "viewer \<notin> set ROLES_THAT_SEE_PERSONAL_DATA_UNMASKED"
    and "get_by ex_id (co_extraction_id c) (extractions w) = Some x"
  shows "mask_edit_history_entry (history_entry (hide_correction w c)) (ex_field_name x) viewer =
    mask_edit_history_entry (history_entry c) (ex_field_name x) viewer"
  using assms
  by (cases "is_personal_data (ex_field_name x)")
     (simp_all add: mask_edit_history_entry_def Let_def mask_apply_hidden mask_apply_shown hide_correction_def
       personal_extraction_def history_entry_def option.map_comp comp_def)

lemma redacted_fields [simp]:
  "records (redacted w) = records w" "record_assemblies (redacted w) = record_assemblies w"
  "pages (redacted w) = pages w" "field_provenances (redacted w) = field_provenances w"
  "extractions (redacted w) = map hide_extraction (extractions w)"
  "corrections (redacted w) = map (hide_correction w) (corrections w)"
  by (simp_all add: redacted_def)

lemma get_record_redacted:
  assumes "id_roles i \<noteq> []"
  shows "fst (get_record sg bs g v i (begin_session (redacted w))) = fst (get_record sg bs g v i (begin_session w))"
  using mask_hidden_extraction [OF viewer_masked [OF assms]]
  by (simp add: get_record_def begin_session_def requested_version_def latest_version_def assembled_redacted
      build_masked_record_view_def comp_def split_beta split: option.split)

lemma get_provenance_redacted:
  assumes "id_roles i \<noteq> []"
  shows "fst (get_provenance xid i (begin_session (redacted w))) = fst (get_provenance xid i (begin_session w))"
proof (cases "get_by ex_id xid (extractions w)")
  case None
  then show ?thesis by (simp add: get_provenance_def resolve_provenance_def begin_session_def get_by_map)
next
  case (Some x)
  let ?h = "\<lambda>c. mask_edit_history_entry (history_entry c) (ex_field_name x) (primary_role i)"
  let ?rows = "rows_by co_created_at (\<lambda>c. co_extraction_id c = xid) (corrections w)"
  have "?h (hide_correction w c) = ?h c" if "c \<in> set ?rows" for c
    using history_redacted [OF viewer_masked [OF assms], of c w x] that Some by simp
  then have "map ?h (map (hide_correction w) ?rows) = map ?h ?rows" by simp
  then show ?thesis
    using Some by (simp add: get_provenance_def resolve_provenance_def begin_session_def get_by_map rows_by_map
        comp_def Let_def split: sum.split) (simp add: original_bbox_for_def)
qed

lemma hide_correction_cong: "extractions v = extractions w \<Longrightarrow> hide_correction v = hide_correction w"
  by (simp add: fun_eq_iff hide_correction_def personal_extraction_def)

lemma audited_redacted: "audited E c (redacted w) = redacted (audited E c w)"
proof -
  have "fst (chain_append E c (redacted w)) = fst (chain_append E c w)"
    by (simp add: chain_append_def world_defs redacted_def Let_def)
  then show ?thesis
    using hide_correction_cong [of "audited E c w" w] by (simp add: audited_eq redacted_def)
qed

lemma guarded_redacted:
  assumes "\<And>i w. id_roles i \<noteq> [] \<Longrightarrow> fst (call i (begin_session (redacted w))) = fst (call i (begin_session w))"
  shows "fst (guarded E provider p x call (redacted w)) = fst (guarded E provider p x call w)"
proof (cases "get_identity provider x")
  case (Inr i)
  have "id_roles i \<noteq> []" if "identity_has i p" using that by (auto simp: identity_has_def)
  with assms [of i] Inr show ?thesis
    by (simp add: guarded_def require_permission_def Let_def session_defs record_permission_check_def audited_redacted
        split_beta)
qed (simp add: guarded_def require_permission_def)

lemma has_permission_iff: "has_permission r RECORD_READ_UNMASKED \<longleftrightarrow> r = AUDITOR"
  by (cases r) (simp_all add: has_permission_def)

section \<open>Properties\<close>

text \<open>C8. Masked reads do not depend on personal data. Whoever asks, a request for a record and one for
  the provenance of a field answer the same on a database and on that database with every
  personal value overwritten: in extractions and in the history of corrections alike.\<close>

theorem masked_reads_hide_personal_data:
  "fst (guarded E provider RECORD_READ_MASKED x (get_record sg bs g v) (redacted w)) =
     fst (guarded E provider RECORD_READ_MASKED x (get_record sg bs g v) w) \<and>
   fst (guarded E provider PROVENANCE_READ x (get_provenance xid) (redacted w)) =
     fst (guarded E provider PROVENANCE_READ x (get_provenance xid) w)"
  using guarded_redacted [where call = "get_record sg bs g v", OF get_record_redacted]
    guarded_redacted [where call = "get_provenance xid", OF get_provenance_redacted] by blast

text \<open>C22. An unmasked read is authorised and on the record. When a request for an unmasked field is
  answered, the caller holds the auditor role, the purpose is not blank, and exactly two entries
  were committed: the permission check and the read, with the caller, the field's identity and the
  purpose. When it is refused, nothing but a permission check was committed.\<close>

theorem unmasked_read_on_record:
  assumes "guarded E provider RECORD_READ_UNMASKED x (unmasked_read_route E sg bs xid rid v purpose) w = (res, w')"
  shows "case res of
      Inr f \<Rightarrow> (\<exists>i e1 e2. get_identity provider x = Inr i \<and> AUDITOR \<in> set (id_roles i) \<and> strip purpose \<noteq> [] \<and>
        audit_entries w' = audit_entries w @ [e1, e2] \<and> ae_actor e1 = id_actor i \<and> ae_action e1 = ''rbac.checked'' \<and>
        ae_actor e2 = id_actor i \<and> ae_action e2 = ''field.unmasked_read'' \<and> ae_purpose e2 = Some purpose \<and>
        ae_subject e2 = Some (field_identity rid v (uf_field_name f)))
    | Inl err \<Rightarrow> audit_entries w' = audit_entries w \<or>
        (\<exists>e. audit_entries w' = audit_entries w @ [e] \<and> ae_action e \<in> {''rbac.checked'', ''rbac.denied''})"
  using assms
proof (cases rule: guarded_cases)
  case (unknown err)
  then show ?thesis by (simp add: rolled_back_def)
next
  case (denied i)
  then show ?thesis by (simp add: rolled_back_def record_permission_check_def audited_entries Let_def audit_call_def)
next
  case (allowed i s)
  let ?v = "record_permission_check E (id_actor i) (permission_value RECORD_READ_UNMASKED) True w"
  have aud: "AUDITOR \<in> set (id_roles i)"
    using allowed(2) by (auto simp: identity_has_def has_permission_iff list_ex_iff)
  obtain e1 where e1: "audit_entries ?v = audit_entries w @ [e1]" "ae_actor e1 = id_actor i" "ae_action e1 = ''rbac.checked''"
    by (simp add: record_permission_check_def audited_entries audit_call_def)
  obtain rres w2 where r: "read_unmasked_field E sg bs xid (id_actor i) purpose rid v ?v = (rres, w2)" by fastforce
  show ?thesis
  proof (cases rres)
    case (Inl err)
    then have "res = Inl (HTTPException (unmasked_read_status err))" "audit_entries w' = audit_entries ?v"
      using allowed(3,4) r by (auto simp: unmasked_read_route_def route_result_of_def session_defs)
    then show ?thesis using e1 by simp
  next
    case (Inr f)
    then have "res = Inr f" "audit_entries w' = audit_entries w2"
      using allowed(3,4) r by (auto simp: unmasked_read_route_def route_result_of_def session_defs)
    moreover have "strip purpose \<noteq> [] \<and> (\<exists>e2. audit_entries w2 = audit_entries ?v @ [e2] \<and> ae_actor e2 = id_actor i \<and>
        ae_action e2 = ''field.unmasked_read'' \<and> ae_purpose e2 = Some purpose \<and>
        ae_subject e2 = Some (field_identity rid v (uf_field_name f)))"
      using r Inr by (auto simp: read_unmasked_field_def Let_def record_unmasked_read_def audited_entries audit_call_def
          split: if_splits option.splits)
    ultimately show ?thesis using allowed(1) aud e1 by auto
  qed
qed

theorem unmasked_read_on_record_witness:
  "\<exists>f w' e1 e2. guarded demo_env default_mock_identity_provider RECORD_READ_UNMASKED ''auditor1''
      (unmasked_read_route demo_env (\<lambda>k t. k) (\<lambda>_. ''box'') ''x1'' ''r'' 1 ''complaint'') demo_decision_db = (Inr f, w') \<and>
    audit_entries w' = [e1, e2] \<and> ae_action e2 = ''field.unmasked_read''"
proof -
  have purpose: "strip ''complaint'' \<noteq> []" by code_simp
  have auditor: "get_identity default_mock_identity_provider ''auditor1'' = Inr \<lparr>id_actor = ''auditor1'', id_roles = [AUDITOR]\<rparr>"
    by (simp add: get_identity_def default_mock_identity_provider_def mock_resolve_def)
  obtain f w' where g: "guarded demo_env default_mock_identity_provider RECORD_READ_UNMASKED ''auditor1''
      (unmasked_read_route demo_env (\<lambda>k t. k) (\<lambda>_. ''box'') ''x1'' ''r'' 1 ''complaint'') demo_decision_db = (Inr f, w')"
    by (simp add: guarded_def require_permission_def auditor identity_has_def has_permission_iff Let_def session_defs
        unmasked_read_route_def route_result_of_def read_unmasked_field_def purpose get_by_def record_permission_check_def)
  from unmasked_read_on_record [OF g] show ?thesis using g by auto
qed

end
