(* ===== verification/Triage.thy ===== *)
theory Triage
  imports Audit_Log
begin

text \<open>
  Triage routing: the lanes of a page, the registry client that names the active models,
  \<open>route_page\<close> (\<open>backend/domain/triage.py\<close>, \<open>model_registry_client.py\<close>) and the worker that
  calls it for a message of \<open>TRIAGE_QUEUE\<close> (\<open>backend/workers/triage_router.py\<close>). The registry
  itself is another service: a function from a module to what its HTTP endpoint answers.
\<close>

section \<open>Lanes\<close>

definition lane_for :: "string option \<Rightarrow> string option \<Rightarrow> string list" where
  "lane_for doc_type page_role =
     (if page_role = Some ''blank'' then []
      else (if page_role \<in> {Some ''text'', Some ''tabular_register'', Some ''endorsement''}
            then [''TEXT_QUEUE''] else [])
         @ (if page_role = Some ''map_sheet'' \<or> doc_type \<in> {Some ''cadastral_map'', Some ''fmb_sketch''}
            then [''MAP_QUEUE''] else []))"

section \<open>The registry client\<close>

datatype http_reply =
    Unreachable
  | Http_Reply (http_status: nat) (http_model_version: "string option")

definition MODULE_TO_ENVELOPE_KEY :: "(string \<times> string) list" where
  "MODULE_TO_ENVELOPE_KEY =
     [(''printed_ocr'', ''printed_ocr''), (''hwr'', ''hwr''), (''calibrator'', ''confidence_calibrator''),
      (''novelty_detector'', ''novelty_detector''), (''triage_classifier'', ''triage_classifier'')]"

fun resolve_modules ::
  "(string \<Rightarrow> http_reply) \<Rightarrow> (string \<times> string) list \<Rightarrow> (string \<times> string) list \<Rightarrow> exn + (string \<times> string) list"
where
  "resolve_modules registry [] resolved = Inr resolved"
| "resolve_modules registry ((name, envelope_key) # ms) resolved =
     (case registry name of
        Unreachable \<Rightarrow> Inl (ModelRegistryResolutionError name)
      | Http_Reply status version \<Rightarrow>
          if status \<noteq> 200 then Inl (ModelRegistryResolutionError name)
          else if \<not> truthy version then Inl (ModelRegistryResolutionError name)
          else resolve_modules registry ms (resolved @ [(envelope_key, or_empty version)]))"

definition resolve_active_model_versions :: "(string \<Rightarrow> http_reply) \<Rightarrow> exn + (string \<times> string) list" where
  "resolve_active_model_versions registry = resolve_modules registry MODULE_TO_ENVELOPE_KEY []"

section \<open>Routing a page\<close>

fun enqueue_lanes ::
  "env \<Rightarrow> string \<Rightarrow> string \<Rightarrow> string option \<Rightarrow> string option \<Rightarrow> work_envelope \<Rightarrow> string list \<Rightarrow> db \<Rightarrow> db"
where
  "enqueue_lanes E document_id page_id doc_type page_role envelope [] w = w"
| "enqueue_lanes E document_id page_id doc_type page_role envelope (queue_name # lanes) w =
     (let (msg, w) = emit E queue_name ''triage''
                       (Lane_Payload document_id page_id doc_type page_role) (Some envelope)
                       (trace_id_for document_id page_id) w;
          (row, w) = outbox_write E queue_name (Emitted msg) w
      in enqueue_lanes E document_id page_id doc_type page_role envelope lanes w)"

definition route_page ::
  "env \<Rightarrow> (string \<Rightarrow> http_reply) \<Rightarrow> work_envelope option \<Rightarrow> string \<Rightarrow> string \<Rightarrow> string option
    \<Rightarrow> string option \<Rightarrow> string \<Rightarrow> db \<Rightarrow> (exn + work_envelope \<times> string list) \<times> db"
where
  "route_page E registry winner document_id page_id doc_type page_role config_version w =
     (let lanes = lane_for doc_type page_role;
          enqueue = (\<lambda>envelope w. (Inr (envelope, lanes),
                       enqueue_lanes E document_id page_id doc_type page_role envelope lanes w))
      in case find_by_page page_id w of
           Inl err \<Rightarrow> (Inl err, w)
         | Inr (Some envelope) \<Rightarrow> enqueue envelope w
         | Inr None \<Rightarrow>
             (case resolve_active_model_versions registry of
                Inl err \<Rightarrow> (Inl err, w)
              | Inr versions \<Rightarrow>
                  (case pin E winner document_id page_id versions config_version w of
                     (Inl err, w) \<Rightarrow> (Inl err, w)
                   | (Inr envelope, w) \<Rightarrow> enqueue envelope w)))"

definition triage_handle ::
  "env \<Rightarrow> (string \<Rightarrow> http_reply) \<Rightarrow> work_envelope option \<Rightarrow> message \<Rightarrow> db \<Rightarrow> (exn + string \<times> string list) \<times> db"
where
  "triage_handle E registry winner message w =
     (case message of
        Emitted m \<Rightarrow>
          (case em_payload m of
             Page_Payload page_id document_id i doc_type page_role config_version \<Rightarrow>
               (case route_page E registry winner document_id page_id doc_type page_role
                       (case config_version of None \<Rightarrow> ''unversioned'' | Some v \<Rightarrow> v) w of
                  (Inl err, w) \<Rightarrow> (Inl err, w)
                | (Inr (envelope, queued), w) \<Rightarrow> (Inr (we_envelope_id envelope, queued), w))
           | Ingestion_Payload d s mime \<Rightarrow> (Inl (KeyError ''id''), w)
           | Lane_Payload d p dt pr \<Rightarrow> (Inl (KeyError ''id''), w)
           | Decision_Payload eid ro cc nc \<Rightarrow> (Inl (KeyError ''document_id''), w))
      | Config_Event s k v \<Rightarrow> (Inl (KeyError ''payload''), w))"

section \<open>Lemmas\<close>

lemma resolve_modules_keys:
  "resolve_modules registry ms resolved = Inr versions \<Longrightarrow> map fst versions = map fst resolved @ map snd ms"
  by (induction registry ms resolved arbitrary: versions rule: resolve_modules.induct)
     (auto split: http_reply.splits if_splits)

lemma resolved_versions_complete:
  assumes "resolve_active_model_versions registry = Inr versions"
  shows "set (map fst versions) = set REQUIRED_MODEL_KEYS"
proof -
  have "map fst versions = map snd MODULE_TO_ENVELOPE_KEY"
    using resolve_modules_keys assms by (fastforce simp: resolve_active_model_versions_def)
  then show ?thesis by (auto simp: MODULE_TO_ENVELOPE_KEY_def REQUIRED_MODEL_KEYS_def)
qed

lemma complete_keys:
  "set (map fst mv) = set REQUIRED_MODEL_KEYS \<Longrightarrow> missing_keys mv = [] \<and> extra_keys mv = []"
  by (auto simp: missing_keys_def extra_keys_def filter_empty_conv)

definition lane_message :: "string \<Rightarrow> string \<Rightarrow> string option \<Rightarrow> string option \<Rightarrow> work_envelope \<Rightarrow> string
    \<Rightarrow> message outbox_message \<Rightarrow> bool" where
  \<comment> \<open>an undispatched outbox row for lane \<open>q\<close>, carrying the page and its envelope\<close>
  "lane_message document_id page_id doc_type page_role envelope q row \<longleftrightarrow>
     ob_queue row = q \<and> \<not> ob_dispatched row \<and>
     (\<exists>m. ob_envelope row = Emitted m \<and> em_work_envelope m = Some envelope \<and> em_queue m = q \<and>
        em_trace_id m = trace_id_for document_id page_id \<and>
        em_payload m = Lane_Payload document_id page_id doc_type page_role)"

lemma enqueue_lanes_effect:
  "\<exists>rows. outbox (enqueue_lanes E d p dt pr envelope lanes w) = outbox w @ rows \<and>
     list_all2 (lane_message d p dt pr envelope) lanes rows \<and>
     audit_entries (enqueue_lanes E d p dt pr envelope lanes w) = audit_entries w \<and>
     work_envelopes (enqueue_lanes E d p dt pr envelope lanes w) = work_envelopes w \<and>
     clock_reads w \<le> clock_reads (enqueue_lanes E d p dt pr envelope lanes w)"
proof (induction lanes arbitrary: w)
  case Nil
  then show ?case by simp
next
  case (Cons q lanes)
  obtain m w1 where m: "emit E q ''triage'' (Lane_Payload d p dt pr) (Some envelope) (trace_id_for d p) w = (m, w1)"
    by fastforce
  obtain row w2 where row: "outbox_write E q (Emitted m) w1 = (row, w2)" by fastforce
  have w1: "outbox w1 = outbox w" "audit_entries w1 = audit_entries w" "work_envelopes w1 = work_envelopes w"
    "clock_reads w \<le> clock_reads w1"
    using m by (auto simp: emit_def world_defs)
  have w2: "outbox w2 = outbox w1 @ [row]" "audit_entries w2 = audit_entries w1"
    "work_envelopes w2 = work_envelopes w1" "clock_reads w1 \<le> clock_reads w2"
    using row by (auto simp: outbox_write_def world_defs)
  have "lane_message d p dt pr envelope q row"
    using m row by (auto simp: lane_message_def emit_def outbox_write_def world_defs)
  moreover have "enqueue_lanes E d p dt pr envelope (q # lanes) w = enqueue_lanes E d p dt pr envelope lanes w2"
    by (simp add: m row)
  ultimately show ?case
    using Cons.IH [of w2] w1 w2 by (metis append.assoc append_Cons append_Nil list_all2_Cons order_trans)
qed

lemma route_page_replay:
  assumes "find_by_page page_id w = Inr (Some e)"
  shows "route_page E registry winner d page_id dt pr cv w =
    (Inr (e, lane_for dt pr), enqueue_lanes E d page_id dt pr e (lane_for dt pr) w)"
  using assms by (simp add: route_page_def Let_def)

lemma route_page_fresh:
  assumes "find_by_page page_id w = Inr None"
    and "route_page E registry winner d page_id dt pr cv w = (Inr (e, queued), w')"
  shows "\<exists>versions v. pin E winner d page_id versions cv w = (Inr e, v) \<and> queued = lane_for dt pr \<and>
    w' = enqueue_lanes E d page_id dt pr e (lane_for dt pr) v"
proof (cases "resolve_active_model_versions registry")
  case (Inl err)
  then show ?thesis using assms by (simp add: route_page_def)
next
  case (Inr versions)
  obtain res v where p: "pin E winner d page_id versions cv w = (res, v)" by fastforce
  then show ?thesis using assms Inr by (cases res) (auto simp: route_page_def Let_def)
qed

lemma route_page_logged: "logged E w (snd (route_page E registry winner d p dt pr cv w))"
proof -
  have enq: "logged E v (enqueue_lanes E d p dt pr e lanes v)" for e lanes v
    using enqueue_lanes_effect [of E d p dt pr e lanes v] by (auto intro: logged_quiet)
  show ?thesis
    using enq pin_logged [of E w winner d p]
    by (auto simp: route_page_def Let_def split: sum.splits option.splits prod.splits)
       (metis logged_trans snd_conv)+
qed

section \<open>Properties\<close>

text \<open>C15. Triage pins once and routes by the pinned envelope. When \<open>route_page\<close> succeeds on a database
  with one envelope per page, the page has that one envelope afterwards, naming a version for each
  of the five models if it is new; the outbox gains one message per lane of the page, in order,
  each carrying that envelope; the audit log is untouched; and when the same page is routed
  again (a redelivery, after any promotion of models), the same envelope is used, whatever the
  registry would answer now.\<close>

theorem triage_pins_once:
  assumes "one_per_page w" and "\<forall>e. winner = Some e \<longrightarrow> we_page_id e = page_id"
    and "route_page E registry winner d page_id dt pr cv w = (Inr (e, queued), w')"
  shows "one_per_page w' \<and> find_by_page page_id w' = Inr (Some e) \<and> queued = lane_for dt pr \<and>
    (\<exists>rows. outbox w' = outbox w @ rows \<and> list_all2 (lane_message d page_id dt pr e) queued rows) \<and>
    audit_entries w' = audit_entries w \<and>
    (\<forall>registry'. \<exists>w''. route_page E registry' winner' d' page_id dt' pr' cv' w' = (Inr (e, lane_for dt' pr'), w'') \<and>
       work_envelopes w'' = work_envelopes w')"
proof -
  obtain v where v: "one_per_page v" "find_by_page page_id v = Inr (Some e)" "outbox v = outbox w"
      "audit_entries v = audit_entries w"
    and w': "w' = enqueue_lanes E d page_id dt pr e (lane_for dt pr) v" and q: "queued = lane_for dt pr"
  proof (cases "get_by we_page_id page_id (work_envelopes w)")
    case (Some x)
    then have f: "find_by_page page_id w = Inr (Some x)" using find_by_page_get [OF assms(1)] by simp
    have "e = x" "queued = lane_for dt pr" "w' = enqueue_lanes E d page_id dt pr x (lane_for dt pr) w"
      using assms(3) unfolding route_page_replay [OF f] by auto
    then show ?thesis using that [OF assms(1)] f by blast
  next
    case None
    then have f: "find_by_page page_id w = Inr None" using find_by_page_get [OF assms(1)] by simp
    from route_page_fresh [OF f assms(3)] obtain versions v where
      p: "pin E winner d page_id versions cv w = (Inr e, v)"
      and w': "w' = enqueue_lanes E d page_id dt pr e (lane_for dt pr) v" "queued = lane_for dt pr"
      by blast
    note fresh = pin_fresh [OF assms(1,2) p]
    show ?thesis
      by (rule that [OF fresh [THEN conjunct1] fresh [THEN conjunct2, THEN conjunct2]
            pin_envelopes(3) [OF p] pin_envelopes(2) [OF p] w'])
  qed
  note enq = enqueue_lanes_effect [of E d page_id dt pr e "lane_for dt pr" v, folded w']
  have we: "work_envelopes w' = work_envelopes v" using enq by blast
  then have f': "find_by_page page_id w' = Inr (Some e)" and one: "one_per_page w'"
    using v(1,2) by (simp_all add: find_by_page_def one_per_page_def)
  have "\<exists>w''. route_page E registry' winner' d' page_id dt' pr' cv' w' = (Inr (e, lane_for dt' pr'), w'') \<and>
       work_envelopes w'' = work_envelopes w'" for registry'
    using route_page_replay [OF f', of E registry' winner' d' dt' pr' cv']
      enqueue_lanes_effect [of E d' page_id dt' pr' e "lane_for dt' pr'" w'] by auto
  moreover have "audit_entries w' = audit_entries w" using enq v(4) by auto
  moreover obtain rows where "outbox w' = outbox w @ rows" "list_all2 (lane_message d page_id dt pr e) queued rows"
    using enq v(3) q by metis
  ultimately show ?thesis using f' one q by blast
qed

definition demo_registry :: "string \<Rightarrow> http_reply" where
  "demo_registry m = Http_Reply 200 (Some ''v1'')"

lemma demo_route:
  "\<exists>e queued w'. route_page demo_env demo_registry None d p doc_type page_role cv empty_db = (Inr (e, queued), w')"
proof -
  obtain versions where r: "resolve_active_model_versions demo_registry = Inr versions"
    by (simp add: resolve_active_model_versions_def MODULE_TO_ENVELOPE_KEY_def demo_registry_def)
  note k = complete_keys [OF resolved_versions_complete [OF r]]
  show ?thesis
    using r k by (simp add: route_page_def Let_def find_by_page_def empty_db_def pin_def world_defs)
qed

theorem triage_pins_once_witness:
  "\<exists>e. \<exists>w' :: db. find_by_page ''page'' w' = Inr (Some e) \<and>
     (\<exists>rows. outbox w' = outbox empty_db @ rows \<and>
        list_all2 (lane_message ''doc'' ''page'' (Some ''fmb_sketch'') (Some ''text'') e) [''TEXT_QUEUE'', ''MAP_QUEUE''] rows)"
proof -
  obtain e queued w' where r: "route_page demo_env demo_registry None ''doc'' ''page'' (Some ''fmb_sketch'') (Some ''text'')
      ''cfg'' empty_db = (Inr (e, queued), w')" using demo_route by blast
  have "one_per_page empty_db" by (simp add: one_per_page_def empty_db_def)
  note all = triage_pins_once [OF this _ r, simplified]
  then have "find_by_page ''page'' w' = Inr (Some e)" by blast
  moreover have "queued = [''TEXT_QUEUE'', ''MAP_QUEUE'']" using all by (simp add: lane_for_def)
  ultimately show ?thesis using all by blast
qed

text \<open>An unresolvable model stops the page. If the registry cannot be reached, or answers for any
  of the five modules with a status other than 200 or without a version, the page is not pinned
  and not queued: an error is raised and the database is unchanged.\<close>

lemma triage_needs_all_models:
  assumes "find_by_page page_id w = Inr None" and "name \<in> fst ` set MODULE_TO_ENVELOPE_KEY"
    and "registry name = Unreachable \<or>
      (\<exists>status v. registry name = Http_Reply status v \<and> (status \<noteq> 200 \<or> \<not> truthy v))"
  shows "\<exists>bad. route_page E registry winner d page_id dt pr cv w = (Inl (ModelRegistryResolutionError bad), w)"
proof -
  have "\<exists>bad. resolve_modules registry ms acc = Inl (ModelRegistryResolutionError bad)"
    if "name \<in> fst ` set ms" for ms acc
    using that assms(3)
    by (induction registry ms acc rule: resolve_modules.induct)
       (auto split: http_reply.splits if_splits)
  from this [OF assms(2), of "[]"] obtain bad where
    "resolve_active_model_versions registry = Inl (ModelRegistryResolutionError bad)"
    by (auto simp: resolve_active_model_versions_def)
  then show ?thesis by (simp add: route_page_def assms(1))
qed

lemma triage_needs_all_models_witness:
  "\<exists>bad. route_page demo_env (demo_registry(''hwr'' := Http_Reply 404 None)) None ''doc'' ''page'' None None ''cfg'' empty_db
     = (Inl (ModelRegistryResolutionError bad), empty_db)"
  by (rule triage_needs_all_models [where name = "''hwr''"])
     (simp_all add: find_by_page_def empty_db_def MODULE_TO_ENVELOPE_KEY_def)

end
