(* ===== verification/Config.thy ===== *)
theory Config
  imports Access Queue Triage
begin

text \<open>
  Configuration: the versions (\<open>backend/domain/config_versions.py\<close>) with the routes over them
  (\<open>api/config_service.py\<close>), the caching client every service reads them through
  (\<open>landconfigclient/client.py\<close>, \<open>subscriber.py\<close>), and the closed sets that are found through it
  (\<open>domain/closed_sets.py\<close>, \<open>closed_set_loaders.py\<close>). The unique key of the table and the triggers on
  it are those of \<open>infra/migrations/versions/0006\<close> and \<open>0008\<close>.
\<close>

section \<open>Versions\<close>

definition get_effective_config :: "string \<Rightarrow> string \<Rightarrow> timestamp \<Rightarrow> 'a db_scheme \<Rightarrow> exn + config_version" where
  "get_effective_config scope key as_of w =
     (case latest_by cv_effective_from
             (\<lambda>r. cv_scope r = scope \<and> cv_key r = key \<and> cv_effective_from r \<le> as_of) (config_versions w) of
        None \<Rightarrow> Inl (ConfigNotFound scope key) | Some row \<Rightarrow> Inr row)"

definition get_pinned_config :: "string \<Rightarrow> string \<Rightarrow> string \<Rightarrow> 'a db_scheme \<Rightarrow> exn + config_version" where
  "get_pinned_config scope key config_version w =
     (case get_by cv_id config_version (config_versions w) of
        None \<Rightarrow> Inl (ConfigNotFound scope key)
      | Some row \<Rightarrow> if cv_scope row \<noteq> scope \<or> cv_key row \<noteq> key then Inl (ConfigNotFound scope key) else Inr row)"

record config_response =
  cfr_key :: string
  cfr_value :: string
  cfr_config_version :: string
  cfr_effective_from :: string

definition as_response :: "config_version \<Rightarrow> config_response" where
  "as_response row = \<lparr>cfr_key = cv_key row, cfr_value = cv_value row, cfr_config_version = cv_id row,
     cfr_effective_from = isoformat (cv_effective_from row)\<rparr>"

definition build_version_change_event :: "config_version \<Rightarrow> message" where
  "build_version_change_event row = Config_Event (cv_scope row) (cv_key row) (cv_id row)"

definition CONFIG_QUEUE_NAME :: string where
  "CONFIG_QUEUE_NAME = ''config-version-events''"

definition publish_version_change_event :: "env \<Rightarrow> config_version \<Rightarrow> 'a db_scheme \<Rightarrow> 'a db_scheme" where
  "publish_version_change_event E row w =
     snd (outbox_write E CONFIG_QUEUE_NAME (build_version_change_event row) w)"

definition prior_head :: "string \<Rightarrow> string \<Rightarrow> 'a db_scheme \<Rightarrow> config_version option" where
  "prior_head scope key w =
     latest_by cv_effective_from (\<lambda>r. cv_scope r = scope \<and> cv_key r = key \<and> cv_superseded_by r = None) (config_versions w)"

definition config_insert_rejected :: "config_version \<Rightarrow> 'a db_scheme \<Rightarrow> bool" where
  \<comment> \<open>the \<open>CHECK\<close> constraints and \<open>uq_config_version_scope_key_effective_from\<close>\<close>
  "config_insert_rejected row w \<longleftrightarrow> \<not> config_version_ck row \<or>
     list_ex (\<lambda>r. cv_scope r = cv_scope row \<and> cv_key r = cv_key row \<and> cv_effective_from r = cv_effective_from row)
       (config_versions w)"

definition mark_superseded :: "config_version option \<Rightarrow> string \<Rightarrow> 'a db_scheme \<Rightarrow> 'a db_scheme" where
  \<comment> \<open>\<open>prior_head.superseded_by = new_row.id\<close>\<close>
  "mark_superseded prior cid w =
     (case prior of None \<Rightarrow> w
      | Some p \<Rightarrow> w\<lparr>config_versions :=
          set_by cv_id (cv_id p) (cv_superseded_by_update (\<lambda>_. Some cid)) (config_versions w)\<rparr>)"

definition write_config_version ::
  "env \<Rightarrow> string \<Rightarrow> string \<Rightarrow> string \<Rightarrow> timestamp \<Rightarrow> string \<Rightarrow> string \<Rightarrow> 'a db_scheme \<Rightarrow> (exn + config_version) \<times> 'a db_scheme"
where
  "write_config_version E scope key val effective_from author approver w =
     (if author = approver then (Inl (AuthorEqualsApprover author), w)
      else
        (let prior = prior_head scope key w;
             (cid, w) = draw_uuid E w;
             row = \<lparr>cv_id = cid, cv_scope = scope, cv_key = key, cv_value = val, cv_effective_from = effective_from,
                    cv_author = author, cv_approver = approver, cv_superseded_by = None\<rparr>
         in if config_insert_rejected row w then (Inl (IntegrityError ''config_version''), w)
            else
              (let w = w\<lparr>config_versions := config_versions w @ [row]\<rparr>;
                   w = mark_superseded prior cid w;
                   w = record_config_version_write E cid scope key author approver w
               in (Inr row, publish_version_change_event E row w))))"

definition get_config ::
  "env \<Rightarrow> string \<Rightarrow> string \<Rightarrow> string option \<Rightarrow> 'a db_scheme session \<Rightarrow> (exn + config_response) \<times> 'a db_scheme session" where
  "get_config E scope key config_version s =
     (let (found, s) =
        (case config_version of
           Some cv \<Rightarrow> (get_pinned_config scope key cv (current s), s)
         | None \<Rightarrow> (let (now, w) = read_clock E (current s)
                    in (get_effective_config scope key now w, s\<lparr>current := w\<rparr>)))
      in (case found of Inl err \<Rightarrow> Inl (HTTPException 404) | Inr row \<Rightarrow> Inr (as_response row), s))"

definition write_config ::
  "env \<Rightarrow> string \<Rightarrow> string \<Rightarrow> string \<Rightarrow> timestamp \<Rightarrow> string \<Rightarrow> identity \<Rightarrow> 'a db_scheme session
    \<Rightarrow> (exn + config_response) \<times> 'a db_scheme session"
where
  "write_config E scope key val effective_from approver i s =
     (case in_session (write_config_version E scope key val effective_from (id_actor i) approver) s of
        (Inl err, s) \<Rightarrow> (Inl (case err of AuthorEqualsApprover a \<Rightarrow> HTTPException 422 | _ \<Rightarrow> err), s)
      | (Inr row, s) \<Rightarrow> (Inr (as_response row), commit s))"

section \<open>The client\<close>

record config_client =
  cc_pinned_cache :: "string \<times> string \<times> string \<rightharpoonup> config_response"
  cc_effective_cache :: "string \<times> string \<rightharpoonup> config_response \<times> rat"

definition new_config_client :: config_client where
  "new_config_client = \<lparr>cc_pinned_cache = Map.empty, cc_effective_cache = Map.empty\<rparr>"

type_synonym fetch = "string \<Rightarrow> string \<Rightarrow> string option \<Rightarrow> exn + config_response"

definition get_pinned :: "fetch \<Rightarrow> string \<Rightarrow> string \<Rightarrow> string \<Rightarrow> config_client \<Rightarrow> (exn + config_response) \<times> config_client" where
  "get_pinned fetch scope key cv c =
     (case cc_pinned_cache c (scope, key, cv) of
        Some cached \<Rightarrow> (Inr cached, c)
      | None \<Rightarrow>
          (case fetch scope key (Some cv) of
             Inl err \<Rightarrow> (Inl err, c)
           | Inr val \<Rightarrow> (Inr val, c\<lparr>cc_pinned_cache := (cc_pinned_cache c)((scope, key, cv) \<mapsto> val)\<rparr>)))"

definition cache_expired :: "rat option \<Rightarrow> rat \<Rightarrow> rat \<Rightarrow> bool" where
  "cache_expired ttl_seconds clock cached_at =
     (case ttl_seconds of None \<Rightarrow> False | Some ttl \<Rightarrow> clock - cached_at \<ge> ttl)"

definition get_effective ::
  "fetch \<Rightarrow> rat option \<Rightarrow> rat \<times> rat \<Rightarrow> pinned_context \<Rightarrow> string \<Rightarrow> string \<Rightarrow> config_client
    \<Rightarrow> (exn + config_response) \<times> config_client"
where
  \<comment> \<open>the two readings of the monotonic clock: on looking at the entry and on storing one\<close>
  "get_effective fetch ttl_seconds clock ctx scope key c =
     (case guard_resolve_active (''config:'' @ scope @ ''.'' @ key) ctx of
        Inl err \<Rightarrow> (Inl err, c)
      | Inr _ \<Rightarrow>
          (let refetch =
             (case fetch scope key None of
                Inl err \<Rightarrow> (Inl err, c)
              | Inr val \<Rightarrow>
                  (Inr val,
                   \<lparr>cc_pinned_cache =
                      (if cc_pinned_cache c (scope, key, cfr_config_version val) = None
                       then (cc_pinned_cache c)((scope, key, cfr_config_version val) \<mapsto> val) else cc_pinned_cache c),
                    cc_effective_cache = (cc_effective_cache c)((scope, key) \<mapsto> (val, snd clock))\<rparr>))
           in case cc_effective_cache c (scope, key) of
                Some (val, cached_at) \<Rightarrow>
                  if \<not> cache_expired ttl_seconds (fst clock) cached_at then (Inr val, c) else refetch
              | None \<Rightarrow> refetch))"

definition client_get ::
  "fetch \<Rightarrow> rat option \<Rightarrow> rat \<times> rat \<Rightarrow> pinned_context \<Rightarrow> string \<Rightarrow> string \<Rightarrow> string option \<Rightarrow> config_client
    \<Rightarrow> (exn + config_response) \<times> config_client"
where
  "client_get fetch ttl_seconds clock ctx scope key config_version c =
     (case config_version of
        Some cv \<Rightarrow> get_pinned fetch scope key cv c
      | None \<Rightarrow> get_effective fetch ttl_seconds clock ctx scope key c)"

definition invalidate :: "string \<Rightarrow> string \<Rightarrow> config_client \<Rightarrow> config_client" where
  "invalidate scope key c = c\<lparr>cc_effective_cache := (cc_effective_cache c)((scope, key) := None)\<rparr>"

definition handle_version_change_event :: "message \<Rightarrow> config_client \<Rightarrow> exn + config_client" where
  "handle_version_change_event payload c =
     (case payload of
        Config_Event scope key cv \<Rightarrow> Inr (invalidate scope key c)
      | Emitted m \<Rightarrow> Inl (KeyError ''scope''))"

definition fetch_from_db :: "timestamp \<Rightarrow> 'a db_scheme \<Rightarrow> fetch" where
  "fetch_from_db now w scope key config_version =
     map_sum id as_response
       (case config_version of
          Some cv \<Rightarrow> get_pinned_config scope key cv w | None \<Rightarrow> get_effective_config scope key now w)"

fun apply_events ::
  "(string \<Rightarrow> string \<Rightarrow> string \<Rightarrow> 'q \<Rightarrow> 'q) \<Rightarrow> string \<Rightarrow> message queue_message list \<Rightarrow> config_client \<Rightarrow> 'q
    \<Rightarrow> exn option \<times> config_client \<times> 'q"
where
  "apply_events ack_op grp [] c q = (None, c, q)"
| "apply_events ack_op grp (m # ms) c q =
     (case handle_version_change_event (qm_data m) c of
        Inl err \<Rightarrow> (Some err, c, q)
      | Inr c \<Rightarrow> apply_events ack_op grp ms c (ack_op CONFIG_QUEUE_NAME grp (qm_sequence_id m) q))"

definition drain_events ::
  "(string \<Rightarrow> string \<Rightarrow> nat \<Rightarrow> nat \<Rightarrow> 'q \<Rightarrow> message queue_message list option \<times> 'q)
    \<Rightarrow> (string \<Rightarrow> string \<Rightarrow> string \<Rightarrow> 'q \<Rightarrow> 'q) \<Rightarrow> string \<Rightarrow> nat \<Rightarrow> nat \<Rightarrow> config_client \<Rightarrow> 'q
    \<Rightarrow> (exn + nat) option \<times> config_client \<times> 'q"
where
  \<comment> \<open>\<open>None\<close>: the broker waits for ever\<close>
  "drain_events consume_op ack_op grp count block_ms c q =
     (case consume_op CONFIG_QUEUE_NAME grp count block_ms q of
        (None, q) \<Rightarrow> (None, c, q)
      | (Some ms, q) \<Rightarrow>
          (case apply_events ack_op grp ms c q of
             (Some err, c, q) \<Rightarrow> (Some (Inl err), c, q)
           | (None, c, q) \<Rightarrow> (Some (Inr (length ms)), c, q)))"

section \<open>Closed sets\<close>

definition LAWFUL_PROVENANCES :: "string list" where
  "LAWFUL_PROVENANCES = [''schema'', ''lgd'']"

definition config_pointer :: "string \<Rightarrow> string option \<Rightarrow> string \<times> string" where
  "config_pointer typ district =
     (if truthy district then (''district'', ''closed_set.'' @ typ @ ''.'' @ or_empty district)
      else (''global'', ''closed_set.'' @ typ))"

datatype closed_set_error =
    ClosedSetTypeNotFound string
  | InconsistentClosedSetProvenance string
  | Client_Error exn

definition resolve_pointer ::
  "(string \<Rightarrow> string \<Rightarrow> config_client \<Rightarrow> (exn + config_response) \<times> config_client) \<Rightarrow> string \<Rightarrow> string option \<Rightarrow> config_client
    \<Rightarrow> (exn + string) \<times> config_client"
where
  "resolve_pointer get typ district c =
     (case config_pointer typ district of (scope, key) \<Rightarrow>
       (case get scope key c of (Inl err, c) \<Rightarrow> (Inl err, c) | (Inr r, c) \<Rightarrow> (Inr (cfr_config_version r), c)))"

definition is_config_not_found :: "exn \<Rightarrow> bool" where
  "is_config_not_found err = (case err of ConfigNotFound s k \<Rightarrow> True | _ \<Rightarrow> False)"

definition resolve_corpus_config_version ::
  "(string \<Rightarrow> string \<Rightarrow> config_client \<Rightarrow> (exn + config_response) \<times> config_client) \<Rightarrow> string \<Rightarrow> string option \<Rightarrow> config_client
    \<Rightarrow> (closed_set_error + string) \<times> config_client"
where
  "resolve_corpus_config_version get typ district c =
     (let global = (\<lambda>c. case resolve_pointer get typ None c of
            (Inl err, c) \<Rightarrow> (Inl (if is_config_not_found err then ClosedSetTypeNotFound typ else Client_Error err), c)
          | (Inr v, c) \<Rightarrow> (Inr v, c))
      in if truthy district then
           (case resolve_pointer get typ district c of
              (Inl err, c) \<Rightarrow> if is_config_not_found err then global c else (Inl (Client_Error err), c)
            | (Inr v, c) \<Rightarrow> (Inr v, c))
         else global c)"

record closed_set_response =
  cs_codes :: "string list"
  cs_source :: string
  cs_config_version :: string

definition corpus_rows :: "string \<Rightarrow> string option \<Rightarrow> string \<Rightarrow> 'a db_scheme \<Rightarrow> closed_set_entry list" where
  "corpus_rows typ district corpus_version w =
     rows_by ce_code
       (\<lambda>e. ce_type e = typ \<and> ce_config_version e = corpus_version \<and> ce_provenance e \<in> set LAWFUL_PROVENANCES \<and>
          (truthy district \<longrightarrow> ce_district e = district \<or> ce_district e = None))
       (closed_set_entries w)"

definition closed_set_of :: "string \<Rightarrow> string \<Rightarrow> closed_set_entry list \<Rightarrow> closed_set_error + closed_set_response" where
  "closed_set_of typ corpus_version rows =
     (let provenances = remdups (map ce_provenance rows)
      in if length provenances > 1 then Inl (InconsistentClosedSetProvenance typ)
         else Inr \<lparr>cs_codes = map ce_code rows, cs_source = (case provenances of [] \<Rightarrow> ''schema'' | p # _ \<Rightarrow> p),
                   cs_config_version = corpus_version\<rparr>)"

definition get_closed_set ::
  "(string \<Rightarrow> string \<Rightarrow> config_client \<Rightarrow> (exn + config_response) \<times> config_client) \<Rightarrow> string \<Rightarrow> string option \<Rightarrow> 'a db_scheme
    \<Rightarrow> config_client \<Rightarrow> (closed_set_error + closed_set_response) \<times> config_client"
where
  "get_closed_set get typ district w c =
     (case resolve_corpus_config_version get typ district c of
        (Inl err, c) \<Rightarrow> (Inl err, c)
      | (Inr v, c) \<Rightarrow> (closed_set_of typ v (corpus_rows typ district v w), c))"

definition get_closed_set_route where
  \<comment> \<open>the status a failure is answered with\<close>
  "get_closed_set_route get typ district w c =
     (case get_closed_set get typ district w c of
        (Inl err, c) \<Rightarrow> (Inl (case err of ClosedSetTypeNotFound t \<Rightarrow> 404 :: nat | _ \<Rightarrow> 500), c)
      | (Inr r, c) \<Rightarrow> (Inr r, c))"

section \<open>The loaders\<close>

definition loader_trigger :: "string option \<Rightarrow> closed_set_entry \<Rightarrow> bool" where
  \<comment> \<open>whether the trigger lets the row in under the transaction's setting\<close>
  "loader_trigger setting e \<longleftrightarrow>
     (ce_provenance e \<in> {''schema'', ''lgd''} \<longrightarrow> setting = Some (ce_provenance e))"

fun insert_entries ::
  "string option \<Rightarrow> closed_set_entry list \<Rightarrow> 'a db_scheme \<Rightarrow> (exn + unit) \<times> 'a db_scheme" where
  "insert_entries setting [] w = (Inr (), w)"
| "insert_entries setting (e # es) w =
     (if \<not> loader_trigger setting e \<or> \<not> closed_set_entry_ck e
      then (Inl (IntegrityError ''closed_set_entry''), w)
      else insert_entries setting es (w\<lparr>closed_set_entries := closed_set_entries w @ [e]\<rparr>))"

fun new_entries ::
  "env \<Rightarrow> string \<Rightarrow> string \<Rightarrow> string option \<Rightarrow> string \<Rightarrow> string \<Rightarrow> string list \<Rightarrow> 'a db_scheme
    \<Rightarrow> closed_set_entry list \<times> 'a db_scheme"
where
  "new_entries E typ cv district source prov [] w = ([], w)"
| "new_entries E typ cv district source prov (code # codes) w =
     (let (eid, w) = draw_uuid E w;
          e = \<lparr>ce_id = eid, ce_type = typ, ce_district = district, ce_code = code, ce_source = source,
               ce_provenance = prov, ce_config_version = cv\<rparr>;
          (es, w) = new_entries E typ cv district source prov codes w
      in (e # es, w))"

definition load_entries where
  \<comment> \<open>\<open>SET LOCAL\<close>, the rows, \<open>flush\<close>\<close>
  "load_entries E prov typ cv codes district source w =
     (let (es, w) = new_entries E typ cv district source prov codes w
      in case insert_entries (Some prov) es w of
           (Inl err, w) \<Rightarrow> (Inl err, w) | (Inr _, w) \<Rightarrow> (Inr es, w))"

definition load_schema_derived_entries ::
  "env \<Rightarrow> string \<Rightarrow> string \<Rightarrow> string list \<Rightarrow> string option \<Rightarrow> string \<Rightarrow> 'a db_scheme
    \<Rightarrow> (exn + closed_set_entry list) \<times> 'a db_scheme" where
  "load_schema_derived_entries E = load_entries E ''schema''"

definition load_lgd_derived_entries ::
  "env \<Rightarrow> string \<Rightarrow> string \<Rightarrow> string list \<Rightarrow> string option \<Rightarrow> string \<Rightarrow> 'a db_scheme
    \<Rightarrow> (exn + closed_set_entry list) \<times> 'a db_scheme" where
  "load_lgd_derived_entries E = load_entries E ''lgd''"

section \<open>What a write changes\<close>

text \<open>The part of a version that never changes, and the versions of a database in this part.\<close>

definition cv_content :: "config_version \<Rightarrow> config_version" where
  "cv_content r = r\<lparr>cv_superseded_by := None\<rparr>"

definition contents :: "'a db_scheme \<Rightarrow> config_version set" where
  "contents w = cv_content ` set (config_versions w)"

lemma cv_content_fields [simp]:
  "cv_id (cv_content r) = cv_id r" "cv_scope (cv_content r) = cv_scope r" "cv_key (cv_content r) = cv_key r"
  "cv_value (cv_content r) = cv_value r" "cv_effective_from (cv_content r) = cv_effective_from r"
  "cv_author (cv_content r) = cv_author r" "cv_approver (cv_content r) = cv_approver r"
  "as_response (cv_content r) = as_response r" "cv_content (r\<lparr>cv_superseded_by := x\<rparr>) = cv_content r"
  "config_version_ck (cv_content r) = config_version_ck r"
  by (simp_all add: cv_content_def as_response_def config_version_ck_def)

definition config_slot :: "config_version \<Rightarrow> string \<times> string \<times> timestamp" where
  "config_slot r = (cv_scope r, cv_key r, cv_effective_from r)"

definition config_inv :: "env \<Rightarrow> 'a db_scheme \<Rightarrow> bool" where
  \<comment> \<open>the constraints of the table; ids come from the generator\<close>
  "config_inv E w \<longleftrightarrow> list_all config_version_ck (config_versions w) \<and>
     distinct (map config_slot (config_versions w)) \<and> distinct (map cv_id (config_versions w)) \<and>
     set (map cv_id (config_versions w)) \<subseteq> uuid4 E ` {..<uuids_drawn w}"

lemma config_slot_content [simp]: "config_slot (cv_content r) = config_slot r"
  by (simp add: config_slot_def)

definition supersede :: "config_version option \<Rightarrow> string \<Rightarrow> config_version \<Rightarrow> config_version" where
  "supersede prior cid r =
     (case prior of None \<Rightarrow> r | Some p \<Rightarrow> if cv_id r = cv_id p then r\<lparr>cv_superseded_by := Some cid\<rparr> else r)"

lemma mark_superseded_eq: "mark_superseded prior cid w = w\<lparr>config_versions := map (supersede prior cid) (config_versions w)\<rparr>"
proof (cases prior)
  case None
  have "map (supersede None cid) rows = rows" for rows by (rule map_idI) (simp add: supersede_def)
  then show ?thesis using None by (simp add: mark_superseded_def)
qed (simp add: mark_superseded_def supersede_def set_by_def)

lemma supersede_content [simp]:
  "cv_content (supersede p c r) = cv_content r" "cv_id (supersede p c r) = cv_id r"
  "config_slot (supersede p c r) = config_slot r" "config_version_ck (supersede p c r) = config_version_ck r"
  by (auto simp: supersede_def config_slot_def config_version_ck_def split: option.split)

lemma publish_event_frame [simp]:
  "config_versions (publish_version_change_event E row w) = config_versions w"
  "audit_entries (publish_version_change_event E row w) = audit_entries w"
  "uuids_drawn (publish_version_change_event E row w) = Suc (uuids_drawn w)"
  by (simp_all add: publish_version_change_event_def outbox_write_def world_defs)

lemma write_config_version_cases:
  assumes "write_config_version E scope key val eff author approver w = (res, w')"
  obtains (rejected) err where "res = Inl err" "config_versions w' = config_versions w" "audit_entries w' = audit_entries w"
      "outbox w' = outbox w" "uuids_drawn w \<le> uuids_drawn w'"
  | (written) row where "res = Inr row" "row = \<lparr>cv_id = uuid4 E (uuids_drawn w), cv_scope = scope, cv_key = key,
        cv_value = val, cv_effective_from = eff, cv_author = author, cv_approver = approver, cv_superseded_by = None\<rparr>"
      "config_version_ck row" "config_slot row \<notin> config_slot ` set (config_versions w)"
      "config_versions w' = map (supersede (prior_head scope key w) (cv_id row)) (config_versions w @ [row])"
      "uuids_drawn w < uuids_drawn w'"
      "\<exists>e1 e2. audit_entries w' = audit_entries w @ [e1, e2] \<and> ae_actor e1 = author \<and> ae_actor e2 = approver"
      "\<exists>m. outbox w' = outbox w @ [m] \<and> ob_queue m = CONFIG_QUEUE_NAME \<and> ob_envelope m = Config_Event scope key (cv_id row)"
proof (cases "author = approver")
  case True
  then show thesis using assms by (intro rejected [of "AuthorEqualsApprover author"]) (auto simp: write_config_version_def)
next
  case False
  let ?cid = "uuid4 E (uuids_drawn w)"
  let ?row = "\<lparr>cv_id = ?cid, cv_scope = scope, cv_key = key, cv_value = val, cv_effective_from = eff,
    cv_author = author, cv_approver = approver, cv_superseded_by = None\<rparr>"
  let ?w1 = "snd (draw_uuid E w)"
  have w1: "config_versions ?w1 = config_versions w" "audit_entries ?w1 = audit_entries w" "outbox ?w1 = outbox w"
    "uuids_drawn ?w1 = Suc (uuids_drawn w)" by (simp_all add: draw_uuid_def)
  show thesis
  proof (cases "config_insert_rejected ?row ?w1")
    case True
    then show thesis using assms False w1
      by (intro rejected [of "IntegrityError ''config_version''"])
         (auto simp: write_config_version_def draw_uuid_def Let_def)
  next
    case ok: False
    let ?w2 = "?w1\<lparr>config_versions := map (supersede (prior_head scope key w) ?cid) (config_versions w @ [?row])\<rparr>"
    have res: "res = Inr ?row" "w' = publish_version_change_event E ?row
        (record_config_version_write E ?cid scope key author approver ?w2)"
      using assms False ok by (simp_all add: write_config_version_def draw_uuid_def Let_def mark_superseded_eq)
    show thesis
    proof (rule written [OF res(1) refl])
      show "config_version_ck ?row" "config_slot ?row \<notin> config_slot ` set (config_versions w)"
        using ok w1(1) by (auto simp: config_insert_rejected_def config_slot_def list_ex_iff)
      show "config_versions w' = map (supersede (prior_head scope key w) (cv_id ?row)) (config_versions w @ [?row])"
        by (simp add: res(2) record_config_version_write_def Let_def)
      show "uuids_drawn w < uuids_drawn w'"
        by (simp add: res(2) record_config_version_write_def Let_def w1)
      show "\<exists>e1 e2. audit_entries w' = audit_entries w @ [e1, e2] \<and> ae_actor e1 = author \<and> ae_actor e2 = approver"
        by (simp add: res(2) record_config_version_write_def Let_def w1 audited_entries audit_call_def)
      show "\<exists>m. outbox w' = outbox w @ [m] \<and> ob_queue m = CONFIG_QUEUE_NAME \<and> ob_envelope m = Config_Event scope key (cv_id ?row)"
        by (simp add: res(2) record_config_version_write_def Let_def w1 publish_version_change_event_def
            outbox_write_def world_defs build_version_change_event_def)
    qed
  qed
qed

lemma contents_written:
  assumes "write_config_version E scope key val eff author approver w = (Inr row, w')"
  shows "contents w' = insert row (contents w)"
  using assms
proof (cases rule: write_config_version_cases)
  case (written row')
  then have "row' = row" "cv_content row = row" by (simp_all add: cv_content_def)
  then show ?thesis unfolding contents_def written(5) by (simp add: image_image)
qed simp

lemma config_inv_write:
  assumes "inj (uuid4 E)" and "config_inv E w" and "write_config_version E scope key val eff author approver w = (res, w')"
  shows "config_inv E w'"
  using assms(3)
proof (cases rule: write_config_version_cases)
  case (rejected err)
  then show ?thesis using assms(2) unfolding config_inv_def by (auto dest!: subsetD)
next
  case (written row)
  have fresh: "cv_id row \<notin> cv_id ` set (config_versions w)"
  proof
    assume "cv_id row \<in> cv_id ` set (config_versions w)"
    with assms(2) have "cv_id row \<in> uuid4 E ` {..<uuids_drawn w}" unfolding config_inv_def by auto
    then show False using written(2) by (auto simp: inj_eq [OF assms(1)])
  qed
  have "uuid4 E ` {..<uuids_drawn w} \<subseteq> uuid4 E ` {..<uuids_drawn w'}" using written(6) by auto
  moreover have "cv_id ` set (config_versions w) \<subseteq> uuid4 E ` {..<uuids_drawn w}"
    using assms(2) unfolding config_inv_def by simp
  moreover have "cv_id row \<in> uuid4 E ` {..<uuids_drawn w'}" using written(2,6) by auto
  ultimately have ids: "insert (cv_id row) (cv_id ` set (config_versions w)) \<subseteq> uuid4 E ` {..<uuids_drawn w'}"
    by blast
  moreover have "map cv_id (config_versions w') = map cv_id (config_versions w) @ [cv_id row]"
    "map config_slot (config_versions w') = map config_slot (config_versions w) @ [config_slot row]"
    "list_all config_version_ck (config_versions w') \<longleftrightarrow> list_all config_version_ck (config_versions w @ [row])"
    unfolding written(5) by (simp_all add: comp_def list_all_iff)
  ultimately show ?thesis
    using assms(2) written(3,4) fresh unfolding config_inv_def by simp
qed

section \<open>The effective version\<close>

lemma effective_Inr:
  assumes "config_inv E w"
  shows "map_sum id cv_content (get_effective_config s k t w) = Inr c \<longleftrightarrow>
    c \<in> contents w \<and> cv_scope c = s \<and> cv_key c = k \<and> cv_effective_from c \<le> t \<and>
    (\<forall>c'\<in>contents w. cv_scope c' = s \<and> cv_key c' = k \<and> cv_effective_from c' \<le> t \<longrightarrow> cv_effective_from c' \<le> cv_effective_from c)"
    (is "?l = Inr c \<longleftrightarrow> ?max c")
proof -
  have uniq: "c = c'" if cs: "c \<in> contents w" "c' \<in> contents w" "config_slot c = config_slot c'" for c c'
  proof -
    obtain r r' where "r \<in> set (config_versions w)" "r' \<in> set (config_versions w)" "c = cv_content r" "c' = cv_content r'"
      using cs(1,2) unfolding contents_def by auto
    moreover have "inj_on config_slot (set (config_versions w))" using assms by (simp add: config_inv_def distinct_map)
    ultimately show ?thesis using cs(3) by (auto dest: inj_onD)
  qed
  show ?thesis
  proof (cases "get_effective_config s k t w")
    case (Inl err)
    then have "\<not> ?max c" by (auto simp: get_effective_config_def latest_by_None_iff contents_def split: option.splits)
    with Inl show ?thesis by simp
  next
    case (Inr r)
    then have "?max (cv_content r)"
      by (auto simp: get_effective_config_def contents_def dest!: latest_by_SomeD split: option.splits)
    moreover have "c = cv_content r" if m: "?max c"
    proof (rule uniq)
      have "cv_effective_from c = cv_effective_from (cv_content r)"
      proof (rule antisym)
        show "cv_effective_from c \<le> cv_effective_from (cv_content r)" using m \<open>?max (cv_content r)\<close> by blast
        show "cv_effective_from (cv_content r) \<le> cv_effective_from c" using m \<open>?max (cv_content r)\<close> by blast
      qed
      then show "config_slot c = config_slot (cv_content r)" using m \<open>?max (cv_content r)\<close> by (simp add: config_slot_def)
    qed (use m \<open>?max (cv_content r)\<close> in blast)+
    ultimately show ?thesis using Inr by auto
  qed
qed

lemma effective_Inl:
  "map_sum id cv_content (get_effective_config s k t w) = Inl err \<longleftrightarrow> err = ConfigNotFound s k \<and>
    (\<forall>c\<in>contents w. \<not> (cv_scope c = s \<and> cv_key c = k \<and> cv_effective_from c \<le> t))"
  by (auto simp: get_effective_config_def latest_by_None_iff contents_def dest!: latest_by_SomeD split: option.splits)

lemma map_response: "map_sum id as_response x = map_sum id as_response (map_sum id cv_content x)"
  by (cases x) simp_all

section \<open>The client's caches\<close>

lemma fetch_pinned: "fetch_from_db t w s k (Some v) = map_sum id as_response (get_pinned_config s k v w)"
  by (simp add: fetch_from_db_def)

lemma pinned_response_kept:
  assumes "write_config_version E scope key val eff author approver w = (res, w')"
    and "map_sum id as_response (get_pinned_config s k v w) = Inr r"
  shows "map_sum id as_response (get_pinned_config s k v w') = Inr r"
  using assms(1)
proof (cases rule: write_config_version_cases)
  case (rejected err)
  then show ?thesis using assms(2) by (simp add: get_pinned_config_def)
next
  case (written row)
  obtain p where p: "get_by cv_id v (config_versions w) = Some p" "cv_scope p = s" "cv_key p = k" "r = as_response p"
    using assms(2) by (auto simp: get_pinned_config_def split: option.splits if_splits)
  let ?g = "supersede (prior_head scope key w) (cv_id row)"
  have fields: "cv_scope (?g p) = cv_scope p" "cv_key (?g p) = cv_key p" "as_response (?g p) = as_response p"
    by (metis cv_content_fields(2) supersede_content(1), metis cv_content_fields(3) supersede_content(1),
        metis cv_content_fields(8) supersede_content(1))
  have "get_by cv_id v (map ?g rows) = map_option ?g (get_by cv_id v rows)" for rows
    by (rule get_by_map) simp
  then have "get_by cv_id v (config_versions w') = Some (?g p)"
    unfolding written(5) by (simp add: get_by_append p(1))
  then show ?thesis using p fields by (simp add: get_pinned_config_def)
qed

definition pinned_coherent :: "config_client \<Rightarrow> 'a db_scheme \<Rightarrow> bool" where
  "pinned_coherent c w \<longleftrightarrow> (\<forall>s k v r. cc_pinned_cache c (s, k, v) = Some r \<longrightarrow>
     map_sum id as_response (get_pinned_config s k v w) = Inr r)"

lemma effective_is_pinned:
  assumes "config_inv E w" and "fetch_from_db t w s k None = Inr r"
  shows "map_sum id as_response (get_pinned_config s k (cfr_config_version r) w) = Inr r"
proof -
  obtain row where row: "row \<in> set (config_versions w)" "cv_scope row = s" "cv_key row = k" "r = as_response row"
    using assms(2) by (auto simp: fetch_from_db_def get_effective_config_def dest!: latest_by_SomeD split: option.splits)
  have "get_by cv_id (cv_id row) (config_versions w) = Some row"
  proof (cases "get_by cv_id (cv_id row) (config_versions w)")
    case None
    then show ?thesis using row(1) by (simp add: get_by_None_iff)
  next
    case (Some row')
    then have "row' \<in> set (config_versions w)" "cv_id row' = cv_id row" using get_by_SomeD by fastforce+
    then have "row' = row" using assms(1) row(1) by (auto simp: config_inv_def distinct_map dest: inj_onD)
    with Some show ?thesis by simp
  qed
  with row show ?thesis by (simp add: get_pinned_config_def as_response_def)
qed

lemma client_get_coherent:
  assumes "config_inv E w" and "pinned_coherent c w"
    and "client_get (fetch_from_db now w) ttl clock ctx s k cv c = (res, c')"
  shows "pinned_coherent c' w"
proof (cases cv)
  case (Some v)
  then show ?thesis
    using assms(2,3)
    by (auto simp: client_get_def get_pinned_def fetch_pinned pinned_coherent_def
        split: option.splits sum.splits if_splits)
next
  case None
  have "c' = c \<or> (\<exists>r. fetch_from_db now w s k None = Inr r \<and>
      cc_pinned_cache c' = (if cc_pinned_cache c (s, k, cfr_config_version r) = None
        then (cc_pinned_cache c)((s, k, cfr_config_version r) \<mapsto> r) else cc_pinned_cache c))"
  proof (cases "fetch_from_db now w s k None")
    case (Inl err)
    then show ?thesis using assms(3) None
      by (auto simp: client_get_def get_effective_def Let_def split: option.splits sum.splits if_splits)
  next
    case (Inr r)
    then show ?thesis using assms(3) None
      by (auto simp: client_get_def get_effective_def Let_def split: option.splits sum.splits if_splits)
  qed
  then show ?thesis
  proof
    assume "\<exists>r. fetch_from_db now w s k None = Inr r \<and>
      cc_pinned_cache c' = (if cc_pinned_cache c (s, k, cfr_config_version r) = None
        then (cc_pinned_cache c)((s, k, cfr_config_version r) \<mapsto> r) else cc_pinned_cache c)"
    then obtain r where r: "fetch_from_db now w s k None = Inr r"
      "cc_pinned_cache c' = (if cc_pinned_cache c (s, k, cfr_config_version r) = None
        then (cc_pinned_cache c)((s, k, cfr_config_version r) \<mapsto> r) else cc_pinned_cache c)" by blast
    from assms(2) effective_is_pinned [OF assms(1) r(1)] show ?thesis
      by (auto simp: pinned_coherent_def r(2) split: if_splits)
  qed (use assms(2) in simp)
qed

text \<open>Everything that can happen between a client and the tables it reads.\<close>

inductive config_step :: "env \<Rightarrow> config_client \<times> 'a db_scheme \<Rightarrow> config_client \<times> 'a db_scheme \<Rightarrow> bool" for E :: env where
  reads: "client_get (fetch_from_db now w) ttl clock ctx s k cv c = (res, c') \<Longrightarrow> config_step E (c, w) (c', w)"
| event: "handle_version_change_event m c = Inr c' \<Longrightarrow> config_step E (c, w) (c', w)"
| writes: "write_config_version E s k val eff author approver w = (res, w') \<Longrightarrow> config_step E (c, w) (c, w')"
| others: "config_versions w' = config_versions w \<Longrightarrow> uuids_drawn w \<le> uuids_drawn w' \<Longrightarrow> config_step E (c, w) (c, w')"

inductive_cases config_stepE: "config_step E (c, w) x"

lemma config_step_inv:
  assumes "inj (uuid4 E)" and "config_step E (c, w) (c', w')" and "config_inv E w" and "pinned_coherent c w"
  shows "config_inv E w' \<and> pinned_coherent c' w'"
  using assms(2)
proof (cases rule: config_step.cases)
  case (reads now ttl clock ctx s k cv res)
  then show ?thesis using client_get_coherent [OF assms(3,4)] assms(3) by blast
next
  case (event m)
  then show ?thesis using assms(3,4)
    by (auto simp: handle_version_change_event_def invalidate_def pinned_coherent_def split: message.splits)
next
  case (writes s k val eff author approver res)
  have "config_inv E w'" by (rule config_inv_write [OF assms(1,3) writes(2)])
  moreover have "pinned_coherent c w'"
    using assms(4) pinned_response_kept [OF writes(2)] unfolding pinned_coherent_def by blast
  ultimately show ?thesis using writes(1) by simp
next
  case others
  then show ?thesis using assms(3,4)
    by (auto simp: config_inv_def pinned_coherent_def get_pinned_config_def dest!: subsetD)
qed

lemma config_run_inv:
  assumes "inj (uuid4 E)" and "(config_step E)\<^sup>*\<^sup>* (c, w) (c', w')"
  shows "config_inv E w \<Longrightarrow> pinned_coherent c w \<Longrightarrow> config_inv E w' \<and> pinned_coherent c' w'"
  using assms(2)
proof (induction arbitrary: rule: rtranclp_induct2)
  case (step c1 w1 c2 w2)
  then show ?case using config_step_inv [OF assms(1) step.hyps(2)] by blast
qed simp

section \<open>Properties\<close>

lemma written_row:
  assumes "write_config_version E scope key val eff author approver w = (Inr row, w')"
  shows "cv_scope row = scope \<and> cv_key row = key \<and> cv_effective_from row = eff \<and> cv_content row = row \<and>
        config_slot row \<notin> config_slot ` contents w"
  using assms
proof (cases rule: write_config_version_cases)
  case (written row')
  then have "row = row'" by simp
  moreover have "cv_content row' = row'" unfolding written(2) by (simp add: cv_content_def)
  ultimately show ?thesis using written(2,4) by (simp add: contents_def image_image)
qed simp

lemma effective_after_write:
  assumes "inj (uuid4 E)" and "config_inv E w"
    and "write_config_version E scope key val eff author approver w = (Inr row, w')"
  shows "map_sum id cv_content (get_effective_config s k t w') =
      (if s = scope \<and> k = key \<and> eff \<le> t \<and>
          (\<forall>r. get_effective_config scope key t w = Inr r \<longrightarrow> cv_effective_from r < eff)
       then Inr row else map_sum id cv_content (get_effective_config s k t w))" (is "?new = (if _ then _ else ?old)")
proof -
  note inv' = config_inv_write [OF assms]
  have row: "cv_scope row = scope" "cv_key row = key" "cv_effective_from row = eff" "cv_content row = row"
    and slot: "config_slot row \<notin> config_slot ` contents w"
    using written_row [OF assms(3)] by simp_all
  note cw = contents_written [OF assms(3)]
  show ?thesis
  proof (cases "s = scope \<and> k = key \<and> eff \<le> t")
    case False
    have "?new = ?old"
    proof (cases ?old)
      case (Inl err)
      note none = Inl [unfolded effective_Inl]
      from False none show ?thesis unfolding Inl effective_Inl cw using row by auto
    next
      case (Inr c)
      note top = Inr [unfolded effective_Inr [OF assms(2)]]
      from False top show ?thesis unfolding Inr effective_Inr [OF inv'] cw using row by auto
    qed
    with False show ?thesis by auto
  next
    case mine: True
    show ?thesis
    proof (cases ?old)
      case (Inl err)
      note none = Inl [unfolded effective_Inl]
      have "?new = Inr row"
        unfolding effective_Inr [OF inv'] cw using row mine none by auto
      moreover have "get_effective_config scope key t w \<noteq> Inr r" for r using Inl mine by auto
      ultimately show ?thesis using mine by simp
    next
      case (Inr c)
      then obtain r where r: "get_effective_config scope key t w = Inr r" "c = cv_content r"
        using mine by (cases "get_effective_config scope key t w") auto
      note top = Inr [unfolded effective_Inr [OF assms(2)]]
      have c: "c \<in> contents w" "cv_scope c = scope" "cv_key c = key" using top mine by simp_all
      then have neq: "cv_effective_from c \<noteq> eff" using slot row by (force simp: config_slot_def)
      show ?thesis
      proof (cases "cv_effective_from c < eff")
        case True
        then have "?new = Inr row"
          unfolding effective_Inr [OF inv'] cw using top row mine by force
        then show ?thesis using True r mine by simp
      next
        case False
        then have "?new = Inr c"
          unfolding effective_Inr [OF inv'] cw using top row mine neq by auto
        then show ?thesis using False r mine Inr by auto
      qed
    qed
  qed
qed

text \<open>C23. A version is two people's, and takes effect when it says. A write that succeeds names two
  distinct people, keeps the table's invariant and every pinned read; and from then on, at any
  instant, the effective configuration of any key is what it was before, except that the new
  version answers for its own key from its start until a later one starts.\<close>

theorem write_takes_effect:
  assumes "inj (uuid4 E)" and "config_inv E w"
    and "write_config_version E scope key val eff author approver w = (Inr row, w')"
  shows "author \<noteq> approver \<and> config_inv E w' \<and>
    (\<forall>s k t. map_sum id as_response (get_effective_config s k t w') =
      (if s = scope \<and> k = key \<and> eff \<le> t \<and>
          (\<forall>r. get_effective_config scope key t w = Inr r \<longrightarrow> cv_effective_from r < eff)
       then Inr (as_response row) else map_sum id as_response (get_effective_config s k t w))) \<and>
    (\<forall>s k v r. map_sum id as_response (get_pinned_config s k v w) = Inr r \<longrightarrow>
      map_sum id as_response (get_pinned_config s k v w') = Inr r)"
proof (intro conjI allI impI)
  from assms(3) show "author \<noteq> approver"
    by (cases rule: write_config_version_cases) (auto simp: config_version_ck_def)
  show inv': "config_inv E w'" by (rule config_inv_write [OF assms])
  show "map_sum id as_response (get_pinned_config s k v w') = Inr r"
    if "map_sum id as_response (get_pinned_config s k v w) = Inr r" for s k v r
    by (rule pinned_response_kept [OF assms(3) that])
  fix s k t
  show "map_sum id as_response (get_effective_config s k t w') =
      (if s = scope \<and> k = key \<and> eff \<le> t \<and>
          (\<forall>r. get_effective_config scope key t w = Inr r \<longrightarrow> cv_effective_from r < eff)
       then Inr (as_response row) else map_sum id as_response (get_effective_config s k t w))"
    unfolding map_response [of "get_effective_config s k t w'"] map_response [of "get_effective_config s k t w"] effective_after_write [OF assms]
    by (simp only: if_distrib [of "map_sum id as_response"] map_sum.simps)
qed

text \<open>C24. Pinned reads do not see the cache. However reads, writes, invalidations and other work of the
  database interleave, and whatever the time to live and the clock, a pinned read through the
  client answers exactly what the tables answer.\<close>

theorem pinned_reads_transparent:
  assumes "inj (uuid4 E)" and "config_inv E w0" and "(config_step E)\<^sup>*\<^sup>* (new_config_client, w0) (c, w)"
  shows "fst (client_get (fetch_from_db now w) ttl clock ctx s k (Some v) c) = fetch_from_db now w s k (Some v)"
proof -
  have "pinned_coherent new_config_client w0" by (simp add: pinned_coherent_def new_config_client_def)
  from config_run_inv [OF assms(1,3,2) this] have "pinned_coherent c w" by blast
  then show ?thesis
    by (auto simp: client_get_def get_pinned_def fetch_pinned pinned_coherent_def split: option.split sum.split)
qed

text \<open>The event of a later version comes too early. With the time to live off, as the client says it
  must work: if a version that starts in the future is written, its event handled, and the key
  read before the start, then the client goes on answering the old version after the start, when
  the tables answer the new one. No event follows that could correct it.\<close>

lemma forward_dated_version_missed:
  assumes "inj (uuid4 E)" and "config_inv E w"
    and "write_config_version E scope key val eff author approver w = (Inr row, w')"
    and "get_effective_config scope key t1 w = Inr old" and "t1 < eff" and "eff \<le> t2"
    and "get_effective_config scope key t2 w = Inr old"
  shows "\<exists>c'. get_effective (fetch_from_db t1 w') None clock1 None scope key (invalidate scope key c) = (Inr (as_response old), c') \<and>
    get_effective (fetch_from_db t2 w') None clock2 None scope key c' = (Inr (as_response old), c') \<and>
    fetch_from_db t2 w' scope key None = Inr (as_response row) \<and> as_response row \<noteq> as_response old"
proof -
  note written = config_inv_write [OF assms(1-3)]
  have eff: "cv_effective_from old \<le> t1" "old \<in> set (config_versions w)"
    using assms(4) by (auto simp: get_effective_config_def dest!: latest_by_SomeD split: option.splits)
  have row: "cv_scope row = scope" "cv_key row = key" "cv_effective_from row = eff" "cv_content row = row"
    "cv_id row = uuid4 E (uuids_drawn w)"
    using assms(3) by (cases rule: write_config_version_cases; simp add: cv_content_def)+
  note cw = contents_written [OF assms(3)]
  have e: "map_sum id cv_content (get_effective_config scope key t w) = Inr (cv_content old)" if "t = t1 \<or> t = t2" for t
    using assms(4,7) that by auto
  have before: "map_sum id cv_content (get_effective_config scope key t1 w') = Inr (cv_content old)"
    using e [of t1] row assms(5) unfolding effective_Inr [OF written] effective_Inr [OF assms(2)] cw by auto
  have after: "map_sum id cv_content (get_effective_config scope key t2 w') = Inr row"
    using e [of t2] row assms(5,6) eff unfolding effective_Inr [OF written] effective_Inr [OF assms(2)] cw by force
  have f1: "fetch_from_db t1 w' scope key None = Inr (as_response old)"
    using map_response [of "get_effective_config scope key t1 w'"] before by (simp add: fetch_from_db_def)
  have f2: "fetch_from_db t2 w' scope key None = Inr (as_response row)"
    using map_response [of "get_effective_config scope key t2 w'"] after by (simp add: fetch_from_db_def)
  have "cv_id old \<in> uuid4 E ` {..<uuids_drawn w}" using assms(2) eff(2) by (auto simp: config_inv_def)
  then have "cv_id row \<noteq> cv_id old" using row(5) inj_eq [OF assms(1)] by auto
  then have "as_response row \<noteq> as_response old" by (auto simp: as_response_def)
  then show ?thesis
    using f1 f2 by (simp add: get_effective_def guard_resolve_active_def invalidate_def cache_expired_def)
qed

definition partitioned :: "'a db_scheme \<Rightarrow> 'a db_scheme" where
  "partitioned w = w\<lparr>closed_set_entries := map (\<lambda>e. e\<lparr>ce_source := []\<rparr>)
     (filter (\<lambda>e. ce_provenance e \<in> set LAWFUL_PROVENANCES) (closed_set_entries w))\<rparr>"

text \<open>C25. The corpus partition. What a closed set serves is a code of a row whose provenance is the schema
  or the directory, of the type asked for and of the version the pointer names; and the answer
  does not change if every row of another provenance is removed and every self-reported source
  is overwritten.\<close>

theorem closed_set_partition:
  assumes "get_closed_set get typ district w c = (res, c')"
  shows "get_closed_set get typ district (partitioned w) c = (res, c') \<and>
    (case res of Inl err \<Rightarrow> True | Inr r \<Rightarrow>
       list_all (\<lambda>code. \<exists>e. e \<in> set (closed_set_entries w) \<and> ce_code e = code \<and> ce_type e = typ \<and>
         ce_provenance e \<in> set LAWFUL_PROVENANCES \<and> ce_config_version e = cs_config_version r) (cs_codes r))"
proof -
  let ?clean = "\<lambda>e. e\<lparr>ce_source := []\<rparr> :: closed_set_entry"
  let ?P = "\<lambda>v e. ce_type e = typ \<and> ce_config_version e = v \<and> ce_provenance e \<in> set LAWFUL_PROVENANCES \<and>
          (truthy district \<longrightarrow> ce_district e = district \<or> ce_district e = None)"
  have rows: "corpus_rows typ district v (partitioned w) = map ?clean (corpus_rows typ district v w)" for v
  proof -
    have "filter (?P v) (map ?clean (filter (\<lambda>e. ce_provenance e \<in> set LAWFUL_PROVENANCES) (closed_set_entries w)))
        = map ?clean (filter (?P v) (closed_set_entries w))"
      by (induction "closed_set_entries w") (auto simp: filter_map comp_def intro!: arg_cong [where f = "map _"] filter_cong)
    then show ?thesis by (simp add: corpus_rows_def partitioned_def rows_by_def sort_key_map)
  qed
  have same: "closed_set_of typ v (map ?clean es) = closed_set_of typ v es" for v es
    by (simp add: closed_set_of_def comp_def Let_def)
  have codes: "\<exists>e. e \<in> set (closed_set_entries w) \<and> ce_code e = code \<and> ce_type e = typ \<and>
         ce_provenance e \<in> set LAWFUL_PROVENANCES \<and> ce_config_version e = cs_config_version r"
    if "closed_set_of typ v (corpus_rows typ district v w) = Inr r" "code \<in> set (cs_codes r)" for v r code
    using that by (auto simp: closed_set_of_def Let_def corpus_rows_def split: if_splits)
  show ?thesis
  proof (cases "resolve_corpus_config_version get typ district c")
    case (Pair vres c1)
    with assms codes show ?thesis
      by (cases vres) (auto simp: get_closed_set_def rows same list_all_iff split: sum.split)
  qed
qed

section \<open>Witnesses\<close>

definition demo_write :: "timestamp \<Rightarrow> db \<Rightarrow> (exn + config_version) \<times> db" where
  "demo_write eff w = write_config_version demo_env ''global'' ''unit_table'' ''{}'' eff ''author'' ''approver'' w"

lemma config_inv_empty: "config_inv demo_env empty_db"
  by (simp add: config_inv_def empty_db_def)

lemma demo_write_ok:
  assumes "list_all (\<lambda>r. cv_effective_from r \<noteq> eff) (config_versions w)"
  obtains row w' where "demo_write eff w = (Inr row, w')"
proof -
  obtain res w' where w: "demo_write eff w = (res, w')" by fastforce
  with assms have "\<not> isl res"
    by (auto simp: demo_write_def write_config_version_def Let_def config_insert_rejected_def draw_uuid_def list_ex_iff
        list_all_iff config_version_ck_def)
  then show thesis using that w by (cases res) auto
qed

definition demo_config_db :: db where
  "demo_config_db = snd (demo_write 0 empty_db)"

lemma demo_config_db:
  "config_inv demo_env demo_config_db" "\<exists>r. config_versions demo_config_db = [r] \<and> cv_scope r = ''global'' \<and>
     cv_key r = ''unit_table'' \<and> cv_effective_from r = 0"
proof -
  obtain row w' where w: "demo_write 0 empty_db = (Inr row, w')" by (rule demo_write_ok [of 0 empty_db]) (simp add: empty_db_def)
  note w1 = w [unfolded demo_write_def]
  have db: "demo_config_db = w'" by (simp add: demo_config_db_def w)
  have e: "config_versions empty_db = []" by (simp add: empty_db_def)
  show "config_inv demo_env demo_config_db"
    using config_inv_write [OF inj_demo_uuid config_inv_empty w1] by (simp add: db)
  from w1 show "\<exists>r. config_versions demo_config_db = [r] \<and> cv_scope r = ''global'' \<and>
     cv_key r = ''unit_table'' \<and> cv_effective_from r = 0"
    by (cases rule: write_config_version_cases) (auto simp: db e prior_head_def latest_by_def rows_by_def supersede_def)
qed

lemma demo_effective:
  assumes "0 \<le> t"
  shows "get_effective_config ''global'' ''unit_table'' t demo_config_db = Inr (hd (config_versions demo_config_db))"
proof -
  obtain r where r: "config_versions demo_config_db = [r]" "cv_scope r = ''global''" "cv_key r = ''unit_table''"
    "cv_effective_from r = 0" using demo_config_db(2) by blast
  then show ?thesis using assms by (simp add: get_effective_config_def latest_by_def rows_by_def)
qed

lemma demo_second_write:
  obtains row w' where "write_config_version demo_env ''global'' ''unit_table'' ''{}'' 100 ''author'' ''approver'' demo_config_db
    = (Inr row, w')"
proof -
  have "list_all (\<lambda>r. cv_effective_from r \<noteq> 100) (config_versions demo_config_db)" using demo_config_db(2) by auto
  from demo_write_ok [OF this] that show thesis unfolding demo_write_def by blast
qed

theorem write_takes_effect_witness:
  "\<exists>row w'. write_config_version demo_env ''global'' ''unit_table'' ''{}'' 100 ''author'' ''approver'' demo_config_db = (Inr row, w') \<and>
    map_sum id as_response (get_effective_config ''global'' ''unit_table'' 100 w') = Inr (as_response row)"
proof -
  obtain row w' where w: "write_config_version demo_env ''global'' ''unit_table'' ''{}'' 100 ''author'' ''approver'' demo_config_db
    = (Inr row, w')" by (rule demo_second_write)
  obtain r where "config_versions demo_config_db = [r]" "cv_effective_from r = 0" using demo_config_db(2) by blast
  with demo_effective [of 100] write_takes_effect [OF inj_demo_uuid demo_config_db(1) w] w show ?thesis by auto
qed

theorem pinned_reads_transparent_witness:
  "\<exists>v. fst (client_get (fetch_from_db 5 demo_config_db) None (0, 0) None ''global'' ''unit_table'' (Some v)
      (snd (client_get (fetch_from_db 0 demo_config_db) None (0, 0) None ''global'' ''unit_table'' None new_config_client)))
    = fetch_from_db 5 demo_config_db ''global'' ''unit_table'' (Some v) \<and>
    \<not> isl (fetch_from_db 5 demo_config_db ''global'' ''unit_table'' (Some v))"
proof -
  let ?v = "cv_id (hd (config_versions demo_config_db))"
  have "(config_step demo_env)\<^sup>*\<^sup>* (new_config_client, demo_config_db)
      (snd (client_get (fetch_from_db 0 demo_config_db) None (0, 0) None ''global'' ''unit_table'' None new_config_client), demo_config_db)"
    by (rule r_into_rtranclp, rule config_step.reads [OF prod.collapse [symmetric]])
  from pinned_reads_transparent [OF inj_demo_uuid demo_config_db(1) this, of 5 None "(0, 0)" None _ _ ?v] show ?thesis
    using demo_config_db(2) by (intro exI [of _ ?v]) (auto simp: fetch_from_db_def get_pinned_config_def)
qed

lemma forward_dated_version_missed_witness:
  "\<exists>row w' old c'. write_config_version demo_env ''global'' ''unit_table'' ''{}'' 100 ''author'' ''approver'' demo_config_db = (Inr row, w') \<and>
    get_effective (fetch_from_db 200 w') None (9, 9) None ''global'' ''unit_table'' c' = (Inr (as_response old), c') \<and>
    fetch_from_db 200 w' ''global'' ''unit_table'' None = Inr (as_response row) \<and> as_response row \<noteq> as_response old"
proof -
  obtain row w' where w: "write_config_version demo_env ''global'' ''unit_table'' ''{}'' 100 ''author'' ''approver'' demo_config_db
    = (Inr row, w')" by (rule demo_second_write)
  from forward_dated_version_missed [OF inj_demo_uuid demo_config_db(1) w demo_effective [of 50] _ _ demo_effective [of 200],
      of "(1, 1)" new_config_client "(9, 9)"]
  show ?thesis using w by auto
qed

theorem closed_set_partition_witness:
  "\<exists>r. get_closed_set (\<lambda>s k c. (Inr \<lparr>cfr_key = k, cfr_value = [], cfr_config_version = ''v'', cfr_effective_from = []\<rparr>, c))
      ''tehsil'' None (partitioned (empty_db\<lparr>closed_set_entries :=
        [\<lparr>ce_id = ''1'', ce_type = ''tehsil'', ce_district = None, ce_code = ''09'', ce_source = ''schema'',
          ce_provenance = ''lrms'', ce_config_version = ''v''\<rparr>]\<rparr>)) new_config_client = (Inr r, new_config_client) \<and> cs_codes r = []"
proof -
  let ?get = "\<lambda>s k c. (Inr \<lparr>cfr_key = k, cfr_value = [], cfr_config_version = ''v'', cfr_effective_from = []\<rparr> :: exn + config_response, c)"
  let ?w = "empty_db\<lparr>closed_set_entries :=
        [\<lparr>ce_id = ''1'', ce_type = ''tehsil'', ce_district = None, ce_code = ''09'', ce_source = ''schema'',
          ce_provenance = ''lrms'', ce_config_version = ''v''\<rparr>]\<rparr>"
  have "get_closed_set ?get ''tehsil'' None ?w new_config_client
      = (Inr \<lparr>cs_codes = [], cs_source = ''schema'', cs_config_version = ''v''\<rparr>, new_config_client)"
    by (simp add: get_closed_set_def resolve_corpus_config_version_def resolve_pointer_def config_pointer_def truthy_def
        corpus_rows_def rows_by_def closed_set_of_def LAWFUL_PROVENANCES_def)
  from closed_set_partition [OF this] show ?thesis by auto
qed

end
