(* ===== verification/Ingest.thy ===== *)
theory Ingest
  imports Access Triage Object_Store
begin

text \<open>
  Ingest: custody of an upload (\<open>backend/domain/ingest.py\<close>), the split of a document into pages
  (\<open>page_split.py\<close>, \<open>workers/ingestion_consumer.py\<close>), the upload route (\<open>api/documents.py\<close>) with its
  unit-table check (\<open>unit_table.py\<close>), the drop folder (\<open>workers/drop_folder_watcher.py\<close>) and the
  backlog figure (\<open>backpressure.py\<close>). The object stores are outside the transaction: an operation
  takes and returns their states beside the database. \<open>containers\<close> stands for pypdf and Pillow, which
  take a document apart into the bytes of its pages.
\<close>

section \<open>Stores\<close>

record 'st store =
  st_put :: "string \<Rightarrow> 'st \<Rightarrow> (exn + put_result) \<times> 'st"
  st_put_stream :: "string \<Rightarrow> 'st \<Rightarrow> (exn + put_result) \<times> 'st"
  st_open_stream :: "string \<Rightarrow> 'st \<Rightarrow> exn + string"

definition local_store :: "env \<Rightarrow> fs store" where
  "local_store E = \<lparr>st_put = local_put E quiet_os, st_put_stream = local_put_stream E quiet_os default_chunk,
     st_open_stream = local_open_stream\<rparr>"

section \<open>Custody\<close>

definition SUPPORTED_MIME_TYPES :: "(string \<times> string) list" where
  "SUPPORTED_MIME_TYPES = [(''image/jpeg'', ''jpeg''), (''image/png'', ''png''), (''image/tiff'', ''tiff''),
     (''application/pdf'', ''pdf'')]"

definition validate_mime :: "string \<Rightarrow> exn option" where
  "validate_mime mime = (if mime \<notin> fst ` set SUPPORTED_MIME_TYPES then Some (UnsupportedMediaType mime) else None)"

definition validate_batch_metadata :: "string option \<Rightarrow> exn option" where
  "validate_batch_metadata district =
     (if \<not> truthy district \<or> strip (or_empty district) = [] then Some (MissingMandatoryBatchField ''district'') else None)"

record batch_meta =
  bm_batch_id :: "string option"
  bm_district :: "string option"
  bm_tehsil :: "string option"
  bm_village :: "string option"
  bm_series :: "string option"
  bm_custodian :: "string option"
  bm_scanning_date :: "timestamp option"

definition get_or_create_batch :: "env \<Rightarrow> batch_meta \<Rightarrow> 'a db_scheme \<Rightarrow> (exn + batch) \<times> 'a db_scheme" where
  "get_or_create_batch E m w =
     (case validate_batch_metadata (bm_district m) of
        Some err \<Rightarrow> (Inl err, w)
      | None \<Rightarrow>
          (case Option.bind (bm_batch_id m) (\<lambda>i. get_by ba_id i (batches w)) of
             Some b \<Rightarrow> (Inr b, w)
           | None \<Rightarrow>
               (let (bid, w) = draw_uuid E w;
                    (t, w) = read_clock E w;
                    b = \<lparr>ba_id = bid, ba_district = or_empty (bm_district m), ba_tehsil = bm_tehsil m,
                         ba_village = bm_village m, ba_series = bm_series m, ba_custodian = bm_custodian m,
                         ba_scanning_date = bm_scanning_date m, ba_ingested_at = t\<rparr>
                in (Inr b, w\<lparr>batches := batches w @ [b]\<rparr>))))"

record ingest_result =
  ir_document_id :: string
  ir_batch_id :: string
  ir_sha256 :: string
  ir_storage_key :: string
  ir_created :: bool
  ir_queued_for_split :: bool

definition store_twice :: "'p store \<Rightarrow> 's store \<Rightarrow> string \<Rightarrow> 'p \<Rightarrow> 's \<Rightarrow> (exn + put_result) \<times> 'p \<times> 's" where
  "store_twice primary secondary stream p s =
     (case st_put_stream primary stream p of
        (Inl err, p) \<Rightarrow> (Inl err, p, s)
      | (Inr r, p) \<Rightarrow>
          (case st_open_stream primary (pr_key r) p of
             Inl err \<Rightarrow> (Inl err, p, s)
           | Inr reread \<Rightarrow>
               (case st_put_stream secondary reread s of
                  (Inl err, s) \<Rightarrow> (Inl err, p, s) | (Inr _, s) \<Rightarrow> (Inr r, p, s))))"

definition record_custody :: "env \<Rightarrow> batch \<Rightarrow> string \<Rightarrow> put_result \<Rightarrow> 'a db_scheme \<Rightarrow> ingest_result \<times> 'a db_scheme" where
  \<comment> \<open>what \<open>ingest_document\<close> writes once both copies are stored\<close>
  "record_custody E batch mime put w =
     (case get_by sd_sha256 (pr_digest put) (documents w) of
        Some existing \<Rightarrow>
          (\<lparr>ir_document_id = sd_id existing, ir_batch_id = sd_batch_id existing, ir_sha256 = pr_digest put,
            ir_storage_key = pr_key put, ir_created = False, ir_queued_for_split = False\<rparr>,
           audited E ((audit_call ''system:ingest'' ''ingest.document.deduped'')
             \<lparr>ac_subject := Some (sd_id existing), ac_purpose := Some ''FR-ING-04''\<rparr>) w)
      | None \<Rightarrow>
          (let (did, w) = draw_uuid E w;
               doc = \<lparr>sd_id = did, sd_batch_id = ba_id batch, sd_sha256 = pr_digest put,
                      sd_storage_uri = pr_key put, sd_mime = mime, sd_page_count = 0\<rparr>;
               w = w\<lparr>documents := documents w @ [doc]\<rparr>;
               (msg, w) = emit E ''INGESTION_QUEUE'' ''ingest'' (Ingestion_Payload did (pr_key put) mime) None did w;
               (row, w) = outbox_write E ''INGESTION_QUEUE'' (Emitted msg) w
           in (\<lparr>ir_document_id = did, ir_batch_id = ba_id batch, ir_sha256 = pr_digest put,
                ir_storage_key = pr_key put, ir_created = True, ir_queued_for_split = True\<rparr>,
               audited E ((audit_call ''system:ingest'' ''ingest.document.received'')
                 \<lparr>ac_subject := Some did, ac_purpose := Some ''FR-ING-02''\<rparr>) w)))"

definition ingest_document ::
  "env \<Rightarrow> (exn + unit) \<Rightarrow> 'p store \<Rightarrow> 's store \<Rightarrow> batch \<Rightarrow> string \<Rightarrow> string \<Rightarrow> 'a db_scheme \<Rightarrow> 'p \<Rightarrow> 's
    \<Rightarrow> (exn + ingest_result) \<times> 'a db_scheme \<times> 'p \<times> 's"
where
  \<comment> \<open>\<open>check\<close>: what \<open>assert_distinct_stores\<close> says of the default stores; a caller with stores of its own
    passes \<open>Inr ()\<close>\<close>
  "ingest_document E check primary secondary batch stream mime w p s =
     (case validate_mime mime of
        Some err \<Rightarrow> (Inl err, w, p, s)
      | None \<Rightarrow>
          (case check of
             Inl err \<Rightarrow> (Inl err, w, p, s)
           | Inr _ \<Rightarrow>
               (case store_twice primary secondary stream p s of
                  (Inl err, p, s) \<Rightarrow> (Inl err, w, p, s)
                | (Inr put, p, s) \<Rightarrow>
                    (let (r, w) = record_custody E batch mime put w in (Inr r, w, p, s)))))"

section \<open>Pages\<close>

record containers =
  ct_pdf_pages :: "string \<Rightarrow> string list option"
  ct_tiff_frames :: "string \<Rightarrow> string list option"

definition split_container :: "string \<Rightarrow> string list option \<Rightarrow> exn + (nat \<times> string) list" where
  "split_container what parts =
     (case parts of None \<Rightarrow> Inl (UnsplittableDocument what) | Some ps \<Rightarrow> Inr (enumerate 0 ps))"

definition split_stream :: "containers \<Rightarrow> string \<Rightarrow> string \<Rightarrow> exn + (nat \<times> string) list" where
  \<comment> \<open>the pages the generator yields; it raises, if it does, before the first\<close>
  "split_stream ct mime stream =
     (if mime = ''application/pdf'' then split_container mime (ct_pdf_pages ct stream)
      else if mime = ''image/tiff'' then split_container mime (ct_tiff_frames ct stream)
      else if mime \<in> {''image/jpeg'', ''image/png''} then Inr [(0, stream)]
      else Inl (UnsplittableDocument mime))"

definition count_pages :: "containers \<Rightarrow> string \<Rightarrow> string \<Rightarrow> exn + nat" where
  \<comment> \<open>a container that cannot be parsed raises the library's own exception here\<close>
  "count_pages ct mime stream =
     (if mime = ''application/pdf'' then
        (case ct_pdf_pages ct stream of None \<Rightarrow> Inl (RuntimeError mime) | Some ps \<Rightarrow> Inr (length ps))
      else if mime = ''image/tiff'' then
        (case ct_tiff_frames ct stream of None \<Rightarrow> Inl (RuntimeError mime) | Some ps \<Rightarrow> Inr (length ps))
      else if mime \<in> {''image/jpeg'', ''image/png''} then Inr 1
      else Inl (UnsplittableDocument mime))"

definition new_page :: "string \<Rightarrow> string \<Rightarrow> nat \<Rightarrow> string \<Rightarrow> page" where
  "new_page page_id document_id index uri =
     \<lparr>pg_id = page_id, pg_document_id = document_id, pg_index = index, pg_storage_uri = Some uri,
      pg_index_position = None, pg_quality_score = None, pg_legibility_band = None, pg_script = None,
      pg_language = None, pg_doc_type = None, pg_page_role = None, pg_writer_cluster_id = None,
      pg_novelty_score = None, pg_route = None\<rparr>"

definition add_page ::
  "env \<Rightarrow> 'p store \<Rightarrow> string \<Rightarrow> string option \<Rightarrow> nat \<times> string \<Rightarrow> 'a db_scheme \<Rightarrow> 'p \<Rightarrow> (exn + unit) \<times> 'a db_scheme \<times> 'p"
where
  \<comment> \<open>the body of the loop over the pages\<close>
  "add_page E store document_id district split_page w p =
     (case st_put store (snd split_page) p of
        (Inl err, p) \<Rightarrow> (Inl err, w, p)
      | (Inr put, p) \<Rightarrow>
          (let (pid, w) = draw_uuid E w;
               w = w\<lparr>pages := pages w @ [new_page pid document_id (fst split_page) (pr_key put)]\<rparr>;
               w = record_page_ingested E pid district w;
               (msg, w) = emit E ''TRIAGE_QUEUE'' ''ingest''
                            (Page_Payload pid document_id (fst split_page) None None None) None
                            (trace_id_for document_id pid) w;
               (row, w) = outbox_write E ''TRIAGE_QUEUE'' (Emitted msg) w
           in (Inr (), w, p)))"

fun add_pages ::
  "env \<Rightarrow> 'p store \<Rightarrow> string \<Rightarrow> string option \<Rightarrow> (nat \<times> string) list \<Rightarrow> 'a db_scheme \<Rightarrow> 'p \<Rightarrow> (exn + unit) \<times> 'a db_scheme \<times> 'p"
where
  "add_pages E store document_id district [] w p = (Inr (), w, p)"
| "add_pages E store document_id district (x # xs) w p =
     (case add_page E store document_id district x w p of
        (Inl err, w, p) \<Rightarrow> (Inl err, w, p)
      | (Inr _, w, p) \<Rightarrow> add_pages E store document_id district xs w p)"

definition split_handle ::
  "env \<Rightarrow> containers \<Rightarrow> 'p store \<Rightarrow> message \<Rightarrow> 'a db_scheme \<Rightarrow> 'p \<Rightarrow> (exn + nat \<times> bool) \<times> 'a db_scheme \<times> 'p"
where
  "split_handle E ct store message w p =
     (case message of
        Config_Event s k v \<Rightarrow> (Inl (KeyError ''payload''), w, p)
      | Emitted m \<Rightarrow>
          (case em_payload m of
             Ingestion_Payload document_id storage_key mime \<Rightarrow>
               if list_ex (\<lambda>g. pg_document_id g = document_id) (pages w) then (Inr (0, True), w, p)
               else
                 (let district = Option.bind (get_by sd_id document_id (documents w))
                                   (\<lambda>d. map_option ba_district (get_by ba_id (sd_batch_id d) (batches w)))
                  in case st_open_stream store storage_key p of
                       Inl err \<Rightarrow> (Inl err, w, p)
                     | Inr data \<Rightarrow>
                         (case split_stream ct mime data of
                            Inl err \<Rightarrow> (Inl err, w, p)
                          | Inr xs \<Rightarrow>
                              (case add_pages E store document_id district xs w p of
                                 (Inl err, w, p) \<Rightarrow> (Inl err, w, p)
                               | (Inr _, w, p) \<Rightarrow>
                                   (Inr (length xs, False),
                                    w\<lparr>documents := set_by sd_id document_id
                                        (sd_page_count_update (\<lambda>_. length xs)) (documents w)\<rparr>, p))))
           | _ \<Rightarrow> (Inl (KeyError ''document_id''), w, p)))"

section \<open>The upload route\<close>

definition DISTRICTS_WITH_UNIT_TABLES :: "string list" where
  "DISTRICTS_WITH_UNIT_TABLES = [''sitapur'', ''lucknow'', ''kanpur nagar'']"

definition unit_table_for_district :: "string \<Rightarrow> (string \<times> rat) option" where
  \<comment> \<open>\<open>None\<close>: \<open>NoUnitTableForDistrict\<close>\<close>
  "unit_table_for_district district =
     (if lower (strip district) \<notin> set DISTRICTS_WITH_UNIT_TABLES then None else Some (district, 1008))"

definition create_document ::
  "env \<Rightarrow> (exn + unit) \<Rightarrow> 'p store \<Rightarrow> 's store \<Rightarrow> string option \<Rightarrow> string \<Rightarrow> batch_meta \<Rightarrow> identity
    \<Rightarrow> 'a db_scheme session \<Rightarrow> 'p \<Rightarrow> 's \<Rightarrow> (exn + string \<times> string \<times> bool) \<times> 'a db_scheme session \<times> 'p \<times> 's"
where
  \<comment> \<open>job, batch and whether the upload was known\<close>
  "create_document E check primary secondary content_type data meta i ses p s =
     (let mime = (if truthy content_type then or_empty content_type else ''application/octet-stream'')
      in if validate_mime mime \<noteq> None then (Inl (HTTPException 422), ses, p, s)
         else if validate_batch_metadata (bm_district meta) \<noteq> None then (Inl (HTTPException 422), ses, p, s)
         else if unit_table_for_district (or_empty (bm_district meta)) = None then (Inl (HTTPException 422), ses, p, s)
         else
           (case in_session (get_or_create_batch E meta) ses of
              (Inl err, ses) \<Rightarrow> (Inl err, ses, p, s)
            | (Inr b, ses) \<Rightarrow>
                (case ingest_document E check primary secondary b data mime (current ses) p s of
                   (Inl err, w, p, s) \<Rightarrow> (Inl err, ses\<lparr>current := w\<rparr>, p, s)
                 | (Inr r, w, p, s) \<Rightarrow>
                     (Inr (ir_document_id r, ir_batch_id r, \<not> ir_created r), commit (ses\<lparr>current := w\<rparr>), p, s))))"

section \<open>The backlog\<close>

definition DEFAULT_BACKLOG_CEILING :: nat where
  "DEFAULT_BACKLOG_CEILING = 10000"

record backlog_status =
  bl_undispatched_count :: nat
  bl_ceiling :: nat
  bl_over_ceiling :: bool

definition check_backlog :: "string option \<Rightarrow> nat \<Rightarrow> ('m, 'a) outbox_world_scheme \<Rightarrow> backlog_status" where
  "check_backlog queue max_rows w =
     (let n = length (filter (\<lambda>r. \<not> ob_dispatched r \<and> (case queue of None \<Rightarrow> True | Some q \<Rightarrow> ob_queue r = q)) (outbox w))
      in \<lparr>bl_undispatched_count = n, bl_ceiling = max_rows, bl_over_ceiling = n > max_rows\<rparr>)"

section \<open>The drop folder\<close>

record drop_meta =
  dm_mime :: "string option"
  dm_scanning_date :: "string option"
  dm_batch :: batch_meta \<comment> \<open>the other keys; the date is parsed from the text above\<close>

record drop_folder =
  df_files :: "string \<rightharpoonup> string"
  df_rejected :: "string \<rightharpoonup> string"
  df_reasons :: "string \<rightharpoonup> string"

record drop_libs =
  dl_json_loads :: "string \<Rightarrow> drop_meta option" \<comment> \<open>\<open>None\<close>: \<open>JSONDecodeError\<close>\<close>
  dl_guess_type :: "string \<Rightarrow> string option"
  dl_fromisoformat :: "string \<Rightarrow> timestamp option" \<comment> \<open>\<open>None\<close>: \<open>ValueError\<close>\<close>

definition META_SUFFIX :: string where
  "META_SUFFIX = ''.meta.json''"

definition drop_reject :: "string \<Rightarrow> string \<Rightarrow> drop_folder \<Rightarrow> drop_folder" where
  "drop_reject path reason_code f =
     f\<lparr>df_files := (df_files f)(path := None), df_rejected := (df_rejected f)(path := df_files f path),
       df_reasons := (df_reasons f)(path \<mapsto> reason_code)\<rparr>"

definition reject_code :: "exn \<Rightarrow> string option" where
  \<comment> \<open>the exceptions \<open>_ingest_one\<close> catches, with their \<open>reason_code\<close>\<close>
  "reject_code err =
     (case err of MissingMandatoryBatchField field \<Rightarrow> Some (''missing_mandatory_field:'' @ field)
      | UnsupportedMediaType mime \<Rightarrow> Some ''unsupported_mime_type'' | _ \<Rightarrow> None)"

definition drop_meta_of :: "drop_libs \<Rightarrow> drop_meta \<Rightarrow> exn + batch_meta" where
  "drop_meta_of libs meta =
     (if truthy (dm_scanning_date meta)
      then (case dl_fromisoformat libs (or_empty (dm_scanning_date meta)) of
              None \<Rightarrow> Inl (ValueError (or_empty (dm_scanning_date meta)))
            | Some t \<Rightarrow> Inr ((dm_batch meta)\<lparr>bm_scanning_date := Some t\<rparr>))
      else Inr ((dm_batch meta)\<lparr>bm_scanning_date := None\<rparr>))"

definition drop_mime :: "drop_libs \<Rightarrow> string \<Rightarrow> drop_meta \<Rightarrow> string" where
  "drop_mime libs path meta =
     (if truthy (dm_mime meta) then or_empty (dm_mime meta)
      else if truthy (dl_guess_type libs path) then or_empty (dl_guess_type libs path)
      else ''application/octet-stream'')"

definition drop_ingest ::
  "env \<Rightarrow> (exn + unit) \<Rightarrow> 'p store \<Rightarrow> 's store \<Rightarrow> batch_meta \<Rightarrow> string \<Rightarrow> string \<Rightarrow> 'a db_scheme \<Rightarrow> 'p \<Rightarrow> 's
    \<Rightarrow> (exn + unit) \<times> 'a db_scheme \<times> 'p \<times> 's"
where
  \<comment> \<open>the body of the second \<open>try\<close>\<close>
  "drop_ingest E check primary secondary meta data mime w p s =
     (case get_or_create_batch E meta w of
        (Inl err, w) \<Rightarrow> (Inl err, w, p, s)
      | (Inr b, w) \<Rightarrow>
          (case ingest_document E check primary secondary b data mime w p s of
             (Inl err, w, p, s) \<Rightarrow> (Inl err, w, p, s) | (Inr r, w, p, s) \<Rightarrow> (Inr (), w, p, s)))"

definition ingest_one ::
  "env \<Rightarrow> drop_libs \<Rightarrow> (exn + unit) \<Rightarrow> 'p store \<Rightarrow> 's store \<Rightarrow> string \<Rightarrow> drop_folder \<Rightarrow> 'a db_scheme session \<Rightarrow> 'p \<Rightarrow> 's
    \<Rightarrow> exn option \<times> drop_folder \<times> 'a db_scheme session \<times> 'p \<times> 's"
where
  "ingest_one E libs check primary secondary path f ses p s =
     (let meta_path = path @ META_SUFFIX
      in case df_files f meta_path of
           None \<Rightarrow> (None, drop_reject path ''missing_batch_metadata'' f, ses, p, s)
         | Some meta_text \<Rightarrow>
             (let unlinked = (\<lambda>f. f\<lparr>df_files := (df_files f)(meta_path := None)\<rparr>)
              in case dl_json_loads libs meta_text of
                   None \<Rightarrow> (None, unlinked (drop_reject path ''invalid_batch_metadata'' f), ses, p, s)
                 | Some meta \<Rightarrow>
                     (let f = unlinked f; mime = drop_mime libs path meta
                      in case drop_meta_of libs meta of
                           Inl err \<Rightarrow> (Some err, f, ses, p, s)
                         | Inr bm \<Rightarrow>
                             (case drop_ingest E check primary secondary bm (case df_files f path of None \<Rightarrow> [] | Some d \<Rightarrow> d)
                                     mime (current ses) p s of
                                (Inl err, w, p, s) \<Rightarrow>
                                  (case reject_code err of
                                     Some code \<Rightarrow> (None, drop_reject path code f, rollback (ses\<lparr>current := w\<rparr>), p, s)
                                   | None \<Rightarrow> (Some err, f, ses\<lparr>current := w\<rparr>, p, s))
                              | (Inr _, w, p, s) \<Rightarrow>
                                  (None, f\<lparr>df_files := (df_files f)(path := None)\<rparr>, commit (ses\<lparr>current := w\<rparr>), p, s)))))"

definition drop_candidates :: "string list \<Rightarrow> drop_folder \<Rightarrow> string list" where
  \<comment> \<open>the files of the folder in the order \<open>iterdir\<close> lists them\<close>
  "drop_candidates listing f =
     filter (\<lambda>n. df_files f n \<noteq> None \<and> drop (length n - length META_SUFFIX) n \<noteq> META_SUFFIX) listing"

fun ingest_all ::
  "env \<Rightarrow> drop_libs \<Rightarrow> (exn + unit) \<Rightarrow> 'p store \<Rightarrow> 's store \<Rightarrow> string list \<Rightarrow> drop_folder \<Rightarrow> 'a db_scheme session \<Rightarrow> 'p \<Rightarrow> 's
    \<Rightarrow> exn option \<times> drop_folder \<times> 'a db_scheme session \<times> 'p \<times> 's"
where
  "ingest_all E libs check primary secondary [] f ses p s = (None, f, ses, p, s)"
| "ingest_all E libs check primary secondary (path # paths) f ses p s =
     (case ingest_one E libs check primary secondary path f ses p s of
        (Some err, f, ses, p, s) \<Rightarrow> (Some err, f, ses, p, s)
      | (None, f, ses, p, s) \<Rightarrow> ingest_all E libs check primary secondary paths f ses p s)"

definition scan_once ::
  "env \<Rightarrow> drop_libs \<Rightarrow> (exn + unit) \<Rightarrow> 'p store \<Rightarrow> 's store \<Rightarrow> string list \<Rightarrow> drop_folder \<Rightarrow> 'a db_scheme \<Rightarrow> 'p \<Rightarrow> 's
    \<Rightarrow> (exn + nat) \<times> drop_folder \<times> 'a db_scheme \<times> 'p \<times> 's"
where
  "scan_once E libs check primary secondary listing f w p s =
     (let candidates = drop_candidates listing f
      in case ingest_all E libs check primary secondary candidates f (begin_session w) p s of
           (res, f, ses, p, s) \<Rightarrow>
             ((case res of Some err \<Rightarrow> Inl err | None \<Rightarrow> Inr (length candidates)), f, current (rollback ses), p, s))"

section \<open>The contract of a store with streams\<close>

definition page_made ::
  "(string \<Rightarrow> 'st \<Rightarrow> exn + string) \<Rightarrow> 'st \<Rightarrow> string \<Rightarrow> nat \<times> string \<Rightarrow> page \<times> message outbox_message \<Rightarrow> bool" where
  \<comment> \<open>a page row and a triage message for one part, whose bytes are stored\<close>
  "page_made lookup p doc x made \<longleftrightarrow>
     pg_document_id (fst made) = doc \<and> pg_index (fst made) = fst x \<and>
     (\<exists>key. pg_storage_uri (fst made) = Some key \<and> lookup key p = Inr (snd x)) \<and>
     ob_queue (snd made) = ''TRIAGE_QUEUE'' \<and>
     (\<exists>m. ob_envelope (snd made) = Emitted m \<and>
        em_payload m = Page_Payload (pg_id (fst made)) doc (fst x) None None None)"

locale stream_store = object_store put lookup address
  for put :: "string \<Rightarrow> 'st \<Rightarrow> (exn + put_result) \<times> 'st" and lookup and address +
  fixes put_stream :: "string \<Rightarrow> 'st \<Rightarrow> (exn + put_result) \<times> 'st"
    and open_stream :: "string \<Rightarrow> 'st \<Rightarrow> exn + string"
    and digest :: "string \<Rightarrow> string"
  assumes put_stream_put: "put_stream d st = put d st"
    and open_stream_lookup: "open_stream k st = lookup k st"
    and put_digest: "put d st = (Inr r, st') \<Longrightarrow> pr_digest r = digest d"
begin

abbreviation ops :: "'st store" where
  "ops \<equiv> \<lparr>st_put = put, st_put_stream = put_stream, st_open_stream = open_stream\<rparr>"

lemma add_page_effect:
  assumes "add_page E ops doc district x w p = (Inr (), w', p')"
  obtains made where "pages w' = pages w @ [fst made]" "outbox w' = outbox w @ [snd made]"
    "page_made lookup p' doc x made" "documents w' = documents w" "\<And>k d. lookup k p = Inr d \<Longrightarrow> lookup k p' = Inr d"
proof -
  obtain pres p1 where put: "put (snd x) p = (pres, p1)" by fastforce
  with assms obtain r where r: "pres = Inr r" by (cases pres) (auto simp: add_page_def)
  let ?v = "snd (draw_uuid E w)\<lparr>pages := pages w @ [new_page (uuid4 E (uuids_drawn w)) doc (fst x) (pr_key r)]\<rparr>"
  obtain msg v2 where m: "emit E ''TRIAGE_QUEUE'' ''ingest''
      (Page_Payload (uuid4 E (uuids_drawn w)) doc (fst x) None None None) None
      (trace_id_for doc (uuid4 E (uuids_drawn w))) (record_page_ingested E (uuid4 E (uuids_drawn w)) district ?v) = (msg, v2)"
    by fastforce
  obtain row v3 where o: "outbox_write E ''TRIAGE_QUEUE'' (Emitted msg) v2 = (row, v3)" by fastforce
  have res: "w' = v3" "p' = p1"
    using assms put r m o by (simp_all add: add_page_def Let_def draw_uuid_def)
  show thesis
  proof (rule that [of "(new_page (uuid4 E (uuids_drawn w)) doc (fst x) (pr_key r), row)"])
    show "lookup k p' = Inr d" if "lookup k p = Inr d" for k d
      using put_keeps [OF that, of "snd x"] put res by simp
    have "lookup (pr_key r) p' = Inr (snd x)"
      using put_key put_stored put r res by metis
    then show "page_made lookup p' doc x (new_page (uuid4 E (uuids_drawn w)) doc (fst x) (pr_key r), row)"
      using o m by (auto simp: page_made_def new_page_def outbox_write_def emit_def world_defs)
    show "pages w' = pages w @ [fst (new_page (uuid4 E (uuids_drawn w)) doc (fst x) (pr_key r), row)]"
      "outbox w' = outbox w @ [snd (new_page (uuid4 E (uuids_drawn w)) doc (fst x) (pr_key r), row)]"
      "documents w' = documents w"
      using o m by (auto simp: res outbox_write_def emit_def world_defs record_page_ingested_def)
  qed
qed

lemma page_made_mono:
  "page_made lookup p doc x made \<Longrightarrow> (\<And>k d. lookup k p = Inr d \<Longrightarrow> lookup k p' = Inr d) \<Longrightarrow> page_made lookup p' doc x made"
  unfolding page_made_def by blast

lemma add_pages_effect:
  assumes "add_pages E ops doc district xs w p = (Inr (), w', p')"
  shows "\<exists>made. pages w' = pages w @ map fst made \<and> outbox w' = outbox w @ map snd made \<and>
    list_all2 (page_made lookup p' doc) xs made \<and> documents w' = documents w \<and>
    (\<forall>k d. lookup k p = Inr d \<longrightarrow> lookup k p' = Inr d)"
  using assms
proof (induction xs arbitrary: w p)
  case Nil
  then show ?case by (intro exI [of _ "[]"]) simp
next
  case (Cons x xs)
  obtain ares w1 p1 where a: "add_page E ops doc district x w p = (ares, w1, p1)" by (metis prod_cases3)
  with Cons.prems have ok: "ares = Inr ()" and rest: "add_pages E ops doc district xs w1 p1 = (Inr (), w', p')"
    by (cases ares; simp)+
  from add_page_effect [OF a [unfolded ok]] obtain made1 where
    m1: "pages w1 = pages w @ [fst made1]" "outbox w1 = outbox w @ [snd made1]" "page_made lookup p1 doc x made1"
      "documents w1 = documents w" "\<And>k d. lookup k p = Inr d \<Longrightarrow> lookup k p1 = Inr d" by metis
  from Cons.IH [OF rest] obtain made where
    m: "pages w' = pages w1 @ map fst made" "outbox w' = outbox w1 @ map snd made"
      "list_all2 (page_made lookup p' doc) xs made" "documents w' = documents w1"
      "\<And>k d. lookup k p1 = Inr d \<Longrightarrow> lookup k p' = Inr d" by blast
  have "page_made lookup p' doc x made1" using page_made_mono [OF m1(3)] m(5) by blast
  with m1 m show ?case by (intro exI [of _ "made1 # made"]) simp
qed

lemma split_handle_effect:
  assumes "split_handle E ct ops (Emitted m) w p = (Inr (n, again), w', p')"
    and "em_payload m = Ingestion_Payload doc key mime"
  shows "(again \<longleftrightarrow> (\<exists>g\<in>set (pages w). pg_document_id g = doc)) \<and> (if again then w' = w \<and> p' = p else
    (\<exists>data parts made. lookup key p = Inr data \<and> split_stream ct mime data = Inr parts \<and> n = length parts \<and>
       pages w' = pages w @ map fst made \<and> outbox w' = outbox w @ map snd made \<and>
       list_all2 (page_made lookup p' doc) parts made))"
proof (cases "list_ex (\<lambda>g. pg_document_id g = doc) (pages w)")
  case True
  then show ?thesis using assms by (auto simp: split_handle_def list_ex_iff)
next
  case False
  obtain data where data: "lookup key p = Inr data"
    using assms False by (cases "lookup key p") (auto simp: split_handle_def open_stream_lookup)
  obtain parts where parts: "split_stream ct mime data = Inr parts"
    using assms False data by (cases "split_stream ct mime data") (auto simp: split_handle_def open_stream_lookup Let_def)
  define district where "district = Option.bind (get_by sd_id doc (documents w))
                                   (\<lambda>d. map_option ba_district (get_by ba_id (sd_batch_id d) (batches w)))"
  obtain ares w1 p1 where a: "add_pages E ops doc district parts w p = (ares, w1, p1)" by (metis prod_cases3)
  have sh: "split_handle E ct ops (Emitted m) w p = (case (ares, w1, p1) of
      (Inl err, w, p) \<Rightarrow> (Inl err, w, p)
    | (Inr _, w, p) \<Rightarrow> (Inr (length parts, False), w\<lparr>documents := set_by sd_id doc
        (sd_page_count_update (\<lambda>_. length parts)) (documents w)\<rparr>, p))"
    unfolding split_handle_def using assms(2) False data parts a
    by (simp add: open_stream_lookup Let_def district_def)
  with assms(1) have ok: "ares = Inr ()" "n = length parts" "\<not> again" "p' = p1"
    "pages w' = pages w1" "outbox w' = outbox w1" by (cases ares; auto)+
  from add_pages_effect [OF a [unfolded ok(1)]] show ?thesis
    using ok data parts False unfolding list_ex_iff by auto
qed

end

locale two_copies =
  primary: stream_store put1 lookup1 address put_stream1 open_stream1 digest +
  secondary: stream_store put2 lookup2 address put_stream2 open_stream2 digest
  for put1 :: "string \<Rightarrow> 'p \<Rightarrow> (exn + put_result) \<times> 'p" and lookup1 and address and put_stream1 and open_stream1
    and digest and put2 :: "string \<Rightarrow> 's \<Rightarrow> (exn + put_result) \<times> 's" and lookup2 and put_stream2 and open_stream2
begin

lemma store_twice_ok:
  assumes "store_twice primary.ops secondary.ops d p s = (Inr r, p', s')"
  shows "pr_key r = address d \<and> pr_digest r = digest d \<and> lookup1 (address d) p' = Inr d \<and> lookup2 (address d) s' = Inr d \<and>
    (\<forall>k x. lookup1 k p = Inr x \<longrightarrow> lookup1 k p' = Inr x) \<and> (\<forall>k x. lookup2 k s = Inr x \<longrightarrow> lookup2 k s' = Inr x)"
proof -
  obtain pres p1 where p: "put1 d p = (pres, p1)" by fastforce
  obtain r1 where r1: "put1 d p = (Inr r1, p1)"
    using assms p by (cases pres) (auto simp: store_twice_def primary.put_stream_put)
  have l1: "lookup1 (address d) p1 = Inr d" and k1: "pr_key r1 = address d"
    using primary.put_stored [OF r1] primary.put_key [OF r1] .
  obtain sres s1 where s: "put2 d s = (sres, s1)" by fastforce
  have ok: "r = r1" "p' = p1" "s' = s1" "\<exists>r2. sres = Inr r2"
    using assms r1 l1 k1 s
    by (auto simp: store_twice_def primary.put_stream_put primary.open_stream_lookup secondary.put_stream_put
        split: sum.splits)
  then obtain r2 where r2: "put2 d s = (Inr r2, s1)" using s by auto
  have "lookup1 k p1 = Inr x" if "lookup1 k p = Inr x" for k x using primary.put_keeps [OF that, of d] r1 by simp
  moreover have "lookup2 k s1 = Inr x" if "lookup2 k s = Inr x" for k x using secondary.put_keeps [OF that, of d] r2 by simp
  ultimately show ?thesis
    using ok l1 k1 primary.put_digest [OF r1] secondary.put_stored [OF r2] by simp
qed

lemma store_twice_again:
  assumes "store_twice primary.ops secondary.ops d p s = (Inr r, p', s')"
  shows "\<exists>r2. store_twice primary.ops secondary.ops d p' s' = (Inr r2, p', s') \<and> pr_digest r2 = digest d \<and> pr_key r2 = address d"
proof -
  note a = store_twice_ok [OF assms]
  from a have l: "lookup1 (address d) p' = Inr d" "lookup2 (address d) s' = Inr d" by simp_all
  obtain r1 where r1: "put1 d p' = (Inr r1, p')" using primary.put_present [OF l(1)] by (cases "put1 d p'"; cases "fst (put1 d p')") auto
  obtain r2 where r2: "put2 d s' = (Inr r2, s')" using secondary.put_present [OF l(2)] by (cases "put2 d s'"; cases "fst (put2 d s')") auto
  show ?thesis
    using primary.put_key [OF r1] primary.put_digest [OF r1] l r1 r2
    by (simp add: store_twice_def primary.put_stream_put primary.open_stream_lookup secondary.put_stream_put)
qed

end

lemma local_put_stream_default: "local_put_stream E quiet_os default_chunk d st = local_put E quiet_os d st"
  by (rule local_put_stream_eq) (simp add: default_chunk_def)

interpretation local_stream: stream_store "local_put E quiet_os" local_get "addr E"
    "local_put_stream E quiet_os default_chunk" local_open_stream "digest_of E" for E
  by unfold_locales
    (rule local_put_stream_default, simp add: local_get_def local_open_stream_def,
     auto simp: local_defs quiet_os_def split: option.splits if_splits)

interpretation local_copies: two_copies "local_put E quiet_os" local_get "addr E"
    "local_put_stream E quiet_os default_chunk" local_open_stream "digest_of E"
    "local_put E quiet_os" local_get "local_put_stream E quiet_os default_chunk" local_open_stream for E ..

lemma local_store_ops: "local_store E = local_stream.ops E"
  by (simp add: local_store_def)

section \<open>Ingest and split over the local store\<close>

lemma record_custody_cases:
  assumes "record_custody E b mime put w = (r, w')"
  obtains (known) doc where "get_by sd_sha256 (pr_digest put) (documents w) = Some doc"
      "r = \<lparr>ir_document_id = sd_id doc, ir_batch_id = sd_batch_id doc, ir_sha256 = pr_digest put,
            ir_storage_key = pr_key put, ir_created = False, ir_queued_for_split = False\<rparr>"
      "documents w' = documents w" "outbox w' = outbox w"
  | (fresh) doc row m where "get_by sd_sha256 (pr_digest put) (documents w) = None"
      "documents w' = documents w @ [doc]" "outbox w' = outbox w @ [row]" "sd_sha256 doc = pr_digest put"
      "sd_storage_uri doc = pr_key put" "ob_queue row = ''INGESTION_QUEUE''" "ob_envelope row = Emitted m"
      "em_payload m = Ingestion_Payload (sd_id doc) (pr_key put) mime"
      "r = \<lparr>ir_document_id = sd_id doc, ir_batch_id = ba_id b, ir_sha256 = pr_digest put,
            ir_storage_key = pr_key put, ir_created = True, ir_queued_for_split = True\<rparr>"
proof (cases "get_by sd_sha256 (pr_digest put) (documents w)")
  case (Some doc)
  show thesis by (rule known [OF Some]) (use assms Some in \<open>auto simp: record_custody_def\<close>)
next
  case None
  let ?did = "uuid4 E (uuids_drawn w)"
  let ?doc = "\<lparr>sd_id = ?did, sd_batch_id = ba_id b, sd_sha256 = pr_digest put, sd_storage_uri = pr_key put,
    sd_mime = mime, sd_page_count = 0\<rparr>"
  let ?v = "snd (draw_uuid E w)\<lparr>documents := documents w @ [?doc]\<rparr>"
  obtain msg v2 where m: "emit E ''INGESTION_QUEUE'' ''ingest'' (Ingestion_Payload ?did (pr_key put) mime) None ?did ?v = (msg, v2)"
    by fastforce
  obtain row v3 where o: "outbox_write E ''INGESTION_QUEUE'' (Emitted msg) v2 = (row, v3)" by fastforce
  show thesis
    by (rule fresh [OF None, of ?doc row msg]) (use assms None m o in
        \<open>auto simp: record_custody_def Let_def draw_uuid_def outbox_write_def emit_def read_clock_def\<close>)
qed

section \<open>Properties\<close>

text \<open>C7. One copy, one document, one message. When an upload is accepted, both stores hold exactly its
  bytes under its address and lose nothing; the bytes have one document, queued for splitting
  exactly if they were new; and uploading them again, in any batch, answers with the same
  document and adds no document, no message and no object.\<close>

theorem ingest_once:
  assumes "ingest_document E (Inr ()) (local_store E) (local_store E) b data mime w p s = (Inr r, w', p', s')"
    and "validate_mime mime2 = None"
  shows "ir_storage_key r = addr E data \<and> local_get (addr E data) p' = Inr data \<and> local_get (addr E data) s' = Inr data \<and>
    (\<forall>k x. local_get k p = Inr x \<longrightarrow> local_get k p' = Inr x) \<and>
    (if ir_created r
     then \<exists>doc row m. documents w' = documents w @ [doc] \<and> outbox w' = outbox w @ [row] \<and> sd_id doc = ir_document_id r \<and>
       ob_queue row = ''INGESTION_QUEUE'' \<and> ob_envelope row = Emitted m \<and>
       em_payload m = Ingestion_Payload (ir_document_id r) (addr E data) mime
     else documents w' = documents w \<and> outbox w' = outbox w \<and> ir_document_id r \<in> sd_id ` set (documents w)) \<and>
    (\<exists>r2 w2. ingest_document E (Inr ()) (local_store E) (local_store E) b2 data mime2 w' p' s' = (Inr r2, w2, p', s') \<and>
       ir_document_id r2 = ir_document_id r \<and> \<not> ir_created r2 \<and> documents w2 = documents w' \<and> outbox w2 = outbox w')"
proof -
  obtain pres p1 s1 where st: "store_twice (local_store E) (local_store E) data p s = (pres, p1, s1)" by (metis prod_cases3)
  obtain put where put: "pres = Inr put" "p' = p1" "s' = s1" "record_custody E b mime put w = (r, w')"
    using assms(1) st
    by (cases pres) (auto simp: ingest_document_def split: option.splits prod.splits)
  from st put have st': "store_twice (local_store E) (local_store E) data p s = (Inr put, p', s')" by simp
  note stored = local_copies.store_twice_ok [OF st' [unfolded local_store_ops]]
  obtain put2 where again: "store_twice (local_store E) (local_store E) data p' s' = (Inr put2, p', s')"
    and put2: "pr_digest put2 = digest_of E data" "pr_key put2 = addr E data"
    using local_copies.store_twice_again [OF st' [unfolded local_store_ops]] unfolding local_store_ops by blast
  obtain r2 w2 where rc: "record_custody E b2 mime2 put2 w' = (r2, w2)" by fastforce
  then have ing2: "ingest_document E (Inr ()) (local_store E) (local_store E) b2 data mime2 w' p' s' = (Inr r2, w2, p', s')"
    using assms(2) again by (simp add: ingest_document_def)
  have dig: "pr_digest put2 = pr_digest put" using put2 stored by simp
  have replay: "\<exists>r2 w2. ingest_document E (Inr ()) (local_store E) (local_store E) b2 data mime2 w' p' s' = (Inr r2, w2, p', s') \<and>
       ir_document_id r2 = sd_id doc \<and> \<not> ir_created r2 \<and> documents w2 = documents w' \<and> outbox w2 = outbox w'"
    if known: "get_by sd_sha256 (pr_digest put) (documents w') = Some doc" for doc
    using rc known unfolding dig [symmetric]
    by (intro exI [of _ r2] exI [of _ w2] conjI ing2; cases rule: record_custody_cases) simp_all
  from stored have keeps: "ir_storage_key r = addr E data \<Longrightarrow> ir_storage_key r = addr E data \<and>
    local_get (addr E data) p' = Inr data \<and> local_get (addr E data) s' = Inr data \<and>
    (\<forall>k x. local_get k p = Inr x \<longrightarrow> local_get k p' = Inr x)" by blast
  have key: "pr_key put = addr E data" using stored by blast
  from put(4) show ?thesis
  proof (cases rule: record_custody_cases)
    case (known doc)
    have "sd_id doc \<in> sd_id ` set (documents w)" using get_by_SomeD [OF known(1)] by blast
    moreover have "get_by sd_sha256 (pr_digest put) (documents w') = Some doc" using known(1,3) by simp
    ultimately show ?thesis using keeps replay known key by simp
  next
    case (fresh doc row m)
    have "get_by sd_sha256 (pr_digest put) (documents w') = Some doc"
      using fresh(1,2,4) by (simp add: get_by_append)
    from replay [OF this] keeps show ?thesis
      unfolding fresh(9) using fresh(2,3,6,7,8) key by simp
  qed
qed

text \<open>A document is split once. When the splitter finishes a document it had not split, it has added
  one page per part, in order, each with its part's bytes in the store, and one triage message
  per page; the same message delivered again adds nothing.\<close>

lemma split_once:
  assumes "split_handle E ct (local_store E) (Emitted m) w p = (Inr (n, False), w', p')"
    and "em_payload m = Ingestion_Payload doc key mime" and "0 < n"
  shows "(\<exists>data parts made. local_get key p = Inr data \<and> split_stream ct mime data = Inr parts \<and> n = length parts \<and>
      pages w' = pages w @ map fst made \<and> outbox w' = outbox w @ map snd made \<and>
      list_all2 (page_made local_get p' doc) parts made) \<and>
    split_handle E ct (local_store E) (Emitted m) w' p' = (Inr (0, True), w', p')"
proof -
  from local_stream.split_handle_effect [OF assms(1) [unfolded local_store_ops] assms(2)]
  obtain data parts made where e: "local_get key p = Inr data" "split_stream ct mime data = Inr parts" "n = length parts"
    "pages w' = pages w @ map fst made" "outbox w' = outbox w @ map snd made"
    "list_all2 (page_made local_get p' doc) parts made" by auto
  from e(3,6) assms(3) obtain x xs g gs where "made = g # gs" "page_made local_get p' doc x g"
    by (cases parts; cases made) auto
  then have "list_ex (\<lambda>g. pg_document_id g = doc) (pages w')"
    by (simp add: e(4) page_made_def)
  then have "split_handle E ct (local_store E) (Emitted m) w' p' = (Inr (0, True), w', p')"
    using assms(2) by (simp add: split_handle_def)
  with e show ?thesis by blast
qed

lemma pin_outbox:
  "pin E winner d p vs cv w = (res, w') \<Longrightarrow> outbox w' = outbox w"
  by (auto simp: pin_def Let_def world_defs split: if_splits sum.splits option.splits)

text \<open>An ingested page waits for a lane. The triage message of a page fresh from the splitter names no
  document type and no page role, so handling it succeeds, if the models resolve, with an empty
  list of lanes: no message is queued for any extraction lane.\<close>

lemma ingested_page_has_no_lane:
  assumes "split_handle E ct (local_store E) (Emitted m) w p = (Inr (n, False), w', p')"
    and "em_payload m = Ingestion_Payload doc key mime"
    and "outbox w' = outbox w @ rows" and "row \<in> set rows"
    and "triage_handle E registry winner (ob_envelope row) v = (Inr (envelope_id, queued), v')"
  shows "queued = [] \<and> outbox v' = outbox v"
proof -
  from local_stream.split_handle_effect [OF assms(1) [unfolded local_store_ops] assms(2)]
  obtain parts made where made: "outbox w' = outbox w @ map snd made" "list_all2 (page_made local_get p' doc) parts made"
    by auto
  with assms(3,4) obtain g where "g \<in> set made" "row = snd g" by auto
  then obtain i where "i < length made" "g = made ! i" by (auto simp: in_set_conv_nth)
  with made(2) have "page_made local_get p' doc (parts ! i) g" by (simp add: list_all2_conv_all_nth)
  then obtain x where x: "page_made local_get p' doc x g" "row = snd g" using \<open>row = snd g\<close> by blast
  then obtain m' where m': "ob_envelope row = Emitted m'" "em_payload m' = Page_Payload (pg_id (fst g)) doc (fst x) None None None"
    by (auto simp: page_made_def)
  have "lane_for None None = []" by (simp add: lane_for_def)
  with assms(5) show ?thesis
    using pin_outbox by (auto simp: triage_handle_def m' route_page_def Let_def split: prod.splits sum.splits option.splits)
qed

text \<open>The drop folder forgets the sidecar. If the metadata of a dropped file is fine but storing the
  file fails with an error other than the two that reject it, the error propagates with the file
  still in the folder and its sidecar deleted; the next scan, though the stores work again,
  rejects the file for having no metadata.\<close>

lemma drop_folder_loses_sidecar:
  assumes "df_files f path = Some data" and "df_files f (path @ META_SUFFIX) = Some meta_text"
    and "dl_json_loads libs meta_text = Some meta" and "drop_meta_of libs meta = Inr bm"
    and "validate_batch_metadata (bm_district bm) = None" and "validate_mime (drop_mime libs path meta) = None"
    and "st_put_stream primary data p = (Inl err, p')" and "reject_code err = None"
  shows "\<exists>f' s1. ingest_one E libs (Inr ()) primary secondary path f ses p s = (Some err, f', s1, p', s) \<and>
    df_files f' path = Some data \<and> df_files f' (path @ META_SUFFIX) = None \<and>
    (\<exists>f''. ingest_one E libs (Inr ()) primary2 secondary path f' ses2 p2 s2 = (None, f'', ses2, p2, s2) \<and>
       df_files f'' path = None \<and> df_rejected f'' path = Some data \<and> df_reasons f'' path = Some ''missing_batch_metadata'')"
proof -
  let ?f = "f\<lparr>df_files := (df_files f)(path @ META_SUFFIX := None)\<rparr>"
  have neq: "path \<noteq> path @ META_SUFFIX" by (simp add: META_SUFFIX_def)
  have "\<exists>b w. get_or_create_batch E bm (current ses) = (Inr b, w)"
    using assms(5) by (simp add: get_or_create_batch_def world_defs split: option.split)
  then obtain b w where b: "get_or_create_batch E bm (current ses) = (Inr b, w)" by blast
  have "ingest_one E libs (Inr ()) primary secondary path f ses p s = (Some err, ?f, ses\<lparr>current := w\<rparr>, p', s)"
    using assms neq b
    by (simp add: ingest_one_def drop_ingest_def ingest_document_def store_twice_def Let_def)
  moreover have "df_files ?f path = Some data" using assms(1) neq by simp
  moreover have "ingest_one E libs (Inr ()) primary2 secondary path ?f ses2 p2 s2
      = (None, drop_reject path ''missing_batch_metadata'' ?f, ses2, p2, s2)"
    by (simp add: ingest_one_def)
  ultimately show ?thesis by (auto simp: drop_reject_def)
qed

section \<open>Witnesses\<close>

definition demo_batch :: batch where
  "demo_batch = \<lparr>ba_id = ''b'', ba_district = ''sitapur'', ba_tehsil = None, ba_village = None, ba_series = None,
     ba_custodian = None, ba_scanning_date = None, ba_ingested_at = 0\<rparr>"

definition empty_fs :: fs where
  "empty_fs = \<lparr>fs_files = Map.empty, fs_temps = Map.empty\<rparr>"

definition demo_ingestion :: "payload emitted" where
  "demo_ingestion = \<lparr>em_message_id = ''m'', em_trace_id = ''d'', em_emitted_at = ''now'', em_producer = ''ingest'',
     em_work_envelope = None, em_payload = Ingestion_Payload ''d'' (addr demo_env ''scan'') ''image/png'',
     em_queue = ''INGESTION_QUEUE''\<rparr>"

definition demo_scan_fs :: fs where
  "demo_scan_fs = \<lparr>fs_files = [addr demo_env ''scan'' \<mapsto> ''scan''], fs_temps = Map.empty\<rparr>"

definition no_containers :: containers where
  "no_containers = \<lparr>ct_pdf_pages = (\<lambda>_. None), ct_tiff_frames = (\<lambda>_. None)\<rparr>"

lemma png_ok: "validate_mime ''image/png'' = None"
  by (simp add: validate_mime_def SUPPORTED_MIME_TYPES_def)

lemma demo_ingest:
  "\<exists>r w' p' s'. ingest_document demo_env (Inr ()) (local_store demo_env) (local_store demo_env) demo_batch ''scan''
     ''image/png'' empty_db empty_fs empty_fs = (Inr r, w', p', s')"
proof -
  have "local_put demo_env quiet_os ''scan'' empty_fs = (Inr \<lparr>pr_key = addr demo_env ''scan'', pr_digest = digest_of demo_env ''scan'',
      pr_created = True\<rparr>, demo_scan_fs)"
    by (simp add: local_defs quiet_os_def empty_fs_def demo_scan_fs_def addr_def fun_eq_iff)
  then show ?thesis
    by (simp add: ingest_document_def png_ok store_twice_def local_store_def local_put_stream_default local_open_stream_def
        demo_scan_fs_def empty_fs_def split_beta)
qed

theorem ingest_once_witness:
  "\<exists>r w' p' s'. ingest_document demo_env (Inr ()) (local_store demo_env) (local_store demo_env) demo_batch ''scan''
     ''image/png'' empty_db empty_fs empty_fs = (Inr r, w', p', s') \<and> local_get (addr demo_env ''scan'') s' = Inr ''scan''"
  using demo_ingest ingest_once [OF _ png_ok] by blast

lemma demo_split:
  "\<exists>w' p'. split_handle demo_env no_containers (local_store demo_env) (Emitted demo_ingestion) empty_db demo_scan_fs
     = (Inr (1, False), w', p')"
  by (simp add: split_handle_def demo_ingestion_def empty_db_def local_store_def local_open_stream_def demo_scan_fs_def
      split_stream_def add_page_def local_defs addr_def quiet_os_def split_beta)

lemma split_once_example:
  "\<exists>w' p'. split_handle demo_env no_containers (local_store demo_env) (Emitted demo_ingestion) empty_db demo_scan_fs
     = (Inr (1, False), w', p') \<and>
   split_handle demo_env no_containers (local_store demo_env) (Emitted demo_ingestion) w' p' = (Inr (0, True), w', p')"
proof -
  obtain w' p' where s: "split_handle demo_env no_containers (local_store demo_env) (Emitted demo_ingestion) empty_db demo_scan_fs
     = (Inr (1, False), w', p')" using demo_split by blast
  from split_once [OF s, of "''d''" "addr demo_env ''scan''" "''image/png''"] show ?thesis
    using s by (auto simp: demo_ingestion_def)
qed

lemma demo_split_rows:
  "\<exists>w' p' row g. split_handle demo_env no_containers (local_store demo_env) (Emitted demo_ingestion) empty_db demo_scan_fs
     = (Inr (1, False), w', p') \<and> outbox w' = outbox empty_db @ [row] \<and> page_made local_get p' ''d'' (0, ''scan'') (g, row)"
proof -
  obtain w' p' where s: "split_handle demo_env no_containers (local_store demo_env) (Emitted demo_ingestion) empty_db demo_scan_fs
     = (Inr (1, False), w', p')" using demo_split by blast
  have pl: "em_payload demo_ingestion = Ingestion_Payload ''d'' (addr demo_env ''scan'') ''image/png''"
    by (simp add: demo_ingestion_def)
  from local_stream.split_handle_effect [OF s [unfolded local_store_ops] pl]
  obtain made where "outbox w' = outbox empty_db @ map snd made" "list_all2 (page_made local_get p' ''d'') [(0, ''scan'')] made"
    by (auto simp: split_stream_def local_get_def demo_scan_fs_def)
  then obtain g row where "outbox w' = outbox empty_db @ [row]" "page_made local_get p' ''d'' (0, ''scan'') (g, row)"
    by (auto simp: list_all2_Cons1)
  with s show ?thesis by blast
qed

lemma ingested_page_has_no_lane_witness:
  "\<exists>(row :: message outbox_message) envelope_id v'. triage_handle demo_env demo_registry None (ob_envelope row) empty_db = (Inr (envelope_id, []), v') \<and>
     ob_queue row = ''TRIAGE_QUEUE''"
proof -
  obtain w' p' row g where s: "split_handle demo_env no_containers (local_store demo_env) (Emitted demo_ingestion) empty_db demo_scan_fs
     = (Inr (1, False), w', p')" and o: "outbox w' = outbox empty_db @ [row]" and m: "page_made local_get p' ''d'' (0, ''scan'') (g, row)"
    using demo_split_rows by blast
  obtain e queued v' where r: "route_page demo_env demo_registry None ''d'' (pg_id g) None None ''unversioned'' empty_db
      = (Inr (e, queued), v')" using demo_route by blast
  with m have t: "triage_handle demo_env demo_registry None (ob_envelope row) empty_db = (Inr (we_envelope_id e, queued), v')"
    by (auto simp: page_made_def triage_handle_def)
  have "em_payload demo_ingestion = Ingestion_Payload ''d'' (addr demo_env ''scan'') ''image/png''"
    by (simp add: demo_ingestion_def)
  from ingested_page_has_no_lane [OF s this o _ t] have "queued = []" by simp
  moreover have "ob_queue row = ''TRIAGE_QUEUE''" using m by (simp add: page_made_def)
  ultimately show ?thesis using t by blast
qed

definition demo_meta :: batch_meta where
  "demo_meta = \<lparr>bm_batch_id = None, bm_district = Some ''sitapur'', bm_tehsil = None, bm_village = None,
     bm_series = None, bm_custodian = None, bm_scanning_date = None\<rparr>"

definition demo_libs :: drop_libs where
  "demo_libs = \<lparr>dl_json_loads = (\<lambda>_. Some \<lparr>dm_mime = None, dm_scanning_date = None, dm_batch = demo_meta\<rparr>),
     dl_guess_type = (\<lambda>_. Some ''image/png''), dl_fromisoformat = (\<lambda>_. None)\<rparr>"

definition broken_store :: "fs store" where
  \<comment> \<open>a disk that is full\<close>
  "broken_store = (local_store demo_env)\<lparr>st_put_stream := \<lambda>d st. (Inl (OSError ''no space''), st)\<rparr>"

lemma drop_folder_loses_sidecar_witness:
  "\<exists>f' s1 f''. ingest_one demo_env demo_libs (Inr ()) broken_store (local_store demo_env) ''a.png''
       \<lparr>df_files = [''a.png'' \<mapsto> ''scan'', ''a.png.meta.json'' \<mapsto> ''{}''], df_rejected = Map.empty, df_reasons = Map.empty\<rparr>
       (begin_session empty_db) empty_fs empty_fs = (Some (OSError ''no space''), f', s1, empty_fs, empty_fs) \<and>
     ingest_one demo_env demo_libs (Inr ()) (local_store demo_env) (local_store demo_env) ''a.png'' f'
       (begin_session empty_db) empty_fs empty_fs = (None, f'', begin_session empty_db, empty_fs, empty_fs) \<and>
     df_reasons f'' ''a.png'' = Some ''missing_batch_metadata''"
proof -
  let ?f = "\<lparr>df_files = [''a.png'' \<mapsto> ''scan'', ''a.png.meta.json'' \<mapsto> ''{}''], df_rejected = Map.empty, df_reasons = Map.empty\<rparr>"
  let ?meta = "\<lparr>dm_mime = None, dm_scanning_date = None, dm_batch = demo_meta\<rparr>"
  have 1: "df_files ?f ''a.png'' = Some ''scan''" and 2: "df_files ?f (''a.png'' @ META_SUFFIX) = Some ''{}''"
    by (simp_all add: META_SUFFIX_def)
  have 3: "dl_json_loads demo_libs ''{}'' = Some ?meta" by (simp add: demo_libs_def)
  have 4: "drop_meta_of demo_libs ?meta = Inr demo_meta" by (simp add: drop_meta_of_def truthy_def demo_meta_def)
  have 5: "validate_batch_metadata (bm_district demo_meta) = None" by code_simp
  have 6: "validate_mime (drop_mime demo_libs ''a.png'' ?meta) = None"
    by (simp add: drop_mime_def truthy_def demo_libs_def or_empty_def png_ok)
  have 7: "st_put_stream broken_store ''scan'' empty_fs = (Inl (OSError ''no space''), empty_fs)"
    by (simp add: broken_store_def)
  have 8: "reject_code (OSError ''no space'') = None" by (simp add: reject_code_def)
  from drop_folder_loses_sidecar [where E = demo_env and secondary = "local_store demo_env" and
      ?primary2.0 = "local_store demo_env" and ses = "begin_session empty_db" and ?ses2.0 = "begin_session empty_db" and
      s = empty_fs and ?p2.0 = empty_fs and ?s2.0 = empty_fs, OF 1 2 3 4 5 6 7 8] show ?thesis by blast
qed

end
