(* ===== verification/Upkeep.thy ===== *)
theory Upkeep
  imports Ingest Publication
begin

text \<open>
  What runs beside the pipeline: the rescan tasks (\<open>backend/domain/rescan.py\<close>), the fixity sweep over both
  stores (\<open>fixity.py\<close>, \<open>workers/fixity_sweep_scheduler.py\<close>) and the activity figures of the dashboard
  (\<open>dashboard.py\<close>, \<open>api/dashboard.py\<close>). \<open>date_of\<close> is the database's \<open>date()\<close> of a timestamp, in its session's
  time zone.
\<close>

section \<open>Rescan tasks\<close>

definition open_from_threshold_breach :: "env \<Rightarrow> string \<Rightarrow> string \<Rightarrow> 'a db_scheme \<Rightarrow> rescan_task \<times> 'a db_scheme" where
  "open_from_threshold_breach E page_id reason_code w =
     (let (rid, w) = draw_uuid E w;
          (t, w) = read_clock E w;
          task = \<lparr>rt_id = rid, rt_page_id = page_id, rt_reason_code = reason_code, rt_owner = None, rt_state = ''open'',
                  rt_opened_at = t, rt_closed_at = None\<rparr>;
          w = w\<lparr>rescan_tasks := rescan_tasks w @ [task]\<rparr>
      in (task, audited E ((audit_call ''system:legibility-scorer'' ''rescan_task.opened'')
            \<lparr>ac_subject := Some rid, ac_purpose := Some reason_code\<rparr>) w))"

definition assign_rescan :: "string \<Rightarrow> string \<Rightarrow> 'a db_scheme \<Rightarrow> (exn + rescan_task) \<times> 'a db_scheme" where
  "assign_rescan rescan_task_id owner w =
     (case get_by rt_id rescan_task_id (rescan_tasks w) of
        None \<Rightarrow> (Inl (KeyError rescan_task_id), w)
      | Some task \<Rightarrow>
          if rt_state task \<noteq> ''open'' then (Inl (InvalidRescanTaskTransition (rt_state task)), w)
          else
            (let task' = task\<lparr>rt_owner := Some owner, rt_state := ''assigned''\<rparr>
             in (Inr task', w\<lparr>rescan_tasks := set_by rt_id rescan_task_id (\<lambda>_. task') (rescan_tasks w)\<rparr>)))"

definition close_rescan :: "env \<Rightarrow> string \<Rightarrow> string \<Rightarrow> 'a db_scheme \<Rightarrow> (exn + rescan_task) \<times> 'a db_scheme" where
  "close_rescan E rescan_task_id actor w =
     (case get_by rt_id rescan_task_id (rescan_tasks w) of
        None \<Rightarrow> (Inl (KeyError rescan_task_id), w)
      | Some task \<Rightarrow>
          if rt_state task = ''closed'' then (Inl (InvalidRescanTaskTransition ''closed''), w)
          else
            (let (t, w) = read_clock E w;
                 task' = task\<lparr>rt_state := ''closed'', rt_closed_at := Some t\<rparr>;
                 w = w\<lparr>rescan_tasks := set_by rt_id rescan_task_id (\<lambda>_. task') (rescan_tasks w)\<rparr>
             in (Inr task', audited E ((audit_call actor ''rescan_task.closed'')\<lparr>ac_subject := Some rescan_task_id\<rparr>) w)))"

definition list_aged_rescans :: "env \<Rightarrow> int \<Rightarrow> 'a db_scheme \<Rightarrow> rescan_task list \<times> 'a db_scheme" where
  "list_aged_rescans E older_than w =
     (let (now, w) = read_clock E w; cutoff = now - older_than
      in (rows_by rt_opened_at (\<lambda>t. rt_state t \<noteq> ''closed'' \<and> rt_opened_at t < cutoff) (rescan_tasks w), w))"

section \<open>The fixity sweep\<close>

record fixity_alert =
  fa_document_id :: string
  fa_store :: string
  fa_expected_digest :: string
  fa_observed_digest :: string

definition rehash :: "env \<Rightarrow> (string \<Rightarrow> exn + string) \<Rightarrow> string \<Rightarrow> exn + string" where
  "rehash E open_stream key =
     map_sum id (\<lambda>data. fst (hash_stream_to_spooled_tempfile E default_chunk data)) (open_stream key)"

definition check_copy ::
  "env \<Rightarrow> source_document \<Rightarrow> string \<Rightarrow> (string \<Rightarrow> exn + string) \<Rightarrow> 'a db_scheme \<Rightarrow> (exn + fixity_alert list) \<times> 'a db_scheme"
where
  \<comment> \<open>the body of the inner loop\<close>
  "check_copy E doc store_label open_stream w =
     (case rehash E open_stream (sd_storage_uri doc) of
        Inl err \<Rightarrow> (Inl err, w)
      | Inr observed \<Rightarrow>
          (let ok = (observed = sd_sha256 doc);
               (fid, w) = draw_uuid E w;
               (t, w) = read_clock E w;
               check = \<lparr>fc_id = fid, fc_document_id = sd_id doc, fc_expected_digest = sd_sha256 doc,
                        fc_observed_digest = Some observed, fc_checked_at = t,
                        fc_outcome = (if ok then ''match'' else ''mismatch''), fc_store = store_label\<rparr>;
               w = w\<lparr>fixity_checks := fixity_checks w @ [check]\<rparr>
           in if ok then (Inr [], w)
              else (Inr [\<lparr>fa_document_id = sd_id doc, fa_store = store_label, fa_expected_digest = sd_sha256 doc,
                          fa_observed_digest = observed\<rparr>],
                    audited E ((audit_call ''system:fixity-sweep'' ''fixity_check.mismatch'')
                      \<lparr>ac_subject := Some (sd_id doc), ac_purpose := Some (''FR-ING-07:'' @ store_label)\<rparr>) w)))"

fun sweep_copies ::
  "env \<Rightarrow> (source_document \<times> string \<times> (string \<Rightarrow> exn + string)) list \<Rightarrow> fixity_alert list \<Rightarrow> 'a db_scheme
    \<Rightarrow> (exn + fixity_alert list) \<times> 'a db_scheme"
where
  "sweep_copies E [] alerts w = (Inr alerts, w)"
| "sweep_copies E ((doc, store_label, open_stream) # rest) alerts w =
     (case check_copy E doc store_label open_stream w of
        (Inl err, w) \<Rightarrow> (Inl err, w)
      | (Inr new, w) \<Rightarrow> sweep_copies E rest (alerts @ new) w)"

definition sweep_plan ::
  "string list option \<Rightarrow> (string \<Rightarrow> exn + string) \<Rightarrow> (string \<Rightarrow> exn + string) \<Rightarrow> 'a db_scheme
    \<Rightarrow> (source_document \<times> string \<times> (string \<Rightarrow> exn + string)) list"
where
  "sweep_plan document_ids primary secondary w =
     concat (map (\<lambda>doc. [(doc, ''primary'', primary), (doc, ''secondary'', secondary)])
       (filter (\<lambda>d. case document_ids of None \<Rightarrow> True | Some ids \<Rightarrow> sd_id d \<in> set ids) (documents w)))"

definition run_sweep ::
  "env \<Rightarrow> (exn + unit) \<Rightarrow> string list option \<Rightarrow> (string \<Rightarrow> exn + string) \<Rightarrow> (string \<Rightarrow> exn + string) \<Rightarrow> 'a db_scheme
    \<Rightarrow> (exn + fixity_alert list) \<times> 'a db_scheme"
where
  "run_sweep E check document_ids primary secondary w =
     (case check of
        Inl err \<Rightarrow> (Inl err, w)
      | Inr _ \<Rightarrow> sweep_copies E (sweep_plan document_ids primary secondary w) [] w)"

definition sweep_job ::
  "env \<Rightarrow> (exn + unit) \<Rightarrow> (string \<Rightarrow> exn + string) \<Rightarrow> (string \<Rightarrow> exn + string) \<Rightarrow> 'a db_scheme \<Rightarrow> (exn + nat) \<times> 'a db_scheme"
where
  \<comment> \<open>the scheduler's \<open>run_once\<close>: an exception leaves the session uncommitted\<close>
  "sweep_job E check primary secondary w =
     (case in_session (run_sweep E check None primary secondary) (begin_session w) of
        (Inl err, s) \<Rightarrow> (Inl err, current (rollback s))
      | (Inr alerts, s) \<Rightarrow> (Inr (length alerts), current (rollback (commit s))))"

section \<open>The dashboard\<close>

definition PAGE_ACTIVITY_ACTIONS :: "(string \<times> string) list" where
  "PAGE_ACTIVITY_ACTIONS = [(''page.ingested'', ''pages_ingested''), (''page.processed'', ''pages_processed''),
     (''record.published'', ''records_published'')]"

definition PAGE_ACTIVITY_UNITS :: "(string \<times> string) list" where
  "PAGE_ACTIVITY_UNITS = [(''pages_ingested'', ''pages''), (''pages_processed'', ''pages''), (''records_published'', ''records'')]"

record activity_row =
  dp_district :: "string option"
  dp_date :: string
  dp_pages_ingested :: nat
  dp_pages_processed :: nat
  dp_records_published :: nat

type_synonym activity_group = "(string option \<times> string) \<times> string"

definition activity_entries ::
  "string option \<Rightarrow> timestamp option \<Rightarrow> timestamp option \<Rightarrow> 'a audit_world_scheme \<Rightarrow> audit_entry list" where
  "activity_entries district since until w =
     filter (\<lambda>e. ae_action e \<in> fst ` set PAGE_ACTIVITY_ACTIONS \<and>
        (case district of None \<Rightarrow> True | Some d \<Rightarrow> ae_district e = Some d) \<and>
        (case since of None \<Rightarrow> True | Some t \<Rightarrow> ae_at e \<ge> t) \<and> (case until of None \<Rightarrow> True | Some t \<Rightarrow> ae_at e < t))
       (audit_entries w)"

definition group_of :: "(timestamp \<Rightarrow> string) \<Rightarrow> audit_entry \<Rightarrow> activity_group" where
  "group_of date_of e = ((ae_district e, date_of (ae_at e)), ae_action e)"

definition activity_groups :: "(timestamp \<Rightarrow> string) \<Rightarrow> audit_entry list \<Rightarrow> (activity_group \<times> nat) list" where
  \<comment> \<open>\<open>GROUP BY\<close> with the counts; \<open>ORDER BY\<close> the day, then the district with \<open>NULL\<close> at the end\<close>
  "activity_groups date_of es =
     map (\<lambda>g. (g, length (filter (\<lambda>e. group_of date_of e = g) es)))
       (sort_key (\<lambda>((d, day), a). day)
         (sort_key (\<lambda>((d, day), a). if d = None then 1 else 0 :: nat)
           (sort_key (\<lambda>((d, day), a). or_empty d) (remdups (map (group_of date_of) es)))))"

definition empty_bucket :: "string option \<times> string \<Rightarrow> activity_row" where
  "empty_bucket k = \<lparr>dp_district = fst k, dp_date = snd k, dp_pages_ingested = 0, dp_pages_processed = 0,
     dp_records_published = 0\<rparr>"

definition bucket_set :: "string \<Rightarrow> nat \<Rightarrow> activity_row \<Rightarrow> activity_row" where
  \<comment> \<open>\<open>bucket[PAGE_ACTIVITY_ACTIONS[action]] = count\<close>\<close>
  "bucket_set action n b =
     (if action = ''page.ingested'' then b\<lparr>dp_pages_ingested := n\<rparr>
      else if action = ''page.processed'' then b\<lparr>dp_pages_processed := n\<rparr>
      else b\<lparr>dp_records_published := n\<rparr>)"

definition bucket_key :: "activity_row \<Rightarrow> string option \<times> string" where
  "bucket_key b = (dp_district b, dp_date b)"

fun pivot :: "(activity_group \<times> nat) list \<Rightarrow> activity_row list \<Rightarrow> activity_row list" where
  \<comment> \<open>the loop over the result: \<open>rows.setdefault(key, ...)\<close> keeps the order of first appearance\<close>
  "pivot [] rows = rows"
| "pivot (((k, action), n) # gs) rows =
     (let rows = (if k \<in> bucket_key ` set rows then rows else rows @ [empty_bucket k])
      in pivot gs (set_by bucket_key k (bucket_set action n) rows))"

definition get_page_activity ::
  "(timestamp \<Rightarrow> string) \<Rightarrow> string option \<Rightarrow> timestamp option \<Rightarrow> timestamp option \<Rightarrow> 'a audit_world_scheme \<Rightarrow> activity_row list"
where
  "get_page_activity date_of district since until w =
     sort_key dp_date (sort_key (\<lambda>r. or_empty (dp_district r))
       (pivot (activity_groups date_of (activity_entries district since until w)) []))"

definition get_dashboard_metrics where
  "get_dashboard_metrics date_of district since until i s =
     (Inr (get_page_activity date_of district since until (current s), PAGE_ACTIVITY_UNITS) :: exn + _, s)"

section \<open>Lemmas\<close>

inductive rescan_step :: "env \<Rightarrow> 'a db_scheme \<Rightarrow> 'a db_scheme \<Rightarrow> bool" for E :: env where
  opens: "open_from_threshold_breach E p r w = (t, w') \<Longrightarrow> rescan_step E w w'"
| assigns: "assign_rescan i owner w = (res, w') \<Longrightarrow> rescan_step E w w'"
| closes: "close_rescan E i actor w = (res, w') \<Longrightarrow> rescan_step E w w'"
| others: "rescan_tasks w' = rescan_tasks w \<Longrightarrow> rescan_step E w w'"

lemma rescan_step_tasks:
  assumes "rescan_step E w w'"
  obtains (same) "rescan_tasks w' = rescan_tasks w"
  | (new) t where "rescan_tasks w' = rescan_tasks w @ [t]" "rt_state t = ''open''" "rt_closed_at t = None" "rt_owner t = None"
  | (moved) i t t' where "get_by rt_id i (rescan_tasks w) = Some t" "rt_state t \<noteq> ''closed''" "rt_id t' = rt_id t"
      "rescan_tasks w' = set_by rt_id i (\<lambda>_. t') (rescan_tasks w)" "rt_page_id t' = rt_page_id t"
      "(rt_state t' = ''assigned'' \<and> rt_closed_at t' = rt_closed_at t) \<or> (rt_state t' = ''closed'' \<and> rt_closed_at t' \<noteq> None)"
  using assms
proof (cases rule: rescan_step.cases)
  case (opens p r t)
  then show thesis by (intro new [of t]) (auto simp: open_from_threshold_breach_def world_defs)
next
  case (assigns i owner res)
  show thesis
  proof (cases "get_by rt_id i (rescan_tasks w)")
    case None
    then show thesis using assigns same by (simp add: assign_rescan_def)
  next
    case (Some t)
    show thesis
    proof (cases "rt_state t = ''open''")
      case True
      show thesis
        by (rule moved [OF Some, of "t\<lparr>rt_owner := Some owner, rt_state := ''assigned''\<rparr>"])
          (use assigns Some True in \<open>auto simp: assign_rescan_def Let_def\<close>)
    qed (use assigns Some same in \<open>simp add: assign_rescan_def\<close>)
  qed
next
  case (closes i actor res)
  show thesis
  proof (cases "get_by rt_id i (rescan_tasks w)")
    case None
    then show thesis using closes same by (simp add: close_rescan_def)
  next
    case (Some t)
    show thesis
    proof (cases "rt_state t = ''closed''")
      case False
      show thesis
        by (rule moved [OF Some False, of "t\<lparr>rt_state := ''closed'', rt_closed_at := Some (utcnow E (clock_reads w))\<rparr>"])
          (use closes Some False in \<open>auto simp: close_rescan_def world_defs Let_def\<close>)
    qed (use closes Some same in \<open>simp add: close_rescan_def\<close>)
  qed
qed (rule same)

definition rescan_ok :: "rescan_task \<Rightarrow> bool" where
  \<comment> \<open>the constraint of the table, and a closing time exactly when closed\<close>
  "rescan_ok t \<longleftrightarrow> rescan_task_ck t \<and> (rt_state t = ''closed'' \<longleftrightarrow> rt_closed_at t \<noteq> None)"

lemma set_by_const_ok:
  assumes "list_all P rows" and "P r'"
  shows "list_all P (set_by key i (\<lambda>_. r') rows)"
  using assms by (induction rows) auto

lemma rescan_step_ok:
  assumes "rescan_step E w w'" and "list_all rescan_ok (rescan_tasks w)"
  shows "list_all rescan_ok (rescan_tasks w') \<and>
    (get_by rt_id k (rescan_tasks w) = Some t \<and> rt_state t = ''closed'' \<longrightarrow> get_by rt_id k (rescan_tasks w') = Some t)"
  using assms(1)
proof (cases rule: rescan_step_tasks)
  case same
  then show ?thesis using assms(2) by simp
next
  case (new t')
  then have "rescan_ok t'" by (simp add: rescan_ok_def rescan_task_ck_def)
  then show ?thesis using assms(2) new(1) by (simp add: get_by_append)
next
  case (moved i s s')
  have i: "rt_id s = i" "s \<in> set (rescan_tasks w)" using get_by_SomeD [OF moved(1)] by auto
  with assms(2) have "rescan_ok s" by (simp add: list_all_iff)
  with moved(2,6) have "rescan_ok s'" by (auto simp: rescan_ok_def rescan_task_ck_def)
  from set_by_const_ok [OF assms(2) this, of rt_id i] have "list_all rescan_ok (rescan_tasks w')"
    by (simp only: moved(4))
  moreover have "get_by rt_id k (rescan_tasks w') = Some t"
    if "get_by rt_id k (rescan_tasks w) = Some t" "rt_state t = ''closed''"
  proof -
    have "k \<noteq> i" using that moved(1,2) by auto
    have "get_by rt_id k (set_by rt_id i (\<lambda>_. s') rows) = get_by rt_id k rows" for rows
      using \<open>k \<noteq> i\<close> moved(3) i(1) by (induction rows) auto
    then show ?thesis using that(1) moved(4) by simp
  qed
  ultimately show ?thesis by blast
qed

definition copy_digest :: "env \<Rightarrow> (string \<Rightarrow> exn + string) \<Rightarrow> source_document \<Rightarrow> string option" where
  \<comment> \<open>the digest of the bytes the store holds for the document\<close>
  "copy_digest E open_stream doc =
     (case open_stream (sd_storage_uri doc) of Inl err \<Rightarrow> None | Inr data \<Rightarrow> Some (digest_of E data))"

lemma rehash_eq: "rehash E open_stream key = map_sum id (digest_of E) (open_stream key)"
  by (cases "open_stream key") (simp_all add: rehash_def default_chunk_def)

definition check_row_ok :: "env \<Rightarrow> source_document \<times> string \<times> (string \<Rightarrow> exn + string) \<Rightarrow> fixity_check \<Rightarrow> bool" where
  "check_row_ok E planned c = (case planned of (doc, label, open_stream) \<Rightarrow>
     fc_document_id c = sd_id doc \<and> fc_store c = label \<and> fc_expected_digest c = sd_sha256 doc \<and>
     fc_observed_digest c = copy_digest E open_stream doc \<and>
     fc_outcome c = (if copy_digest E open_stream doc = Some (sd_sha256 doc) then ''match'' else ''mismatch''))"

definition alerts_for :: "env \<Rightarrow> (source_document \<times> string \<times> (string \<Rightarrow> exn + string)) list \<Rightarrow> fixity_alert list" where
  "alerts_for E plan = map (\<lambda>(doc, label, open_stream).
       \<lparr>fa_document_id = sd_id doc, fa_store = label, fa_expected_digest = sd_sha256 doc,
        fa_observed_digest = or_empty (copy_digest E open_stream doc)\<rparr>)
     (filter (\<lambda>(doc, label, open_stream). copy_digest E open_stream doc \<noteq> Some (sd_sha256 doc)) plan)"

lemma check_copy_Inr:
  assumes "check_copy E doc label open_stream w = (Inr new, w')"
  shows "\<exists>c. fixity_checks w' = fixity_checks w @ [c] \<and> check_row_ok E (doc, label, open_stream) c \<and>
    new = alerts_for E [(doc, label, open_stream)] \<and>
    length (audit_entries w') = length (audit_entries w) + length new \<and> documents w' = documents w"
  using assms
  by (cases "open_stream (sd_storage_uri doc)")
     (auto simp: check_copy_def rehash_eq Let_def world_defs check_row_ok_def copy_digest_def alerts_for_def or_empty_def
       audited_entries split: if_splits)

lemma sweep_copies_Inr:
  assumes "sweep_copies E plan alerts w = (Inr res, w')"
  shows "\<exists>cs. fixity_checks w' = fixity_checks w @ cs \<and> list_all2 (check_row_ok E) plan cs \<and>
    res = alerts @ alerts_for E plan \<and> length (audit_entries w') + length alerts = length (audit_entries w) + length res"
  using assms
proof (induction plan arbitrary: alerts w)
  case Nil
  then show ?case by (simp add: alerts_for_def)
next
  case (Cons x plan)
  obtain doc label open_stream where x: "x = (doc, label, open_stream)" by (cases x) auto
  obtain cres w1 where c: "check_copy E doc label open_stream w = (cres, w1)" by fastforce
  with Cons.prems x obtain new where new: "cres = Inr new" by (cases cres) auto
  with Cons.prems x c have rest: "sweep_copies E plan (alerts @ new) w1 = (Inr res, w')" by simp
  from check_copy_Inr [OF c [unfolded new]] obtain c1 where
    c1: "fixity_checks w1 = fixity_checks w @ [c1]" "check_row_ok E x c1" "new = alerts_for E [x]"
      "length (audit_entries w1) = length (audit_entries w) + length new" by (auto simp: x)
  from Cons.IH [OF rest] obtain cs where
    cs: "fixity_checks w' = fixity_checks w1 @ cs" "list_all2 (check_row_ok E) plan cs" "res = (alerts @ new) @ alerts_for E plan"
      "length (audit_entries w') + length (alerts @ new) = length (audit_entries w1) + length res" by blast
  have "alerts_for E (x # plan) = new @ alerts_for E plan" by (simp add: c1(3) alerts_for_def)
  then show ?case using c1 cs by (intro exI [of _ "c1 # cs"]) simp
qed

lemma sweep_copies_missing:
  assumes "(doc, label, open_stream) \<in> set plan" and "open_stream (sd_storage_uri doc) = Inl err"
  shows "isl (fst (sweep_copies E plan alerts w))"
  using assms(1)
proof (induction plan arbitrary: alerts w)
  case (Cons x plan)
  obtain d l os where x: "x = (d, l, os)" by (cases x) auto
  obtain cres w1 where c: "check_copy E d l os w = (cres, w1)" by fastforce
  show ?case
  proof (cases cres)
    case (Inr new)
    then have "\<not> (d = doc \<and> os = open_stream)" using c assms(2) by (auto simp: check_copy_def rehash_eq)
    then have "(doc, label, open_stream) \<in> set plan" using Cons.prems x by auto
    from Cons.IH [OF this] show ?thesis using x c Inr by simp
  qed (use x c in simp)
qed simp

text \<open>The counts of the dashboard, read directly off the entries.\<close>

definition count_of :: "string \<Rightarrow> activity_row \<Rightarrow> nat" where
  "count_of action b =
     (if action = ''page.ingested'' then dp_pages_ingested b
      else if action = ''page.processed'' then dp_pages_processed b else dp_records_published b)"

definition row_counts :: "(timestamp \<Rightarrow> string) \<Rightarrow> audit_entry list \<Rightarrow> string option \<times> string \<Rightarrow> activity_row" where
  "row_counts date_of es k =
     (let n = (\<lambda>action. length (filter (\<lambda>e. group_of date_of e = (k, action)) es))
      in \<lparr>dp_district = fst k, dp_date = snd k, dp_pages_ingested = n ''page.ingested'',
          dp_pages_processed = n ''page.processed'', dp_records_published = n ''record.published''\<rparr>)"

lemma bucket_key_simps [simp]:
  "bucket_key (bucket_set a n b) = bucket_key b" "bucket_key (empty_bucket k) = k"
  by (simp_all add: bucket_key_def bucket_set_def empty_bucket_def)

lemma pivot_keys:
  "distinct (map bucket_key rows) \<Longrightarrow> distinct (map bucket_key (pivot gs rows)) \<and>
     bucket_key ` set (pivot gs rows) = bucket_key ` set rows \<union> (fst \<circ> fst) ` set gs"
proof (induction gs rows rule: pivot.induct)
  case (2 k action n gs rows)
  let ?rows = "if k \<in> bucket_key ` set rows then rows else rows @ [empty_bucket k]"
  let ?rows' = "set_by bucket_key k (bucket_set action n) ?rows"
  have m: "map bucket_key ?rows' = map bucket_key ?rows" by (rule map_set_by) simp
  have "distinct (map bucket_key ?rows)" using "2.prems" by auto
  then have d: "distinct (map bucket_key ?rows')" by (simp only: m)
  have "bucket_key ` set ?rows' = set (map bucket_key ?rows)" unfolding m [symmetric] by simp
  then have k: "bucket_key ` set ?rows' = insert k (bucket_key ` set rows)" by auto
  show ?case using "2.IH" [OF refl d] unfolding pivot.simps Let_def k by auto
qed simp

lemma pivot_counts:
  assumes "distinct (map fst gs)" and "set (map (snd \<circ> fst) gs) \<subseteq> set (map fst PAGE_ACTIVITY_ACTIONS)"
    and "a \<in> set (map fst PAGE_ACTIVITY_ACTIONS)" and "get_by bucket_key k (pivot gs rows) = Some b"
  shows "count_of a b = (case map_of gs (k, a) of Some n \<Rightarrow> n
    | None \<Rightarrow> (case get_by bucket_key k rows of None \<Rightarrow> 0 | Some b \<Rightarrow> count_of a b))"
  using assms
proof (induction gs rows rule: pivot.induct)
  case (2 j action n gs rows)
  let ?rows = "if j \<in> bucket_key ` set rows then rows else rows @ [empty_bucket j]"
  let ?rows' = "set_by bucket_key j (bucket_set action n) ?rows"
  have get: "get_by bucket_key k ?rows' = (if k = j then map_option (bucket_set action n) (get_by bucket_key k ?rows)
      else get_by bucket_key k ?rows)"
    by (rule get_by_set_by) simp
  have add: "get_by bucket_key k ?rows = (case get_by bucket_key k rows of
      None \<Rightarrow> if k = j then Some (empty_bucket j) else None | Some b \<Rightarrow> Some b)"
  proof -
    have "j \<in> bucket_key ` set rows \<longleftrightarrow> get_by bucket_key j rows \<noteq> None" by (simp add: get_by_None_iff)
    then show ?thesis by (cases "j \<in> bucket_key ` set rows") (auto simp: get_by_append split: option.splits)
  qed
  have zero: "count_of a (empty_bucket j) = 0" by (simp add: count_of_def empty_bucket_def)
  have set: "count_of a (bucket_set action n b') = (if a = action then n else count_of a b')" for b'
    using "2.prems"(2,3) by (auto simp: count_of_def bucket_set_def PAGE_ACTIVITY_ACTIONS_def)
  have self: "count_of action (bucket_set action n b') = n" for b'
    using "2.prems"(2) by (auto simp: count_of_def bucket_set_def PAGE_ACTIVITY_ACTIONS_def)
  have IH: "count_of a b = (case map_of gs (k, a) of Some n \<Rightarrow> n
      | None \<Rightarrow> (case get_by bucket_key k ?rows' of None \<Rightarrow> 0 | Some b \<Rightarrow> count_of a b))"
    using "2.IH" [OF refl] "2.prems" by (simp add: Let_def)
  have fresh: "(j, action) \<notin> fst ` set gs" using "2.prems"(1) by simp
  then have none: "map_of gs (j, action) = None" by (simp add: map_of_eq_None_iff)
  show ?case
    unfolding IH get add using none
    by (auto simp: set self zero split: option.splits)
qed (auto split: option.splits)

lemma get_by_distinct: "distinct (map key rows) \<Longrightarrow> b \<in> set rows \<Longrightarrow> get_by key (key b) rows = Some b"
  by (induction rows) (auto simp: image_iff)

lemma pivot_rows:
  assumes "set es \<subseteq> {e. ae_action e \<in> set (map fst PAGE_ACTIVITY_ACTIONS)}" and "distinct gl"
    and "set gl = group_of date_of ` set es"
  shows "set (pivot (map (\<lambda>g. (g, length (filter (\<lambda>e. group_of date_of e = g) es))) gl) [])
    = row_counts date_of es ` (fst \<circ> group_of date_of) ` set es"
    (is "set (pivot ?gs []) = _")
proof -
  note keys = pivot_keys [of "[]" ?gs, simplified]
  have fst_gs: "map fst ?gs = gl" by (simp add: comp_def)
  have acts: "set (map (snd \<circ> fst) ?gs) \<subseteq> set (map fst PAGE_ACTIVITY_ACTIONS)"
    using assms(1,3) by (auto simp: group_of_def)
  have row: "b = row_counts date_of es (bucket_key b)" if b: "b \<in> set (pivot ?gs [])" for b
  proof -
    have "get_by bucket_key (bucket_key b) (pivot ?gs []) = Some b" using keys b by (intro get_by_distinct) auto
    note c = pivot_counts [OF _ acts _ this, unfolded fst_gs, OF assms(2)]
    have n: "(case map_of ?gs g of Some n \<Rightarrow> n | None \<Rightarrow> 0) = length (filter (\<lambda>e. group_of date_of e = g) es)" for g
      using assms(3) by (auto simp: map_of_map_restrict restrict_map_def filter_empty_conv)
    have "count_of a b = length (filter (\<lambda>e. group_of date_of e = (bucket_key b, a)) es)"
      if "a \<in> set (map fst PAGE_ACTIVITY_ACTIONS)" for a
      using c [OF that] n [of "(bucket_key b, a)"] by (simp split: option.splits)
    from this [of "''page.ingested''"] this [of "''page.processed''"] this [of "''record.published''"]
    show ?thesis
      by (intro activity_row.equality) (simp_all add: row_counts_def Let_def PAGE_ACTIVITY_ACTIONS_def count_of_def bucket_key_def)
  qed
  have "bucket_key ` set (pivot ?gs []) = (fst \<circ> group_of date_of) ` set es"
    using keys assms(3) by (auto simp: image_image comp_def)
  moreover have "set (pivot ?gs []) = row_counts date_of es ` bucket_key ` set (pivot ?gs [])"
    unfolding image_image using row by (auto intro!: image_eqI)
  ultimately show ?thesis by simp
qed

section \<open>Properties\<close>

text \<open>A closed rescan stays closed. Over any sequence of openings, assignments and closings, with any
  other work in between, every task keeps to the three states with a closing time exactly when
  closed, and a closed task is never changed again.\<close>

lemma rescan_lifecycle:
  assumes "(rescan_step E)\<^sup>*\<^sup>* w w'" and "list_all rescan_ok (rescan_tasks w)"
    and "get_by rt_id k (rescan_tasks w) = Some t" and "rt_state t = ''closed''"
  shows "list_all rescan_ok (rescan_tasks w') \<and> get_by rt_id k (rescan_tasks w') = Some t"
  using assms
proof (induction rule: rtranclp_induct)
  case (step w1 w2)
  then show ?case using rescan_step_ok [OF step.hyps(2), of k t] by blast
qed simp

text \<open>The sweep finds every altered copy. When the sweep of all documents finishes, it has added one
  check for each document and each store, in order, whose outcome says whether the digest of the
  stored bytes is the recorded one; the alerts are exactly the copies for which it is not, and
  the log gained one entry for each.\<close>

lemma sweep_finds_every_mismatch:
  assumes "run_sweep E (Inr ()) None primary secondary w = (Inr alerts, w')"
  shows "(\<exists>cs. fixity_checks w' = fixity_checks w @ cs \<and>
      list_all2 (check_row_ok E) (sweep_plan None primary secondary w) cs) \<and>
    alerts = alerts_for E (sweep_plan None primary secondary w) \<and>
    length (audit_entries w') = length (audit_entries w) + length alerts"
  using sweep_copies_Inr [of E "sweep_plan None primary secondary w" "[]" w alerts w'] assms
  by (auto simp: run_sweep_def)

text \<open>One missing object stops the sweep. If either store cannot open one of the documents, the whole
  job ends in an exception and nothing of it is kept: no check of any document is recorded and
  no mismatch found on the way reaches the log.\<close>

lemma sweep_stops_at_missing_object:
  assumes "doc \<in> set (documents w)" and "primary (sd_storage_uri doc) = Inl err \<or> secondary (sd_storage_uri doc) = Inl err"
  shows "\<exists>err' w'. sweep_job E (Inr ()) primary secondary w = (Inl err', w') \<and> fixity_checks w' = fixity_checks w \<and>
    audit_entries w' = audit_entries w"
proof -
  obtain res v where r: "run_sweep E (Inr ()) None primary secondary w = (res, v)" by fastforce
  have "(doc, ''primary'', primary) \<in> set (sweep_plan None primary secondary w)"
    "(doc, ''secondary'', secondary) \<in> set (sweep_plan None primary secondary w)"
    using assms(1) by (auto simp: sweep_plan_def)
  with assms(2) sweep_copies_missing [of doc _ _ "sweep_plan None primary secondary w" err E "[]" w] have "isl res"
    using r by (auto simp: run_sweep_def)
  then obtain err' where "res = Inl err'" by (cases res) auto
  then show ?thesis using r by (simp add: sweep_job_def session_defs)
qed

definition demo_fixity_db :: db where
  "demo_fixity_db = empty_db\<lparr>documents := [demo_document]\<rparr>"

lemma demo_sweep:
  "\<exists>alerts w'. run_sweep demo_env (Inr ()) None (\<lambda>_. Inr ''scan'') (\<lambda>_. Inr ''rotten'') demo_fixity_db = (Inr alerts, w')"
  by (simp add: run_sweep_def sweep_plan_def demo_fixity_db_def check_copy_def rehash_eq Let_def world_defs)

lemma sweep_finds_every_mismatch_example:
  "\<exists>alerts w'. run_sweep demo_env (Inr ()) None (\<lambda>_. Inr ''scan'') (\<lambda>_. Inr ''rotten'') demo_fixity_db = (Inr alerts, w') \<and>
     length (audit_entries w') = length alerts \<and> length (fixity_checks w') = 2"
proof -
  obtain alerts w' where s:
    "run_sweep demo_env (Inr ()) None (\<lambda>_. Inr ''scan'') (\<lambda>_. Inr ''rotten'') demo_fixity_db = (Inr alerts, w')"
    using demo_sweep by blast
  have "sweep_plan None (\<lambda>_. Inr ''scan'') (\<lambda>_. Inr ''rotten'') demo_fixity_db =
      [(demo_document, ''primary'', \<lambda>_. Inr ''scan''), (demo_document, ''secondary'', \<lambda>_. Inr ''rotten'')]"
    by (simp add: sweep_plan_def demo_fixity_db_def)
  then have n: "length (sweep_plan None (\<lambda>_. Inr ''scan'') (\<lambda>_. Inr ''rotten'') demo_fixity_db) = 2"
    by simp
  note f = sweep_finds_every_mismatch [OF s]
  have "length (fixity_checks w') = 2"
    using conjunct1 [OF f] n by (auto simp: demo_fixity_db_def empty_db_def dest!: list_all2_lengthD)
  moreover have "length (audit_entries w') = length alerts"
    using f by (simp add: demo_fixity_db_def empty_db_def)
  ultimately show ?thesis using s by blast
qed

lemma sweep_stops_at_missing_object_witness:
  "\<exists>err w'. sweep_job demo_env (Inr ()) (\<lambda>_. Inr ''rotten'') (\<lambda>key. Inl (KeyError key)) demo_fixity_db = (Inl err, w') \<and>
     fixity_checks w' = [] \<and> audit_entries w' = []"
  using sweep_stops_at_missing_object [of demo_document demo_fixity_db "\<lambda>_. Inr ''rotten''" _ "\<lambda>key. Inl (KeyError key)" demo_env]
  by (simp add: demo_fixity_db_def empty_db_def)

definition demo_closed_task :: rescan_task where
  "demo_closed_task = \<lparr>rt_id = ''t'', rt_page_id = ''p1'', rt_reason_code = ''blur'', rt_owner = Some ''o'', rt_state = ''closed'',
     rt_opened_at = 0, rt_closed_at = Some 1\<rparr>"

lemma rescan_lifecycle_example:
  "get_by rt_id ''t'' (rescan_tasks (snd (close_rescan demo_env ''t'' ''clerk''
     (snd (assign_rescan ''t'' ''other'' (empty_db\<lparr>rescan_tasks := [demo_closed_task]\<rparr>)))))) = Some demo_closed_task"
proof -
  let ?w = "empty_db\<lparr>rescan_tasks := [demo_closed_task]\<rparr>"
  let ?w1 = "snd (assign_rescan ''t'' ''other'' ?w)"
  have "rescan_step demo_env ?w ?w1" by (rule rescan_step.assigns [OF prod.collapse [symmetric]])
  moreover have "rescan_step demo_env ?w1 (snd (close_rescan demo_env ''t'' ''clerk'' ?w1))"
    by (rule rescan_step.closes [OF prod.collapse [symmetric]])
  ultimately have "(rescan_step demo_env)\<^sup>*\<^sup>* ?w (snd (close_rescan demo_env ''t'' ''clerk'' ?w1))"
    by (rule converse_rtranclp_into_rtranclp [OF _ r_into_rtranclp])
  from rescan_lifecycle [OF this, of "''t''" demo_closed_task] show ?thesis
    by (simp add: rescan_ok_def rescan_task_ck_def demo_closed_task_def)
qed

text \<open>The dashboard counts what happened. The figures have one row for each district and day on which
  a counted event of the window was logged, and no other; its three numbers are the numbers of
  entries of that district and day with each of the three actions, and the rows come in order
  of the day.\<close>

lemma page_activity_counts:
  "distinct (map bucket_key (get_page_activity date_of district since until w)) \<and>
   set (get_page_activity date_of district since until w) =
     row_counts date_of (activity_entries district since until w) `
       (fst \<circ> group_of date_of) ` set (activity_entries district since until w) \<and>
   sorted (map dp_date (get_page_activity date_of district since until w))"
proof -
  let ?es = "activity_entries district since until w"
  let ?gl = "sort_key (\<lambda>((d, day), a). day) (sort_key (\<lambda>((d, day), a). if d = None then 1 else 0 :: nat)
     (sort_key (\<lambda>((d, day), a). or_empty d) (remdups (map (group_of date_of) ?es))))"
  let ?rows = "pivot (activity_groups date_of ?es) []"
  have "set ?rows = row_counts date_of ?es ` (fst \<circ> group_of date_of) ` set ?es"
    unfolding activity_groups_def
    by (rule pivot_rows) (auto simp: activity_entries_def)
  moreover have "distinct (map bucket_key ?rows)" using pivot_keys [of "[]"] by simp
  then have "distinct (map bucket_key (get_page_activity date_of district since until w))"
    unfolding get_page_activity_def by (simp add: distinct_map)
  ultimately show ?thesis by (simp add: get_page_activity_def)
qed

end
