(* ===== verification/Runner.thy ===== *)
theory Runner
  imports Triage Decision
begin

text \<open>
  The loop every worker runs in (\<open>backend/workers/runner.py\<close>, with the defaults of
  \<open>domain/queue_policy.py\<close>): consume, call the handler in a session of its own, commit, then
  acknowledge; or roll back and leave the message for redelivery; or move it to the dead-letter
  queue. The broker is given by its three operations, so that the same functions run over every
  broker that keeps the contract \<open>queue_port\<close>; what the network and the database refuse is given by
  \<open>faults\<close>, so that every call of the loop that can raise does. \<open>stop i\<close> says whether a stop has been
  requested by the \<open>i\<close>-th time the flag is read. A broker call that waits for ever makes the result
  \<open>None\<close>.
\<close>

section \<open>The class of an exception\<close>

primrec exn_class :: "exn \<Rightarrow> string" where
  \<comment> \<open>\<open>type(exc).__name__\<close>\<close>
  "exn_class (KeyError s) = ''KeyError''"
| "exn_class (ValueError s) = ''ValueError''"
| "exn_class (AttributeError s) = ''AttributeError''"
| "exn_class (TypeError s) = ''TypeError''"
| "exn_class (IntegrityError s) = ''IntegrityError''"
| "exn_class MultipleResultsFound = ''MultipleResultsFound''"
| "exn_class (RuntimeError s) = ''RuntimeError''"
| "exn_class (OSError s) = ''OSError''"
| "exn_class (ClientError s) = ''ClientError''"
| "exn_class (ObjectAlreadyExistsWithDifferentContent s) = ''ObjectAlreadyExistsWithDifferentContent''"
| "exn_class (DistinctCredentialsError s) = ''DistinctCredentialsError''"
| "exn_class (IncompleteModelVersions s) = ''IncompleteModelVersions''"
| "exn_class (LiveResolutionInsidePinnedScope s) = ''LiveResolutionInsidePinnedScope''"
| "exn_class (ModelRegistryResolutionError s) = ''ModelRegistryResolutionError''"
| "exn_class (ExtractionNotFoundError s) = ''ExtractionNotFoundError''"
| "exn_class (UnroutableExtraction s) = ''UnroutableExtraction''"
| "exn_class (PayloadMismatchError s) = ''PayloadMismatchError''"
| "exn_class (AlreadyDecidedWithDifferentOutcome s) = ''AlreadyDecidedWithDifferentOutcome''"
| "exn_class (ReviewTaskNotClaimable s) = ''ReviewTaskNotClaimable''"
| "exn_class (NotTheClaimant s) = ''NotTheClaimant''"
| "exn_class (SameActorCannotConfirm s) = ''SameActorCannotConfirm''"
| "exn_class (PendingCorrectionAlreadyResolved s) = ''PendingCorrectionAlreadyResolved''"
| "exn_class (InvalidEntryStatusTransition s) = ''InvalidEntryStatusTransition''"
| "exn_class (InvalidConflictTransition s) = ''InvalidConflictTransition''"
| "exn_class (InvalidRescanTaskTransition s) = ''InvalidRescanTaskTransition''"
| "exn_class (UnsupportedMediaType s) = ''UnsupportedMediaType''"
| "exn_class (MissingMandatoryBatchField s) = ''MissingMandatoryBatchField''"
| "exn_class (UnsplittableDocument s) = ''UnsplittableDocument''"
| "exn_class (ConfigNotFound s k) = ''ConfigNotFound''"
| "exn_class (AuthorEqualsApprover s) = ''AuthorEqualsApprover''"
| "exn_class MissingPurpose = ''MissingPurpose''"
| "exn_class (UnknownIdentity s) = ''UnknownIdentity''"
| "exn_class (LeakageDetected s) = ''LeakageDetected''"
| "exn_class (InvalidStateTransition s) = ''InvalidStateTransition''"
| "exn_class (OCRConfigurationError s) = ''OCRConfigurationError''"
| "exn_class (OCRProcessingError s) = ''OCRProcessingError''"
| "exn_class (OCRResponseParseError s) = ''OCRResponseParseError''"
| "exn_class (HWRNotImplementedError s) = ''HWRNotImplementedError''"
| "exn_class (InsufficientControlPointsError n) = ''InsufficientControlPointsError''"
| "exn_class (HTTPException s) = ''HTTPException''"

section \<open>Configuration\<close>

record queue_policy =
  block_ms :: nat
  batch_count :: nat
  max_deliveries :: nat
  relay_interval_ms :: nat
  relay_batch_size :: nat

definition default_policy :: queue_policy where
  "default_policy = \<lparr>block_ms = 1000, batch_count = 1, max_deliveries = 5, relay_interval_ms = 500,
     relay_batch_size = 100\<rparr>"

definition env_int :: "environ \<Rightarrow> (string \<Rightarrow> nat option) \<Rightarrow> string \<Rightarrow> nat \<Rightarrow> nat" where
  \<comment> \<open>\<open>int(os.environ.get(name, str(default)))\<close>, the default when that raises; \<open>py_int\<close> parses a
    numeral (a negative setting is outside the model)\<close>
  "env_int os py_int name dflt =
     (case os name of None \<Rightarrow> dflt | Some s \<Rightarrow> (case py_int s of None \<Rightarrow> dflt | Some n \<Rightarrow> n))"

definition get_queue_policy :: "environ \<Rightarrow> (string \<Rightarrow> nat option) \<Rightarrow> queue_policy" where
  "get_queue_policy os py_int =
     \<lparr>block_ms = env_int os py_int ''QUEUE_BLOCK_MS'' 1000,
      batch_count = env_int os py_int ''QUEUE_BATCH_COUNT'' 1,
      max_deliveries = env_int os py_int ''QUEUE_MAX_DELIVERIES'' 5,
      relay_interval_ms = env_int os py_int ''OUTBOX_RELAY_INTERVAL_MS'' 500,
      relay_batch_size = env_int os py_int ''OUTBOX_RELAY_BATCH_SIZE'' 100\<rparr>"

record ('m, 'q) broker =
  br_publish :: "string \<Rightarrow> 'm \<Rightarrow> 'q \<Rightarrow> (exn + string) \<times> 'q"
  br_consume :: "string \<Rightarrow> string \<Rightarrow> nat \<Rightarrow> nat \<Rightarrow> 'q \<Rightarrow> 'm queue_message list option \<times> 'q"
  br_ack :: "string \<Rightarrow> string \<Rightarrow> string \<Rightarrow> 'q \<Rightarrow> 'q"

definition broker_of where
  "broker_of publish consume ack = \<lparr>br_publish = publish, br_consume = consume, br_ack = ack\<rparr>"

text \<open>
  Whether a call raises, decided by the state at the call. A \<open>consume\<close> or \<open>ack\<close> that raises may have
  reached the broker before (\<open>True\<close>) or not; a refused commit leaves the session's changes pending.
  (\<open>publish\<close> reports its own failures.)
\<close>

record ('q, 'w) faults =
  ft_consume :: "'q \<Rightarrow> (exn \<times> bool) option"
  ft_ack :: "'q \<Rightarrow> (exn \<times> bool) option"
  ft_commit :: "'q \<Rightarrow> 'w session \<Rightarrow> exn option"

definition no_faults :: "('q, 'w) faults" where
  "no_faults = \<lparr>ft_consume = (\<lambda>_. None), ft_ack = (\<lambda>_. None), ft_commit = (\<lambda>_ _. None)\<rparr>"

record worker =
  wk_queue :: string
  wk_group :: string
  wk_max_deliveries :: nat
  wk_block_ms :: nat
  wk_batch_count :: nat

definition if_not_none :: "'x option \<Rightarrow> 'x \<Rightarrow> 'x" where
  "if_not_none x y = (case x of Some v \<Rightarrow> v | None \<Rightarrow> y)"

definition worker_init ::
  "queue_policy \<Rightarrow> string \<Rightarrow> string \<Rightarrow> nat option \<Rightarrow> nat option \<Rightarrow> nat option \<Rightarrow> worker" where
  \<comment> \<open>\<open>pol = policy or get_queue_policy()\<close> is the argument\<close>
  "worker_init pol queue_name grp max_deliv block batch =
     \<lparr>wk_queue = queue_name, wk_group = grp, wk_max_deliveries = if_not_none max_deliv (max_deliveries pol),
      wk_block_ms = if_not_none block (block_ms pol), wk_batch_count = if_not_none batch (batch_count pol)\<rparr>"

definition dlq_name :: "string \<Rightarrow> string" where
  "dlq_name queue_name = queue_name @ ''.DLQ''"

section \<open>One message\<close>

definition try_commit :: "('q, 'w) faults \<Rightarrow> 'q \<Rightarrow> 'w session \<Rightarrow> (exn + unit) \<times> 'w session" where
  "try_commit F q s = (case ft_commit F q s of None \<Rightarrow> (Inr (), commit s) | Some err \<Rightarrow> (Inl err, s))"

definition try_ack :: "('q, 'w) faults \<Rightarrow> worker \<Rightarrow> ('m, 'q) broker \<Rightarrow> string \<Rightarrow> 'q \<Rightarrow> (exn + unit) \<times> 'q" where
  "try_ack F wk br sid q =
     (let acked = br_ack br (wk_queue wk) (wk_group wk) sid q
      in case ft_ack F q of
           None \<Rightarrow> (Inr (), acked) | Some (err, arrived) \<Rightarrow> (Inl err, if arrived then acked else q))"

definition dead_letter ::
  "env \<Rightarrow> ('q, 'a audit_world_scheme) faults \<Rightarrow> worker \<Rightarrow> ('m, 'q) broker \<Rightarrow> 'm queue_message \<Rightarrow> string
    \<Rightarrow> 'q \<Rightarrow> 'a audit_world_scheme \<Rightarrow> (exn + unit) \<times> 'q \<times> 'a audit_world_scheme"
where
  "dead_letter E F wk br msg error_class q w =
     (case br_publish br (dlq_name (wk_queue wk)) (qm_data msg) q of
        (Inl err, q) \<Rightarrow> (Inl err, q, w)
      | (Inr sid, q) \<Rightarrow>
          (let audit_session = (begin_session w)\<lparr>current :=
                 record_dead_lettered E (wk_queue wk) (qm_sequence_id msg) (qm_delivery_count msg) error_class w\<rparr>
           in case try_commit F q audit_session of
                (Inl err, s) \<Rightarrow> (Inl err, q, current (rollback s))
              | (Inr _, s) \<Rightarrow>
                  (case try_ack F wk br (qm_sequence_id msg) q of (res, q) \<Rightarrow> (res, q, committed s))))"

type_synonym ('m, 'w, 'r) handler = "'m \<Rightarrow> 'w session \<Rightarrow> (exn + 'r) \<times> 'w session"

definition handle_commit_ack ::
  "('q, 'w) faults \<Rightarrow> worker \<Rightarrow> ('m, 'q) broker \<Rightarrow> ('m, 'w, 'r) handler \<Rightarrow> 'm queue_message \<Rightarrow> 'q \<Rightarrow> 'w
    \<Rightarrow> (exn + unit) \<times> 'q \<times> 'w session"
where
  \<comment> \<open>the \<open>try\<close> block\<close>
  "handle_commit_ack F wk br handler msg q w =
     (case handler (qm_data msg) (begin_session w) of
        (Inl err, s) \<Rightarrow> (Inl err, q, s)
      | (Inr r, s) \<Rightarrow>
          (case try_commit F q s of
             (Inl err, s) \<Rightarrow> (Inl err, q, s)
           | (Inr _, s) \<Rightarrow> (case try_ack F wk br (qm_sequence_id msg) q of (res, q) \<Rightarrow> (res, q, s))))"

definition process_message ::
  "env \<Rightarrow> ('q, 'a audit_world_scheme) faults \<Rightarrow> worker \<Rightarrow> ('m, 'q) broker \<Rightarrow> ('m, 'a audit_world_scheme, 'r) handler
    \<Rightarrow> 'm queue_message \<Rightarrow> 'q \<Rightarrow> 'a audit_world_scheme \<Rightarrow> (exn + unit) \<times> 'q \<times> 'a audit_world_scheme"
where
  "process_message E F wk br handler msg q w =
     (if qm_delivery_count msg > wk_max_deliveries wk
      then dead_letter E F wk br msg ''MaxDeliveriesExceeded'' q w
      else
        (case handle_commit_ack F wk br handler msg q w of
           (Inr _, q, s) \<Rightarrow> (Inr (), q, committed s)
         | (Inl err, q, s) \<Rightarrow>
             (let w = current (rollback s)
              in if qm_delivery_count msg \<ge> wk_max_deliveries wk
                 then dead_letter E F wk br msg (exn_class err) q w
                 else (Inl err, q, w))))"

fun process_messages ::
  "env \<Rightarrow> ('q, 'a audit_world_scheme) faults \<Rightarrow> worker \<Rightarrow> ('m, 'q) broker \<Rightarrow> ('m, 'a audit_world_scheme, 'r) handler
    \<Rightarrow> (nat \<Rightarrow> bool) \<Rightarrow> nat \<Rightarrow> 'm queue_message list \<Rightarrow> 'q \<Rightarrow> 'a audit_world_scheme
    \<Rightarrow> (exn + nat) \<times> 'q \<times> 'a audit_world_scheme"
where
  "process_messages E F wk br handler stop processed [] q w = (Inr processed, q, w)"
| "process_messages E F wk br handler stop processed (msg # msgs) q w =
     (if stop (Suc processed) then (Inr processed, q, w)
      else
        (case process_message E F wk br handler msg q w of
           (Inl err, q, w) \<Rightarrow> (Inl err, q, w)
         | (Inr _, q, w) \<Rightarrow> process_messages E F wk br handler stop (Suc processed) msgs q w))"

section \<open>The loops\<close>

definition try_consume ::
  "('q, 'w) faults \<Rightarrow> worker \<Rightarrow> ('m, 'q) broker \<Rightarrow> 'q \<Rightarrow> (exn + 'm queue_message list) option \<times> 'q"
where
  "try_consume F wk br q =
     (let (messages, consumed) = br_consume br (wk_queue wk) (wk_group wk) (wk_batch_count wk) (wk_block_ms wk) q
      in case ft_consume F q of
           None \<Rightarrow> (map_option Inr messages, consumed)
         | Some (err, arrived) \<Rightarrow> (Some (Inl err), if arrived then consumed else q))"

definition run_once ::
  "env \<Rightarrow> ('q, 'a audit_world_scheme) faults \<Rightarrow> worker \<Rightarrow> ('m, 'q) broker \<Rightarrow> ('m, 'a audit_world_scheme, 'r) handler
    \<Rightarrow> (nat \<Rightarrow> bool) \<Rightarrow> 'q \<Rightarrow> 'a audit_world_scheme \<Rightarrow> (exn + nat) option \<times> 'q \<times> 'a audit_world_scheme"
where
  "run_once E F wk br handler stop q w =
     (if stop 0 then (Some (Inr 0), q, w)
      else
        (case try_consume F wk br q of
           (None, q) \<Rightarrow> (None, q, w)
         | (Some (Inl err), q) \<Rightarrow> (Some (Inl err), q, w)
         | (Some (Inr messages), q) \<Rightarrow>
             (case process_messages E F wk br handler stop 0 messages q w of
                (res, q, w) \<Rightarrow> (Some res, q, w))))"

definition run_worker_once where
  "run_worker_once E F pol br queue_name grp handler max_deliv block batch stop q w =
     run_once E F (worker_init pol queue_name grp max_deliv block batch) br handler stop q w"

primrec run_loop ::
  "env \<Rightarrow> ('q, 'a audit_world_scheme) faults \<Rightarrow> worker \<Rightarrow> ('m, 'q) broker \<Rightarrow> ('m, 'a audit_world_scheme, 'r) handler
    \<Rightarrow> (nat \<Rightarrow> nat \<Rightarrow> bool) \<Rightarrow> nat \<Rightarrow> 'q \<Rightarrow> 'a audit_world_scheme \<Rightarrow> ('q \<times> 'a audit_world_scheme) option"
where
  \<comment> \<open>with \<open>max_iterations\<close> left; every exception of an iteration is logged and swallowed\<close>
  "run_loop E F wk br handler stop 0 q w = Some (q, w)"
| "run_loop E F wk br handler stop (Suc n) q w =
     (if stop (Suc n) 0 then Some (q, w)
      else
        (case run_once E F wk br handler (stop (Suc n)) q w of
           (None, q, w) \<Rightarrow> None
         | (Some res, q, w) \<Rightarrow> run_loop E F wk br handler stop n q w))"

primrec relay_loop ::
  "env \<Rightarrow> ('m, 'q) broker \<Rightarrow> (string \<Rightarrow> bool) \<Rightarrow> nat \<Rightarrow> (nat \<Rightarrow> bool) \<Rightarrow> nat
    \<Rightarrow> ('m, 'a) outbox_world_scheme \<Rightarrow> 'q \<Rightarrow> ('m, 'a) outbox_world_scheme \<times> 'q"
where
  \<comment> \<open>\<open>RelayRunner.run_loop\<close>, without the sleeping\<close>
  "relay_loop E br locked batch_size stop 0 w q = (w, q)"
| "relay_loop E br locked batch_size stop (Suc n) w q =
     (if stop n then (w, q)
      else (case drain_once E (br_publish br) locked batch_size w q of
              (res, w, q) \<Rightarrow> relay_loop E br locked batch_size stop n w q))"

section \<open>The worker over any broker\<close>

lemma dlq_name_neq [simp]: "dlq_name q \<noteq> q"
  by (simp add: dlq_name_def)

text \<open>
  What happens to the database in a round, as a sequence of steps: a handler's work committed; a
  handler's work rolled back, as far as the handler did not commit it itself; the audit entry of a
  dead letter committed, or rolled back.
\<close>

datatype 'm db_event =
    Worked (dv_sequence_id: string) (dv_data: 'm)
  | Undone (dv_sequence_id: string) (dv_data: 'm)
  | Buried (dv_sequence_id: string) (dv_data: 'm)

inductive db_step ::
  "env \<Rightarrow> worker \<Rightarrow> ('m, 'a audit_world_scheme, 'r) handler \<Rightarrow> 'm db_event
    \<Rightarrow> 'a audit_world_scheme \<Rightarrow> 'a audit_world_scheme \<Rightarrow> bool"
  for E wk handler where
  worked: "handler m (begin_session v) = (Inr r, s) \<Longrightarrow> db_step E wk handler (Worked sid m) v (current s)"
| undone: "handler m (begin_session v) = (res, s) \<Longrightarrow> db_step E wk handler (Undone sid m) v (current (rollback s))"
| buried: "db_step E wk handler (Buried sid m) v (record_dead_lettered E (wk_queue wk) sid n err v)"
| unburied: "db_step E wk handler (Undone sid m) v (rolled_back v (record_dead_lettered E (wk_queue wk) sid n err v))"

fun db_path ::
  "env \<Rightarrow> worker \<Rightarrow> ('m, 'a audit_world_scheme, 'r) handler \<Rightarrow> 'm db_event list
    \<Rightarrow> 'a audit_world_scheme \<Rightarrow> 'a audit_world_scheme \<Rightarrow> bool"
where
  "db_path E wk handler [] v v' \<longleftrightarrow> v' = v"
| "db_path E wk handler (t # ts) v v' \<longleftrightarrow> (\<exists>u. db_step E wk handler t v u \<and> db_path E wk handler ts u v')"

definition dv_pair :: "'m db_event \<Rightarrow> string \<times> 'm" where
  "dv_pair t = (dv_sequence_id t, dv_data t)"

lemma db_path_append:
  "db_path E wk handler (ts @ us) v v' \<longleftrightarrow> (\<exists>u. db_path E wk handler ts v u \<and> db_path E wk handler us u v')"
  by (induction ts arbitrary: v) auto

lemma rolled_back_self [simp]: "rolled_back v v = v"
  by (simp add: rolled_back_def)

lemma rollback_commit [simp]: "current (rollback (commit s)) = current s"
  by (simp add: rollback_def commit_def)

text \<open>What the session of the message has seen when the \<open>try\<close> block ends, and where the broker is.\<close>

lemma handle_commit_ack_cases:
  assumes "handle_commit_ack F wk br handler msg q w = (res, q', s')"
  obtains (raised) err where "handler (qm_data msg) (begin_session w) = (Inl err, s')" "res = Inl err" "q' = q"
  | (refused) r err where "handler (qm_data msg) (begin_session w) = (Inr r, s')" "res = Inl err" "q' = q"
  | (done_work) r s where "handler (qm_data msg) (begin_session w) = (Inr r, s)" "s' = commit s"
      "q' \<in> {q, br_ack br (wk_queue wk) (wk_group wk) (qm_sequence_id msg) q}"
      "\<not> isl res \<Longrightarrow> q' = br_ack br (wk_queue wk) (wk_group wk) (qm_sequence_id msg) q"
proof -
  obtain hres s where h: "handler (qm_data msg) (begin_session w) = (hres, s)" by fastforce
  show thesis
  proof (cases hres)
    case (Inl err)
    then show thesis using assms h by (intro raised) (auto simp: handle_commit_ack_def)
  next
    case (Inr r)
    show thesis
    proof (cases "ft_commit F q s")
      case (Some err)
      then show thesis using assms h Inr by (intro refused) (auto simp: handle_commit_ack_def try_commit_def)
    next
      case None
      then show thesis using assms h Inr
        by (intro done_work)
           (auto simp: handle_commit_ack_def try_commit_def try_ack_def Let_def split: option.splits if_splits)
    qed
  qed
qed

lemma dead_letter_cases:
  assumes "dead_letter E F wk br msg err q w = (res, q', w')"
  obtains (unpublished) e where "br_publish br (dlq_name (wk_queue wk)) (qm_data msg) q = (Inl e, q')"
      "res = Inl e" "w' = w"
  | (unaudited) sid e where "br_publish br (dlq_name (wk_queue wk)) (qm_data msg) q = (Inr sid, q')" "res = Inl e"
      "w' = rolled_back w (record_dead_lettered E (wk_queue wk) (qm_sequence_id msg) (qm_delivery_count msg) err w)"
  | (buried) sid q1 where "br_publish br (dlq_name (wk_queue wk)) (qm_data msg) q = (Inr sid, q1)"
      "w' = record_dead_lettered E (wk_queue wk) (qm_sequence_id msg) (qm_delivery_count msg) err w"
      "q' \<in> {q1, br_ack br (wk_queue wk) (wk_group wk) (qm_sequence_id msg) q1}"
      "\<not> isl res \<Longrightarrow> q' = br_ack br (wk_queue wk) (wk_group wk) (qm_sequence_id msg) q1"
proof -
  let ?s = "(begin_session w)\<lparr>current :=
    record_dead_lettered E (wk_queue wk) (qm_sequence_id msg) (qm_delivery_count msg) err w\<rparr>"
  obtain pres q1 where p: "br_publish br (dlq_name (wk_queue wk)) (qm_data msg) q = (pres, q1)" by fastforce
  show thesis
  proof (cases pres)
    case (Inl e)
    then show thesis using assms p by (intro unpublished) (auto simp: dead_letter_def)
  next
    case (Inr sid)
    show thesis
    proof (cases "ft_commit F q1 ?s")
      case (Some e)
      then show thesis using assms p Inr
        by (intro unaudited) (auto simp: dead_letter_def try_commit_def rollback_def begin_session_def Let_def)
    next
      case None
      then show thesis using assms p Inr
        by (intro buried)
           (auto simp: dead_letter_def try_commit_def try_ack_def commit_def begin_session_def Let_def
             split: option.splits if_splits)
    qed
  qed
qed

context queue_port
begin

lemma publish_keeps:
  assumes "ok q" and "publish p m q = (res, q')"
  shows "ok q'" and "x \<in> set (published h q) \<Longrightarrow> x \<in> set (published h q')"
    and "p \<noteq> Q \<Longrightarrow> outstanding Q G q' = outstanding Q G q" and "delivered Q G q \<subseteq> delivered Q G q'"
    and "res = Inr sid \<Longrightarrow> m \<in> set (published p q')"
proof -
  show "ok q'" using publish_ok assms by blast
  show "x \<in> set (published h q')" if "x \<in> set (published h q)"
    using published_grows [OF assms, of h] that by auto
  show "outstanding Q G q' = outstanding Q G q" if "p \<noteq> Q"
    using publish_outstanding [OF assms(1)] publish_Inl_outstanding [OF assms(1)] assms(2) that by (cases res) auto
  show "delivered Q G q \<subseteq> delivered Q G q'" by (rule publish_delivered [OF assms])
  show "m \<in> set (published p q')" if "res = Inr sid"
    using publish_Inr [OF assms(1)] assms(2) that by auto
qed

definition settled :: "string \<Rightarrow> string \<Rightarrow> string \<Rightarrow> bool \<Rightarrow> 'q \<Rightarrow> 'q \<Rightarrow> bool" where
  \<comment> \<open>only the message \<open>sid\<close> was acknowledged, if \<open>taken\<close>, and nothing published was lost\<close>
  "settled Q G sid taken q q' \<longleftrightarrow> ok q' \<and> (\<forall>h. set (published h q) \<subseteq> set (published h q')) \<and>
     outstanding Q G q' = (if taken then filter (\<lambda>(s, _). s \<noteq> sid) (outstanding Q G q) else outstanding Q G q) \<and>
     (\<forall>y\<in>delivered Q G q. fst y \<noteq> sid \<longrightarrow> y \<in> delivered Q G q')"

definition ackable :: "string \<Rightarrow> string \<Rightarrow> string \<Rightarrow> 'm \<Rightarrow> 'q \<Rightarrow> bool" where
  \<comment> \<open>the message was delivered, or its acknowledgement has been recorded already\<close>
  "ackable Q G sid m q \<longleftrightarrow> (sid, m) \<in> delivered Q G q \<or> sid \<notin> fst ` set (outstanding Q G q)"

lemma ack_outstanding:
  assumes "ok q" and "ackable Q G sid m q"
  shows "outstanding Q G (ack Q G sid q) = filter (\<lambda>(s, _). s \<noteq> sid) (outstanding Q G q)"
proof (cases "(sid, m) \<in> delivered Q G q")
  case True
  then show ?thesis by (rule delivered_ack [OF assms(1)])
next
  case False
  then have gone: "sid \<notin> fst ` set (outstanding Q G q)" using assms(2) by (simp add: ackable_def)
  then have "filter (\<lambda>(s, _). s \<noteq> sid) (outstanding Q G q) = outstanding Q G q" by (force simp: filter_id_conv)
  with ack_absent [OF assms(1) gone] show ?thesis by simp
qed

lemma settled_ack:
  assumes "ok q" and "ackable Q G sid m q"
  shows "settled Q G sid True q (ack Q G sid q)"
  using ack_ok [OF assms(1)] ack_published ack_outstanding [OF assms] ack_delivered [OF assms(1)]
  by (auto simp: settled_def)

lemma settled_after_publish:
  assumes "ok q" and "publish p m q = (res, q1)" and "p \<noteq> Q" and "settled Q G sid taken q1 q'"
  shows "settled Q G sid taken q q'"
  using publish_keeps(2-4) [OF assms(1,2)] assms(3,4) unfolding settled_def
  by (metis subset_iff)

lemma settled_refl: "ok q \<Longrightarrow> settled Q G sid False q q"
  by (simp add: settled_def)

lemma settled_trans:
  assumes "settled Q G sid a q q1" and "settled Q G sid b q1 q'"
  shows "settled Q G sid (a \<or> b) q q'"
proof -
  note s = assms [unfolded settled_def]
  have "filter (\<lambda>(s, _). s \<noteq> sid) (filter (\<lambda>(s, _). s \<noteq> sid) xs) = filter (\<lambda>(s, _). s \<noteq> sid) xs"
    for xs :: "(string \<times> 'm) list" by simp
  with s have "outstanding Q G q' = (if a \<or> b then filter (\<lambda>(s, _). s \<noteq> sid) (outstanding Q G q) else outstanding Q G q)"
    by simp
  moreover have "set (published h q) \<subseteq> set (published h q')" for h using s by blast
  moreover have "y \<in> delivered Q G q'" if "y \<in> delivered Q G q" "fst y \<noteq> sid" for y using s that by blast
  ultimately show ?thesis using s by (simp add: settled_def)
qed

lemma ackable_after_publish:
  assumes "ok q" and "publish p x q = (res, q1)" and "p \<noteq> Q" and "ackable Q G sid m q"
  shows "ackable Q G sid m q1"
  using publish_keeps(3) [OF assms(1-3), of G] publish_keeps(4) [OF assms(1,2), of Q G] assms(4)
  by (auto simp: ackable_def)

lemma ackable_after_ack: "ok q \<Longrightarrow> ackable Q G sid m q \<Longrightarrow> ackable Q G sid m (ack Q G sid q)"
  by (auto simp: ackable_def [of Q G sid m "ack Q G sid q"] ack_outstanding)

text \<open>A message no longer owed is accounted for in the database.\<close>

definition accounted :: "string \<Rightarrow> 'm db_event list \<Rightarrow> 'q \<Rightarrow> string \<times> 'm \<Rightarrow> bool" where
  "accounted Q steps q x \<longleftrightarrow> Worked (fst x) (snd x) \<in> set steps \<or>
     (Buried (fst x) (snd x) \<in> set steps \<and> snd x \<in> set (published (dlq_name Q) q))"

lemma accounted_mono:
  "accounted Q ts q x \<Longrightarrow> set ts \<subseteq> set us \<Longrightarrow> set (published (dlq_name Q) q) \<subseteq> set (published (dlq_name Q) q') \<Longrightarrow>
     accounted Q us q' x"
  by (auto simp: accounted_def)

lemma dead_letter_settles:
  assumes "ok q" and "ackable (wk_queue wk) (wk_group wk) (qm_sequence_id msg) (qm_data msg) q"
    and "dead_letter E F wk (broker_of publish consume ack) msg err q w = (res, q', w')"
  shows "\<exists>taken steps. settled (wk_queue wk) (wk_group wk) (qm_sequence_id msg) taken q q' \<and>
    db_path E wk handler steps w w' \<and> dv_pair ` set steps \<subseteq> {qm_pair msg} \<and>
    (\<not> isl res \<longrightarrow> taken) \<and> (taken \<longrightarrow> accounted (wk_queue wk) steps q' (qm_pair msg))"
  using assms(3)
proof (cases rule: dead_letter_cases)
  case (unpublished e)
  then have p: "publish (dlq_name (wk_queue wk)) (qm_data msg) q = (Inl e, q')" by (simp add: broker_of_def)
  show ?thesis
    using settled_after_publish [OF assms(1) p dlq_name_neq settled_refl [OF publish_keeps(1) [OF assms(1) p]]] unpublished(2,3)
    by (intro exI [of _ False] exI [of _ "[]"]) simp
next
  case (unaudited sid e)
  then have p: "publish (dlq_name (wk_queue wk)) (qm_data msg) q = (Inr sid, q')" by (simp add: broker_of_def)
  have "db_path E wk handler [Undone (qm_sequence_id msg) (qm_data msg)] w w'" unfolding unaudited(3)
    by (auto intro: unburied)
  then show ?thesis
    using settled_after_publish [OF assms(1) p dlq_name_neq settled_refl [OF publish_keeps(1) [OF assms(1) p]]] unaudited(2)
    by (intro exI [of _ False] exI [of _ "[Undone (qm_sequence_id msg) (qm_data msg)]"]) (simp add: dv_pair_def qm_pair_def)
next
  case (buried sid q1)
  then have p: "publish (dlq_name (wk_queue wk)) (qm_data msg) q = (Inr sid, q1)" by (simp add: broker_of_def)
  note k = publish_keeps [OF assms(1) p] and after = settled_after_publish [OF assms(1) p dlq_name_neq]
  let ?ack = "ack (wk_queue wk) (wk_group wk) (qm_sequence_id msg) q1"
  have step: "db_path E wk handler [Buried (qm_sequence_id msg) (qm_data msg)] w w'" unfolding buried(2)
    by (auto intro: db_step.buried)
  have acked: "settled (wk_queue wk) (wk_group wk) (qm_sequence_id msg) True q1 ?ack"
    by (rule settled_ack [OF k(1) ackable_after_publish [OF assms(1) p dlq_name_neq assms(2)]])
  have "settled (wk_queue wk) (wk_group wk) (qm_sequence_id msg) (q' = ?ack) q q'"
    using after [OF acked] after [OF settled_refl [OF k(1)]] buried(3)
    by (cases "q' = ?ack") (auto simp: broker_of_def)
  moreover have "qm_data msg \<in> set (published (dlq_name (wk_queue wk)) q')"
    using buried(3) k(5) [OF refl] by (auto simp: broker_of_def ack_published)
  ultimately show ?thesis using step buried(4)
    by (intro exI [of _ "q' = ?ack"] exI [of _ "[Buried (qm_sequence_id msg) (qm_data msg)]"])
       (auto simp: dv_pair_def qm_pair_def accounted_def broker_of_def)
qed

lemma handle_commit_ack_settles:
  assumes "ok q" and a: "ackable (wk_queue wk) (wk_group wk) (qm_sequence_id msg) (qm_data msg) q"
    and "handle_commit_ack F wk (broker_of publish consume ack) handler msg q w = (res, q', s')"
  shows "\<exists>taken steps. settled (wk_queue wk) (wk_group wk) (qm_sequence_id msg) taken q q' \<and>
    ackable (wk_queue wk) (wk_group wk) (qm_sequence_id msg) (qm_data msg) q' \<and>
    db_path E wk handler steps w (if isl res then current (rollback s') else committed s') \<and>
    dv_pair ` set steps \<subseteq> {qm_pair msg} \<and>
    (\<not> isl res \<longrightarrow> taken) \<and> (taken \<longrightarrow> accounted (wk_queue wk) steps q' (qm_pair msg))"
  using assms(3)
proof (cases rule: handle_commit_ack_cases)
  case (done_work r s)
  let ?ack = "ack (wk_queue wk) (wk_group wk) (qm_sequence_id msg) q"
  have q': "q' = q \<or> q' = ?ack" using done_work(3) by (simp add: broker_of_def)
  have "settled (wk_queue wk) (wk_group wk) (qm_sequence_id msg) (q' = ?ack) q q'"
    using q' settled_ack [OF assms(1) a] settled_refl [OF assms(1)] by (cases "q' = ?ack") auto
  moreover have "ackable (wk_queue wk) (wk_group wk) (qm_sequence_id msg) (qm_data msg) q'"
    using q' a ackable_after_ack [OF assms(1) a] by auto
  moreover have "(if isl res then current (rollback s') else committed s') = current s"
    unfolding done_work(2) by (simp add: commit_def [THEN arg_cong [where f = committed]])
  moreover have "db_path E wk handler [Worked (qm_sequence_id msg) (qm_data msg)] w (current s)"
    using done_work(1) by (auto intro: worked)
  ultimately show ?thesis using done_work(4)
    by (intro exI [of _ "q' = ?ack"] exI [of _ "[Worked (qm_sequence_id msg) (qm_data msg)]"])
       (auto simp: dv_pair_def qm_pair_def accounted_def broker_of_def)
next
  case (raised err)
  then have "db_path E wk handler [Undone (qm_sequence_id msg) (qm_data msg)] w (current (rollback s'))"
    by (auto intro: undone)
  then show ?thesis using raised(2,3) settled_refl [OF assms(1)] a
    by (intro exI [of _ False] exI [of _ "[Undone (qm_sequence_id msg) (qm_data msg)]"]) (simp add: dv_pair_def qm_pair_def)
next
  case (refused r err)
  then have "db_path E wk handler [Undone (qm_sequence_id msg) (qm_data msg)] w (current (rollback s'))"
    by (auto intro: undone)
  then show ?thesis using refused(2,3) settled_refl [OF assms(1)] a
    by (intro exI [of _ False] exI [of _ "[Undone (qm_sequence_id msg) (qm_data msg)]"]) (simp add: dv_pair_def qm_pair_def)
qed

lemma process_message_settles:
  assumes "ok q" and d: "qm_pair msg \<in> delivered (wk_queue wk) (wk_group wk) q"
    and p: "process_message E F wk (broker_of publish consume ack) handler msg q w = (res, q', w')"
  shows "\<exists>taken steps. settled (wk_queue wk) (wk_group wk) (qm_sequence_id msg) taken q q' \<and>
    db_path E wk handler steps w w' \<and> dv_pair ` set steps \<subseteq> {qm_pair msg} \<and>
    (\<not> isl res \<longrightarrow> taken) \<and> (taken \<longrightarrow> accounted (wk_queue wk) steps q' (qm_pair msg))"
proof (cases "qm_delivery_count msg > wk_max_deliveries wk")
  case True
  then have "dead_letter E F wk (broker_of publish consume ack) msg ''MaxDeliveriesExceeded'' q w = (res, q', w')"
    using p by (simp add: process_message_def)
  moreover have "ackable (wk_queue wk) (wk_group wk) (qm_sequence_id msg) (qm_data msg) q"
    using d by (simp add: ackable_def qm_pair_def)
  ultimately show ?thesis using dead_letter_settles [OF assms(1)] by blast
next
  case False
  let ?br = "broker_of publish consume ack"
  obtain hres q1 s where h: "handle_commit_ack F wk ?br handler msg q w = (hres, q1, s)" by (metis prod_cases3)
  have "ackable (wk_queue wk) (wk_group wk) (qm_sequence_id msg) (qm_data msg) q"
    using d by (simp add: ackable_def qm_pair_def)
  from handle_commit_ack_settles [OF assms(1) this h, of E] obtain taken steps where
    s: "settled (wk_queue wk) (wk_group wk) (qm_sequence_id msg) taken q q1"
      "ackable (wk_queue wk) (wk_group wk) (qm_sequence_id msg) (qm_data msg) q1"
      "db_path E wk handler steps w (if isl hres then current (rollback s) else committed s)"
      "dv_pair ` set steps \<subseteq> {qm_pair msg}" "\<not> isl hres \<Longrightarrow> taken"
      "taken \<Longrightarrow> accounted (wk_queue wk) steps q1 (qm_pair msg)" by blast
  show ?thesis
  proof (cases "\<exists>err. hres = Inl err \<and> qm_delivery_count msg \<ge> wk_max_deliveries wk")
    case False
    then show ?thesis using p h s \<open>\<not> qm_delivery_count msg > wk_max_deliveries wk\<close>
      by (cases hres) (force simp: process_message_def Let_def)+
  next
    case True
    then obtain err where err: "hres = Inl err" "qm_delivery_count msg \<ge> wk_max_deliveries wk" by blast
    then have dl: "dead_letter E F wk ?br msg (exn_class err) q1 (current (rollback s)) = (res, q', w')"
      using p h False by (simp add: process_message_def Let_def)
    have "ok q1" using s(1) by (simp add: settled_def)
    from dead_letter_settles [OF this s(2) dl, of handler] obtain taken' steps' where
      s': "settled (wk_queue wk) (wk_group wk) (qm_sequence_id msg) taken' q1 q'"
        "db_path E wk handler steps' (current (rollback s)) w'" "dv_pair ` set steps' \<subseteq> {qm_pair msg}"
        "\<not> isl res \<Longrightarrow> taken'" "taken' \<Longrightarrow> accounted (wk_queue wk) steps' q' (qm_pair msg)" by blast
    have pub: "set (published h q1) \<subseteq> set (published h q')" for h using s'(1) by (simp add: settled_def)
    have "db_path E wk handler (steps @ steps') w w'" using s(3) s'(2) err(1) by (auto simp: db_path_append)
    moreover have "taken \<or> taken' \<Longrightarrow> accounted (wk_queue wk) (steps @ steps') q' (qm_pair msg)"
      using s(6) s'(5) pub accounted_mono [of _ steps q1 _ "steps @ steps'" q'] accounted_mono [of _ steps' q' _ "steps @ steps'" q']
      by (metis Un_upper1 Un_upper2 order_refl set_append)
    ultimately show ?thesis using settled_trans [OF s(1) s'(1)] s(4) s'(3,4)
      by (intro exI [of _ "taken \<or> taken'"] exI [of _ "steps @ steps'"]) (simp add: image_Un)
  qed
qed

definition batch_settled :: "string \<Rightarrow> string \<Rightarrow> 'm db_event list \<Rightarrow> 'q \<Rightarrow> 'q \<Rightarrow> bool" where
  "batch_settled Q G steps q q' \<longleftrightarrow> ok q' \<and> (\<forall>h. set (published h q) \<subseteq> set (published h q')) \<and>
     set (outstanding Q G q') \<subseteq> set (outstanding Q G q) \<and> dv_pair ` set steps \<subseteq> set (outstanding Q G q) \<and>
     (\<forall>x\<in>set (outstanding Q G q). x \<notin> set (outstanding Q G q') \<longrightarrow> accounted Q steps q' x)"

lemma batch_settled_refl: "ok q \<Longrightarrow> batch_settled Q G [] q q"
  by (simp add: batch_settled_def)

text \<open>One message, then the rest of the batch.\<close>

lemma batch_settled_step:
  assumes "ok q" and x: "x \<in> set (outstanding Q G q)" and s: "settled Q G (fst x) taken q q1"
    and ts: "dv_pair ` set ts \<subseteq> {x}" and acc: "taken \<longrightarrow> accounted Q ts q1 x" and b: "batch_settled Q G us q1 q'"
  shows "batch_settled Q G (ts @ us) q q'"
proof -
  note b = b [unfolded batch_settled_def]
  have out: "outstanding Q G q1 = (if taken then filter (\<lambda>(s, _). s \<noteq> fst x) (outstanding Q G q) else outstanding Q G q)"
    using s by (simp add: settled_def)
  have sub: "set (outstanding Q G q1) \<subseteq> set (outstanding Q G q)" using out by auto
  have pub: "set (published h q1) \<subseteq> set (published h q')" "set (published h q) \<subseteq> set (published h q1)" for h
    using b s by (simp_all add: settled_def)
  have "accounted Q (ts @ us) q' y" if y: "y \<in> set (outstanding Q G q)" "y \<notin> set (outstanding Q G q')" for y
  proof (cases "y \<in> set (outstanding Q G q1)")
    case True
    then have "accounted Q us q' y" using b y(2) by blast
    then show ?thesis by (rule accounted_mono) auto
  next
    case False
    with y(1) out have t: "taken" "fst y = fst x" by (auto split: if_splits)
    then have "y = x" using x y(1) eq_key_imp_eq_value [OF outstanding_distinct [OF \<open>ok q\<close>, of Q G]]
      by (metis prod.collapse)
    with acc t(1) show ?thesis by (auto intro: accounted_mono [OF _ _ pub(1)])
  qed
  moreover have "set (published h q) \<subseteq> set (published h q')" for h using pub by blast
  moreover have "dv_pair ` set (ts @ us) \<subseteq> set (outstanding Q G q)" using b sub ts x by (auto simp: image_Un)
  moreover have "ok q'" "set (outstanding Q G q') \<subseteq> set (outstanding Q G q)" using b sub by blast+
  ultimately show ?thesis by (simp add: batch_settled_def del: set_append)
qed

lemma process_messages_settle:
  fixes wk :: worker
  defines "Q \<equiv> wk_queue wk" and "G \<equiv> wk_group wk"
  assumes "ok q" and "qm_pair ` set msgs \<subseteq> delivered Q G q" and "distinct (map qm_sequence_id msgs)"
    and "qm_pair ` set msgs \<subseteq> set (outstanding Q G q)"
    and "process_messages E F wk (broker_of publish consume ack) handler stop i msgs q w = (res, q', w')"
  shows "\<exists>steps. batch_settled Q G steps q q' \<and> db_path E wk handler steps w w'"
  using assms(3-)
proof (induction msgs arbitrary: i q w)
  case Nil
  then show ?case by (intro exI [of _ "[]"]) (simp add: batch_settled_refl)
next
  case (Cons msg msgs)
  show ?case
  proof (cases "stop (Suc i)")
    case True
    then show ?thesis using Cons.prems by (intro exI [of _ "[]"]) (simp add: batch_settled_refl)
  next
    case False
    obtain pres q1 w1 where p: "process_message E F wk (broker_of publish consume ack) handler msg q w = (pres, q1, w1)"
      by (metis prod_cases3)
    have "qm_pair msg \<in> delivered (wk_queue wk) (wk_group wk) q" using Cons.prems(2) by (simp add: Q_def G_def)
    from process_message_settles [OF Cons.prems(1) this p] obtain taken ts where
      s: "settled Q G (qm_sequence_id msg) taken q q1" and path: "db_path E wk handler ts w w1"
      and ts: "dv_pair ` set ts \<subseteq> {qm_pair msg}" and acc: "taken \<longrightarrow> accounted Q ts q1 (qm_pair msg)"
      unfolding Q_def G_def by blast
    have x: "qm_pair msg \<in> set (outstanding Q G q)" and fst: "qm_sequence_id msg = fst (qm_pair msg)"
      using Cons.prems(4) by (simp_all add: qm_pair_def)
    note first = batch_settled_step [OF Cons.prems(1) x s [unfolded fst] ts acc]
    have ok1: "ok q1" using s by (simp add: settled_def)
    show ?thesis
    proof (cases pres)
      case (Inl e)
      then have "q' = q1" "w' = w1" using Cons.prems(5) False p by simp_all
      then show ?thesis using first [OF batch_settled_refl [OF ok1]] path by auto
    next
      case (Inr u)
      then have rest: "process_messages E F wk (broker_of publish consume ack) handler stop (Suc i) msgs q1 w1 = (res, q', w')"
        using Cons.prems(5) False p by simp
      have ids: "fst (qm_pair x) \<noteq> qm_sequence_id msg" if "x \<in> set msgs" for x
        using Cons.prems(3) that by (auto simp: qm_pair_def image_iff)
      have "\<exists>steps. batch_settled Q G steps q1 q' \<and> db_path E wk handler steps w1 w'"
      proof (rule Cons.IH [OF ok1 _ _ _ rest])
        show "qm_pair ` set msgs \<subseteq> delivered Q G q1" using s Cons.prems(2) ids by (auto simp: settled_def)
        show "distinct (map qm_sequence_id msgs)" using Cons.prems(3) by simp
        show "qm_pair ` set msgs \<subseteq> set (outstanding Q G q1)"
          using s Cons.prems(4) ids by (force simp: settled_def qm_pair_def)
      qed
      then obtain us where us: "batch_settled Q G us q1 q'" "db_path E wk handler us w1 w'" by blast
      with path have "db_path E wk handler (ts @ us) w w'" by (auto simp: db_path_append)
      with first [OF us(1)] show ?thesis by blast
    qed
  qed
qed

lemma run_once_settles:
  assumes "ok q" and "run_once E F wk (broker_of publish consume ack) handler stop q w = (Some res, q', w')"
  shows "\<exists>steps. batch_settled (wk_queue wk) (wk_group wk) steps q q' \<and> db_path E wk handler steps w w'"
proof -
  let ?Q = "wk_queue wk" and ?G = "wk_group wk"
  obtain ms q1 where c: "consume ?Q ?G (wk_batch_count wk) (wk_block_ms wk) q = (ms, q1)" by fastforce
  have q1: "q1 = snd (consume ?Q ?G (wk_batch_count wk) (wk_block_ms wk) q)" by (simp add: c)
  have ok1: "ok q1" unfolding q1 by (rule consume_ok [OF assms(1)])
  have out: "outstanding p h q1 = outstanding p h q" for p h unfolding q1 by (rule consume_outstanding [OF assms(1)])
  have pub: "published h q1 = published h q" for h unfolding q1 by (rule consume_published)
  have idle: "\<exists>steps. batch_settled ?Q ?G steps q q' \<and> db_path E wk handler steps w w'" if "q' = q \<or> q' = q1" "w' = w"
    using that assms(1) ok1 by (intro exI [of _ "[]"]) (auto simp: batch_settled_def out pub)
  show ?thesis
  proof (cases "stop 0 \<or> ft_consume F q \<noteq> None")
    case True
    then show ?thesis using assms(2) c
      by (intro idle) (auto simp: run_once_def try_consume_def broker_of_def split: if_splits prod.splits)
  next
    case False
    then have quiet: "\<not> stop 0" "ft_consume F q = None" by blast+
    then obtain msgs where ms: "ms = Some msgs"
      and p: "process_messages E F wk (broker_of publish consume ack) handler stop 0 msgs q1 w = (res, q', w')"
      using assms(2) c by (cases ms) (auto simp: run_once_def try_consume_def broker_of_def split: prod.splits)
    note c = c [unfolded ms]
    obtain k where k: "map qm_pair msgs = take k (outstanding ?Q ?G q)" using consume_prefix [OF assms(1) c] by blast
    have "distinct (map fst (take k (outstanding ?Q ?G q)))"
      using outstanding_distinct [OF assms(1), of ?Q ?G] by (simp add: take_map [symmetric])
    then have dist: "distinct (map qm_sequence_id msgs)" unfolding k [symmetric] by simp
    have "qm_pair ` set msgs \<subseteq> set (outstanding ?Q ?G q1)"
      unfolding out using k by (metis list.set_map set_take_subset)
    from process_messages_settle [OF ok1 consume_delivered [OF assms(1) c] dist this p]
    show ?thesis unfolding batch_settled_def out pub .
  qed
qed

end

section \<open>A message nobody can handle\<close>

text \<open>
  \<open>poison\<close>: the handler raises on every database, before it has committed anything. The queue of
  such a worker holds the message, delivered \<open>n\<close> times so far.
\<close>

definition poison :: "('m, 'a audit_world_scheme, 'r) handler \<Rightarrow> 'm \<Rightarrow> bool" where
  "poison handler m \<longleftrightarrow> (\<forall>w. \<exists>err v. handler m (begin_session w) = (Inl err, \<lparr>committed = w, current = v\<rparr>))"

definition mem_broker :: "('m, 'm mem_queue) broker" where
  "mem_broker = broker_of mem_publish mem_consume mem_ack"

lemma mem_broker_sel [simp]:
  "br_publish mem_broker = mem_publish" "br_consume mem_broker = mem_consume" "br_ack mem_broker = mem_ack"
  by (simp_all add: mem_broker_def broker_of_def)

lemma poison_failed:
  assumes "poison handler m"
  obtains err v where "handler m (begin_session w) = (Inl err, \<lparr>committed = w, current = v\<rparr>)"
  using assms unfolding poison_def by blast

lemma rolled_back_log [simp]: "audit_entries (rolled_back w v) = audit_entries w"
  by (simp add: rolled_back_def)

lemma mem_consume_one:
  assumes "mem_ok q" and "mem_outstanding Q G q = (sid, m) # rest"
  shows "\<exists>q1. mem_consume Q G 1 b q = (Some [\<lparr>qm_sequence_id = sid, qm_data = m,
      qm_delivery_count = Suc (mq_delivery_counts q ((Q, G), sid))\<rparr>], q1) \<and>
    mem_ok q1 \<and> mem_outstanding Q G q1 = (sid, m) # rest \<and>
    mq_delivery_counts q1 ((Q, G), sid) = Suc (mq_delivery_counts q ((Q, G), sid)) \<and>
    (sid, m) \<in> mem_delivered Q G q1 \<and> (\<forall>h. mem_published h q1 = mem_published h q)"
proof -
  from mem_consume_first [OF assms(1) _ assms(2), of 1 b] obtain xs q1 where
    c: "mem_consume Q G 1 b q = (Some (\<lparr>qm_sequence_id = sid, qm_data = m,
      qm_delivery_count = Suc (mq_delivery_counts q ((Q, G), sid))\<rparr> # xs), q1)"
    and n: "mq_delivery_counts q1 ((Q, G), sid) = Suc (mq_delivery_counts q ((Q, G), sid))" by auto
  obtain k where k: "k \<le> 1" "map qm_pair (\<lparr>qm_sequence_id = sid, qm_data = m,
      qm_delivery_count = Suc (mq_delivery_counts q ((Q, G), sid))\<rparr> # xs) = take k (mem_outstanding Q G q)"
    using mem.consume_prefix [OF assms(1) c] by blast
  then have "length (take k (mem_outstanding Q G q)) \<le> 1" by simp
  then have "xs = []" unfolding k(2) [symmetric] by simp
  moreover have q1: "q1 = snd (mem_consume Q G 1 b q)" using c by (metis snd_conv)
  ultimately show ?thesis
    using c n mem.consume_ok [OF assms(1), of Q G 1 b] mem.consume_outstanding [OF assms(1), of Q G Q G 1 b]
      mem.consume_published [of _ Q G 1 b q] mem.consume_delivered [OF assms(1) c] assms(2)
    by (auto simp: qm_pair_def)
qed

lemma no_faults_sel [simp]:
  "ft_consume no_faults q = None" "ft_ack no_faults q = None" "ft_commit no_faults q s = None"
  by (simp_all add: no_faults_def)

lemma dead_letter_mem:
  fixes w :: "'a audit_world_scheme"
  assumes "mem_ok q" and "mem_outstanding (wk_queue wk) (wk_group wk) q = qm_pair msg # rest"
    and "qm_pair msg \<in> mem_delivered (wk_queue wk) (wk_group wk) q"
  shows "\<exists>q'. dead_letter E no_faults wk mem_broker msg err q w =
      (Inr (), q', record_dead_lettered E (wk_queue wk) (qm_sequence_id msg) (qm_delivery_count msg) err w) \<and>
    mem_ok q' \<and> mem_outstanding (wk_queue wk) (wk_group wk) q' = rest \<and>
    qm_data msg \<in> set (mem_published (dlq_name (wk_queue wk)) q')"
proof -
  let ?Q = "wk_queue wk" and ?G = "wk_group wk"
  obtain sid q1 where p: "mem_publish (dlq_name ?Q) (qm_data msg) q = (Inr sid, q1)"
    by (simp add: mem_publish_def Let_def)
  note k = mem.publish_keeps [OF assms(1) p]
  have "mem.ackable ?Q ?G (qm_sequence_id msg) (qm_data msg) q1"
    using k(4) assms(3) by (auto simp: mem.ackable_def qm_pair_def)
  then have out: "mem_outstanding ?Q ?G (mem_ack ?Q ?G (qm_sequence_id msg) q1) =
      filter (\<lambda>(s, _). s \<noteq> qm_sequence_id msg) (qm_pair msg # rest)"
    using mem.ack_outstanding [OF k(1)] k(3) [OF dlq_name_neq] assms(2) by simp
  have "distinct (map fst (qm_pair msg # rest))"
    using mem.outstanding_distinct [OF assms(1), of ?Q ?G] assms(2) by simp
  then have "filter (\<lambda>(s, _). s \<noteq> qm_sequence_id msg) (qm_pair msg # rest) = rest"
    by (force simp: filter_id_conv qm_pair_def)
  then show ?thesis using p out mem.ack_ok [OF k(1)] k(5) [OF refl]
    by (intro exI [of _ "mem_ack ?Q ?G (qm_sequence_id msg) q1"])
       (simp add: dead_letter_def try_commit_def try_ack_def commit_def begin_session_def mem.ack_published)
qed

lemma poison_once:
  fixes w :: "'a audit_world_scheme"
  assumes wk: "wk_batch_count wk = 1" and p: "poison handler m" and "mem_ok q"
    and out: "mem_outstanding (wk_queue wk) (wk_group wk) q = (sid, m) # rest"
    and d: "mq_delivery_counts q ((wk_queue wk, wk_group wk), sid) = d" "d < wk_max_deliveries wk"
    and go: "\<not> stop 0" "\<not> stop 1"
  shows "\<exists>res q' w'. run_once E no_faults wk mem_broker handler stop q w = (Some res, q', w') \<and> mem_ok q' \<and>
    (if Suc d < wk_max_deliveries wk
     then mem_outstanding (wk_queue wk) (wk_group wk) q' = (sid, m) # rest \<and>
       mq_delivery_counts q' ((wk_queue wk, wk_group wk), sid) = Suc d \<and> audit_entries w' = audit_entries w
     else mem_outstanding (wk_queue wk) (wk_group wk) q' = rest \<and> m \<in> set (mem_published (dlq_name (wk_queue wk)) q') \<and>
       (\<exists>e. audit_entries w' = audit_entries w @ [e] \<and> ae_action e = ''queue.dead_lettered'' \<and>
          ae_subject e = Some (wk_queue wk @ '':'' @ sid)))"
proof -
  let ?Q = "wk_queue wk" and ?G = "wk_group wk"
  let ?msg = "\<lparr>qm_sequence_id = sid, qm_data = m, qm_delivery_count = Suc d\<rparr>"
  from mem_consume_one [OF \<open>mem_ok q\<close> out, of "wk_block_ms wk"] d(1) obtain q1 where
    c: "mem_consume ?Q ?G 1 (wk_block_ms wk) q = (Some [?msg], q1)" and q1: "mem_ok q1"
      "mem_outstanding ?Q ?G q1 = (sid, m) # rest" "mq_delivery_counts q1 ((?Q, ?G), sid) = Suc d"
      "(sid, m) \<in> mem_delivered ?Q ?G q1" by auto
  obtain err v where h: "handler m (begin_session w) = (Inl err, \<lparr>committed = w, current = v\<rparr>)"
    using poison_failed [OF p] .
  define w1 where "w1 = rolled_back w v"
  have run: "run_once E no_faults wk mem_broker handler stop q w =
    (case process_message E no_faults wk mem_broker handler ?msg q1 w of
       (Inl e, q, w) \<Rightarrow> (Some (Inl e), q, w) | (Inr _, q, w) \<Rightarrow> (Some (Inr 1), q, w))"
    using go c wk by (simp add: run_once_def try_consume_def split: prod.split sum.split)
  have pm: "process_message E no_faults wk mem_broker handler ?msg q1 w =
    (if Suc d < wk_max_deliveries wk then (Inl err, q1, w1)
     else dead_letter E no_faults wk mem_broker ?msg (exn_class err) q1 w1)"
    using h d(2) by (simp add: process_message_def handle_commit_ack_def w1_def rollback_def)
  show ?thesis
  proof (cases "Suc d < wk_max_deliveries wk")
    case True
    then show ?thesis using run pm q1 by (simp add: w1_def)
  next
    case False
    have "mem_outstanding ?Q ?G q1 = qm_pair ?msg # rest" "qm_pair ?msg \<in> mem_delivered ?Q ?G q1"
      using q1 by (simp_all add: qm_pair_def)
    from dead_letter_mem [OF q1(1) this, of E "exn_class err" w1] show ?thesis
      using run pm False
      by (auto simp: record_dead_lettered_def audited_entries audit_call_def w1_def)
  qed
qed

section \<open>Invariants of a loop\<close>

text \<open>A property of the database that the handler keeps, and that auditing keeps, holds after any loop.\<close>

definition handler_keeps :: "('a audit_world_scheme \<Rightarrow> bool) \<Rightarrow> ('m, 'a audit_world_scheme, 'r) handler \<Rightarrow> bool" where
  \<comment> \<open>its work keeps the property, and so does what a rollback leaves of it\<close>
  "handler_keeps P handler \<longleftrightarrow>
     (\<forall>m w res s. P w \<longrightarrow> handler m (begin_session w) = (res, s) \<longrightarrow>
        P (current (rollback s)) \<and> (\<not> isl res \<longrightarrow> P (current s)))"

definition survives_audit :: "env \<Rightarrow> ('a audit_world_scheme \<Rightarrow> bool) \<Rightarrow> bool" where
  "survives_audit E P \<longleftrightarrow> (\<forall>c w. P w \<longrightarrow> P (audited E c w) \<and> P (rolled_back w (audited E c w)))"

lemma dead_letter_keeps:
  assumes "survives_audit E P" and "P w" and "dead_letter E F wk br msg err q w = (res, q', w')"
  shows "P w'"
  using assms(3)
proof (cases rule: dead_letter_cases)
  case (buried sid q1)
  then show ?thesis using assms(1,2) by (simp add: survives_audit_def record_dead_lettered_def)
next
  case (unaudited sid e)
  then show ?thesis using assms(1,2) by (simp add: survives_audit_def record_dead_lettered_def)
qed (use assms(2) in simp)

lemma process_message_keeps:
  assumes h: "handler_keeps P handler" and a: "survives_audit E P" and "P w"
    and p: "process_message E F wk br handler msg q w = (res, q', w')"
  shows "P w'"
proof (cases "qm_delivery_count msg > wk_max_deliveries wk")
  case True
  then show ?thesis using p dead_letter_keeps [OF a \<open>P w\<close>] by (simp add: process_message_def)
next
  case False
  obtain hres q1 s where t: "handle_commit_ack F wk br handler msg q w = (hres, q1, s)" by (metis prod_cases3)
  from t have "P (current (rollback s)) \<and> (\<not> isl hres \<longrightarrow> P (committed s))"
  proof (cases rule: handle_commit_ack_cases)
    case (done_work r s0)
    then show ?thesis using h \<open>P w\<close> unfolding handler_keeps_def by (force simp: commit_def rollback_def)
  qed (use h \<open>P w\<close> in \<open>unfold handler_keeps_def, force\<close>)+
  then show ?thesis using p t False dead_letter_keeps [OF a, of "current (rollback s)"]
    by (cases hres) (auto simp: process_message_def Let_def split: if_splits)
qed

lemma process_messages_keeps:
  assumes "handler_keeps P handler" and "survives_audit E P"
  shows "P w \<Longrightarrow> process_messages E F wk br handler stop i msgs q w = (res, q', w') \<Longrightarrow> P w'"
proof (induction msgs arbitrary: i q w)
  case (Cons msg msgs)
  obtain pres q1 w1 where p: "process_message E F wk br handler msg q w = (pres, q1, w1)" by (metis prod_cases3)
  have "P w1" by (rule process_message_keeps [OF assms Cons.prems(1) p])
  with Cons p show ?case by (cases pres) (auto split: if_splits)
qed simp

lemma run_once_keeps:
  assumes "handler_keeps P handler" and "survives_audit E P" and "P w"
    and r: "run_once E F wk br handler stop q w = (res, q', w')"
  shows "P w'"
proof (cases "stop 0")
  case False
  obtain c q1 where c: "try_consume F wk br q = (c, q1)" by fastforce
  consider (idle) "w' = w" | (batch) msgs mres where "process_messages E F wk br handler stop 0 msgs q1 w = (mres, q', w')"
    using r False c by (auto simp: run_once_def split: option.splits sum.splits prod.splits)
  then show ?thesis using process_messages_keeps [OF assms(1-3)] \<open>P w\<close> by cases auto
qed (use assms(3) r in \<open>simp add: run_once_def\<close>)

lemma run_loop_keeps:
  assumes "handler_keeps P handler" and "survives_audit E P"
  shows "P w \<Longrightarrow> run_loop E F wk br handler stop n q w = Some (q', w') \<Longrightarrow> P w'"
proof (induction n arbitrary: q w)
  case (Suc n)
  show ?case
  proof (cases "stop (Suc n) 0")
    case False
    obtain rres q1 w1 where r: "run_once E F wk br handler (stop (Suc n)) q w = (rres, q1, w1)" by (metis prod_cases3)
    then obtain res where res: "rres = Some res" using Suc.prems(2) False by (cases rres) auto
    have "P w1" by (rule run_once_keeps [OF assms Suc.prems(1) r])
    with Suc.IH Suc.prems(2) r res False show ?thesis by simp
  qed (use Suc.prems in simp)
qed simp

section \<open>The decision worker\<close>

lemma decision_inv_mono:
  assumes "decision_inv E w" and "decision_records w' = decision_records w" "review_tasks w' = review_tasks w"
    "audit_samples w' = audit_samples w" "conflicts w' = conflicts w" "operational_alerts w' = operational_alerts w"
    and "uuids_drawn w \<le> uuids_drawn w'"
  shows "decision_inv E w'"
  using assms(1) alerts_ok_mono [OF _ assms(6,7)] rows_within_cong [OF assms(3-6)]
  unfolding decision_inv_iff assms(2) by blast

lemma route_inv:
  assumes "inj (uuid4 E)" and "decision_inv E w" and "route E xid nc env w = (res, w')"
  shows "decision_inv E w'"
  using assms(3)
proof (cases rule: route_cases)
  case (fresh x outcome r)
  have "ex_id x \<notin> dr_extraction_id ` set (decision_records w)"
    using fresh(4) get_by_SomeD [OF fresh(1)] decided_None_iff by metis
  from decide_inv [OF assms(1,2) this fresh(5)] show ?thesis .
qed (use assms(2) in simp_all)

lemma route_outcomes:
  assumes "decision_inv E w" and "outcomes_performed w" and "route E xid nc env w = (res, w')"
  shows "outcomes_performed w'"
  using assms(3)
proof (cases rule: route_cases)
  case (fresh x outcome r)
  have "ex_id x \<notin> dr_extraction_id ` set (decision_records w)"
    using fresh(4) get_by_SomeD [OF fresh(1)] decided_None_iff by metis
  from decide_outcomes [OF assms(1,2) this fresh(3,5)] show ?thesis .
qed (use assms(2) in simp_all)

lemma route_uuids:
  assumes "route E xid nc env w = (res, w')"
  shows "uuids_drawn w \<le> uuids_drawn w'"
  using assms
proof (cases rule: route_cases)
  case (fresh x outcome r)
  obtain r' v where p: "perform_outcome E outcome x nc w = (r', v)" by fastforce
  from perform_outcome_frame [OF p] decide_tables [OF p fresh(5)] show ?thesis by linarith
qed simp_all

definition decision_world_ok :: "env \<Rightarrow> db \<Rightarrow> bool" where
  "decision_world_ok E w \<longleftrightarrow> decision_inv E w \<and> outcomes_performed w \<and> chain_inv E w"

text \<open>It depends on the tables and the log; the clock and the random ids may have moved on.\<close>

lemma decision_world_ok_mono:
  assumes "strict_mono (utcnow E)" and "decision_world_ok E w" and "logged E w w'"
    and "decision_records w' = decision_records w" "review_tasks w' = review_tasks w"
      "audit_samples w' = audit_samples w" "conflicts w' = conflicts w" "operational_alerts w' = operational_alerts w"
    and "uuids_drawn w \<le> uuids_drawn w'"
  shows "decision_world_ok E w'"
  using decision_inv_mono [OF _ assms(4-9)] rows_of_cong [OF assms(5-8)] logged_chain_inv [OF assms(3,1)] assms(2)
  unfolding decision_world_ok_def outcomes_performed_def assms(4) by simp

lemma decision_world_ok_rolled_back:
  assumes "strict_mono (utcnow E)" and "decision_world_ok E w" and "logged E w v" and "uuids_drawn w \<le> uuids_drawn v"
  shows "decision_world_ok E (rolled_back w v)"
proof (rule decision_world_ok_mono [OF assms(1,2)])
  show "logged E w (rolled_back w v)"
    by (rule logged_quiet) (use logged_clock [OF assms(3)] in \<open>simp_all add: rolled_back_def\<close>)
qed (use assms(4) in \<open>simp_all add: rolled_back_def\<close>)

lemma decision_world_ok_audit:
  assumes "strict_mono (utcnow E)"
  shows "survives_audit E (decision_world_ok E)"
  unfolding survives_audit_def
proof (intro allI impI conjI)
  fix c w assume ok: "decision_world_ok E w"
  show "decision_world_ok E (audited E c w)"
    by (rule decision_world_ok_mono [OF assms ok audited_logged]) simp_all
  show "decision_world_ok E (rolled_back w (audited E c w))"
    by (rule decision_world_ok_rolled_back [OF assms ok audited_logged]) simp
qed

lemma decision_handle_cases:
  assumes "decision_handle E m (begin_session w) = (res, s)"
  obtains (unchanged) err where "res = Inl err" "s = begin_session w"
  | (mismatch) err xid ms where "res = Inl err" "s = begin_session (record_payload_mismatch E xid ms w)"
  | (routed) xid nc env w' where "route E xid nc env w = (res, w')" "s = (begin_session w)\<lparr>current := w'\<rparr>"
proof (cases "dm_message m")
  case (Config_Event sc k v)
  then show ?thesis using assms by (intro unchanged) (auto simp: decision_handle_def)
next
  case (Emitted e)
  obtain xid ro cc nc where f: "payload_fields (em_payload e) = (xid, ro, cc, nc)" by (metis prod_cases4)
  show ?thesis
  proof (cases "truthy xid")
    case False
    then show ?thesis using assms f Emitted by (intro unchanged) (auto simp: decision_handle_def)
  next
    case True
    show ?thesis
    proof (cases "get_by ex_id (or_empty xid) (extractions w)")
      case None
      then show ?thesis using assms f Emitted True
        by (intro unchanged) (auto simp: decision_handle_def begin_session_def)
    next
      case (Some x)
      show ?thesis
      proof (cases "mismatched_fields ro cc x = []")
        case False
        then show ?thesis using assms f Emitted True Some
          by (intro mismatch) (auto simp: decision_handle_def session_defs Let_def)
      next
        case nomis: True
        obtain rr w' where "route E (or_empty xid) (or_str nc (dm_novelty_cluster_id m))
          (or_str (message_envelope_id e) (dm_envelope_id m)) w = (rr, w')" by fastforce
        then show ?thesis using assms f Emitted True Some nomis
          by (intro routed) (auto simp: decision_handle_def session_defs Let_def)
      qed
    qed
  qed
qed

lemma decision_handle_keeps:
  assumes "inj (uuid4 E)" and mono: "strict_mono (utcnow E)"
  shows "handler_keeps (decision_world_ok E) (decision_handle E)"
  unfolding handler_keeps_def
proof (intro allI impI)
  fix m w res s
  assume ok: "decision_world_ok E w" and h: "decision_handle E m (begin_session w) = (res, s)"
  from h show "decision_world_ok E (current (rollback s)) \<and> (\<not> isl res \<longrightarrow> decision_world_ok E (current s))"
  proof (cases rule: decision_handle_cases)
    case (unchanged err)
    then show ?thesis using ok by (simp add: begin_session_def rollback_def)
  next
    case (mismatch err xid ms)
    then show ?thesis using decision_world_ok_audit [OF mono] ok
      by (simp add: begin_session_def rollback_def record_payload_mismatch_def survives_audit_def)
  next
    case (routed xid nc env w')
    have log: "logged E w w'" using route_logged [of E w xid nc env] routed(1) by simp
    then have "decision_world_ok E w'"
      using route_inv [OF assms(1) _ routed(1)] route_outcomes [OF _ _ routed(1)] logged_chain_inv [OF _ mono] ok
      unfolding decision_world_ok_def by blast
    moreover have "decision_world_ok E (rolled_back w w')"
      by (rule decision_world_ok_rolled_back [OF mono ok log route_uuids [OF routed(1)]])
    ultimately show ?thesis using routed(2) by (simp add: begin_session_def rollback_def)
  qed
qed

section \<open>Properties\<close>

text \<open>C2. A worker loses no message and no work. Over every broker that keeps the port's contract, with
  every handler, any stop request, and any failures of \<open>consume\<close>, \<open>publish\<close>, \<open>ack\<close> and of the
  database's commit: after one round of the worker the group owes no message it did not owe before,
  no message published anywhere is lost, and the database is the result of a sequence of steps for
  the messages owed, each a handler's work committed or rolled back or an audit entry of a dead
  letter; each message no longer owed has either its handler's work committed in that sequence, or
  its dead-letter entry, and is then on the dead-letter queue.\<close>

theorem worker_loses_nothing:
  assumes "queue_port publish published ok consume ack outstanding delivered" and "ok q"
    and "run_once E F wk (broker_of publish consume ack) handler stop q w = (Some res, q', w')"
  shows "ok q' \<and> (\<forall>h. set (published h q) \<subseteq> set (published h q')) \<and>
    set (outstanding (wk_queue wk) (wk_group wk) q') \<subseteq> set (outstanding (wk_queue wk) (wk_group wk) q) \<and>
    (\<exists>steps. db_path E wk handler steps w w' \<and>
       dv_pair ` set steps \<subseteq> set (outstanding (wk_queue wk) (wk_group wk) q) \<and>
       (\<forall>sid m. (sid, m) \<in> set (outstanding (wk_queue wk) (wk_group wk) q)
           - set (outstanding (wk_queue wk) (wk_group wk) q') \<longrightarrow>
         Worked sid m \<in> set steps \<or>
         (Buried sid m \<in> set steps \<and> m \<in> set (published (dlq_name (wk_queue wk)) q'))))"
proof -
  obtain steps where b: "queue_port.batch_settled published ok outstanding (wk_queue wk) (wk_group wk) steps q q'"
    and path: "db_path E wk handler steps w w'"
    using queue_port.run_once_settles [OF assms] by blast
  note b = b [unfolded queue_port.batch_settled_def [OF assms(1)] queue_port.accounted_def [OF assms(1)]]
  have "Worked sid m \<in> set steps \<or> (Buried sid m \<in> set steps \<and> m \<in> set (published (dlq_name (wk_queue wk)) q'))"
    if "(sid, m) \<in> set (outstanding (wk_queue wk) (wk_group wk) q) - set (outstanding (wk_queue wk) (wk_group wk) q')"
    for sid m using b that by force
  with b path show ?thesis by (intro conjI exI [of _ steps]) blast+
qed

text \<open>C19. A poison message is dead-lettered. Over the in-memory broker, a worker that takes one message
  at a time and is not stopped needs exactly as many rounds as deliveries remain to move a
  message no handler run accepts to the dead-letter queue: it is then acknowledged, the queue
  goes on with the rest, and the log has one more entry, which says so.\<close>

theorem poison_dead_lettered:
  fixes w :: "'a audit_world_scheme"
  assumes "wk_batch_count wk = 1" and "poison handler m" and "mem_ok q"
    and "mem_outstanding (wk_queue wk) (wk_group wk) q = (sid, m) # rest"
    and "mq_delivery_counts q ((wk_queue wk, wk_group wk), sid) + n = wk_max_deliveries wk" and "0 < n"
  shows "\<exists>q' w'. run_loop E no_faults wk mem_broker handler (\<lambda>_ _. False) n q w = Some (q', w') \<and>
    mem_outstanding (wk_queue wk) (wk_group wk) q' = rest \<and> m \<in> set (mem_published (dlq_name (wk_queue wk)) q') \<and>
    (\<exists>e. audit_entries w' = audit_entries w @ [e] \<and> ae_action e = ''queue.dead_lettered'' \<and>
       ae_subject e = Some (wk_queue wk @ '':'' @ sid))"
  using assms(3-)
proof (induction n arbitrary: q w)
  case 0
  then show ?case by simp
next
  case (Suc n)
  from poison_once [OF assms(1,2) Suc.prems(1,2) refl, where stop = "\<lambda>_. False" and w = w and E = E] Suc.prems(3)
  obtain res q' w' where
    r: "run_once E no_faults wk mem_broker handler (\<lambda>_. False) q w = (Some res, q', w')" "mem_ok q'"
    and e: "if Suc (mq_delivery_counts q ((wk_queue wk, wk_group wk), sid)) < wk_max_deliveries wk
     then mem_outstanding (wk_queue wk) (wk_group wk) q' = (sid, m) # rest \<and>
       mq_delivery_counts q' ((wk_queue wk, wk_group wk), sid) = Suc (mq_delivery_counts q ((wk_queue wk, wk_group wk), sid)) \<and>
       audit_entries w' = audit_entries w
     else mem_outstanding (wk_queue wk) (wk_group wk) q' = rest \<and> m \<in> set (mem_published (dlq_name (wk_queue wk)) q') \<and>
       (\<exists>e. audit_entries w' = audit_entries w @ [e] \<and> ae_action e = ''queue.dead_lettered'' \<and>
          ae_subject e = Some (wk_queue wk @ '':'' @ sid))" by auto
  show ?case
  proof (cases "n = 0")
    case True
    then show ?thesis using r e Suc.prems(3) by simp
  next
    case False
    then have less: "Suc (mq_delivery_counts q ((wk_queue wk, wk_group wk), sid)) < wk_max_deliveries wk"
      using Suc.prems(3) by simp
    with e Suc.prems(3) False Suc.IH [OF r(2), of w'] show ?thesis by (simp add: r(1))
  qed
qed

lemma mem_run_once_returns:
  assumes "wk_block_ms wk \<noteq> 0"
  shows "\<exists>res q' w'. run_once E F wk mem_broker handler stop q w = (Some res, q', w')"
  using assms by (auto simp: run_once_def try_consume_def mem_consume_def Let_def split: prod.split option.split sum.split)

lemma mem_run_loop_returns:
  assumes "wk_block_ms wk \<noteq> 0"
  shows "\<exists>q' w'. run_loop E F wk mem_broker handler stop n q w = Some (q', w')"
proof (induction n arbitrary: q w)
  case (Suc n)
  obtain res q' w' where "run_once E F wk mem_broker handler (stop (Suc n)) q w = (Some res, q', w')"
    using mem_run_once_returns [OF assms] by blast
  with Suc show ?case by simp
qed simp

definition demo_worker :: worker where
  "demo_worker = \<lparr>wk_queue = ''IN'', wk_group = ''g'', wk_max_deliveries = 3, wk_block_ms = 1000, wk_batch_count = 1\<rparr>"

definition demo_in :: "'m \<Rightarrow> 'm mem_queue" where
  "demo_in m = snd (mem_publish ''IN'' m mem_empty)"

lemma demo_worker_sel [simp]:
  "wk_queue demo_worker = ''IN''" "wk_group demo_worker = ''g''" "wk_max_deliveries demo_worker = 3"
  "wk_block_ms demo_worker = 1000" "wk_batch_count demo_worker = 1"
  by (simp_all add: demo_worker_def)

lemma demo_in_ok: "mem_ok (demo_in m)"
  using mem_publish_ok [OF mem_empty_ok] by (simp add: demo_in_def)

lemma digits_of_1: "digits_of (Suc 0) = ''1''"
  by code_simp

lemma demo_in_outstanding: "mem_outstanding ''IN'' ''g'' (demo_in m) = [(''1'', m)]"
  by (simp add: demo_in_def mem_publish_def mem_empty_def mem_outstanding_def mem_cursor_def Let_def digits_of_1)

theorem poison_dead_lettered_witness:
  "\<exists>q' w'. run_loop demo_env no_faults demo_worker mem_broker (\<lambda>m s. (Inl (ValueError ''x'') :: exn + unit, s)) (\<lambda>_ _. False) 3
      (demo_in (7::nat)) empty_db = Some (q', w') \<and> 7 \<in> set (mem_published ''IN.DLQ'' q')"
proof -
  have "poison (\<lambda>m s. (Inl (ValueError ''x'') :: exn + unit, s)) (7::nat)"
    by (simp add: poison_def begin_session_def)
  moreover have "mq_delivery_counts (demo_in (7::nat)) ((''IN'', ''g''), ''1'') + 3 = 3"
    by (simp add: demo_in_def mem_publish_def mem_empty_def Let_def)
  ultimately show ?thesis
    using poison_dead_lettered [of demo_worker "\<lambda>m s. (Inl (ValueError ''x'') :: exn + unit, s)" "7::nat" "demo_in 7"
        "''1''" "[]" 3 demo_env empty_db] demo_in_ok [of "7::nat"] demo_in_outstanding [of "7::nat"]
    by (auto simp: dlq_name_def)
qed

definition demo_handler :: "'m \<Rightarrow> db session \<Rightarrow> (exn + unit) \<times> db session" where
  \<comment> \<open>adds a row to a table\<close>
  "demo_handler m s = (Inr (), s\<lparr>current := (current s)\<lparr>extractions := [demo_extraction ''x9'' ''review'']\<rparr>\<rparr>)"

theorem worker_loses_nothing_witness:
  "\<exists>q' w'. run_once demo_env no_faults demo_worker mem_broker demo_handler (\<lambda>_. False) (demo_in (7::nat)) empty_db
      = (Some (Inr 1), q', w') \<and> mem_outstanding ''IN'' ''g'' q' = [] \<and> map ex_id (extractions w') = [''x9''] \<and>
    (\<exists>steps. db_path demo_env demo_worker demo_handler steps empty_db w' \<and> Worked ''1'' (7::nat) \<in> set steps)"
proof -
  let ?run = "run_once demo_env no_faults demo_worker mem_broker demo_handler (\<lambda>_. False) (demo_in (7::nat)) empty_db"
  have "mq_delivery_counts (demo_in (7::nat)) ((''IN'', ''g''), ''1'') = 0"
    by (simp add: demo_in_def mem_publish_def mem_empty_def Let_def)
  with mem_consume_one [OF demo_in_ok demo_in_outstanding, of 1000 "7::nat"] obtain q1 where
    c: "mem_consume ''IN'' ''g'' 1 1000 (demo_in (7::nat)) = (Some [\<lparr>qm_sequence_id = ''1'', qm_data = 7, qm_delivery_count = 1\<rparr>], q1)"
    and q1: "mem_ok q1" "mem_outstanding ''IN'' ''g'' q1 = [(''1'', 7)]" "(''1'', 7) \<in> mem_delivered ''IN'' ''g'' q1"
      "\<forall>h. mem_published h q1 = mem_published h (demo_in 7)" by auto
  let ?q' = "mem_ack ''IN'' ''g'' ''1'' q1" and ?w' = "empty_db\<lparr>extractions := [demo_extraction ''x9'' ''review'']\<rparr>"
  have run: "?run = (Some (Inr 1), ?q', ?w')"
    using c by (simp add: run_once_def try_consume_def process_message_def handle_commit_ack_def demo_handler_def
        try_commit_def try_ack_def commit_def begin_session_def)
  have out: "mem_outstanding ''IN'' ''g'' ?q' = []"
    using mem.delivered_ack [OF q1(1,3)] q1(2) by simp
  have "mem_published ''IN.DLQ'' ?q' = mem_published ''IN.DLQ'' (demo_in (7::nat))"
    using q1(4) mem.ack_published by metis
  also have "\<dots> = []" by (simp add: demo_in_def mem_publish_def mem_empty_def mem_published_def Let_def)
  finally have "mem_published ''IN.DLQ'' ?q' = []" .
  with worker_loses_nothing [OF mem.queue_port_axioms demo_in_ok run [unfolded mem_broker_def]] out
  have "\<exists>steps. db_path demo_env demo_worker demo_handler steps empty_db ?w' \<and> Worked ''1'' (7::nat) \<in> set steps"
    by (auto simp: demo_in_outstanding dlq_name_def)
  moreover have "map ex_id (extractions ?w') = [''x9'']" by (simp add: demo_extraction_def)
  ultimately show ?thesis using run out by (intro exI [of _ ?q'] exI [of _ ?w'] conjI)
qed

text \<open>C13. The decision worker keeps the tables consistent. Whatever messages it is given, however often
  they are delivered, whatever the broker does, whichever broker calls and commits fail and whenever
  the process is asked to stop, every round of the worker leaves one decision record per extraction,
  no row of another extraction, and for each decided extraction exactly the rows its outcome asks
  for: one task of the routed stream for review, one of the audit stream with its sample for an
  audit sample, one conflict, one alert outside the regime, and nothing else; and it leaves the
  audit log a chain that verification accepts.\<close>

theorem decision_worker:
  assumes "inj (uuid4 E)" and "strict_mono (utcnow E)" and "decision_inv E w" and "outcomes_performed w"
    and "chain_inv E w" and "run_loop E F wk br (decision_handle E) stop n q w = Some (q', w')"
  shows "decision_inv E w' \<and> chain_inv E w' \<and>
    (\<forall>d\<in>set (decision_records w'). asked_for (dr_outcome d) (rows_of (dr_extraction_id d) w'))"
  using run_loop_keeps [OF decision_handle_keeps [OF assms(1,2)] decision_world_ok_audit [OF assms(2)] _ assms(6)]
    assms(3-5) by (simp add: decision_world_ok_def outcomes_performed_def)

definition demo_decision_message :: decision_message where
  "demo_decision_message = plain_message (Emitted \<lparr>em_message_id = ''m'', em_trace_id = ''t'', em_emitted_at = ''now'',
     em_producer = ''confidence-novelty'', em_work_envelope = None,
     em_payload = Decision_Payload (Some ''x1'') (Some ''review'') None None, em_queue = ''DECISION_QUEUE''\<rparr>)"

theorem decision_worker_witness:
  "\<exists>q' w'. run_loop demo_env no_faults demo_worker mem_broker (decision_handle demo_env) (\<lambda>_ _. False) 2
      (demo_in demo_decision_message) demo_decision_db = Some (q', w') \<and>
     decision_inv demo_env w' \<and> chain_inv demo_env w' \<and>
     list_all (\<lambda>d. asked_for (dr_outcome d) (rows_of (dr_extraction_id d) w')) (decision_records w')"
proof -
  obtain q' w' where r: "run_loop demo_env no_faults demo_worker mem_broker (decision_handle demo_env) (\<lambda>_ _. False) 2
      (demo_in demo_decision_message) demo_decision_db = Some (q', w')"
    using mem_run_loop_returns [of demo_worker demo_env no_faults "decision_handle demo_env" "\<lambda>_ _. False" 2
      "demo_in demo_decision_message" demo_decision_db] by auto
  have "chain_inv demo_env demo_decision_db" by (rule chain_inv_empty) simp
  moreover have "outcomes_performed demo_decision_db" by (simp add: outcomes_performed_def)
  ultimately show ?thesis
    using decision_worker [OF inj_demo_uuid demo_env_clock demo_decision_db_inv _ _ r] r by (auto simp: list_all_iff)
qed

end
