(* ===== verification/Calibration.thy ===== *)
theory Calibration
  imports Entities "HOL-Library.AList" "HOL-Library.Multiset"
begin

text \<open>
  The learned calibrator of \<open>services/modelwork\<close> (\<open>modelwork/domain/calibration/calibrator.py\<close>), with
  the stratum key (\<open>domain/stratum.py\<close>) and the leakage guard (\<open>learning_loop/guard.py\<close>). A Python
  \<open>float\<close> is a real number, so \<open>math.exp\<close> is the exponential; a float that is not finite can only
  occur where the code looks for it, in the inputs of the feature record. A dictionary is an
  association list.
\<close>

section \<open>Strata and the leakage guard\<close>

definition stratum_key :: "string \<Rightarrow> string \<Rightarrow> string \<Rightarrow> string \<Rightarrow> string \<Rightarrow> string" where
  "stratum_key fclass script print_or_handwriting legibility_band writer_cluster_id =
     join ''|'' [fclass, script, print_or_handwriting, legibility_band, writer_cluster_id]"

definition assert_no_leakage :: "string list \<Rightarrow> string list \<Rightarrow> exn + unit" where
  "assert_no_leakage training_page_digests regression_suite_exclusion_list =
     (if set training_page_digests \<inter> set regression_suite_exclusion_list \<noteq> {}
      then Inl (LeakageDetected (card (set training_page_digests \<inter> set regression_suite_exclusion_list)))
      else Inr ())"

section \<open>Features\<close>

datatype pynum = Finite pyfloat | Not_Finite \<comment> \<open>a float, or one of \<open>inf\<close>, \<open>-inf\<close> and \<open>nan\<close>\<close>

record encoding_policy =
  ep_default_layout_certainty :: pyfloat
  ep_default_normalization_confidence :: pyfloat
  ep_default_empty_validator_pass_ratio :: pyfloat
  ep_legibility_scores :: "(string \<times> pyfloat) list"
  ep_include_missingness_indicators :: bool

definition default_encoding_policy :: encoding_policy where
  "default_encoding_policy = \<lparr>ep_default_layout_certainty = 0.5, ep_default_normalization_confidence = 0.5,
     ep_default_empty_validator_pass_ratio = 1,
     ep_legibility_scores = [(''good'', 1), (''medium'', 0.5), (''poor'', 0)],
     ep_include_missingness_indicators = True\<rparr>"

record calibrator_features =
  cf_token_confidence :: pyfloat
  cf_layout_certainty :: "pyfloat option"
  cf_normalization_confidence :: "pyfloat option"
  cf_validator_outcomes :: "(string \<times> string) list"
  cf_field_class :: string
  cf_script :: string
  cf_doc_type :: string
  cf_print_or_handwriting :: string
  cf_legibility_band :: string
  cf_writer_cluster_id :: string

fun finite_or_error :: "string \<Rightarrow> pynum \<Rightarrow> exn + pyfloat" where
  "finite_or_error attr (Finite x) = Inr x"
| "finite_or_error attr Not_Finite = Inl (ValueError attr)"

fun finite_opt_or_error :: "string \<Rightarrow> pynum option \<Rightarrow> exn + pyfloat option" where
  "finite_opt_or_error attr None = Inr None"
| "finite_opt_or_error attr (Some v) = map_sum id Some (finite_or_error attr v)"

definition new_calibrator_features ::
  "pynum \<Rightarrow> pynum option \<Rightarrow> pynum option \<Rightarrow> (string \<times> string) list \<Rightarrow> string \<Rightarrow> string \<Rightarrow> string \<Rightarrow> string
    \<Rightarrow> string \<Rightarrow> string \<Rightarrow> exn + calibrator_features"
where
  \<comment> \<open>the constructor with its \<open>__post_init__\<close>\<close>
  "new_calibrator_features token layout norml outcomes fclass script doc_type p_or_h band cluster =
     (case finite_or_error ''token_confidence'' token of Inl err \<Rightarrow> Inl err | Inr token \<Rightarrow>
       (case finite_opt_or_error ''layout_certainty'' layout of Inl err \<Rightarrow> Inl err | Inr layout \<Rightarrow>
         (case finite_opt_or_error ''normalization_confidence'' norml of Inl err \<Rightarrow> Inl err | Inr norml \<Rightarrow>
            Inr \<lparr>cf_token_confidence = token, cf_layout_certainty = layout, cf_normalization_confidence = norml,
                 cf_validator_outcomes = outcomes, cf_field_class = fclass, cf_script = script,
                 cf_doc_type = doc_type, cf_print_or_handwriting = p_or_h, cf_legibility_band = band,
                 cf_writer_cluster_id = cluster\<rparr>)))"

definition canonical_stratum :: "calibrator_features \<Rightarrow> string" where
  "canonical_stratum f = stratum_key (cf_field_class f) (cf_script f) (cf_print_or_handwriting f)
     (cf_legibility_band f) (cf_writer_cluster_id f)"

section \<open>The encoder\<close>

record encoder =
  en_policy :: encoding_policy
  en_extra_categories :: "string list"

definition new_encoder :: "string list \<Rightarrow> encoding_policy option \<Rightarrow> encoder" where
  "new_encoder extra_categories policy =
     \<lparr>en_policy = (case policy of Some p \<Rightarrow> p | None \<Rightarrow> default_encoding_policy),
      en_extra_categories = sort extra_categories\<rparr>"

definition feature_names :: "encoder \<Rightarrow> string list" where
  \<comment> \<open>the \<open>feature_names\<close> that \<open>__init__\<close> builds\<close>
  "feature_names enc =
     (let missing = (\<lambda>name. if ep_include_missingness_indicators (en_policy enc) then [name] else [])
      in [''token_confidence'', ''layout_certainty''] @ missing ''layout_is_missing'' @
         [''normalization_confidence''] @ missing ''normalization_is_missing'' @
         [''validator_pass_ratio'', ''validator_has_failure''] @ missing ''has_validators'' @
         [''is_handwritten'', ''legibility_score''] @ en_extra_categories enc)"

definition categories_of :: "calibrator_features \<Rightarrow> string list" where
  "categories_of f =
     (if cf_field_class f \<noteq> [] then [''field_class='' @ cf_field_class f] else []) @
     (if cf_script f \<noteq> [] then [''script='' @ cf_script f] else []) @
     (if cf_doc_type f \<noteq> [] then [''doc_type='' @ cf_doc_type f] else [])"

definition from_features_list :: "calibrator_features list \<Rightarrow> encoding_policy option \<Rightarrow> encoder" where
  "from_features_list feature_list policy =
     new_encoder (sort (remdups (concat (map categories_of feature_list)))) policy"

definition validator_signals :: "encoding_policy \<Rightarrow> (string \<times> string) list \<Rightarrow> pyfloat \<times> pyfloat \<times> pyfloat" where
  \<comment> \<open>the pass ratio, whether one failed, and whether there are any\<close>
  "validator_signals pol outcomes =
     (if outcomes \<noteq> []
      then (let total_vals = length outcomes;
                passes = length (filter (\<lambda>(name, v). lower v = ''pass'') outcomes);
                fails = length (filter (\<lambda>(name, v). lower v = ''fail'') outcomes)
            in (real passes / real total_vals, if fails > 0 then 1 else 0, 1))
      else (ep_default_empty_validator_pass_ratio pol, 0, 0))"

definition encode :: "encoder \<Rightarrow> calibrator_features \<Rightarrow> pyfloat list" where
  "encode enc f =
     (let pol = en_policy enc;
          (layout, layout_missing) = (case cf_layout_certainty f of Some x \<Rightarrow> (x, 0)
                                      | None \<Rightarrow> (ep_default_layout_certainty pol, 1));
          (norml, norm_missing) = (case cf_normalization_confidence f of Some x \<Rightarrow> (x, 0)
                                  | None \<Rightarrow> (ep_default_normalization_confidence pol, 1));
          (pass_ratio, has_failure, has_validators) = validator_signals pol (cf_validator_outcomes f);
          is_hw = (if lower (cf_print_or_handwriting f) = ''handwritten'' then 1 else 0);
          leg_score = (case map_of (ep_legibility_scores pol) (lower (cf_legibility_band f)) of
                         Some s \<Rightarrow> s | None \<Rightarrow> 0.5);
          missing = (\<lambda>x. if ep_include_missingness_indicators pol then [x] else []);
          active_cats = [''field_class='' @ cf_field_class f, ''script='' @ cf_script f, ''doc_type='' @ cf_doc_type f]
      in [cf_token_confidence f, layout] @ missing layout_missing @ [norml] @ missing norm_missing @
         [pass_ratio, has_failure] @ missing has_validators @ [is_hw, leg_score] @
         map (\<lambda>cat. if cat \<in> set active_cats then 1 else 0) (en_extra_categories enc))"

section \<open>Logistic regression\<close>

definition sigmoid :: "pyfloat \<Rightarrow> pyfloat" where
  "sigmoid z = (let clamped_z = max (- 50) (min 50 z) in 1 / (1 + exp (- clamped_z)))"

definition dot :: "pyfloat list \<Rightarrow> pyfloat list \<Rightarrow> pyfloat" where
  "dot ws xs = sum_list (map2 (*) ws xs)"

record logistic =
  lc_learning_rate :: pyfloat
  lc_iterations :: nat
  lc_l2_reg :: pyfloat
  lc_encoder :: encoder
  lc_weights :: "pyfloat list"
  lc_bias :: pyfloat
  lc_is_fitted :: bool

definition new_logistic :: "pyfloat \<Rightarrow> nat \<Rightarrow> pyfloat \<Rightarrow> encoder option \<Rightarrow> logistic" where
  "new_logistic learning_rate iterations l2_reg enc =
     \<lparr>lc_learning_rate = learning_rate, lc_iterations = iterations, lc_l2_reg = l2_reg,
      lc_encoder = (case enc of Some e \<Rightarrow> e | None \<Rightarrow> new_encoder [] None),
      lc_weights = [], lc_bias = 0, lc_is_fitted = False\<rparr>"

fun gradients ::
  "pyfloat list \<Rightarrow> pyfloat \<Rightarrow> (pyfloat list \<times> pyfloat) list \<Rightarrow> pyfloat list \<times> pyfloat \<Rightarrow> pyfloat list \<times> pyfloat"
where
  \<comment> \<open>the inner loop over the samples; every row has one entry per feature\<close>
  "gradients weights bias [] (grad_w, grad_b) = (grad_w, grad_b)"
| "gradients weights bias ((xi, yi) # samples) (grad_w, grad_b) =
     (let z = dot weights xi + bias;
          err = sigmoid z - yi
      in gradients weights bias samples (map2 (\<lambda>g x. g + err * x) grad_w xi, grad_b + err))"

definition descent_step ::
  "pyfloat \<Rightarrow> pyfloat \<Rightarrow> (pyfloat list \<times> pyfloat) list \<Rightarrow> pyfloat list \<times> pyfloat \<Rightarrow> pyfloat list \<times> pyfloat"
where
  "descent_step learning_rate l2_reg samples model =
     (let (weights, bias) = model;
          (grad_w, grad_b) = gradients weights bias samples (replicate (length weights) 0, 0);
          inv_n = 1 / real (length samples)
      in (map2 (\<lambda>w g. w - learning_rate * (g * inv_n + l2_reg * w)) weights grad_w,
          bias - learning_rate * (grad_b * inv_n)))"

definition fit :: "(calibrator_features \<times> bool) list \<Rightarrow> logistic \<Rightarrow> exn + logistic" where
  "fit examples m =
     (if examples = [] then Inl (ValueError ''Cannot fit calibrator on empty examples'')
      else
        (let enc = (if en_extra_categories (lc_encoder m) = []
                    then from_features_list (map fst examples) (Some (en_policy (lc_encoder m)))
                    else lc_encoder m);
             samples = map (\<lambda>(feat, correct). (encode enc feat, if correct then 1 else 0)) examples;
             (weights, bias) = ((descent_step (lc_learning_rate m) (lc_l2_reg m) samples) ^^ lc_iterations m)
                                 (replicate (length (feature_names enc)) 0, 0)
         in Inr (m\<lparr>lc_encoder := enc, lc_weights := weights, lc_bias := bias, lc_is_fitted := True\<rparr>)))"

definition clamp01 :: "pyfloat \<Rightarrow> pyfloat" where
  "clamp01 x = max 0 (min 1 x)"

definition round_digits :: "nat \<Rightarrow> pyfloat \<Rightarrow> pyfloat" where
  \<comment> \<open>\<open>round(x, digits)\<close>: to the nearest, a tie to the even one\<close>
  "round_digits digits x =
     (let s = x * 10 ^ digits; r = \<lfloor>s + 1 / 2\<rfloor>
      in real_of_int (if real_of_int r = s + 1 / 2 \<and> odd r then r - 1 else r) / 10 ^ digits)"

fun attributions_of :: "(string \<times> pyfloat \<times> pyfloat) list \<Rightarrow> (string \<times> pyfloat) list \<Rightarrow> (string \<times> pyfloat) list" where
  "attributions_of [] attributions = attributions"
| "attributions_of ((name, w, x) # rest) attributions =
     (let contrib = w * x
      in attributions_of rest
           (if \<bar>contrib\<bar> > 1 / 10 ^ 5 then AList.update name (round_digits 6 contrib) attributions else attributions))"

definition predict_calibrated_confidence :: "logistic \<Rightarrow> calibrator_features \<Rightarrow> pyfloat \<times> (string \<times> pyfloat) list" where
  "predict_calibrated_confidence m f =
     (if \<not> lc_is_fitted m then (clamp01 (cf_token_confidence f), [])
      else
        (let xi = encode (lc_encoder m) f;
             prob = sigmoid (dot (lc_weights m) xi + lc_bias m)
         in (clamp01 prob, attributions_of (zip (feature_names (lc_encoder m)) (zip (lc_weights m) xi)) [])))"

section \<open>Thresholds\<close>

record threshold_policy = tp_target_error_rate :: pyfloat

definition new_threshold_policy :: "pyfloat \<Rightarrow> exn + threshold_policy" where
  "new_threshold_policy target =
     (if 0 < target \<and> target < 1 then Inr \<lparr>tp_target_error_rate = target\<rparr> else Inl (ValueError ''target_error_rate''))"

definition required_confidence :: "threshold_policy \<Rightarrow> pyfloat" where
  "required_confidence p = 1 - tp_target_error_rate p"

definition is_auto_acceptable :: "threshold_policy \<Rightarrow> pyfloat \<Rightarrow> bool" where
  "is_auto_acceptable p confidence \<longleftrightarrow> confidence \<ge> required_confidence p"

section \<open>Expected calibration error\<close>

definition DEFAULT_ECE_NUM_BINS :: int where
  "DEFAULT_ECE_NUM_BINS = 10"

record ece_bins =
  eb_counts :: "nat list"
  eb_correct :: "pyfloat list"
  eb_conf_sum :: "pyfloat list"

definition bin_of :: "nat \<Rightarrow> pyfloat \<Rightarrow> nat" where
  \<comment> \<open>the truncation \<open>int(p * num_bins)\<close> of a number that is not negative\<close>
  "bin_of num_bins p = (let bin_idx = nat \<lfloor>p * real num_bins\<rfloor> in if bin_idx \<ge> num_bins then num_bins - 1 else bin_idx)"

fun fill_bins :: "nat \<Rightarrow> (pyfloat \<times> bool) list \<Rightarrow> ece_bins \<Rightarrow> ece_bins" where
  "fill_bins num_bins [] bins = bins"
| "fill_bins num_bins ((pred, label) # rest) bins =
     (let p = clamp01 pred; i = bin_of num_bins p
      in fill_bins num_bins rest
           \<lparr>eb_counts = (eb_counts bins)[i := eb_counts bins ! i + 1],
            eb_correct = (eb_correct bins)[i := eb_correct bins ! i + (if label then 1 else 0)],
            eb_conf_sum = (eb_conf_sum bins)[i := eb_conf_sum bins ! i + p]\<rparr>)"

definition bin_gap :: "nat \<Rightarrow> ece_bins \<Rightarrow> nat \<Rightarrow> pyfloat" where
  "bin_gap n bins b =
     (if eb_counts bins ! b > 0
      then (let avg_acc = eb_correct bins ! b / real (eb_counts bins ! b);
                avg_conf = eb_conf_sum bins ! b / real (eb_counts bins ! b)
            in (real (eb_counts bins ! b) / real n) * \<bar>avg_acc - avg_conf\<bar>)
      else 0)"

definition compute_ece :: "pyfloat list \<Rightarrow> bool list \<Rightarrow> int \<Rightarrow> exn + pyfloat" where
  "compute_ece predictions labels num_bins =
     (if length predictions \<noteq> length labels then Inl (ValueError ''Mismatched predictions count'')
      else if predictions = [] then Inr 0
      else if num_bins \<le> 0 then Inl (ValueError ''num_bins must be positive'')
      else
        (let k = nat num_bins;
             bins = fill_bins k (zip predictions labels)
                      \<lparr>eb_counts = replicate k 0, eb_correct = replicate k 0, eb_conf_sum = replicate k 0\<rparr>
         in Inr (sum_list (map (bin_gap (length predictions) bins) [0..<k]))))"

datatype calibration_regime = STRATUM_SPECIFIC | POOLED_FALLBACK

record ece_evaluation =
  ev_ece :: pyfloat
  ev_sample_count :: nat
  ev_stratum :: string
  ev_regime :: calibration_regime
  ev_max_acceptable_ece :: pyfloat

definition ece_is_acceptable :: "ece_evaluation \<Rightarrow> bool" where
  "ece_is_acceptable ev \<longleftrightarrow> ev_ece ev \<le> ev_max_acceptable_ece ev"

definition evaluate_calibration ::
  "pyfloat list \<Rightarrow> bool list \<Rightarrow> string \<Rightarrow> calibration_regime \<Rightarrow> pyfloat \<Rightarrow> int \<Rightarrow> exn + ece_evaluation"
where
  "evaluate_calibration predictions labels stratum regime max_acceptable_ece num_bins =
     map_sum id (\<lambda>ece. \<lparr>ev_ece = ece, ev_sample_count = length labels, ev_stratum = stratum, ev_regime = regime,
         ev_max_acceptable_ece = max_acceptable_ece\<rparr>)
       (compute_ece predictions labels num_bins)"

section \<open>Training and evaluation data\<close>

record correction_label =
  cl_extraction_id :: string
  cl_is_correct :: bool
  cl_features :: calibrator_features
  cl_stratum :: string
  cl_source_page_digest :: string

definition py_int :: "pyfloat \<Rightarrow> int" where
  \<comment> \<open>\<open>int(x)\<close> drops the fraction\<close>
  "py_int x = (if x \<ge> 0 then \<lfloor>x\<rfloor> else \<lceil>x\<rceil>)"

definition split_digests :: "string list \<Rightarrow> pyfloat \<Rightarrow> string list \<times> string list" where
  "split_digests sorted_digests eval_fraction =
     (let num_pages = length sorted_digests
      in if num_pages \<le> 1 then (sorted_digests, [])
         else
           (let num_eval = nat (max 1 (py_int (real num_pages * eval_fraction)))
            in (take (num_pages - num_eval) sorted_digests, drop (num_pages - num_eval) sorted_digests)))"

definition partition_training_and_evaluation ::
  "correction_label list \<Rightarrow> pyfloat \<Rightarrow> string list option \<Rightarrow> exn + correction_label list \<times> correction_label list"
where
  "partition_training_and_evaluation labels eval_fraction regression_suite_exclusion =
     (let sorted_digests = sort (remdups (map cl_source_page_digest labels))
      in case (case regression_suite_exclusion of None \<Rightarrow> Inr ()
               | Some exclusion \<Rightarrow> if exclusion = [] then Inr () else assert_no_leakage sorted_digests exclusion) of
           Inl err \<Rightarrow> Inl err
         | Inr _ \<Rightarrow>
             (let (train_digests, eval_digests) = split_digests sorted_digests eval_fraction
              in case assert_no_leakage train_digests eval_digests of
                   Inl err \<Rightarrow> Inl err
                 | Inr _ \<Rightarrow>
                     Inr (filter (\<lambda>l. cl_source_page_digest l \<in> set train_digests) labels,
                          filter (\<lambda>l. cl_source_page_digest l \<in> set eval_digests) labels)))"

definition fit_labels :: "correction_label list \<Rightarrow> logistic \<Rightarrow> exn + logistic" where
  "fit_labels labels m = fit (map (\<lambda>l. (cl_features l, cl_is_correct l)) labels) m"

section \<open>Calibration per stratum\<close>

text \<open>What the coordinator uses of a model is the one function of the protocol.\<close>

type_synonym calibrator_model = "calibrator_features \<Rightarrow> pyfloat \<times> (string \<times> pyfloat) list"

record calibration_result =
  ca_calibrated_confidence :: pyfloat
  ca_raw_confidence :: pyfloat
  ca_regime :: calibration_regime
  ca_stratum :: string
  ca_feature_attributions :: "(string \<times> pyfloat) list"

record per_stratum =
  ps_pooled_model :: calibrator_model
  ps_stratum_models :: "(string \<times> calibrator_model) list"
  ps_stratum_sample_counts :: "(string \<times> nat) list"
  ps_min_stratum_samples :: int

definition calibrate_per_stratum :: "per_stratum \<Rightarrow> calibrator_features \<Rightarrow> calibration_result" where
  "calibrate_per_stratum ps f =
     (let target_stratum = canonical_stratum f;
          sample_count = (case map_of (ps_stratum_sample_counts ps) target_stratum of Some n \<Rightarrow> n | None \<Rightarrow> 0);
          (model, regime) =
            (case map_of (ps_stratum_models ps) target_stratum of
               Some m \<Rightarrow> if int sample_count \<ge> ps_min_stratum_samples ps then (m, STRATUM_SPECIFIC)
                         else (ps_pooled_model ps, POOLED_FALLBACK)
             | None \<Rightarrow> (ps_pooled_model ps, POOLED_FALLBACK));
          (calibrated_conf, attributions) = model f
      in \<lparr>ca_calibrated_confidence = clamp01 calibrated_conf, ca_raw_confidence = cf_token_confidence f,
          ca_regime = regime, ca_stratum = target_stratum, ca_feature_attributions = attributions\<rparr>)"

definition label_stratum :: "correction_label \<Rightarrow> string" where
  "label_stratum l = (if cl_stratum l \<noteq> [] then cl_stratum l else canonical_stratum (cl_features l))"

fun stratum_groups :: "correction_label list \<Rightarrow> (string \<times> correction_label list) list \<Rightarrow> (string \<times> correction_label list) list" where
  \<comment> \<open>\<open>setdefault(s_key, []).append(lbl)\<close>\<close>
  "stratum_groups [] groups = groups"
| "stratum_groups (l # labels) groups =
     (let k = label_stratum l
      in stratum_groups labels
           (AList.update k ((case map_of groups k of Some g \<Rightarrow> g | None \<Rightarrow> []) @ [l]) groups))"

fun train_groups ::
  "int \<Rightarrow> logistic \<Rightarrow> (string \<times> correction_label list) list \<Rightarrow> (string \<times> calibrator_model) list \<Rightarrow> (string \<times> nat) list
    \<Rightarrow> exn + (string \<times> calibrator_model) list \<times> (string \<times> nat) list"
where
  "train_groups min_samples fresh [] models counts = Inr (models, counts)"
| "train_groups min_samples fresh ((k, g) # groups) models counts =
     (let counts = AList.update k (length g) counts
      in if int (length g) \<ge> min_samples
         then (case fit_labels g fresh of
                 Inl err \<Rightarrow> Inl err
               | Inr m \<Rightarrow> train_groups min_samples fresh groups
                            (AList.update k (predict_calibrated_confidence m) models) counts)
         else train_groups min_samples fresh groups models counts)"

definition train_per_stratum_calibrators ::
  "correction_label list \<Rightarrow> int \<Rightarrow> pyfloat \<Rightarrow> nat \<Rightarrow> pyfloat \<Rightarrow> encoding_policy option \<Rightarrow> exn + per_stratum"
where
  "train_per_stratum_calibrators labels min_samples learning_rate iterations l2_reg policy =
     (if labels = [] then Inl (ValueError ''Cannot train calibrators with empty training labels'')
      else
        (let shared_encoder = from_features_list (map cl_features labels) policy;
             fresh = new_logistic learning_rate iterations l2_reg (Some shared_encoder)
         in case fit_labels labels fresh of
              Inl err \<Rightarrow> Inl err
            | Inr pooled \<Rightarrow>
                (case train_groups min_samples fresh (stratum_groups labels []) [] [] of
                   Inl err \<Rightarrow> Inl err
                 | Inr (models, counts) \<Rightarrow>
                     Inr \<lparr>ps_pooled_model = predict_calibrated_confidence pooled, ps_stratum_models = models,
                          ps_stratum_sample_counts = counts, ps_min_stratum_samples = min_samples\<rparr>)))"

definition default_calibration :: calibrator_model where
  "default_calibration f =
     (clamp01 (cf_token_confidence f * 0.98), [(''token_confidence'', round_digits 4 (cf_token_confidence f * 0.98))])"

definition calibrate :: "calibrator_features \<Rightarrow> per_stratum option \<Rightarrow> calibration_result" where
  "calibrate f calibrator =
     (case calibrator of Some ps \<Rightarrow> calibrate_per_stratum ps f
      | None \<Rightarrow> calibrate_per_stratum \<lparr>ps_pooled_model = default_calibration, ps_stratum_models = [],
                  ps_stratum_sample_counts = [], ps_min_stratum_samples = 1\<rparr> f)"

section \<open>Lemmas\<close>

lemma clamp01_bounds [simp]: "0 \<le> clamp01 x" "clamp01 x \<le> 1"
  by (simp_all add: clamp01_def)

lemma sigmoid_bounds: "0 < sigmoid z" "sigmoid z < 1"
  by (simp_all add: sigmoid_def Let_def add_pos_pos divide_less_eq)

lemma clamp01_sigmoid [simp]: "clamp01 (sigmoid z) = sigmoid z"
  using sigmoid_bounds [of z] by (simp add: clamp01_def)

lemma length_encode: "length (encode enc f) = length (feature_names enc)"
  by (simp add: encode_def feature_names_def Let_def split_beta)

subsection \<open>The descent\<close>

lemma length_gradients:
  "list_all (\<lambda>(xi, yi). length xi = n) samples \<Longrightarrow> length gw = n \<Longrightarrow>
   length (fst (gradients ws b samples (gw, gb))) = n"
  by (induction ws b samples "(gw, gb)" arbitrary: gw gb rule: gradients.induct) (auto simp: Let_def)

lemma gradients_unseen:
  "list_all (\<lambda>(xi, yi). length xi = n \<and> xi ! j = 0) samples \<Longrightarrow> length gw = n \<Longrightarrow> j < n \<Longrightarrow>
   fst (gradients ws b samples (gw, gb)) ! j = gw ! j"
  by (induction ws b samples "(gw, gb)" arbitrary: gw gb rule: gradients.induct) (auto simp: Let_def)

lemma descent_step_props:
  assumes "list_all (\<lambda>(xi, yi). length xi = n) samples" and "length (fst model) = n"
  shows "length (fst (descent_step lr l2 samples model)) = n"
    and "list_all (\<lambda>(xi, yi). length xi = n \<and> xi ! j = 0) samples \<Longrightarrow> j < n \<Longrightarrow> fst model ! j = 0 \<Longrightarrow>
      fst (descent_step lr l2 samples model) ! j = 0"
proof -
  obtain ws b where model: "model = (ws, b)" by (cases model)
  obtain gw gb where g: "gradients ws b samples (replicate (length ws) 0, 0) = (gw, gb)" by fastforce
  have len: "length gw = n" using length_gradients [OF assms(1), of "replicate (length ws) 0" ws b 0] assms(2) model g by simp
  then show "length (fst (descent_step lr l2 samples model)) = n"
    using assms(2) model g by (simp add: descent_step_def)
  assume "list_all (\<lambda>(xi, yi). length xi = n \<and> xi ! j = 0) samples" "j < n" "fst model ! j = 0"
  then show "fst (descent_step lr l2 samples model) ! j = 0"
    using gradients_unseen [of n j samples "replicate (length ws) 0" ws b 0] assms(2) model g len
    by (simp add: descent_step_def)
qed

lemma descent_props:
  assumes "list_all (\<lambda>(xi, yi). length xi = n) samples"
  shows "length (fst ((descent_step lr l2 samples ^^ k) (replicate n 0, 0))) = n"
    and "list_all (\<lambda>(xi, yi). length xi = n \<and> xi ! j = 0) samples \<Longrightarrow> j < n \<Longrightarrow>
      fst ((descent_step lr l2 samples ^^ k) (replicate n 0, 0)) ! j = 0"
proof -
  show len: "length (fst ((descent_step lr l2 samples ^^ k) (replicate n 0, 0))) = n" for k
    by (induction k) (simp_all add: descent_step_props(1) [OF assms])
  assume unseen: "list_all (\<lambda>(xi, yi). length xi = n \<and> xi ! j = 0) samples" "j < n"
  show "fst ((descent_step lr l2 samples ^^ k) (replicate n 0, 0)) ! j = 0"
    by (induction k) (simp_all add: descent_step_props(2) [OF assms len unseen] unseen(2))
qed

lemma fit_Inr:
  assumes "fit examples m = Inr m'"
  shows "examples \<noteq> []" and "lc_is_fitted m'" and "length (lc_weights m') = length (feature_names (lc_encoder m'))"
    and "j < length (lc_weights m') \<Longrightarrow> list_all (\<lambda>(f, correct). encode (lc_encoder m') f ! j = 0) examples \<Longrightarrow>
      lc_weights m' ! j = 0"
proof -
  let ?enc = "if en_extra_categories (lc_encoder m) = []
     then from_features_list (map fst examples) (Some (en_policy (lc_encoder m))) else lc_encoder m"
  let ?samples = "map (\<lambda>(feat, correct). (encode ?enc feat, if correct then 1 else 0)) examples :: (pyfloat list \<times> pyfloat) list"
  let ?n = "length (feature_names ?enc)"
  let ?run = "(descent_step (lc_learning_rate m) (lc_l2_reg m) ?samples ^^ lc_iterations m) (replicate ?n 0, 0)"
  from assms show ne: "examples \<noteq> []" by (auto simp: fit_def)
  have m': "m' = m\<lparr>lc_encoder := ?enc, lc_weights := fst ?run, lc_bias := snd ?run, lc_is_fitted := True\<rparr>"
    using assms ne unfolding fit_def Let_def by (simp only: if_False split_beta sum.inject)
  have samples: "list_all (\<lambda>(xi, yi). length xi = ?n) ?samples"
    by (simp add: list_all_iff split_beta length_encode)
  show "lc_is_fitted m'" by (simp add: m')
  show "length (lc_weights m') = length (feature_names (lc_encoder m'))"
    using descent_props(1) [OF samples] by (simp add: m')
  assume j: "j < length (lc_weights m')" and unseen: "list_all (\<lambda>(f, correct). encode (lc_encoder m') f ! j = 0) examples"
  have "list_all (\<lambda>(xi, yi). length xi = ?n \<and> xi ! j = 0) ?samples"
    using unseen by (simp add: m' list_all_iff split_beta length_encode)
  moreover have "j < ?n" using j descent_props(1) [OF samples] by (simp add: m')
  ultimately show "lc_weights m' ! j = 0" using descent_props(2) [OF samples] by (simp add: m')
qed

lemma fit_total: "(\<exists>m'. fit examples m = Inr m') \<longleftrightarrow> examples \<noteq> []"
  by (simp add: fit_def Let_def split_beta)

subsection \<open>The bins\<close>

definition in_bin :: "nat \<Rightarrow> nat \<Rightarrow> (pyfloat \<times> bool) list \<Rightarrow> (pyfloat \<times> bool) list" where
  "in_bin k b ps = filter (\<lambda>(p, l). bin_of k (clamp01 p) = b) ps"

definition residual :: "pyfloat \<times> bool \<Rightarrow> pyfloat" where
  \<comment> \<open>the observed outcome less the confidence claimed for it\<close>
  "residual pl = (if snd pl then 1 else 0) - clamp01 (fst pl)"

lemma bin_of_less: "0 < k \<Longrightarrow> bin_of k p < k"
  by (simp add: bin_of_def Let_def)

lemma fill_bins_eq:
  "0 < k \<Longrightarrow> b < k \<Longrightarrow> length (eb_counts bins) = k \<Longrightarrow> length (eb_correct bins) = k \<Longrightarrow> length (eb_conf_sum bins) = k \<Longrightarrow>
    eb_counts (fill_bins k ps bins) ! b = eb_counts bins ! b + length (in_bin k b ps) \<and>
    eb_correct (fill_bins k ps bins) ! b - eb_conf_sum (fill_bins k ps bins) ! b =
      eb_correct bins ! b - eb_conf_sum bins ! b + sum_list (map residual (in_bin k b ps))"
proof (induction k ps bins rule: fill_bins.induct)
  case (2 k pred label rest bins)
  let ?i = "bin_of k (clamp01 pred)"
  have i: "?i < k" by (rule bin_of_less [OF "2.prems"(1)])
  have upd: "xs[?i := x] ! b = (if ?i = b then x else xs ! b)" if "length xs = k" for xs :: "'x list" and x
    using that i by (simp add: nth_list_update)
  note u = upd [OF "2.prems"(3)] upd [OF "2.prems"(4)] upd [OF "2.prems"(5)]
  show ?case
    using "2.IH" [OF refl refl] "2.prems"
    by (cases "?i = b"; cases label) (simp_all add: Let_def in_bin_def residual_def u)
qed (simp add: in_bin_def)

lemma sum_bins:
  assumes "0 < k"
  shows "sum_list (map (\<lambda>b. sum_list (map g (in_bin k b ps))) [0..<k]) = (sum_list (map g ps) :: real)"
proof (induction ps)
  case (Cons p ps)
  have "sum_list (map (\<lambda>b. sum_list (map g (in_bin k b (p # ps)))) [0..<k]) =
      sum_list (map (\<lambda>b. (if b = bin_of k (clamp01 (fst p)) then g p else 0) + sum_list (map g (in_bin k b ps))) [0..<k])"
    by (intro arg_cong [where f = sum_list] map_cong) (auto simp: in_bin_def split_beta)
  also have "\<dots> = g p + sum_list (map g ps)"
    using bin_of_less [OF assms, of "clamp01 (fst p)"]
    by (simp add: sum_list_addf Cons.IH sum_list_distinct_conv_sum_set sum.delta)
  finally show ?case by simp
qed (simp add: in_bin_def sum_list_0 [unfolded map_replicate_const])

lemma abs_residual: "\<bar>residual p\<bar> \<le> 1"
  using clamp01_bounds [of "fst p"] by (cases "snd p") (simp_all add: residual_def)

lemma abs_sum_residual: "\<bar>sum_list (map residual ps)\<bar> \<le> real (length ps)"
proof (induction ps)
  case (Cons p ps)
  then show ?case using abs_residual [of p] abs_triangle_ineq [of "residual p" "sum_list (map residual ps)"] by simp
qed simp

lemma abs_sum_list: "\<bar>sum_list xs\<bar> \<le> sum_list (map abs xs)" for xs :: "real list"
proof (induction xs)
  case (Cons x xs)
  then show ?case using abs_triangle_ineq [of x "sum_list xs"] by simp
qed simp

lemma compute_ece_eq:
  assumes "length predictions = length labels" and "predictions \<noteq> []" and "0 < num_bins"
  shows "compute_ece predictions labels num_bins =
    Inr (sum_list (map (\<lambda>b. \<bar>sum_list (map residual (in_bin (nat num_bins) b (zip predictions labels)))\<bar>
                              / real (length predictions)) [0..<nat num_bins]))"
proof -
  let ?k = "nat num_bins" and ?ps = "zip predictions labels"
  let ?bins = "fill_bins ?k ?ps \<lparr>eb_counts = replicate ?k 0, eb_correct = replicate ?k 0, eb_conf_sum = replicate ?k 0\<rparr>"
  have "bin_gap (length predictions) ?bins b =
      \<bar>sum_list (map residual (in_bin ?k b ?ps))\<bar> / real (length predictions)" if "b < ?k" for b
  proof -
    have k: "0 < ?k" using assms(3) by simp
    from fill_bins_eq [OF k that, where ps = ?ps, of "\<lparr>eb_counts = replicate ?k 0, eb_correct = replicate ?k 0, eb_conf_sum = replicate ?k 0\<rparr>"] that
    have c: "eb_counts ?bins ! b = length (in_bin ?k b ?ps)"
      and d: "eb_correct ?bins ! b - eb_conf_sum ?bins ! b = sum_list (map residual (in_bin ?k b ?ps))"
      by simp_all
    show ?thesis
    proof (cases "in_bin ?k b ?ps = []")
      case False
      then have "0 < real (length (in_bin ?k b ?ps))" by simp
      then show ?thesis
        by (simp add: bin_gap_def Let_def c d flip: diff_divide_distrib)
    qed (simp add: bin_gap_def c)
  qed
  then have "map (bin_gap (length predictions) ?bins) [0..<?k] =
      map (\<lambda>b. \<bar>sum_list (map residual (in_bin ?k b ?ps))\<bar> / real (length predictions)) [0..<?k]"
    by simp
  then have gaps: "map (bin_gap (length predictions) ?bins) [0..<?k] =
      map (\<lambda>b. \<bar>sum_list (map residual (in_bin ?k b ?ps))\<bar> / real (length predictions)) [0..<?k]" .
  have "compute_ece predictions labels num_bins = Inr (sum_list (map (bin_gap (length predictions) ?bins) [0..<?k]))"
    using assms by (simp add: compute_ece_def Let_def)
  then show ?thesis unfolding gaps .
qed

subsection \<open>The split\<close>

lemma py_int_less: "x < real n \<Longrightarrow> 0 < n \<Longrightarrow> py_int x < int n"
proof (cases "0 \<le> x")
  case False
  assume "0 < n"
  moreover have "\<lceil>x\<rceil> \<le> 0" using False by simp
  ultimately have "\<lceil>x\<rceil> < int n" by linarith
  then show ?thesis using False by (simp add: py_int_def)
qed (simp add: py_int_def floor_less_iff)

lemma split_digests_props:
  assumes "split_digests ds fr = (tr, ev)"
  shows "tr @ ev = ds" and "2 \<le> length ds \<Longrightarrow> ev \<noteq> []" and "2 \<le> length ds \<Longrightarrow> fr < 1 \<Longrightarrow> tr \<noteq> []"
proof -
  let ?n = "length ds"
  let ?e = "nat (max 1 (py_int (real ?n * fr)))"
  show app: "tr @ ev = ds" using assms by (auto simp: split_digests_def Let_def split: if_splits)
  assume two: "2 \<le> ?n"
  then have s: "tr = take (?n - ?e) ds" "ev = drop (?n - ?e) ds"
    using assms by (auto simp: split_digests_def Let_def split: if_splits)
  have "?n - ?e < ?n" using two by linarith
  then show "ev \<noteq> []" using s(2) by simp
  assume "fr < 1"
  then have "real ?n * fr < real ?n * 1" by (rule mult_strict_left_mono) (use two in auto)
  then have "real ?n * fr < real ?n" by simp
  then have "py_int (real ?n * fr) < int ?n" by (rule py_int_less) (use two in linarith)
  then have "?e < ?n" using two by linarith
  with s(1) two show "tr \<noteq> []" by (cases "?n - ?e") auto
qed

lemma mset_split_filter:
  "set (map f xs) = A \<union> B \<Longrightarrow> A \<inter> B = {} \<Longrightarrow>
   mset (filter (\<lambda>x. f x \<in> A) xs) + mset (filter (\<lambda>x. f x \<in> B) xs) = mset xs"
proof -
  assume "set (map f xs) = A \<union> B" "A \<inter> B = {}"
  then have "filter (\<lambda>x. f x \<in> B) xs = filter (\<lambda>x. \<not> f x \<in> A) xs" by (intro filter_cong) auto
  then show ?thesis by (simp add: mset_filter [symmetric] del: mset_filter) (metis multiset_partition mset_filter)
qed

subsection \<open>The strata\<close>

definition group_of_stratum :: "string \<Rightarrow> correction_label list \<Rightarrow> correction_label list" where
  "group_of_stratum k labels = filter (\<lambda>l. label_stratum l = k) labels"

lemma stratum_groups_get:
  "map_of (stratum_groups labels groups) k =
     (case map_of groups k of
        Some g \<Rightarrow> Some (g @ group_of_stratum k labels)
      | None \<Rightarrow> if group_of_stratum k labels = [] then None else Some (group_of_stratum k labels))"
  by (induction labels groups rule: stratum_groups.induct)
     (auto simp: Let_def AList.update_conv' group_of_stratum_def split: option.splits)

lemma distinct_stratum_groups: "distinct (map fst groups) \<Longrightarrow> distinct (map fst (stratum_groups labels groups))"
  by (induction labels groups rule: stratum_groups.induct) (simp_all add: Let_def AList.distinct_update)

lemma train_groups_get:
  "train_groups min_samples fresh groups models counts = Inr (models', counts') \<Longrightarrow> distinct (map fst groups) \<Longrightarrow>
   map_of counts' k = (case map_of groups k of Some g \<Rightarrow> Some (length g) | None \<Rightarrow> map_of counts k) \<and>
   map_of models' k = (case map_of groups k of
        None \<Rightarrow> map_of models k
      | Some g \<Rightarrow> if int (length g) \<ge> min_samples
                  then (case fit_labels g fresh of Inl err \<Rightarrow> None | Inr m \<Rightarrow> Some (predict_calibrated_confidence m))
                  else map_of models k)"
proof (induction min_samples fresh groups models counts rule: train_groups.induct)
  case (2 min_samples fresh j g groups models counts)
  have fresh_key: "map_of groups j = None" using "2.prems"(2) by (simp add: map_of_eq_None_iff)
  show ?case
  proof (cases "int (length g) \<ge> min_samples")
    case True
    with "2.prems"(1) obtain m where m: "fit_labels g fresh = Inr m"
      and t: "train_groups min_samples fresh groups (AList.update j (predict_calibrated_confidence m) models)
        (AList.update j (length g) counts) = Inr (models', counts')"
      by (auto simp: Let_def split: sum.splits)
    from "2.IH"(1) [OF refl True m t] "2.prems"(2) show ?thesis
      using True m fresh_key by (cases "k = j") (simp_all add: AList.update_conv split: option.split)
  next
    case False
    then have t: "train_groups min_samples fresh groups models (AList.update j (length g) counts) = Inr (models', counts')"
      using "2.prems"(1) by (simp add: Let_def)
    from "2.IH"(2) [OF refl False t] "2.prems"(2) show ?thesis
      using False fresh_key by (cases "k = j") (simp_all add: AList.update_conv split: option.split)
  qed
qed simp

lemma train_groups_total:
  "list_all (\<lambda>(k, g). g \<noteq> []) groups \<Longrightarrow> \<exists>r. train_groups min_samples fresh groups models counts = Inr r"
proof (induction min_samples fresh groups models counts rule: train_groups.induct)
  case (2 min_samples fresh k g groups models counts)
  obtain m where m: "fit_labels g fresh = Inr m"
    using "2.prems" fit_total [of "map (\<lambda>l. (cl_features l, cl_is_correct l)) g" fresh] by (auto simp: fit_labels_def)
  show ?case
  proof (cases "int (length g) \<ge> min_samples")
    case True
    then show ?thesis using "2.IH"(1) [OF refl True m] "2.prems" m by (simp add: Let_def)
  next
    case False
    then show ?thesis using "2.IH"(2) [OF refl False] "2.prems" by (simp add: Let_def)
  qed
qed simp

lemma stratum_groups_nonempty:
  "list_all (\<lambda>(k, g). g \<noteq> []) groups \<Longrightarrow> list_all (\<lambda>(k, g). g \<noteq> []) (stratum_groups labels groups)"
proof (induction labels groups rule: stratum_groups.induct)
  case (2 l labels groups)
  have "list_all (\<lambda>(k, g). g \<noteq> []) (AList.update k (x @ [l]) gs)"
    if "list_all (\<lambda>(k, g). g \<noteq> []) gs" for k x and gs :: "(string \<times> correction_label list) list"
    using that by (induction gs) auto
  then show ?case using 2 by (simp add: Let_def)
qed simp

section \<open>Properties\<close>

text \<open>C34. The calibration error is what it is said to be. For predictions with as many labels, at least one
  bin and at least one prediction, \<open>compute_ece\<close> returns the average, over the bins, of the gap
  between what the labels of the bin add up to and what its predictions claimed; the value lies
  between 0 and 1, and it is never below the gap over all predictions together.\<close>

theorem ece_is_average_gap:
  assumes "length predictions = length labels" and "predictions \<noteq> []" and "0 < num_bins"
  shows "\<exists>ece. compute_ece predictions labels num_bins = Inr ece \<and>
    ece = sum_list (map (\<lambda>b. \<bar>sum_list (map residual (in_bin (nat num_bins) b (zip predictions labels)))\<bar>
                              / real (length predictions)) [0..<nat num_bins]) \<and>
    0 \<le> ece \<and> ece \<le> 1 \<and>
    \<bar>sum_list (map residual (zip predictions labels))\<bar> / real (length predictions) \<le> ece"
proof -
  let ?k = "nat num_bins" and ?ps = "zip predictions labels" and ?n = "real (length predictions)"
  let ?gap = "\<lambda>b. \<bar>sum_list (map residual (in_bin ?k b ?ps))\<bar>"
  have k: "0 < ?k" using assms(3) by simp
  have n: "0 < ?n" using assms(2) by simp
  have split: "sum_list (map (\<lambda>b. ?gap b / ?n) [0..<?k]) = sum_list (map ?gap [0..<?k]) / ?n"
    by (simp add: sum_list_const_mult [symmetric] divide_inverse mult.commute)
  have "sum_list (map ?gap [0..<?k]) \<le> sum_list (map (\<lambda>b. sum_list (map (\<lambda>_. 1) (in_bin ?k b ?ps))) [0..<?k])"
    by (intro sum_list_mono) (simp add: abs_sum_residual sum_list_triv)
  also have "\<dots> = real (length ?ps)" unfolding sum_bins [OF k] by (simp add: sum_list_triv)
  finally have upper: "sum_list (map ?gap [0..<?k]) \<le> ?n" using assms(1) by simp
  have "\<bar>sum_list (map residual ?ps)\<bar> \<le> sum_list (map ?gap [0..<?k])"
    using abs_sum_list [of "map (\<lambda>b. sum_list (map residual (in_bin ?k b ?ps))) [0..<?k]"]
    by (simp add: sum_bins [OF k] comp_def)
  moreover have "0 \<le> sum_list (map ?gap [0..<?k])" by (intro sum_list_nonneg) auto
  ultimately show ?thesis
    using compute_ece_eq [OF assms] upper n by (simp add: split divide_right_mono)
qed

theorem ece_is_average_gap_witness:
  "\<exists>ece. compute_ece [0.9, 0.2] [True, True] 10 = Inr ece \<and> 0.45 \<le> ece \<and> ece \<le> 1"
proof -
  have "\<bar>sum_list (map residual (zip [0.9, 0.2] [True, True]))\<bar> / real (length [0.9 :: real, 0.2]) = 0.45"
    by (simp add: residual_def clamp01_def)
  with ece_is_average_gap [of "[0.9, 0.2]" "[True, True]" 10] show ?thesis by auto
qed

text \<open>C33. No page is on both sides. Whatever the fraction, the split loses no label and duplicates
  none, and the pages trained on and the pages evaluated on are disjoint; with two pages or more
  something is held out, and with a fraction below 1 something is left to train on. The split is
  refused exactly when a page of the labels is on the exclusion list.\<close>

theorem no_page_on_both_sides:
  "case partition_training_and_evaluation labels fr exclusion of
     Inl err \<Rightarrow> (\<exists>ex. exclusion = Some ex \<and> cl_source_page_digest ` set labels \<inter> set ex \<noteq> {})
   | Inr (train, held) \<Rightarrow>
       mset train + mset held = mset labels \<and>
       cl_source_page_digest ` set train \<inter> cl_source_page_digest ` set held = {} \<and>
       (case exclusion of None \<Rightarrow> True | Some ex \<Rightarrow> cl_source_page_digest ` set labels \<inter> set ex = {}) \<and>
       (2 \<le> card (cl_source_page_digest ` set labels) \<longrightarrow> held \<noteq> [] \<and> (fr < 1 \<longrightarrow> train \<noteq> []))"
proof -
  let ?ds = "sort (remdups (map cl_source_page_digest labels))"
  obtain tr ev where s: "split_digests ?ds fr = (tr, ev)" by fastforce
  note p = split_digests_props [OF s]
  have set: "set tr \<union> set ev = cl_source_page_digest ` set labels" using arg_cong [OF p(1), of set] by simp
  have "distinct (tr @ ev)" unfolding p(1) by simp
  then have disj: "set tr \<inter> set ev = {}" by simp
  have len: "length ?ds = card (cl_source_page_digest ` set labels)"
    by (simp add: length_remdups_card_conv)
  let ?f = "\<lambda>A. filter (\<lambda>l. cl_source_page_digest l \<in> set A) labels"
  have nonempty: "A \<noteq> [] \<Longrightarrow> set A \<subseteq> cl_source_page_digest ` set labels \<Longrightarrow> ?f A \<noteq> []" for A
    by (cases A) (auto simp: filter_empty_conv)
  have part: "mset (?f tr) + mset (?f ev) = mset labels"
    by (rule mset_split_filter) (use set disj in auto)
  have sides: "cl_source_page_digest ` set (?f tr) \<inter> cl_source_page_digest ` set (?f ev) = {}" using disj by auto
  have held: "2 \<le> card (cl_source_page_digest ` set labels) \<longrightarrow> ?f ev \<noteq> [] \<and> (fr < 1 \<longrightarrow> ?f tr \<noteq> [])"
    using p(2,3) len nonempty [of ev] nonempty [of tr] set by auto
  have ok: "assert_no_leakage tr ev = Inr ()" using disj by (simp add: assert_no_leakage_def)
  show ?thesis
  proof (cases "case exclusion of None \<Rightarrow> False | Some ex \<Rightarrow> cl_source_page_digest ` set labels \<inter> set ex \<noteq> {}")
    case True
    then obtain ex where ex: "exclusion = Some ex" "cl_source_page_digest ` set labels \<inter> set ex \<noteq> {}"
      by (auto split: option.splits)
    then have "\<exists>err. partition_training_and_evaluation labels fr exclusion = Inl err"
      by (auto simp: partition_training_and_evaluation_def assert_no_leakage_def Let_def)
    then obtain err where "partition_training_and_evaluation labels fr exclusion = Inl err" ..
    moreover have "\<exists>ex. exclusion = Some ex \<and> cl_source_page_digest ` set labels \<inter> set ex \<noteq> {}" using ex by blast
    ultimately show ?thesis by simp
  next
    case False
    then have "partition_training_and_evaluation labels fr exclusion = Inr (?f tr, ?f ev)"
      using s ok by (auto simp: partition_training_and_evaluation_def assert_no_leakage_def Let_def split: option.splits)
    then show ?thesis using part sides held False by (auto split: option.splits)
  qed
qed

definition demo_features :: "pyfloat \<Rightarrow> string \<Rightarrow> calibrator_features" where
  "demo_features c cluster = \<lparr>cf_token_confidence = c, cf_layout_certainty = None, cf_normalization_confidence = None,
     cf_validator_outcomes = [], cf_field_class = ''area'', cf_script = ''deva'', cf_doc_type = ''khatauni'',
     cf_print_or_handwriting = ''printed'', cf_legibility_band = ''good'', cf_writer_cluster_id = cluster\<rparr>"

definition demo_label :: "string \<Rightarrow> string \<Rightarrow> bool \<Rightarrow> correction_label" where
  "demo_label page cluster correct = \<lparr>cl_extraction_id = ''x'', cl_is_correct = correct,
     cl_features = demo_features 0.8 cluster, cl_stratum = [], cl_source_page_digest = page\<rparr>"

theorem no_page_on_both_sides_witness:
  "\<exists>train held. partition_training_and_evaluation [demo_label ''a'' ''w'' True, demo_label ''b'' ''w'' False,
       demo_label ''a'' ''v'' True] 0.2 None = Inr (train, held) \<and> train \<noteq> [] \<and> held \<noteq> []"
proof -
  let ?ls = "[demo_label ''a'' ''w'' True, demo_label ''b'' ''w'' False, demo_label ''a'' ''v'' True]"
  have "card (cl_source_page_digest ` set ?ls) = 2" by (simp add: demo_label_def card_insert_if)
  then show ?thesis
    using no_page_on_both_sides [of None ?ls "0.2"]
    by (cases "partition_training_and_evaluation ?ls 0.2 None") (auto split: prod.splits)
qed

text \<open>A stratum speaks for itself only with enough evidence. Training succeeds exactly when there is a
  label; and the trained calibrator answers for a field with the model fitted on the labels of the
  field's own stratum if there are at least as many as required (and at least one), and otherwise
  with the model fitted on all of them, saying which; the answer is always between 0 and 1.\<close>

lemma stratum_or_pooled:
  assumes "train_per_stratum_calibrators labels min_samples lr its l2 policy = Inr ps"
  shows "\<exists>m. fit_labels (if ca_regime (calibrate_per_stratum ps f) = STRATUM_SPECIFIC
                         then group_of_stratum (canonical_stratum f) labels else labels)
        (new_logistic lr its l2 (Some (from_features_list (map cl_features labels) policy))) = Inr m \<and>
      ca_calibrated_confidence (calibrate_per_stratum ps f) = fst (predict_calibrated_confidence m f) \<and>
      0 \<le> fst (predict_calibrated_confidence m f) \<and> fst (predict_calibrated_confidence m f) \<le> 1 \<and>
      (ca_regime (calibrate_per_stratum ps f) = STRATUM_SPECIFIC \<longleftrightarrow>
         group_of_stratum (canonical_stratum f) labels \<noteq> [] \<and>
         min_samples \<le> int (length (group_of_stratum (canonical_stratum f) labels)))"
proof -
  let ?fresh = "new_logistic lr its l2 (Some (from_features_list (map cl_features labels) policy))"
  let ?k = "canonical_stratum f"
  let ?g = "group_of_stratum ?k labels"
  from assms obtain pooled models counts where
    pooled: "fit_labels labels ?fresh = Inr pooled"
    and t: "train_groups min_samples ?fresh (stratum_groups labels []) [] [] = Inr (models, counts)"
    and ps: "ps = \<lparr>ps_pooled_model = predict_calibrated_confidence pooled, ps_stratum_models = models,
                   ps_stratum_sample_counts = counts, ps_min_stratum_samples = min_samples\<rparr>"
    by (auto simp: train_per_stratum_calibrators_def Let_def split: if_splits sum.splits)
  have get: "map_of (stratum_groups labels []) ?k = (if ?g = [] then None else Some ?g)"
    by (simp add: stratum_groups_get)
  from train_groups_get [OF t, of ?k] distinct_stratum_groups [of "[]" labels]
  have counts: "map_of counts ?k = (if ?g = [] then None else Some (length ?g))"
    and models: "map_of models ?k = (if ?g = [] then None else if int (length ?g) \<ge> min_samples
        then (case fit_labels ?g ?fresh of Inl err \<Rightarrow> None | Inr m \<Rightarrow> Some (predict_calibrated_confidence m)) else None)"
    by (simp_all add: get)
  have bounds: "0 \<le> fst (predict_calibrated_confidence m f)" "fst (predict_calibrated_confidence m f) \<le> 1"
    "clamp01 (fst (predict_calibrated_confidence m f)) = fst (predict_calibrated_confidence m f)" for m
    by (simp_all add: predict_calibrated_confidence_def Let_def clamp01_def)
  show ?thesis
  proof (cases "?g \<noteq> [] \<and> min_samples \<le> int (length ?g)")
    case True
    then obtain m where m: "fit_labels ?g ?fresh = Inr m"
      using fit_total [of "map (\<lambda>l. (cl_features l, cl_is_correct l)) ?g" ?fresh] by (auto simp: fit_labels_def)
    then have "calibrate_per_stratum ps f = \<lparr>ca_calibrated_confidence = clamp01 (fst (predict_calibrated_confidence m f)),
        ca_raw_confidence = cf_token_confidence f, ca_regime = STRATUM_SPECIFIC, ca_stratum = ?k,
        ca_feature_attributions = snd (predict_calibrated_confidence m f)\<rparr>"
      using True counts models by (simp add: ps calibrate_per_stratum_def Let_def split_beta)
    then show ?thesis using m True bounds by simp
  next
    case False
    then have "map_of models ?k = None" using models by auto
    then have "calibrate_per_stratum ps f = \<lparr>ca_calibrated_confidence = clamp01 (fst (predict_calibrated_confidence pooled f)),
        ca_raw_confidence = cf_token_confidence f, ca_regime = POOLED_FALLBACK, ca_stratum = ?k,
        ca_feature_attributions = snd (predict_calibrated_confidence pooled f)\<rparr>"
      by (simp add: ps calibrate_per_stratum_def Let_def split_beta)
    then show ?thesis using pooled False bounds by simp
  qed
qed

lemma train_total: "(\<exists>ps. train_per_stratum_calibrators labels min_samples lr its l2 policy = Inr ps) \<longleftrightarrow> labels \<noteq> []"
proof (cases "labels = []")
  case False
  let ?fresh = "new_logistic lr its l2 (Some (from_features_list (map cl_features labels) policy))"
  obtain m where "fit_labels labels ?fresh = Inr m"
    using False fit_total [of "map (\<lambda>l. (cl_features l, cl_is_correct l)) labels" ?fresh] by (auto simp: fit_labels_def)
  moreover obtain r where "train_groups min_samples ?fresh (stratum_groups labels []) [] [] = Inr r"
    using train_groups_total stratum_groups_nonempty [of "[]" labels] by fastforce
  ultimately show ?thesis using False by (cases r) (simp add: train_per_stratum_calibrators_def Let_def)
qed (simp add: train_per_stratum_calibrators_def)

lemma stratum_or_pooled_example:
  "\<exists>ps. train_per_stratum_calibrators [demo_label ''a'' ''w'' True, demo_label ''b'' ''w'' False] 2 0.5 150 0.01 None = Inr ps \<and>
     ca_regime (calibrate_per_stratum ps (demo_features 0.7 ''w'')) = STRATUM_SPECIFIC \<and>
     ca_regime (calibrate_per_stratum ps (demo_features 0.7 ''new'')) = POOLED_FALLBACK"
proof -
  let ?ls = "[demo_label ''a'' ''w'' True, demo_label ''b'' ''w'' False]"
  obtain ps where ps: "train_per_stratum_calibrators ?ls 2 0.5 150 0.01 None = Inr ps"
    using train_total [of ?ls] by blast
  have "length (group_of_stratum (canonical_stratum (demo_features 0.7 ''w'')) ?ls) = 2"
    "group_of_stratum (canonical_stratum (demo_features 0.7 ''new'')) ?ls = []"
    by (simp_all add: group_of_stratum_def label_stratum_def demo_label_def demo_features_def canonical_stratum_def
        stratum_key_def)
  with stratum_or_pooled [OF ps, of "demo_features 0.7 ''w''"] stratum_or_pooled [OF ps, of "demo_features 0.7 ''new''"] ps
  show ?thesis
    by (cases "ca_regime (calibrate_per_stratum ps (demo_features 0.7 ''new''))") auto
qed

end
