(* ===== verification/Cold_Start.thy ===== *)
theory Cold_Start
  imports Calibration
begin

text \<open>
  The cold-start ramp of a newly promoted model (\<open>modelwork/domain/calibration/cold_start.py\<close>): the
  states, the declared transitions, the step from the observed evidence, and the operating posture
  of each state.
\<close>

section \<open>States and transitions\<close>

datatype cold_start_state = SHADOW | RAMP | STEADY | REGRESSION

primrec state_value :: "cold_start_state \<Rightarrow> string" where
  "state_value SHADOW = ''shadow''"
| "state_value RAMP = ''ramp''"
| "state_value STEADY = ''steady''"
| "state_value REGRESSION = ''regression''"

primrec VALID_TRANSITIONS :: "cold_start_state \<Rightarrow> cold_start_state list" where
  "VALID_TRANSITIONS SHADOW = [SHADOW, RAMP]"
| "VALID_TRANSITIONS RAMP = [RAMP, STEADY, REGRESSION]"
| "VALID_TRANSITIONS STEADY = [STEADY, REGRESSION]"
| "VALID_TRANSITIONS REGRESSION = [REGRESSION, RAMP]"

definition validate_transition :: "cold_start_state \<Rightarrow> cold_start_state \<Rightarrow> exn + unit" where
  "validate_transition from_state to_state =
     (if to_state \<notin> set (VALID_TRANSITIONS from_state) then Inl (InvalidStateTransition (state_value to_state))
      else Inr ())"

record operational_posture =
  op_auto_accept_allowed :: bool
  op_conservative_error_target :: bool
  op_elevated_audit_sample :: bool

primrec get_operational_posture :: "cold_start_state \<Rightarrow> operational_posture" where
  "get_operational_posture SHADOW =
     \<lparr>op_auto_accept_allowed = False, op_conservative_error_target = True, op_elevated_audit_sample = True\<rparr>"
| "get_operational_posture RAMP =
     \<lparr>op_auto_accept_allowed = True, op_conservative_error_target = True, op_elevated_audit_sample = True\<rparr>"
| "get_operational_posture STEADY =
     \<lparr>op_auto_accept_allowed = True, op_conservative_error_target = False, op_elevated_audit_sample = False\<rparr>"
| "get_operational_posture REGRESSION =
     \<lparr>op_auto_accept_allowed = False, op_conservative_error_target = True, op_elevated_audit_sample = True\<rparr>"

record cold_start_thresholds =
  ct_min_shadow_evidence :: int
  ct_min_ramp_evidence :: int
  ct_min_recovery_evidence :: int

record cold_start_evidence =
  ce_sample_count :: int
  ce_calibration_verified :: bool
  ce_error_target_met :: bool
  ce_regression_alert :: bool
  ce_recovery_evidence_verified :: bool

definition next_state :: "cold_start_state \<Rightarrow> bool \<Rightarrow> bool \<Rightarrow> bool \<Rightarrow> exn + cold_start_state" where
  "next_state present exit_conditions_met regression_alert recovery_conditions_met =
     (let target =
        (case present of
           SHADOW \<Rightarrow> if exit_conditions_met then RAMP else SHADOW
         | RAMP \<Rightarrow> if regression_alert then REGRESSION else if exit_conditions_met then STEADY else RAMP
         | STEADY \<Rightarrow> if regression_alert then REGRESSION else STEADY
         | REGRESSION \<Rightarrow> if regression_alert \<or> \<not> recovery_conditions_met then REGRESSION else RAMP)
      in case validate_transition present target of Inl err \<Rightarrow> Inl err | Inr _ \<Rightarrow> Inr target)"

definition evaluate_cold_start_transition ::
  "cold_start_state \<Rightarrow> cold_start_evidence \<Rightarrow> cold_start_thresholds \<Rightarrow> exn + cold_start_state"
where
  "evaluate_cold_start_transition present ev th =
     (case present of
        SHADOW \<Rightarrow> next_state present (ce_sample_count ev \<ge> ct_min_shadow_evidence th) False False
      | RAMP \<Rightarrow>
          if ce_regression_alert ev then next_state present False True False
          else next_state present (ce_sample_count ev \<ge> ct_min_ramp_evidence th \<and> ce_calibration_verified ev \<and>
                                   ce_error_target_met ev) False False
      | STEADY \<Rightarrow>
          if ce_regression_alert ev then next_state present False True False else next_state present False False False
      | REGRESSION \<Rightarrow>
          if ce_regression_alert ev then next_state present False True False
          else next_state present False False
                 (ce_recovery_evidence_verified ev \<and> ce_sample_count ev \<ge> ct_min_recovery_evidence th))"

section \<open>Lemmas\<close>

text \<open>What moves a model from one state to another.\<close>

inductive ramp_step :: "cold_start_thresholds \<Rightarrow> cold_start_evidence \<Rightarrow> cold_start_state \<Rightarrow> cold_start_state \<Rightarrow> bool"
  for th ev where
  shadow_exit: "ce_sample_count ev \<ge> ct_min_shadow_evidence th \<Longrightarrow> ramp_step th ev SHADOW RAMP"
| ramp_exit: "\<lbrakk>\<not> ce_regression_alert ev; ce_sample_count ev \<ge> ct_min_ramp_evidence th; ce_calibration_verified ev;
     ce_error_target_met ev\<rbrakk> \<Longrightarrow> ramp_step th ev RAMP STEADY"
| regresses: "ce_regression_alert ev \<Longrightarrow> s \<in> {RAMP, STEADY} \<Longrightarrow> ramp_step th ev s REGRESSION"
| recovers: "\<lbrakk>\<not> ce_regression_alert ev; ce_recovery_evidence_verified ev;
     ce_sample_count ev \<ge> ct_min_recovery_evidence th\<rbrakk> \<Longrightarrow> ramp_step th ev REGRESSION RAMP"

inductive_simps ramp_step_simps [simp]:
  "ramp_step th ev SHADOW s" "ramp_step th ev RAMP s" "ramp_step th ev STEADY s" "ramp_step th ev REGRESSION s"

lemmas transition_defs = evaluate_cold_start_transition_def next_state_def validate_transition_def Let_def

fun run_ramp :: "cold_start_thresholds \<Rightarrow> cold_start_evidence list \<Rightarrow> cold_start_state \<Rightarrow> exn + cold_start_state list" where
  \<comment> \<open>the states a model goes through, one evaluation after the other\<close>
  "run_ramp th [] s = Inr [s]"
| "run_ramp th (ev # evs) s =
     (case evaluate_cold_start_transition s ev th of
        Inl err \<Rightarrow> Inl err | Inr s' \<Rightarrow> map_sum id ((#) s) (run_ramp th evs s'))"

lemma evaluate_total: "\<exists>s'. evaluate_cold_start_transition s ev th = Inr s' \<and> (s' = s \<or> ramp_step th ev s s')"
  by (cases s) (simp_all add: transition_defs)

lemma evaluate_iff:
  "evaluate_cold_start_transition s ev th = Inr s' \<longleftrightarrow>
     ramp_step th ev s s' \<or> s' = s \<and> (\<forall>t. \<not> ramp_step th ev s t)"
  by (cases s; cases s') (auto simp: transition_defs)

definition earned_shadow_exit :: "cold_start_thresholds \<Rightarrow> cold_start_evidence \<Rightarrow> bool" where
  "earned_shadow_exit th ev \<longleftrightarrow> ct_min_shadow_evidence th \<le> ce_sample_count ev"

definition earned_steady :: "cold_start_thresholds \<Rightarrow> cold_start_evidence \<Rightarrow> bool" where
  "earned_steady th ev \<longleftrightarrow> \<not> ce_regression_alert ev \<and> ct_min_ramp_evidence th \<le> ce_sample_count ev \<and>
     ce_calibration_verified ev \<and> ce_error_target_met ev"

lemma evaluate_evidence:
  assumes "evaluate_cold_start_transition s ev th = Inr s'"
  shows "s' \<noteq> SHADOW \<Longrightarrow> s \<noteq> SHADOW \<or> earned_shadow_exit th ev"
    and "s' = STEADY \<Longrightarrow> s = STEADY \<or> earned_steady th ev"
  using assms by (cases s; auto simp: evaluate_iff earned_shadow_exit_def earned_steady_def)+

lemma run_ramp_total: "\<exists>path. run_ramp th evs s = Inr path \<and> length path = Suc (length evs)"
proof (induction evs arbitrary: s)
  case (Cons ev evs)
  obtain s' where "evaluate_cold_start_transition s ev th = Inr s'" using evaluate_total by blast
  moreover obtain path where "run_ramp th evs s' = Inr path" "length path = Suc (length evs)" using Cons.IH by blast
  ultimately show ?case by simp
qed simp

lemma run_ramp_nth:
  "run_ramp th evs s = Inr path \<Longrightarrow> path ! 0 = s \<and>
     (\<forall>i < length evs. evaluate_cold_start_transition (path ! i) (evs ! i) th = Inr (path ! Suc i))"
proof (induction evs arbitrary: s path)
  case (Cons ev evs)
  from Cons.prems obtain s' rest where e: "evaluate_cold_start_transition s ev th = Inr s'"
    and r: "run_ramp th evs s' = Inr rest" and p: "path = s # rest"
    by (cases "evaluate_cold_start_transition s ev th"; cases "run_ramp th evs (projr (evaluate_cold_start_transition s ev th))") auto
  from Cons.IH [OF r] e show ?case unfolding p by (auto simp: nth_Cons split: nat.splits)
qed auto

lemma reached_by_evidence:
  assumes run: "run_ramp th evs SHADOW = Inr path" and "i \<le> length evs"
  shows "path ! i \<noteq> SHADOW \<longrightarrow> list_ex (earned_shadow_exit th) (take i evs)"
    and "path ! i = STEADY \<longrightarrow> list_ex (earned_steady th) (take i evs)"
proof -
  have start: "path ! 0 = SHADOW"
    and step: "\<And>j. j < length evs \<Longrightarrow> evaluate_cold_start_transition (path ! j) (evs ! j) th = Inr (path ! Suc j)"
    using run_ramp_nth [OF run] by auto
  have "(path ! i \<noteq> SHADOW \<longrightarrow> list_ex (earned_shadow_exit th) (take i evs)) \<and>
      (path ! i = STEADY \<longrightarrow> list_ex (earned_steady th) (take i evs))"
    using \<open>i \<le> length evs\<close>
  proof (induction i)
    case (Suc i)
    then have t: "take (Suc i) evs = take i evs @ [evs ! i]" by (simp add: take_Suc_conv_app_nth)
    have ev: "evaluate_cold_start_transition (path ! i) (evs ! i) th = Inr (path ! Suc i)" using step Suc.prems by simp
    have IH: "path ! i \<noteq> SHADOW \<longrightarrow> list_ex (earned_shadow_exit th) (take i evs)"
      "path ! i = STEADY \<longrightarrow> list_ex (earned_steady th) (take i evs)" using Suc.IH Suc.prems by simp_all
    from ev show ?case unfolding t
      using IH evaluate_evidence [OF ev] by auto
  qed (simp add: start)
  then show "path ! i \<noteq> SHADOW \<longrightarrow> list_ex (earned_shadow_exit th) (take i evs)"
    and "path ! i = STEADY \<longrightarrow> list_ex (earned_steady th) (take i evs)" by simp_all
qed

definition earned_recovery :: "cold_start_thresholds \<Rightarrow> cold_start_evidence \<Rightarrow> bool" where
  "earned_recovery th ev \<longleftrightarrow> \<not> ce_regression_alert ev \<and> ce_recovery_evidence_verified ev \<and>
     ct_min_recovery_evidence th \<le> ce_sample_count ev"

lemma recovered_by_evidence:
  assumes run: "run_ramp th evs s = Inr path" and "path ! j = REGRESSION"
  shows "j \<le> i \<Longrightarrow> i \<le> length evs \<Longrightarrow> path ! i \<noteq> REGRESSION \<Longrightarrow>
    \<exists>k. j \<le> k \<and> k < i \<and> path ! k = REGRESSION \<and> earned_recovery th (evs ! k)"
proof (induction i)
  case 0
  then show ?case using assms(2) by simp
next
  case (Suc i)
  show ?case
  proof (cases "path ! i = REGRESSION \<and> j \<le> i")
    case True
    have "evaluate_cold_start_transition (path ! i) (evs ! i) th = Inr (path ! Suc i)"
      using run_ramp_nth [OF run] Suc.prems(2) by simp
    with True Suc.prems(3) have "earned_recovery th (evs ! i)" by (auto simp: evaluate_iff earned_recovery_def)
    with True show ?thesis by auto
  next
    case False
    then have "j \<le> i" "path ! i \<noteq> REGRESSION"
      using Suc.prems assms(2) by (auto simp: le_Suc_eq)
    then show ?thesis using Suc.IH Suc.prems(2) by (meson Suc_leD less_SucI)
  qed
qed

text \<open>C32. The ramp is earned. A promoted model starts in SHADOW, and whatever evidence is evaluated
  afterwards, every evaluation returns a state (no declared transition is missing). At any time it
  may auto-accept only if an evaluation before had at least the evidence the shadow period requires,
  and it is STEADY only if one had the evidence of the ramp, verified and within the error target,
  with no alert. Outside SHADOW, an evaluation with a regression alert always ends in REGRESSION (in
  SHADOW alerts are not looked at); and once a model was in REGRESSION, it may auto-accept again only
  if an evaluation since then had the verified recovery evidence, of the required amount and without
  an alert.\<close>

theorem ramp_is_earned:
  "\<exists>path. run_ramp th evs SHADOW = Inr path \<and> length path = Suc (length evs) \<and>
     (\<forall>i \<le> length evs.
        (op_auto_accept_allowed (get_operational_posture (path ! i)) \<longrightarrow> list_ex (earned_shadow_exit th) (take i evs)) \<and>
        (path ! i = STEADY \<longrightarrow> list_ex (earned_steady th) (take i evs)) \<and>
        (\<forall>j < i. path ! j = REGRESSION \<and> op_auto_accept_allowed (get_operational_posture (path ! i)) \<longrightarrow>
           list_ex (earned_recovery th) (take (i - j) (drop j evs)))) \<and>
     (\<forall>i < length evs. path ! i \<noteq> SHADOW \<and> ce_regression_alert (evs ! i) \<longrightarrow> path ! Suc i = REGRESSION)"
proof -
  obtain path where run: "run_ramp th evs SHADOW = Inr path" "length path = Suc (length evs)"
    using run_ramp_total by blast
  have "path ! Suc i = REGRESSION" if "i < length evs" "path ! i \<noteq> SHADOW" "ce_regression_alert (evs ! i)" for i
  proof -
    have "evaluate_cold_start_transition (path ! i) (evs ! i) th = Inr (path ! Suc i)"
      using run_ramp_nth [OF run(1)] that(1) by simp
    with that(2,3) show ?thesis by (cases "path ! i") (auto simp: evaluate_iff)
  qed
  moreover have "list_ex (earned_shadow_exit th) (take i evs)"
    if "i \<le> length evs" "op_auto_accept_allowed (get_operational_posture (path ! i))" for i
    using reached_by_evidence(1) [OF run(1) that(1)] that(2) by (cases "path ! i") auto
  moreover have "list_ex (earned_recovery th) (take (i - j) (drop j evs))"
    if "i \<le> length evs" "j < i" "path ! j = REGRESSION" "op_auto_accept_allowed (get_operational_posture (path ! i))" for i j
  proof -
    have "path ! i \<noteq> REGRESSION" using that(4) by auto
    with recovered_by_evidence [OF run(1) that(3), of i] that(1,2) obtain k where
      k: "j \<le> k" "k < i" "earned_recovery th (evs ! k)" by auto
    then have "take (i - j) (drop j evs) ! (k - j) = evs ! k" "k - j < length (take (i - j) (drop j evs))"
      using that(1) by simp_all
    with k(3) show ?thesis by (metis list_ex_length)
  qed
  ultimately show ?thesis using run reached_by_evidence(2) [OF run(1)] by blast
qed

definition demo_thresholds :: cold_start_thresholds where
  "demo_thresholds = \<lparr>ct_min_shadow_evidence = 50, ct_min_ramp_evidence = 200, ct_min_recovery_evidence = 100\<rparr>"

definition demo_evidence :: "int \<Rightarrow> bool \<Rightarrow> bool \<Rightarrow> cold_start_evidence" where
  "demo_evidence n ok alert = \<lparr>ce_sample_count = n, ce_calibration_verified = ok, ce_error_target_met = ok,
     ce_regression_alert = alert, ce_recovery_evidence_verified = ok\<rparr>"

theorem ramp_is_earned_witness:
  "\<exists>path. run_ramp demo_thresholds [demo_evidence 60 False False, demo_evidence 250 True True,
       demo_evidence 150 False False, demo_evidence 150 True False] SHADOW = Inr path \<and>
     path = [SHADOW, RAMP, REGRESSION, REGRESSION, RAMP]"
proof -
  let ?evs = "[demo_evidence 60 False False, demo_evidence 250 True True, demo_evidence 150 False False,
    demo_evidence 150 True False]"
  obtain path where "run_ramp demo_thresholds ?evs SHADOW = Inr path" using ramp_is_earned by blast
  then show ?thesis by (simp add: demo_evidence_def demo_thresholds_def transition_defs)
qed

text \<open>The shadow period is left on the number of samples alone: neither an unverified calibration nor a
  missed error target nor a regression alert keeps a model in it, and one step later it may
  auto-accept (\<open>cold_start.py\<close> reads only \<open>sample_count\<close> in SHADOW).\<close>

lemma shadow_exit_unverified:
  "evaluate_cold_start_transition SHADOW (demo_evidence 50 False True) demo_thresholds = Inr RAMP \<and>
   op_auto_accept_allowed (get_operational_posture RAMP)"
  by (simp add: demo_evidence_def demo_thresholds_def transition_defs)

end
