(* ===== verification/Novelty.thy ===== *)
theory Novelty
  imports Calibration
begin

text \<open>
  Novelty detection (\<open>modelwork/domain/calibration/novelty.py\<close>): the policy, the features, and the
  detector that measures the distance of an embedding from the prototype of its stratum.
\<close>

section \<open>Policy and features\<close>

record novelty_policy =
  np_novelty_threshold :: pyfloat
  np_reject_unseen_strata :: bool

definition new_novelty_policy :: "pynum \<Rightarrow> bool \<Rightarrow> exn + novelty_policy" where
  "new_novelty_policy threshold reject =
     (case finite_or_error ''novelty_threshold'' threshold of
        Inl err \<Rightarrow> Inl err
      | Inr t \<Rightarrow> if 0 \<le> t \<and> t \<le> 1 then Inr \<lparr>np_novelty_threshold = t, np_reject_unseen_strata = reject\<rparr>
                 else Inl (ValueError ''novelty_threshold''))"

definition default_novelty_policy :: novelty_policy where
  "default_novelty_policy = \<lparr>np_novelty_threshold = 0.5, np_reject_unseen_strata = True\<rparr>"

definition policy_is_outside_regime :: "novelty_policy \<Rightarrow> pyfloat \<Rightarrow> bool \<Rightarrow> bool" where
  "policy_is_outside_regime p novelty_score stratum_is_known \<longleftrightarrow>
     (if np_reject_unseen_strata p \<and> \<not> stratum_is_known then True else novelty_score > np_novelty_threshold p)"

record novelty_features =
  nf_embedding :: "pyfloat list option"
  nf_stratum :: string
  nf_field_class :: string
  nf_script :: string
  nf_doc_type :: string
  nf_print_or_handwriting :: string
  nf_legibility_band :: string
  nf_writer_cluster_id :: string
  nf_layout_certainty :: "pyfloat option"

fun all_finite :: "string \<Rightarrow> pynum list \<Rightarrow> exn + pyfloat list" where
  "all_finite attr [] = Inr []"
| "all_finite attr (v # vs) =
     (case finite_or_error attr v of Inl err \<Rightarrow> Inl err | Inr x \<Rightarrow> map_sum id ((#) x) (all_finite attr vs))"

definition checked_embedding :: "pynum list option \<Rightarrow> exn + pyfloat list option" where
  "checked_embedding embedding =
     (case embedding of None \<Rightarrow> Inr None
      | Some vs \<Rightarrow> if vs = [] then Inl (ValueError ''embedding'') else map_sum id Some (all_finite ''embedding'' vs))"

definition new_novelty_features ::
  "pynum list option \<Rightarrow> pynum option \<Rightarrow> (pyfloat list option \<Rightarrow> pyfloat option \<Rightarrow> novelty_features) \<Rightarrow> exn + novelty_features"
where
  \<comment> \<open>\<open>__post_init__\<close>, given the rest of the constructor's arguments\<close>
  "new_novelty_features embedding layout build =
     (case checked_embedding embedding of
        Inl err \<Rightarrow> Inl err
      | Inr emb \<Rightarrow>
          (case finite_opt_or_error ''layout_certainty'' layout of
             Inl err \<Rightarrow> Inl err
           | Inr None \<Rightarrow> Inr (build emb None)
           | Inr (Some x) \<Rightarrow> if 0 \<le> x \<and> x \<le> 1 then Inr (build emb (Some x)) else Inl (ValueError ''layout_certainty'')))"

definition or_string :: "string \<Rightarrow> string \<Rightarrow> string" where
  "or_string s t = (if s \<noteq> [] then s else t)"

definition novelty_stratum :: "novelty_features \<Rightarrow> string" where
  \<comment> \<open>\<open>canonical_stratum\<close>\<close>
  "novelty_stratum f =
     (if nf_stratum f \<noteq> [] then nf_stratum f
      else stratum_key (or_string (nf_field_class f) ''default'') (or_string (nf_script f) ''default'')
             (or_string (nf_print_or_handwriting f) ''printed'') (or_string (nf_legibility_band f) ''medium'')
             (or_string (nf_writer_cluster_id f) ''default''))"

record novelty_result =
  nr_novelty_score :: pyfloat
  nr_is_outside_regime :: bool
  nr_regime_reason :: string
  nr_cluster_id :: "string option"
  nr_model_version :: string
  nr_config_version :: string

definition new_novelty_result ::
  "pyfloat \<Rightarrow> bool \<Rightarrow> string \<Rightarrow> string option \<Rightarrow> string \<Rightarrow> string \<Rightarrow> exn + novelty_result"
where
  "new_novelty_result score outside reason cluster mv cv =
     (if 0 \<le> score \<and> score \<le> 1
      then Inr \<lparr>nr_novelty_score = score, nr_is_outside_regime = outside, nr_regime_reason = reason,
                nr_cluster_id = cluster, nr_model_version = mv, nr_config_version = cv\<rparr>
      else Inl (ValueError ''novelty_score''))"

section \<open>The detector\<close>

record centroid_model =
  cm_prototypes :: "(string \<times> pyfloat list) list"
  cm_policy :: novelty_policy
  cm_model_version :: string
  cm_config_version :: string

definition new_centroid_model ::
  "(string \<times> pyfloat list) list option \<Rightarrow> novelty_policy option \<Rightarrow> string \<Rightarrow> string \<Rightarrow> centroid_model"
where
  "new_centroid_model prototypes policy mv cv =
     \<lparr>cm_prototypes = (case prototypes of Some ps \<Rightarrow> ps | None \<Rightarrow> []),
      cm_policy = (case policy of Some p \<Rightarrow> p | None \<Rightarrow> default_novelty_policy),
      cm_model_version = mv, cm_config_version = cv\<rparr>"

definition generate_cluster_id :: "novelty_features \<Rightarrow> string \<Rightarrow> string" where
  "generate_cluster_id f stratum =
     (if nf_writer_cluster_id f \<noteq> [] \<and> nf_writer_cluster_id f \<noteq> ''default''
      then ''novelty:writer:'' @ nf_writer_cluster_id f
      else if nf_doc_type f \<noteq> [] \<and> nf_script f \<noteq> []
      then ''novelty:doc:'' @ nf_doc_type f @ '':'' @ nf_script f
      else ''novelty:stratum:'' @ stratum)"

definition normalized_distance :: "pyfloat list \<Rightarrow> pyfloat list \<Rightarrow> pyfloat" where
  "normalized_distance embedding prototype =
     (let dist_sq = sum_list (map2 (\<lambda>e p. (e - p)\<^sup>2) embedding prototype)
      in min 1 (max 0 (sqrt dist_sq / sqrt (real (length prototype)))))"

definition evaluate_novelty :: "centroid_model \<Rightarrow> novelty_features \<Rightarrow> novelty_policy option \<Rightarrow> exn + novelty_result" where
  "evaluate_novelty m f policy =
     (let active_policy = (case policy of Some p \<Rightarrow> p | None \<Rightarrow> cm_policy m);
          stratum = novelty_stratum f;
          prototype = map_of (cm_prototypes m) stratum;
          result = (\<lambda>score outside reason cluster.
                      new_novelty_result score outside reason cluster (cm_model_version m) (cm_config_version m));
          unseen = result 1 True ''unseen_stratum'' (Some (generate_cluster_id f stratum));
          known = result 0 False ''in_regime'' None
      in if cm_prototypes m \<noteq> [] \<and> prototype = None \<and> np_reject_unseen_strata active_policy then unseen
         else
           (case (nf_embedding f, prototype) of
              (Some embedding, Some proto) \<Rightarrow>
                if length embedding \<noteq> length proto then Inl (ValueError ''Embedding dimension mismatch'')
                else
                  (let score = normalized_distance embedding proto;
                       is_outside = policy_is_outside_regime active_policy score True
                   in result score is_outside (if is_outside then ''embedding_distance_exceeded'' else ''in_regime'')
                        (if is_outside then Some (generate_cluster_id f stratum) else None))
            | _ \<Rightarrow> if prototype \<noteq> None \<or> cm_prototypes m = [] then known else unseen))"

definition score_novelty :: "pynum list \<Rightarrow> string \<Rightarrow> (string \<times> pyfloat list) list option \<Rightarrow> exn + pyfloat" where
  "score_novelty embedding stratum prototypes =
     (if embedding = [] then Inl (ValueError ''embedding'')
      else
        (case all_finite ''embedding'' embedding of
           Inl err \<Rightarrow> Inl err
         | Inr emb \<Rightarrow>
             (case prototypes of
                None \<Rightarrow> Inr 1
              | Some ps \<Rightarrow>
                  (case map_of ps stratum of
                     None \<Rightarrow> Inr 1
                   | Some proto \<Rightarrow>
                       if length emb \<noteq> length proto then Inl (ValueError ''Dimension mismatch'')
                       else Inr (normalized_distance emb proto)))))"

section \<open>Lemmas\<close>

lemma normalized_distance_bounds: "0 \<le> normalized_distance e p" "normalized_distance e p \<le> 1"
  by (simp_all add: normalized_distance_def Let_def)

lemma new_novelty_result_Inr:
  "new_novelty_result score outside reason cluster mv cv = Inr r \<longleftrightarrow>
     0 \<le> score \<and> score \<le> 1 \<and>
     r = \<lparr>nr_novelty_score = score, nr_is_outside_regime = outside, nr_regime_reason = reason,
          nr_cluster_id = cluster, nr_model_version = mv, nr_config_version = cv\<rparr>"
  by (auto simp: new_novelty_result_def)

lemma evaluate_novelty_cases:
  assumes "evaluate_novelty m f policy = Inr r"
  obtains (unseen) "cm_prototypes m \<noteq> []" "map_of (cm_prototypes m) (novelty_stratum f) = None"
      "nr_is_outside_regime r" "nr_novelty_score r = 1" "nr_cluster_id r = Some (generate_cluster_id f (novelty_stratum f))"
  | (measured) emb proto where "nf_embedding f = Some emb" "map_of (cm_prototypes m) (novelty_stratum f) = Some proto"
      "length emb = length proto" "nr_novelty_score r = normalized_distance emb proto"
      "nr_is_outside_regime r \<longleftrightarrow> normalized_distance emb proto > np_novelty_threshold (case policy of Some p \<Rightarrow> p | None \<Rightarrow> cm_policy m)"
      "nr_cluster_id r \<noteq> None \<longleftrightarrow> nr_is_outside_regime r"
  | (unmeasured) "nf_embedding f = None \<or> map_of (cm_prototypes m) (novelty_stratum f) = None"
      "map_of (cm_prototypes m) (novelty_stratum f) \<noteq> None \<or> cm_prototypes m = []"
      "\<not> nr_is_outside_regime r" "nr_novelty_score r = 0" "nr_cluster_id r = None"
  using assms
  by (fastforce simp: evaluate_novelty_def Let_def new_novelty_result_Inr policy_is_outside_regime_def
      split: option.splits if_splits)

definition stratum_prototype :: "centroid_model \<Rightarrow> novelty_features \<Rightarrow> pyfloat list option" where
  "stratum_prototype m f = map_of (cm_prototypes m) (novelty_stratum f)"

text \<open>Whether an input is outside the regime, in one line: it is of a stratum without a prototype while
  there are prototypes at all, or its embedding is farther from the prototype than the threshold. A
  detector without prototypes puts every input inside. An outside result, and no other, names a
  cluster for the alert, and the only error is an embedding of the wrong dimension.\<close>

lemma novelty_total:
  "(\<exists>r. evaluate_novelty m f policy = Inr r) \<longleftrightarrow>
     (case (nf_embedding f, stratum_prototype m f) of
        (Some emb, Some proto) \<Rightarrow> length emb = length proto | _ \<Rightarrow> True)"
  by (auto simp: evaluate_novelty_def stratum_prototype_def Let_def new_novelty_result_def normalized_distance_bounds
      split: option.splits)

lemma novelty_outside:
  assumes "evaluate_novelty m f policy = Inr r"
  shows "nr_is_outside_regime r \<longleftrightarrow> cm_prototypes m \<noteq> [] \<and>
      (case (stratum_prototype m f, nf_embedding f) of
         (None, _) \<Rightarrow> True
       | (Some proto, None) \<Rightarrow> False
       | (Some proto, Some emb) \<Rightarrow>
           normalized_distance emb proto > np_novelty_threshold (case policy of Some p \<Rightarrow> p | None \<Rightarrow> cm_policy m))"
    and "nr_cluster_id r \<noteq> None \<longleftrightarrow> nr_is_outside_regime r"
    and "0 \<le> nr_novelty_score r \<and> nr_novelty_score r \<le> 1"
proof -
  have empty: "cm_prototypes m = [] \<Longrightarrow> stratum_prototype m f = None" by (simp add: stratum_prototype_def)
  from assms show "nr_is_outside_regime r \<longleftrightarrow> cm_prototypes m \<noteq> [] \<and>
      (case (stratum_prototype m f, nf_embedding f) of
         (None, _) \<Rightarrow> True
       | (Some proto, None) \<Rightarrow> False
       | (Some proto, Some emb) \<Rightarrow>
           normalized_distance emb proto > np_novelty_threshold (case policy of Some p \<Rightarrow> p | None \<Rightarrow> cm_policy m))"
    using empty by (cases rule: evaluate_novelty_cases) (auto simp: stratum_prototype_def split: option.splits)
  from assms show "nr_cluster_id r \<noteq> None \<longleftrightarrow> nr_is_outside_regime r"
    by (cases rule: evaluate_novelty_cases) auto
  from assms show "0 \<le> nr_novelty_score r \<and> nr_novelty_score r \<le> 1"
    by (cases rule: evaluate_novelty_cases) (auto simp: normalized_distance_bounds)
qed

text \<open>\<open>reject_unseen_strata\<close> changes nothing: a stratum without a prototype is outside the regime with the
  flag off as well, through the last branch of \<open>evaluate_novelty\<close>.\<close>

lemma reject_flag_ignored:
  "evaluate_novelty m f (Some (p\<lparr>np_reject_unseen_strata := b\<rparr>)) = evaluate_novelty m f (Some (p\<lparr>np_reject_unseen_strata := c\<rparr>))"
  by (auto simp: evaluate_novelty_def policy_is_outside_regime_def Let_def split: option.splits)

definition validate_work_envelope_novelty ::
  "(string \<times> string) list option \<Rightarrow> string option \<Rightarrow> exn + string \<times> string" where
  \<comment> \<open>given \<open>model_versions\<close> and \<open>config_version\<close> of a non-empty envelope\<close>
  "validate_work_envelope_novelty models config_version =
     (case (case models of None \<Rightarrow> None | Some ms \<Rightarrow> map_of ms ''novelty_detector'') of
        None \<Rightarrow> Inl (ValueError ''work_envelope missing pinned novelty_detector'')
      | Some model_version \<Rightarrow>
          if model_version = [] then Inl (ValueError ''work_envelope pinned novelty_detector must be non-empty'')
          else if \<not> truthy config_version then Inl (ValueError ''work_envelope missing pinned config_version'')
          else Inr (model_version, or_empty config_version))"

end
