(* ===== verification/Decision_Flow.thy ===== *)
theory Decision_Flow
  imports Cold_Start Novelty Triage Decision
begin

text \<open>
  From an extraction to a decision message (\<open>modelwork/domain/calibration/decision_flow.py\<close>,
  \<open>modelwork/publishers/decision_publisher.py\<close>), and the registry the versions are pinned from
  (\<open>modelwork/api/model_registry.py\<close>). An extraction is the dictionary a recognizer produced: a record
  with one field for each key the code reads or writes.
\<close>

section \<open>The model registry\<close>

definition VALID_MODULES :: "string list" where
  "VALID_MODULES = [''printed_ocr'', ''hwr'', ''calibrator'', ''novelty_detector'', ''triage_classifier'']"

record active_model =
  am_model_version :: string
  am_adapter_ref :: "string option"

definition ACTIVE_PROMOTED_MODELS :: "(string \<times> active_model) list" where
  "ACTIVE_PROMOTED_MODELS = map (\<lambda>m. (m, \<lparr>am_model_version = m @ ''_v1'', am_adapter_ref = None\<rparr>)) VALID_MODULES"

definition get_active_model ::
  "((string \<times> string) \<times> string option) list \<Rightarrow> string \<Rightarrow> string option \<Rightarrow> string option \<Rightarrow> exn + active_model"
where
  "get_active_model writer_adapters module_name writer_cluster_id stratum =
     (case map_of ACTIVE_PROMOTED_MODELS module_name of
        None \<Rightarrow> Inl (HTTPException 404)
      | Some r \<Rightarrow>
          if module_name \<notin> set VALID_MODULES then Inl (HTTPException 404)
          else
            (let adapter_ref =
               (if truthy writer_cluster_id
                then (case map_of writer_adapters (module_name, or_empty writer_cluster_id) of
                        Some a \<Rightarrow> a | None \<Rightarrow> am_adapter_ref r)
                else am_adapter_ref r)
             in Inr \<lparr>am_model_version = am_model_version r, am_adapter_ref = adapter_ref\<rparr>))"

section \<open>Extractions and verdicts\<close>

datatype pyvalue = PyNone | PyNumber pynum | PyOther \<comment> \<open>what \<open>isinstance\<close> tells apart\<close>

record extraction_dict =
  xd_id :: "string option"
  xd_field_name :: "string option"
  xd_field_class :: "string option"
  xd_token_confidence :: pyvalue
  xd_engine :: string
  xd_layout_certainty :: "pynum option"
  xd_normalization_confidence :: "pynum option"
  xd_embedding :: "pynum list option"
  xd_calibrated_confidence :: "pyfloat option"
  xd_novelty_score :: "pyfloat option"
  xd_routing_outcome :: "string option"
  xd_model_version :: "string option"
  xd_config_version :: "string option"

record verdict_dict =
  vd_fields :: "string list"
  vd_validator :: string
  vd_verdict :: "string option"

record extraction_context =
  \<comment> \<open>the keyword arguments that describe the page\<close>
  xc_script :: string
  xc_doc_type :: string
  xc_legibility_band :: string
  xc_writer_cluster_id :: string
  xc_print_or_handwriting :: "string option"
  xc_layout_certainty :: "pynum option"
  xc_normalization_confidence :: "pynum option"

definition has_substring :: "string \<Rightarrow> string \<Rightarrow> bool" where
  \<comment> \<open>\<open>sub in s\<close>\<close>
  "has_substring sub s \<longleftrightarrow> list_ex (\<lambda>i. take (length sub) (drop i s) = sub) [0..<Suc (length s)]"

definition print_or_handwriting_of :: "string \<Rightarrow> string option \<Rightarrow> string" where
  "print_or_handwriting_of engine given =
     (case given of Some p \<Rightarrow> p
      | None \<Rightarrow>
          (let engine = lower engine
           in if has_substring ''hwr'' engine then ''handwritten''
              else if has_substring ''ocr'' engine \<or> has_substring ''table'' engine then ''printed''
              else ''''))"

fun collate_verdicts :: "string \<Rightarrow> verdict_dict list \<Rightarrow> (string \<times> string) list \<Rightarrow> (string \<times> string) list" where
  "collate_verdicts extraction_id [] outcomes = outcomes"
| "collate_verdicts extraction_id (vr # vrs) outcomes =
     collate_verdicts extraction_id vrs
       (if extraction_id \<in> set (vd_fields vr)
        then AList.update (vd_validator vr) (case vd_verdict vr of Some v \<Rightarrow> v | None \<Rightarrow> ''pass'') outcomes
        else outcomes)"

definition checked_token_confidence :: "pyvalue \<Rightarrow> exn + pyfloat" where
  "checked_token_confidence raw_conf =
     (case raw_conf of
        PyNumber (Finite c) \<Rightarrow>
          if 0 \<le> c \<and> c \<le> 1 then Inr c else Inl (ValueError ''token_confidence must be in [0.0, 1.0]'')
      | PyNone \<Rightarrow> Inl (ValueError ''Extraction missing required token_confidence'')
      | _ \<Rightarrow> Inl (ValueError ''token_confidence must be a finite real number''))"

definition extraction_to_calibrator_features ::
  "extraction_dict \<Rightarrow> verdict_dict list \<Rightarrow> extraction_context \<Rightarrow> exn + calibrator_features"
where
  "extraction_to_calibrator_features x vrs ctx =
     (let fclass = (if truthy (xd_field_name x) then xd_field_name x else xd_field_class x)
      in if \<not> truthy (xd_id x) then Inl (ValueError ''Extraction missing required id'')
         else if \<not> truthy fclass then Inl (ValueError ''Extraction missing required field_name'')
         else
           (case checked_token_confidence (xd_token_confidence x) of
              Inl err \<Rightarrow> Inl err
            | Inr c \<Rightarrow>
                (let p_or_h = print_or_handwriting_of (xd_engine x) (xc_print_or_handwriting ctx);
                     outcomes = collate_verdicts (or_empty (xd_id x)) vrs [];
                     layout = (if xc_layout_certainty ctx \<noteq> None then xc_layout_certainty ctx else xd_layout_certainty x);
                     norml = (if xc_normalization_confidence ctx \<noteq> None then xc_normalization_confidence ctx
                              else xd_normalization_confidence x)
                 in new_calibrator_features (Finite c) layout norml outcomes (or_empty fclass) (xc_script ctx)
                      (xc_doc_type ctx) p_or_h (xc_legibility_band ctx) (xc_writer_cluster_id ctx))))"

section \<open>The outcome\<close>

record routing_decision =
  rd_outcome :: string
  rd_calibrated_confidence :: pyfloat
  rd_raw_confidence :: pyfloat
  rd_stratum :: string
  rd_regime :: calibration_regime
  rd_posture :: operational_posture
  rd_is_conflict :: bool
  rd_feature_attributions :: "(string \<times> pyfloat) list"

definition determine_routing_outcome ::
  "calibration_result \<Rightarrow> threshold_policy \<Rightarrow> cold_start_state \<Rightarrow> bool \<Rightarrow> bool \<Rightarrow> bool \<Rightarrow> routing_decision"
where
  "determine_routing_outcome res policy state is_conflict is_outside_regime is_audit_sample =
     (let posture = get_operational_posture state;
          decision = (\<lambda>outcome conflict.
            \<lparr>rd_outcome = outcome, rd_calibrated_confidence = ca_calibrated_confidence res,
             rd_raw_confidence = ca_raw_confidence res, rd_stratum = ca_stratum res, rd_regime = ca_regime res,
             rd_posture = posture, rd_is_conflict = conflict, rd_feature_attributions = ca_feature_attributions res\<rparr>)
      in if is_outside_regime then decision ''outside_calibrated_regime'' False
         else if is_conflict then decision ''conflict'' True
         else
           (let meets_threshold = is_auto_acceptable policy (ca_calibrated_confidence res);
                outcome =
                  (if \<not> meets_threshold then ''review''
                   else if \<not> op_auto_accept_allowed posture then ''review''
                   else if is_audit_sample then ''audit_sample''
                   else ''auto_accept'')
            in decision outcome False))"

section \<open>The pipeline\<close>

datatype some_calibrator = Per_Stratum per_stratum | Single_Model calibrator_model

type_synonym novelty_detector = "novelty_features \<Rightarrow> novelty_policy option \<Rightarrow> exn + novelty_result"

record flow_options =
  fo_cold_start_state :: cold_start_state
  fo_is_conflict :: bool
  fo_is_outside_regime :: bool
  fo_force_audit_sample :: bool
  fo_audit_selector :: "(string \<Rightarrow> bool) option"
  fo_publish_to_queue :: bool
  fo_novelty_detector :: "novelty_detector option"
  fo_novelty_policy :: "novelty_policy option"
  fo_novelty_result :: "novelty_result option"
  fo_novelty_features :: "novelty_features option"
  fo_novelty_cluster_id :: "string option"

definition check_envelope :: "work_envelope option \<Rightarrow> flow_options \<Rightarrow> string \<Rightarrow> exn + string \<times> string" where
  \<comment> \<open>the pinned calibrator and configuration, if all the guards pass\<close>
  "check_envelope work_envelope opts trace_id =
     (case work_envelope of
        None \<Rightarrow> Inl (ValueError ''work_envelope must be a non-empty dictionary'')
      | Some e \<Rightarrow>
          (case map_of (we_model_versions e) ''confidence_calibrator'' of
             None \<Rightarrow> Inl (ValueError ''work_envelope missing pinned confidence_calibrator'')
           | Some pinned \<Rightarrow>
               if we_config_version e = [] then Inl (ValueError ''work_envelope missing pinned config_version'')
               else if (fo_novelty_detector opts \<noteq> None \<or> fo_novelty_result opts \<noteq> None) \<and>
                       map_of (we_model_versions e) ''novelty_detector'' = None
               then Inl (ValueError ''work_envelope missing pinned novelty_detector'')
               else if trace_id = [] then Inl (ValueError ''trace_id must be a non-empty string'')
               else Inr (pinned, we_config_version e)))"

definition active_novelty :: "extraction_dict \<Rightarrow> calibrator_features \<Rightarrow> flow_options \<Rightarrow> exn + novelty_result option" where
  "active_novelty x f opts =
     (case fo_novelty_result opts of
        Some r \<Rightarrow> Inr (Some r)
      | None \<Rightarrow>
          (case fo_novelty_detector opts of
             None \<Rightarrow> Inr None
           | Some detector \<Rightarrow>
               (case (case fo_novelty_features opts of
                        Some nf \<Rightarrow> Inr nf
                      | None \<Rightarrow>
                          new_novelty_features (xd_embedding x) (map_option Finite (cf_layout_certainty f))
                            (\<lambda>emb layout. \<lparr>nf_embedding = emb, nf_stratum = canonical_stratum f,
                               nf_field_class = cf_field_class f, nf_script = cf_script f, nf_doc_type = cf_doc_type f,
                               nf_print_or_handwriting = cf_print_or_handwriting f,
                               nf_legibility_band = cf_legibility_band f,
                               nf_writer_cluster_id = cf_writer_cluster_id f, nf_layout_certainty = layout\<rparr>)) of
                  Inl err \<Rightarrow> Inl err
                | Inr nf \<Rightarrow> map_sum id Some (detector nf (fo_novelty_policy opts)))))"

definition run_calibrator :: "some_calibrator \<Rightarrow> calibrator_features \<Rightarrow> calibration_result" where
  "run_calibrator calibrator f =
     (case calibrator of
        Per_Stratum ps \<Rightarrow> calibrate_per_stratum ps f
      | Single_Model m \<Rightarrow>
          (let (conf, attributions) = m f
           in \<lparr>ca_calibrated_confidence = conf, ca_raw_confidence = cf_token_confidence f,
               ca_regime = POOLED_FALLBACK, ca_stratum = canonical_stratum f,
               ca_feature_attributions = attributions\<rparr>))"

definition has_validator_failure :: "extraction_dict \<Rightarrow> verdict_dict list \<Rightarrow> bool" where
  "has_validator_failure x vrs \<longleftrightarrow>
     list_ex (\<lambda>vr. xd_id x \<in> Some ` set (vd_fields vr) \<and> lower (or_empty (vd_verdict vr)) = ''fail'') vrs"

definition decision_publish ::
  "env \<Rightarrow> extraction_dict \<Rightarrow> work_envelope \<Rightarrow> string \<Rightarrow> string option \<Rightarrow> 'a world_scheme \<Rightarrow> decision_message \<times> 'a world_scheme"
where
  \<comment> \<open>the cluster is a key of the message, not of the extraction\<close>
  "decision_publish E x envelope trace_id novelty_cluster_id w =
     (let (m, w) = emit E ''DECISION_QUEUE'' ''confidence-novelty''
                     (Decision_Payload (xd_id x) (xd_routing_outcome x) (xd_calibrated_confidence x) None)
                     (Some envelope) trace_id w
      in (\<lparr>dm_message = Emitted m, dm_novelty_cluster_id = novelty_cluster_id, dm_envelope_id = None\<rparr>, w))"

definition process_extraction_for_decision ::
  "env \<Rightarrow> extraction_dict \<Rightarrow> work_envelope option \<Rightarrow> some_calibrator option \<Rightarrow> threshold_policy \<Rightarrow> string
    \<Rightarrow> verdict_dict list \<Rightarrow> extraction_context \<Rightarrow> flow_options \<Rightarrow> 'a world_scheme
    \<Rightarrow> (exn + extraction_dict \<times> calibration_result \<times> decision_message option) \<times> 'a world_scheme"
where
  "process_extraction_for_decision E x work_envelope calibrator policy trace_id vrs ctx opts w =
     (case check_envelope work_envelope opts trace_id of
        Inl err \<Rightarrow> (Inl err, w)
      | Inr (pinned_calibrator, pinned_config) \<Rightarrow>
          (case calibrator of
             None \<Rightarrow> (Inl (ValueError ''Calibrator model is unavailable''), w)
           | Some cal \<Rightarrow>
               (case extraction_to_calibrator_features x vrs ctx of
                  Inl err \<Rightarrow> (Inl err, w)
                | Inr f \<Rightarrow>
                    (case active_novelty x f opts of
                       Inl err \<Rightarrow> (Inl err, w)
                     | Inr novelty \<Rightarrow>
                         (let outside = (fo_is_outside_regime opts \<or>
                                (case novelty of Some r \<Rightarrow> nr_is_outside_regime r | None \<Rightarrow> False));
                              novelty_score = (case novelty of Some r \<Rightarrow> Some (nr_novelty_score r) | None \<Rightarrow> xd_novelty_score x);
                              cluster = (case novelty of
                                  Some r \<Rightarrow> if fo_novelty_cluster_id opts = None then nr_cluster_id r
                                            else fo_novelty_cluster_id opts
                                | None \<Rightarrow> fo_novelty_cluster_id opts);
                              calib_res = run_calibrator cal f;
                              conflict_flag = (fo_is_conflict opts \<or> has_validator_failure x vrs);
                              selected_for_audit = (fo_force_audit_sample opts \<or>
                                (case fo_audit_selector opts of Some sel \<Rightarrow> sel (or_empty (xd_id x)) | None \<Rightarrow> False));
                              decision = determine_routing_outcome calib_res policy (fo_cold_start_state opts)
                                           conflict_flag outside selected_for_audit;
                              updated = x\<lparr>xd_calibrated_confidence := Some (rd_calibrated_confidence decision),
                                          xd_novelty_score := novelty_score,
                                          xd_routing_outcome := Some (rd_outcome decision),
                                          xd_model_version := Some pinned_calibrator,
                                          xd_config_version := Some pinned_config\<rparr>
                          in case (fo_publish_to_queue opts, work_envelope) of
                               (True, Some e) \<Rightarrow>
                                 (case decision_publish E updated e trace_id cluster w of
                                    (msg, w) \<Rightarrow> (Inr (updated, calib_res, Some msg), w))
                             | _ \<Rightarrow> (Inr (updated, calib_res, None), w))))))"

section \<open>Lemmas\<close>

lemma determine_fields [simp]:
  "rd_calibrated_confidence (determine_routing_outcome res p s c out a) = ca_calibrated_confidence res"
  "rd_posture (determine_routing_outcome res p s c out a) = get_operational_posture s"
  "rd_is_conflict (determine_routing_outcome res p s c out a) \<longleftrightarrow> c \<and> \<not> out"
  by (simp_all add: determine_routing_outcome_def Let_def)

lemma outcome_cases:
  "rd_outcome (determine_routing_outcome res p s conflict out audit) =
     (if out then ''outside_calibrated_regime''
      else if conflict then ''conflict''
      else if ca_calibrated_confidence res < 1 - tp_target_error_rate p \<or> s \<notin> {RAMP, STEADY} then ''review''
      else if audit then ''audit_sample'' else ''auto_accept'')"
  by (cases s) (simp_all add: determine_routing_outcome_def Let_def is_auto_acceptable_def required_confidence_def)

lemma outcome_valid: "rd_outcome (determine_routing_outcome res p s conflict out audit) \<in> set VALID_ROUTING_OUTCOMES"
  by (simp add: outcome_cases VALID_ROUTING_OUTCOMES_def)

lemma auto_accept_iff:
  "rd_outcome (determine_routing_outcome res p s conflict out audit) = ''auto_accept'' \<longleftrightarrow>
     \<not> out \<and> \<not> conflict \<and> 1 - tp_target_error_rate p \<le> ca_calibrated_confidence res \<and> s \<in> {RAMP, STEADY} \<and> \<not> audit"
  by (simp add: outcome_cases)

lemma check_envelope_Inr:
  "check_envelope env opts trace_id = Inr (pinned, config) \<Longrightarrow>
     \<exists>e. env = Some e \<and> map_of (we_model_versions e) ''confidence_calibrator'' = Some pinned \<and>
         config = we_config_version e \<and> config \<noteq> [] \<and> trace_id \<noteq> []"
  by (auto simp: check_envelope_def split: option.splits if_splits)

definition novelty_flag :: "novelty_result option \<Rightarrow> bool" where
  "novelty_flag novelty \<longleftrightarrow> (case novelty of Some r \<Rightarrow> nr_is_outside_regime r | None \<Rightarrow> False)"

definition audit_flag :: "flow_options \<Rightarrow> string \<Rightarrow> bool" where
  "audit_flag opts xid \<longleftrightarrow> fo_force_audit_sample opts \<or>
     (case fo_audit_selector opts of Some sel \<Rightarrow> sel xid | None \<Rightarrow> False)"

definition carries :: "decision_message \<Rightarrow> extraction_dict \<Rightarrow> work_envelope \<Rightarrow> bool" where
  \<comment> \<open>the message states the extraction's outcome and confidence, under the envelope\<close>
  "carries m x e \<longleftrightarrow> (\<exists>n. dm_message m = Emitted n \<and>
     em_payload n = Decision_Payload (xd_id x) (xd_routing_outcome x) (xd_calibrated_confidence x) None \<and>
     em_work_envelope n = Some e \<and> em_queue n = ''DECISION_QUEUE'')"

lemma decision_publish_message:
  "decision_publish E x e trace_id nc w = (m, w') \<Longrightarrow> carries m x e"
proof -
  assume p: "decision_publish E x e trace_id nc w = (m, w')"
  let ?e = "emit E ''DECISION_QUEUE'' ''confidence-novelty''
    (Decision_Payload (xd_id x) (xd_routing_outcome x) (xd_calibrated_confidence x) None) (Some e) trace_id w"
  have "dm_message m = Emitted (fst ?e)" using p by (auto simp: decision_publish_def Let_def split_beta)
  then show "carries m x e" by (simp add: carries_def emit_fields)
qed

lemma process_Inr:
  assumes "process_extraction_for_decision E x env calibrator policy trace_id vrs ctx opts w = (Inr (u, res, msg), w')"
  obtains e pinned f novelty cal score where
    "env = Some e" "check_envelope env opts trace_id = Inr (pinned, we_config_version e)"
    "map_of (we_model_versions e) ''confidence_calibrator'' = Some pinned" "we_config_version e \<noteq> []"
    "calibrator = Some cal" "extraction_to_calibrator_features x vrs ctx = Inr f" "active_novelty x f opts = Inr novelty"
    "res = run_calibrator cal f"
    "u = x\<lparr>xd_calibrated_confidence := Some (ca_calibrated_confidence res), xd_novelty_score := score,
           xd_routing_outcome := Some (rd_outcome (determine_routing_outcome res policy (fo_cold_start_state opts)
              (fo_is_conflict opts \<or> has_validator_failure x vrs) (fo_is_outside_regime opts \<or> novelty_flag novelty)
              (audit_flag opts (or_empty (xd_id x))))),
           xd_model_version := Some pinned, xd_config_version := Some (we_config_version e)\<rparr>"
    "msg = None \<longleftrightarrow> \<not> fo_publish_to_queue opts"
    "\<And>m. msg = Some m \<Longrightarrow> carries m u e"
proof -
  from assms obtain pinned config where c: "check_envelope env opts trace_id = Inr (pinned, config)"
    by (cases "check_envelope env opts trace_id") (auto simp: process_extraction_for_decision_def)
  from check_envelope_Inr [OF c] obtain e where e: "env = Some e" "config = we_config_version e" "config \<noteq> []"
    "map_of (we_model_versions e) ''confidence_calibrator'' = Some pinned" by blast
  from assms c obtain cal where cal: "calibrator = Some cal"
    by (cases calibrator) (auto simp: process_extraction_for_decision_def)
  from assms c cal obtain f where f: "extraction_to_calibrator_features x vrs ctx = Inr f"
    by (cases "extraction_to_calibrator_features x vrs ctx") (auto simp: process_extraction_for_decision_def)
  from assms c cal f obtain novelty where n: "active_novelty x f opts = Inr novelty"
    by (cases "active_novelty x f opts") (auto simp: process_extraction_for_decision_def)
  note step = assms [unfolded process_extraction_for_decision_def c cal f n Let_def prod.case sum.case option.case]
  show thesis
    using step e
    by (intro that [OF e(1) c [unfolded e(2)] e(4) e(3) [unfolded e(2)] cal f n, of "xd_novelty_score u"])
       (auto simp: c novelty_flag_def audit_flag_def split: if_splits bool.splits prod.splits
         dest!: decision_publish_message)
qed

section \<open>Properties\<close>

text \<open>C30. Automatic acceptance is earned. Whatever the page, the calibrator, the verdicts and the options, an
  extraction the pipeline returns carries one of the five outcomes the backend accepts, the versions
  pinned in the envelope, and its own reading untouched; and its outcome is \<open>auto_accept\<close> exactly
  when nothing flags it as outside the calibrated regime, no verdict on it is a failure and no
  conflict is flagged, the confidence reaches one minus the target error rate, the model is in RAMP
  or STEADY, and it is not drawn for audit. If the model's state is the one the cold-start ramp
  reached, the evidence the shadow period requires has been there before.\<close>

theorem auto_accept_is_earned:
  assumes "process_extraction_for_decision E x (Some e) calibrator policy trace_id vrs ctx opts w = (Inr (u, res, msg), w')"
    and "run_ramp th evs SHADOW = Inr path" and "i \<le> length evs" and "fo_cold_start_state opts = path ! i"
  shows "(\<exists>cal f novelty. calibrator = Some cal \<and> extraction_to_calibrator_features x vrs ctx = Inr f \<and>
      active_novelty x f opts = Inr novelty \<and> res = run_calibrator cal f \<and>
      (xd_routing_outcome u = Some ''auto_accept'' \<longleftrightarrow>
         \<not> fo_is_outside_regime opts \<and> \<not> novelty_flag novelty \<and>
         \<not> fo_is_conflict opts \<and> \<not> has_validator_failure x vrs \<and>
         1 - tp_target_error_rate policy \<le> ca_calibrated_confidence (run_calibrator cal f) \<and>
         path ! i \<in> {RAMP, STEADY} \<and> \<not> audit_flag opts (or_empty (xd_id x)))) \<and>
    (\<exists>out. xd_routing_outcome u = Some out \<and> out \<in> set VALID_ROUTING_OUTCOMES) \<and>
    (xd_routing_outcome u = Some ''auto_accept'' \<longrightarrow> list_ex (earned_shadow_exit th) (take i evs)) \<and>
    xd_model_version u = map_of (we_model_versions e) ''confidence_calibrator'' \<and>
    xd_config_version u = Some (we_config_version e) \<and> xd_token_confidence u = xd_token_confidence x \<and> xd_id u = xd_id x"
proof -
  from assms(1) obtain pinned f novelty cal score where p:
    "map_of (we_model_versions e) ''confidence_calibrator'' = Some pinned"
    "calibrator = Some cal" "extraction_to_calibrator_features x vrs ctx = Inr f" "active_novelty x f opts = Inr novelty"
    "res = run_calibrator cal f"
    "u = x\<lparr>xd_calibrated_confidence := Some (ca_calibrated_confidence res), xd_novelty_score := score,
           xd_routing_outcome := Some (rd_outcome (determine_routing_outcome res policy (fo_cold_start_state opts)
              (fo_is_conflict opts \<or> has_validator_failure x vrs) (fo_is_outside_regime opts \<or> novelty_flag novelty)
              (audit_flag opts (or_empty (xd_id x))))),
           xd_model_version := Some pinned, xd_config_version := Some (we_config_version e)\<rparr>"
    by (elim process_Inr) simp
  have "xd_routing_outcome u = Some ''auto_accept'' \<longrightarrow> list_ex (earned_shadow_exit th) (take i evs)"
    using reached_by_evidence(1) [OF assms(2,3)] by (auto simp: p(6) auto_accept_iff assms(4))
  moreover have "\<exists>out. xd_routing_outcome u = Some out \<and> out \<in> set VALID_ROUTING_OUTCOMES"
    by (simp add: p(6) outcome_valid)
  ultimately show ?thesis
    using p(2-5)
    by (intro conjI exI [of _ cal] exI [of _ f] exI [of _ novelty]) (simp_all add: p(1,6) auto_accept_iff assms(4))
qed

definition demo_extraction_dict :: extraction_dict where
  "demo_extraction_dict = \<lparr>xd_id = Some ''x1'', xd_field_name = Some ''area'', xd_field_class = None,
     xd_token_confidence = PyNumber (Finite 0.9), xd_engine = ''printed_ocr'', xd_layout_certainty = None,
     xd_normalization_confidence = None, xd_embedding = None, xd_calibrated_confidence = None, xd_novelty_score = None,
     xd_routing_outcome = None, xd_model_version = None, xd_config_version = None\<rparr>"

definition demo_context :: extraction_context where
  "demo_context = \<lparr>xc_script = ''deva'', xc_doc_type = ''khatauni'', xc_legibility_band = ''medium'',
     xc_writer_cluster_id = '''', xc_print_or_handwriting = None, xc_layout_certainty = None,
     xc_normalization_confidence = None\<rparr>"

definition demo_options :: "cold_start_state \<Rightarrow> flow_options" where
  "demo_options s = \<lparr>fo_cold_start_state = s, fo_is_conflict = False, fo_is_outside_regime = False,
     fo_force_audit_sample = False, fo_audit_selector = None, fo_publish_to_queue = True, fo_novelty_detector = None,
     fo_novelty_policy = None, fo_novelty_result = None, fo_novelty_features = None, fo_novelty_cluster_id = None\<rparr>"

definition demo_envelope :: work_envelope where
  "demo_envelope = \<lparr>we_envelope_id = ''e1'', we_document_id = ''doc'', we_page_id = ''page'', we_pinned_at = 0,
     we_model_versions = demo_versions ''v1'', we_config_version = ''cfg''\<rparr>"

definition demo_calibrator :: some_calibrator where
  "demo_calibrator = Single_Model (\<lambda>f. (0.97, []))"

definition demo_process :: "cold_start_state \<Rightarrow> db \<Rightarrow>
    (exn + extraction_dict \<times> calibration_result \<times> decision_message option) \<times> db" where
  "demo_process s = process_extraction_for_decision demo_env demo_extraction_dict (Some demo_envelope) (Some demo_calibrator)
     \<lparr>tp_target_error_rate = 0.05\<rparr> ''trace'' [] demo_context (demo_options s)"

lemma demo_process_runs:
  "\<exists>u res m w'. demo_process s demo_decision_db = (Inr (u, res, Some m), w')"
proof -
  have "\<exists>f. extraction_to_calibrator_features demo_extraction_dict [] demo_context = Inr f"
    by (simp add: extraction_to_calibrator_features_def demo_extraction_dict_def demo_context_def Let_def
        checked_token_confidence_def new_calibrator_features_def)
  then show ?thesis
    by (auto simp: demo_process_def process_extraction_for_decision_def check_envelope_def demo_envelope_def
        demo_versions_def REQUIRED_MODEL_KEYS_def demo_options_def active_novelty_def demo_calibrator_def Let_def
        split: prod.splits)
qed

theorem auto_accept_is_earned_witness:
  "\<exists>u res m w'. demo_process RAMP demo_decision_db = (Inr (u, res, Some m), w') \<and>
     xd_routing_outcome u = Some ''auto_accept''"
proof -
  obtain u res m w' where r: "demo_process RAMP demo_decision_db = (Inr (u, res, Some m), w')"
    using demo_process_runs by blast
  have ramp: "run_ramp demo_thresholds [demo_evidence 60 False False] SHADOW = Inr [SHADOW, RAMP]"
    by (simp add: demo_evidence_def demo_thresholds_def transition_defs)
  from auto_accept_is_earned [OF r [unfolded demo_process_def] ramp, of 1]
  have "xd_routing_outcome u = Some ''auto_accept''"
    by (auto simp: demo_options_def demo_calibrator_def run_calibrator_def novelty_flag_def active_novelty_def
        audit_flag_def has_validator_failure_def)
  with r show ?thesis by blast
qed

text \<open>C31. The two services agree. A message the pipeline publishes, handled by the decision engine, decides
  the extraction with the outcome, under the envelope, the pipeline gave it, as soon as the row has
  the outcome and the confidence the pipeline computed; while the row has any other outcome or
  confidence the message is refused, and no decision is made.\<close>

theorem published_decision_is_taken:
  assumes "process_extraction_for_decision E x (Some e) calibrator policy trace_id vrs ctx opts v = (Inr (u, res, Some m), v')"
    and "xd_id x = Some xid" and "get_by ex_id xid (extractions w) = Some row" and "decided xid w = Inr None"
    and "we_envelope_id e \<noteq> []"
  shows "(ex_routing_outcome row = xd_routing_outcome u \<and> ex_calibrated_confidence row = xd_calibrated_confidence u \<longrightarrow>
      (\<exists>result s' d. decision_handle E m (begin_session w) = (Inr result, s') \<and>
         decision_records (current s') = decision_records w @ [d] \<and> dr_extraction_id d = xid \<and>
         Some (dr_outcome d) = xd_routing_outcome u \<and> dr_envelope_id d = Some (we_envelope_id e))) \<and>
    (ex_routing_outcome row \<noteq> xd_routing_outcome u \<or> ex_calibrated_confidence row \<noteq> xd_calibrated_confidence u \<longrightarrow>
      (\<exists>s'. decision_handle E m (begin_session w) = (Inl (PayloadMismatchError xid), s') \<and>
         decision_records (current s') = decision_records w))"
proof -
  from assms(1) obtain f novelty cal score pinned where
    f: "extraction_to_calibrator_features x vrs ctx = Inr f" and u: "u = x\<lparr>xd_calibrated_confidence := Some (ca_calibrated_confidence res),
       xd_novelty_score := score, xd_routing_outcome := Some (rd_outcome (determine_routing_outcome res policy
         (fo_cold_start_state opts) (fo_is_conflict opts \<or> has_validator_failure x vrs)
         (fo_is_outside_regime opts \<or> novelty_flag novelty) (audit_flag opts (or_empty (xd_id x))))),
       xd_model_version := Some pinned, xd_config_version := Some (we_config_version e)\<rparr>"
    and m: "\<And>n. Some m = Some n \<Longrightarrow> carries n u e"
    by (elim process_Inr) blast
  have "xd_id u = Some xid" using assms(2) unfolding u by simp
  with m [OF refl] obtain n where n: "dm_message m = Emitted n"
    and pay: "em_payload n = Decision_Payload (Some xid) (xd_routing_outcome u) (xd_calibrated_confidence u) None"
    and env: "message_envelope_id n = Some (we_envelope_id e)"
    using assms(5) by (auto simp: carries_def message_envelope_id_def)
  define nc where "nc = dm_novelty_cluster_id m"
  have ids: "or_str None (dm_novelty_cluster_id m) = nc" "or_str (message_envelope_id n) (dm_envelope_id m) = Some (we_envelope_id e)"
    using assms(5) by (simp_all add: nc_def or_str_def env)
  obtain out where out: "xd_routing_outcome u = Some out" "out \<in> set VALID_ROUTING_OUTCOMES"
    unfolding u using outcome_valid by simp
  obtain conf where conf: "xd_calibrated_confidence u = Some conf" unfolding u by simp
  have xid: "xid \<noteq> []"
    using f assms(2) by (auto simp: extraction_to_calibrator_features_def Let_def split: if_splits)
  have handle: "decision_handle E m (begin_session w) =
      (if mismatched_fields (Some out) (Some conf) row \<noteq> []
       then (Inl (PayloadMismatchError xid), commit ((begin_session w)\<lparr>current :=
               record_payload_mismatch E xid (mismatched_fields (Some out) (Some conf) row) w\<rparr>))
       else in_session (route E xid nc (Some (we_envelope_id e))) (begin_session w))"
    using assms(3) xid by (simp add: decision_handle_def n pay payload_fields_def out(1) conf ids Let_def session_defs)
  show ?thesis
  proof (cases "ex_routing_outcome row = xd_routing_outcome u \<and> ex_calibrated_confidence row = xd_calibrated_confidence u")
    case True
    obtain r' w' where dec: "decide E row out nc (Some (we_envelope_id e)) w = (r', w')" by fastforce
    obtain r1 w1 where p: "perform_outcome E out row nc w = (r1, w1)" by fastforce
    have "route E xid nc (Some (we_envelope_id e)) w = (Inr r', w')"
      using assms(3,4) True out dec by (simp add: route_def)
    with handle True out(1) conf
    have "decision_handle E m (begin_session w) = (Inr r', \<lparr>committed = w, current = w'\<rparr>)"
      by (simp add: mismatched_fields_def session_defs)
    moreover have "ex_id row = xid" using get_by_SomeD [OF assms(3)] by simp
    ultimately show ?thesis using decide_tables [OF p dec] True out(1) by auto
  next
    case False
    then have "mismatched_fields (Some out) (Some conf) row \<noteq> []"
      using out(1) conf by (auto simp: mismatched_fields_def)
    with handle False show ?thesis
      by (auto simp: session_defs record_payload_mismatch_def)
  qed
qed

definition demo_scored_db :: db where
  "demo_scored_db = demo_decision_db\<lparr>extractions :=
     [demo_extraction ''x1'' ''auto_accept''\<lparr>ex_calibrated_confidence := Some 0.97\<rparr>]\<rparr>"

theorem published_decision_is_taken_witness:
  "\<exists>u res m v'. demo_process RAMP demo_decision_db = (Inr (u, res, Some m), v') \<and>
     (\<exists>result s' d. decision_handle demo_env m (begin_session demo_scored_db) = (Inr result, s') \<and>
        decision_records (current s') = [d] \<and> dr_outcome d = ''auto_accept'') \<and>
     (\<exists>s'. decision_handle demo_env m (begin_session demo_decision_db) = (Inl (PayloadMismatchError ''x1''), s') \<and>
        decision_records (current s') = [])"
proof -
  obtain u res m v' where r: "demo_process RAMP demo_decision_db = (Inr (u, res, Some m), v')"
    using demo_process_runs by blast
  have u: "xd_routing_outcome u = Some ''auto_accept''" "xd_calibrated_confidence u = Some 0.97"
    using r unfolding demo_process_def
    by (auto elim!: process_Inr simp: auto_accept_iff demo_options_def demo_calibrator_def run_calibrator_def
        novelty_flag_def active_novelty_def audit_flag_def has_validator_failure_def)
  note taken = published_decision_is_taken [OF r [unfolded demo_process_def], of "''x1''"]
  have x: "xd_id demo_extraction_dict = Some ''x1''" "we_envelope_id demo_envelope \<noteq> []"
    by (simp_all add: demo_extraction_dict_def demo_envelope_def)
  have scored: "get_by ex_id ''x1'' (extractions demo_scored_db) =
      Some (demo_extraction ''x1'' ''auto_accept''\<lparr>ex_calibrated_confidence := Some 0.97\<rparr>)"
    "decided ''x1'' demo_scored_db = Inr None" "decision_records demo_scored_db = []"
    by (simp_all add: demo_scored_db_def decided_None_iff)
  from taken [OF x(1) scored(1,2) x(2)] u scored(3)
  have 1: "\<exists>result s' d. decision_handle demo_env m (begin_session demo_scored_db) = (Inr result, s') \<and>
        decision_records (current s') = [d] \<and> dr_outcome d = ''auto_accept''" by fastforce
  from taken [OF x(1) _ _ x(2), of demo_decision_db "demo_extraction ''x1'' ''review''"] u
  have 2: "\<exists>s'. decision_handle demo_env m (begin_session demo_decision_db) =
        (Inl (PayloadMismatchError ''x1''), s') \<and> decision_records (current s') = []"
    by (simp add: decided_None_iff)
  from r 1 2 show ?thesis by blast
qed

text \<open>What the flow does not use: RAMP and STEADY accept under the same threshold and draw for audit in the
  same way (the posture's \<open>conservative_error_target\<close> and \<open>elevated_audit_sample\<close> are carried in the
  decision and read by nothing), and the version a recognizer left in \<open>model_version\<close> is replaced by
  the calibrator's.\<close>

lemma ramp_as_steady:
  "rd_outcome (determine_routing_outcome res p RAMP conflict out audit) =
   rd_outcome (determine_routing_outcome res p STEADY conflict out audit)"
  by (simp add: outcome_cases)

end
