(* ===== verification/Strikethrough.thy ===== *)
theory Strikethrough
  imports Entities
begin

text \<open>
  Detection of struck-out entries (\<open>extraction/domain/strikethrough.py\<close>): the segment and rectangle
  test and the classification of an entry by the strokes of its page. Coordinates are reals; the
  text of the rationale is left out.
\<close>

section \<open>Segments and rectangles\<close>

type_synonym point = "real \<times> real"

record rect =
  \<comment> \<open>the corners as the code passes them: left, top, right, bottom\<close>
  rc_x1 :: real
  rc_y1 :: real
  rc_x2 :: real
  rc_y2 :: real

definition ccw :: "point \<Rightarrow> point \<Rightarrow> point \<Rightarrow> bool" where
  "ccw a b c \<longleftrightarrow> (snd c - snd a) * (fst b - fst a) > (snd b - snd a) * (fst c - fst a)"

definition segments_cross :: "point \<Rightarrow> point \<Rightarrow> point \<Rightarrow> point \<Rightarrow> bool" where
  "segments_cross p1 p2 q1 q2 \<longleftrightarrow> ccw p1 q1 q2 \<noteq> ccw p2 q1 q2 \<and> ccw p1 p2 q1 \<noteq> ccw p1 p2 q2"

definition in_rect :: "rect \<Rightarrow> point \<Rightarrow> bool" where
  "in_rect r p \<longleftrightarrow> rc_x1 r \<le> fst p \<and> fst p \<le> rc_x2 r \<and> rc_y1 r \<le> snd p \<and> snd p \<le> rc_y2 r"

definition rect_edges :: "rect \<Rightarrow> (point \<times> point) list" where
  "rect_edges r =
     [((rc_x1 r, rc_y1 r), (rc_x2 r, rc_y1 r)), ((rc_x2 r, rc_y1 r), (rc_x2 r, rc_y2 r)),
      ((rc_x2 r, rc_y2 r), (rc_x1 r, rc_y2 r)), ((rc_x1 r, rc_y2 r), (rc_x1 r, rc_y1 r))]"

definition line_intersects_rect :: "point \<Rightarrow> point \<Rightarrow> rect \<Rightarrow> bool" where
  "line_intersects_rect p1 p2 r \<longleftrightarrow>
     (if max (fst p1) (fst p2) < rc_x1 r \<or> min (fst p1) (fst p2) > rc_x2 r then False
      else if max (snd p1) (snd p2) < rc_y1 r \<or> min (snd p1) (snd p2) > rc_y2 r then False
      else if in_rect r p1 then True
      else if in_rect r p2 then True
      else list_ex (\<lambda>(q1, q2). segments_cross p1 p2 q1 q2) (rect_edges r))"

section \<open>Classification\<close>

definition VALID_ENTRY_STATUSES :: "string list" where
  "VALID_ENTRY_STATUSES = [''unknown'', ''live'', ''cancelled'', ''superseded'', ''amended'']"

record stroke =
  st_x1 :: real
  st_y1 :: real
  st_x2 :: real
  st_y2 :: real
  st_thickness :: real
  st_confidence :: real

definition stroke_start :: "stroke \<Rightarrow> point" where "stroke_start s = (st_x1 s, st_y1 s)"
definition stroke_end :: "stroke \<Rightarrow> point" where "stroke_end s = (st_x2 s, st_y2 s)"

record real_bbox =
  bx_x :: real
  bx_y :: real
  bx_w :: real
  bx_h :: real

record cancellation =
  cn_is_cancelled :: bool
  cn_is_ambiguous :: bool
  cn_entry_status :: string
  cn_intersecting_strokes :: "stroke list"

definition box_rect :: "real_bbox \<Rightarrow> rect" where
  "box_rect b = \<lparr>rc_x1 = bx_x b, rc_y1 = bx_y b, rc_x2 = bx_x b + bx_w b, rc_y2 = bx_y b + bx_h b\<rparr>"

definition buffered :: "real \<Rightarrow> rect \<Rightarrow> rect" where
  "buffered d r = \<lparr>rc_x1 = rc_x1 r - d, rc_y1 = rc_y1 r - d, rc_x2 = rc_x2 r + d, rc_y2 = rc_y2 r + d\<rparr>"

definition stroke_hits :: "rect \<Rightarrow> stroke \<Rightarrow> bool" where
  "stroke_hits r s \<longleftrightarrow> line_intersects_rect (stroke_start s) (stroke_end s) r"

definition classify_entry_cancellation ::
  "real_bbox option \<Rightarrow> stroke list \<Rightarrow> string \<Rightarrow> real \<Rightarrow> cancellation"
where
  "classify_entry_cancellation bbox page_strokes status buffer_px =
     (let status = (if status \<notin> set VALID_ENTRY_STATUSES then ''unknown'' else status);
          untouched = \<lparr>cn_is_cancelled = False, cn_is_ambiguous = False, cn_entry_status = status,
                       cn_intersecting_strokes = []\<rparr>
      in case bbox of
           None \<Rightarrow> untouched
         | Some b \<Rightarrow>
             if page_strokes = [] then untouched
             else
               (let r = box_rect b;
                    direct_hits = filter (stroke_hits r) page_strokes;
                    buffer_hits = filter (\<lambda>s. \<not> stroke_hits r s \<and> stroke_hits (buffered buffer_px r) s) page_strokes
                in if direct_hits \<noteq> []
                   then \<lparr>cn_is_cancelled = True, cn_is_ambiguous = False,
                         cn_entry_status = (if status \<noteq> ''superseded'' then ''cancelled'' else ''superseded''),
                         cn_intersecting_strokes = direct_hits\<rparr>
                   else if buffer_hits \<noteq> []
                   then \<lparr>cn_is_cancelled = False, cn_is_ambiguous = True, cn_entry_status = ''unknown'',
                         cn_intersecting_strokes = buffer_hits\<rparr>
                   else untouched))"

definition detect_strikethrough :: "real_bbox option \<Rightarrow> stroke list \<Rightarrow> bool" where
  "detect_strikethrough bbox page_strokes \<longleftrightarrow>
     (let res = classify_entry_cancellation bbox page_strokes ''unknown'' 4
      in cn_is_cancelled res \<or> cn_is_ambiguous res)"

section \<open>Lemmas\<close>

text \<open>The points of a segment.\<close>

definition on_segment :: "point \<Rightarrow> point \<Rightarrow> point \<Rightarrow> bool" where
  "on_segment p1 p2 x \<longleftrightarrow> (\<exists>t. 0 \<le> t \<and> t \<le> 1 \<and>
     fst x = fst p1 + t * (fst p2 - fst p1) \<and> snd x = snd p1 + t * (snd p2 - snd p1))"

definition side :: "point \<Rightarrow> point \<Rightarrow> point \<Rightarrow> real" where
  \<comment> \<open>twice the signed area of the triangle\<close>
  "side a b c = (snd c - snd a) * (fst b - fst a) - (snd b - snd a) * (fst c - fst a)"

lemma ccw_side: "ccw a b c \<longleftrightarrow> 0 < side a b c"
  by (simp add: ccw_def side_def)

subsection \<open>A crossing is an intersection\<close>

lemma between_zero: "(0 < a) \<noteq> (0 < b) \<Longrightarrow> a - b \<noteq> 0 \<and> 0 \<le> a / (a - b) \<and> a / (a - b) \<le> (1 :: real)"
  by (cases "0 < a") (auto simp: field_simps)

lemma crossing_point:
  assumes "segments_cross p1 p2 q1 q2"
  shows "\<exists>x. on_segment p1 p2 x \<and> on_segment q1 q2 x"
proof -
  define a1 a2 b1 b2 where d: "a1 = side p1 q1 q2" "a2 = side p2 q1 q2" "b1 = side p1 p2 q1" "b2 = side p1 p2 q2"
  from assms have a: "(0 < a1) \<noteq> (0 < a2)" and b: "(0 < b1) \<noteq> (0 < b2)"
    by (simp_all add: segments_cross_def ccw_side d)
  note az = between_zero [OF a] and bz = between_zero [OF b]
  have opp: "b1 - b2 = - (a1 - a2)" by (simp add: d side_def algebra_simps)
  have x: "(a1 - a2) * fst p1 + a1 * (fst p2 - fst p1) = (a1 - a2) * fst q1 - b1 * (fst q2 - fst q1)"
    "(a1 - a2) * snd p1 + a1 * (snd p2 - snd p1) = (a1 - a2) * snd q1 - b1 * (snd q2 - snd q1)"
    by (simp_all add: d side_def algebra_simps)
  have quot: "u + v / k * s = u' + b1 / (b1 - b2) * s'"
    if "k = a1 - a2" "k * u + v * s = k * u' - b1 * s'" for u v s u' s' k
  proof -
    have "k \<noteq> 0" using that(1) az by simp
    then have "k * (u + v / k * s) = k * u' - b1 * s'" using that(2) by (simp add: distrib_left)
    also have "\<dots> = k * (u' + b1 / (b1 - b2) * s')"
    proof -
      have "b1 / (b1 - b2) = - (b1 / k)" unfolding opp that(1) by (rule divide_minus_right)
      then show ?thesis using \<open>k \<noteq> 0\<close> by (simp add: algebra_simps)
    qed
    finally show ?thesis using \<open>k \<noteq> 0\<close> by simp
  qed
  let ?x = "(fst p1 + a1 / (a1 - a2) * (fst p2 - fst p1), snd p1 + a1 / (a1 - a2) * (snd p2 - snd p1))"
  have "on_segment p1 p2 ?x" using az unfolding on_segment_def by (intro exI [of _ "a1 / (a1 - a2)"]) simp
  moreover have "on_segment q1 q2 ?x"
    using bz quot [OF refl x(1)] quot [OF refl x(2)] unfolding on_segment_def
    by (intro exI [of _ "b1 / (b1 - b2)"]) simp
  ultimately show ?thesis by blast
qed

lemma between_le:
  "0 \<le> t \<Longrightarrow> t \<le> 1 \<Longrightarrow> l \<le> a \<Longrightarrow> l \<le> b \<Longrightarrow> l \<le> a + t * (b - a :: real)"
  "0 \<le> t \<Longrightarrow> t \<le> 1 \<Longrightarrow> a \<le> u \<Longrightarrow> b \<le> u \<Longrightarrow> a + t * (b - a :: real) \<le> u"
proof -
  show "l \<le> a + t * (b - a)" if "0 \<le> t" "t \<le> 1" "l \<le> a" "l \<le> b"
    using convex_bound_le [of "- a" "- l" "- b" "1 - t" t] that by (simp add: algebra_simps)
  show "a + t * (b - a) \<le> u" if "0 \<le> t" "t \<le> 1" "a \<le> u" "b \<le> u"
    using convex_bound_le [of a u b "1 - t" t] that by (simp add: algebra_simps)
qed

lemma in_rect_convex: "in_rect r a \<Longrightarrow> in_rect r b \<Longrightarrow> on_segment a b x \<Longrightarrow> in_rect r x"
  by (auto simp: in_rect_def on_segment_def intro: between_le)

lemma on_segment_ends: "on_segment a b a" "on_segment a b b"
  unfolding on_segment_def by (rule exI [of _ 0], simp, rule exI [of _ 1], simp)

definition proper :: "rect \<Rightarrow> bool" where
  "proper r \<longleftrightarrow> rc_x1 r \<le> rc_x2 r \<and> rc_y1 r \<le> rc_y2 r"

lemma hit_is_real:
  assumes "line_intersects_rect p1 p2 r" and "proper r"
  shows "\<exists>x. on_segment p1 p2 x \<and> in_rect r x"
proof -
  consider "in_rect r p1" | "in_rect r p2" | q1 q2 where "(q1, q2) \<in> set (rect_edges r)" "segments_cross p1 p2 q1 q2"
    using assms(1) by (auto simp: line_intersects_rect_def list_ex_iff split: if_splits)
  then show ?thesis
  proof cases
    case 3
    then obtain x where "on_segment p1 p2 x" "on_segment q1 q2 x" using crossing_point by blast
    moreover have "in_rect r q1" "in_rect r q2"
      using 3(1) assms(2) by (auto simp: rect_edges_def in_rect_def proper_def)
    ultimately show ?thesis using in_rect_convex by blast
  qed (use on_segment_ends in blast)+
qed

subsection \<open>No crossing is missed\<close>

text \<open>
  For each edge of the rectangle, in the order in which the corners are listed, a function \<open>e0 + t * e1\<close>
  of the position \<open>t\<close> on the segment is positive inside. \<open>edge_det\<close> is what the code computes for an
  edge from these functions and those of the edge before and after it.
\<close>

definition edge_det :: "real \<Rightarrow> real \<Rightarrow> real \<Rightarrow> real \<Rightarrow> real \<Rightarrow> real \<Rightarrow> bool" where
  "edge_det p0 p1 e0 e1 n0 n1 \<longleftrightarrow>
     (0 < e0) \<noteq> (0 < e0 + e1) \<and> (0 < p0 * e1 - e0 * p1) \<noteq> (0 < e0 * n1 - n0 * e1)"

lemma good_edge:
  assumes "0 \<le> t" "t < u" "u \<le> 1" and e: "e0 + t * e1 = 0" "0 < e0 + u * e1"
    and p: "0 < p0 + t * p1" and n: "0 \<le> n0 + t * n1"
  shows "edge_det p0 p1 e0 e1 n0 n1"
proof -
  have "e0 = - t * e1" using e(1) by simp
  with e(2) have "0 < (u - t) * e1" by (simp add: algebra_simps)
  with assms(2) have e1: "0 < e1" by (simp add: zero_less_mult_iff)
  have "p0 * e1 - e0 * p1 = e1 * (p0 + t * p1)" "e0 * n1 - n0 * e1 = - e1 * (n0 + t * n1)" "e0 + e1 = (1 - t) * e1"
    using \<open>e0 = - t * e1\<close> by (simp_all add: algebra_simps)
  then have "0 < p0 * e1 - e0 * p1" "e0 * n1 - n0 * e1 \<le> 0" "0 < e0 + e1"
    using e1 p n assms(2,3) by (simp_all add: mult_pos_pos mult_nonneg_nonneg)
  moreover have "e0 \<le> 0" using \<open>e0 = - t * e1\<close> e1 assms(1) by simp
  ultimately show ?thesis by (auto simp: edge_det_def)
qed

lemma enters:
  assumes "0 \<le> u" "u \<le> 1" and e: "e0 < 0" "0 < e0 + u * e1" and p: "0 < p0 + u * p1" and n: "0 < n0 + u * n1"
    and o: "0 < o0 + u * o1" and pn: "p1 + n1 = 0" "0 < p0 + n0" and eo: "e1 + o1 = 0" "0 < e0 + o0"
  shows "edge_det p0 p1 e0 e1 n0 n1 \<or> edge_det o0 o1 p0 p1 e0 e1 \<or> edge_det e0 e1 n0 n1 o0 o1"
proof -
  have ue1: "0 < u * e1" using e by linarith
  then have e1: "0 < e1" using assms(1) by (simp add: zero_less_mult_iff)
  have o1: "o1 = - e1" using eo(1) by simp
  define t where "t = - e0 / e1"
  have te: "e0 + t * e1 = 0" using e1 by (simp add: t_def)
  have t0: "0 \<le> t" using e(1) e1 by (simp add: t_def divide_nonpos_pos)
  have tu: "t < u" using e(2) e1 by (simp add: t_def field_simps)
  \<comment> \<open>if the line is outside a neighbour \<open>g\<close> of \<open>e\<close> when it crosses \<open>e\<close>, it enters through \<open>g\<close> later\<close>
  have later: "\<exists>s. 0 \<le> s \<and> s < u \<and> g0 + s * g1 = 0 \<and> 0 < e0 + s * e1 \<and> 0 < o0 + s * o1"
    if g: "g0 + t * g1 < 0" "0 < g0 + u * g1" for g0 g1
  proof -
    have "0 < (u - t) * g1" using g by (simp add: algebra_simps)
    then have g1: "0 < g1" using tu by (simp add: zero_less_mult_iff)
    define s where "s = - g0 / g1"
    have s: "g0 + s * g1 = 0" using g1 by (simp add: s_def)
    have "t < s" "s < u" using g g1 by (simp_all add: s_def field_simps)
    then have "0 < (s - t) * e1" "0 < (u - s) * e1" using e1 by simp_all
    then have "0 < s * e1 - t * e1" "0 < u * e1 - s * e1" by (simp_all add: algebra_simps)
    then have "0 < e0 + s * e1" "0 < o0 + s * o1" using te o unfolding o1 by (simp_all; linarith)+
    then show ?thesis using s t0 \<open>t < s\<close> \<open>s < u\<close> by (intro exI [of _ s]) simp
  qed
  have oh: "0 < o0 + t * o1" using te eo(2) unfolding o1 by simp
  consider "p0 + t * p1 < 0" | "n0 + t * n1 < 0" | "0 < p0 + t * p1" "0 \<le> n0 + t * n1"
    | "p0 + t * p1 = 0" "0 \<le> n0 + t * n1" by linarith
  then show ?thesis
  proof cases
    case 1
    from later [OF 1 p] obtain s where "0 \<le> s" "s < u" "p0 + s * p1 = 0" "0 < e0 + s * e1" "0 < o0 + s * o1" by blast
    then have "edge_det o0 o1 p0 p1 e0 e1" using assms(2) p by (intro good_edge [of s u]) simp_all
    then show ?thesis by simp
  next
    case 2
    from later [OF 2 n] obtain s where "0 \<le> s" "s < u" "n0 + s * n1 = 0" "0 < e0 + s * e1" "0 < o0 + s * o1" by blast
    then have "edge_det e0 e1 n0 n1 o0 o1" using assms(2) n by (intro good_edge [of s u]) simp_all
    then show ?thesis by simp
  next
    case 3
    then have "edge_det p0 p1 e0 e1 n0 n1" using t0 tu te e(2) assms(2) by (intro good_edge [of t u]) simp_all
    then show ?thesis by simp
  next
    case 4
    then have "edge_det o0 o1 p0 p1 e0 e1" using t0 tu te oh p assms(2) by (intro good_edge [of t u]) simp_all
    then show ?thesis by simp
  qed
qed

definition strictly_in :: "rect \<Rightarrow> point \<Rightarrow> bool" where
  "strictly_in r p \<longleftrightarrow> rc_x1 r < fst p \<and> fst p < rc_x2 r \<and> rc_y1 r < snd p \<and> snd p < rc_y2 r"

lemma edge_tests:
  fixes p1 p2 :: point
  assumes "rc_x1 r < rc_x2 r" and "rc_y1 r < rc_y2 r"
  defines "dx \<equiv> fst p2 - fst p1" and "dy \<equiv> snd p2 - snd p1"
  shows "list_ex (\<lambda>(q1, q2). segments_cross p1 p2 q1 q2) (rect_edges r) \<longleftrightarrow>
     edge_det (fst p1 - rc_x1 r) dx (snd p1 - rc_y1 r) dy (rc_x2 r - fst p1) (- dx) \<or>
     edge_det (snd p1 - rc_y1 r) dy (rc_x2 r - fst p1) (- dx) (rc_y2 r - snd p1) (- dy) \<or>
     edge_det (rc_x2 r - fst p1) (- dx) (rc_y2 r - snd p1) (- dy) (fst p1 - rc_x1 r) dx \<or>
     edge_det (rc_y2 r - snd p1) (- dy) (fst p1 - rc_x1 r) dx (snd p1 - rc_y1 r) dy"
proof -
  have pos: "0 < a * (b - c) \<longleftrightarrow> 0 < a" "a * (c - b) < 0 \<longleftrightarrow> 0 < a" if "c < b" for a b c :: real
    using that by (simp_all add: zero_less_mult_iff mult_less_0_iff)
  have top: "ccw p (rc_x1 r, rc_y1 r) (rc_x2 r, rc_y1 r) \<longleftrightarrow> 0 < snd p - rc_y1 r" for p
    using pos(1) [OF assms(1), of "snd p - rc_y1 r"] by (simp add: ccw_side side_def algebra_simps)
  have right: "ccw p (rc_x2 r, rc_y1 r) (rc_x2 r, rc_y2 r) \<longleftrightarrow> 0 < rc_x2 r - fst p" for p
    using pos(1) [OF assms(2), of "rc_x2 r - fst p"] by (simp add: ccw_side side_def algebra_simps)
  have bottom: "ccw p (rc_x2 r, rc_y2 r) (rc_x1 r, rc_y2 r) \<longleftrightarrow> 0 < rc_y2 r - snd p" for p
    using pos(1) [OF assms(1), of "rc_y2 r - snd p"] by (simp add: ccw_side side_def algebra_simps)
  have left: "ccw p (rc_x1 r, rc_y2 r) (rc_x1 r, rc_y1 r) \<longleftrightarrow> 0 < fst p - rc_x1 r" for p
    using pos(1) [OF assms(2), of "fst p - rc_x1 r"] by (simp add: ccw_side side_def algebra_simps)
  have corner: "ccw p1 p2 (x, y) \<longleftrightarrow> 0 < (fst p1 - x) * dy - (snd p1 - y) * dx" for x y
    by (simp add: ccw_side side_def dx_def dy_def algebra_simps)
  have at_end: "snd p2 - c = snd p1 - c + dy" "c - snd p2 = c - snd p1 + - dy" "fst p2 - c = fst p1 - c + dx"
    "c - fst p2 = c - fst p1 + - dx" for c by (simp_all add: dx_def dy_def)
  have ccw_c: "ccw p1 p2 (rc_x1 r, rc_y1 r) \<longleftrightarrow> 0 < (fst p1 - rc_x1 r) * dy - (snd p1 - rc_y1 r) * dx"
    "ccw p1 p2 (rc_x2 r, rc_y1 r) \<longleftrightarrow> 0 < (snd p1 - rc_y1 r) * (- dx) - (rc_x2 r - fst p1) * dy"
    "ccw p1 p2 (rc_x2 r, rc_y2 r) \<longleftrightarrow> 0 < (rc_x2 r - fst p1) * (- dy) - (rc_y2 r - snd p1) * (- dx)"
    "ccw p1 p2 (rc_x1 r, rc_y2 r) \<longleftrightarrow> 0 < (rc_y2 r - snd p1) * dx - (fst p1 - rc_x1 r) * (- dy)"
    by (simp_all add: corner algebra_simps)
  show ?thesis
    unfolding edge_det_def
    by (simp only: rect_edges_def segments_cross_def list.pred_inject list_ex_iff list.set prod.case top right bottom left
        ccw_c at_end bex_simps insert_iff empty_iff) blast
qed

lemma no_hit_missed:
  assumes "on_segment p1 p2 x" and "strictly_in r x"
  shows "line_intersects_rect p1 p2 r"
proof (cases "in_rect r p1 \<or> in_rect r p2")
  case True
  from assms have "\<not> (max (fst p1) (fst p2) < rc_x1 r \<or> min (fst p1) (fst p2) > rc_x2 r)"
    "\<not> (max (snd p1) (snd p2) < rc_y1 r \<or> min (snd p1) (snd p2) > rc_y2 r)"
    using True by (auto simp: in_rect_def)
  then show ?thesis using True by (auto simp: line_intersects_rect_def)
next
  case False
  from assms(1) obtain u where u: "0 \<le> u" "u \<le> 1" "fst x = fst p1 + u * (fst p2 - fst p1)"
    "snd x = snd p1 + u * (snd p2 - snd p1)" by (auto simp: on_segment_def)
  define dx dy where d: "dx = fst p2 - fst p1" "dy = snd p2 - snd p1"
  have box: "rc_x1 r < rc_x2 r" "rc_y1 r < rc_y2 r" using assms(2) by (auto simp: strictly_in_def)
  have f: "0 < (fst p1 - rc_x1 r) + u * dx" "0 < (snd p1 - rc_y1 r) + u * dy"
    "0 < (rc_x2 r - fst p1) + u * (- dx)" "0 < (rc_y2 r - snd p1) + u * (- dy)"
    using assms(2) u(3,4) by (simp_all add: strictly_in_def d algebra_simps)
  have "\<not> (max (fst p1) (fst p2) < rc_x1 r \<or> min (fst p1) (fst p2) > rc_x2 r)"
    using between_le [OF u(1,2), of "fst p1" _ "fst p2"] between_le(1) [OF u(1,2), of _ "fst p1" "fst p2"]
      between_le(2) [OF u(1,2), of "fst p1" _ "fst p2"] assms(2) u(3)
    by (smt (verit) strictly_in_def)
  moreover have "\<not> (max (snd p1) (snd p2) < rc_y1 r \<or> min (snd p1) (snd p2) > rc_y2 r)"
    using between_le(1) [OF u(1,2), of _ "snd p1" "snd p2"]
      between_le(2) [OF u(1,2), of "snd p1" _ "snd p2"] assms(2) u(4)
    by (smt (verit) strictly_in_def)
  moreover have "list_ex (\<lambda>(q1, q2). segments_cross p1 p2 q1 q2) (rect_edges r)"
    unfolding edge_tests [OF box] d [symmetric]
  proof -
    let ?l = "fst p1 - rc_x1 r" and ?t = "snd p1 - rc_y1 r" and ?r = "rc_x2 r - fst p1" and ?b = "rc_y2 r - snd p1"
    have w: "0 < ?l + ?r" "0 < ?r + ?l" "0 < ?t + ?b" "0 < ?b + ?t" "dx + - dx = 0" "- dx + dx = 0" "dy + - dy = 0" "- dy + dy = 0"
      using box by simp_all
    consider "?l < 0" | "?t < 0" | "?r < 0" | "?b < 0" using False by (auto simp: in_rect_def)
    then show "edge_det ?l dx ?t dy ?r (- dx) \<or> edge_det ?t dy ?r (- dx) ?b (- dy) \<or>
        edge_det ?r (- dx) ?b (- dy) ?l dx \<or> edge_det ?b (- dy) ?l dx ?t dy"
    proof cases
      case 1
      from enters [OF u(1,2) 1 f(1) f(4) f(2) f(3) w(8) w(4) w(5) w(1)] show ?thesis by blast
    next
      case 2
      from enters [OF u(1,2) 2 f(2) f(1) f(3) f(4) w(5) w(1) w(7) w(3)] show ?thesis by blast
    next
      case 3
      from enters [OF u(1,2) 3 f(3) f(2) f(4) f(1) w(7) w(3) w(6) w(2)] show ?thesis by blast
    next
      case 4
      from enters [OF u(1,2) 4 f(4) f(3) f(1) f(2) w(6) w(2) w(8) w(4)] show ?thesis by blast
    qed
  qed
  ultimately show ?thesis using False by (simp add: line_intersects_rect_def)
qed

subsection \<open>The classification\<close>

definition stroke_meets :: "(point \<Rightarrow> bool) \<Rightarrow> stroke \<Rightarrow> bool" where
  "stroke_meets area s \<longleftrightarrow> (\<exists>x. on_segment (stroke_start s) (stroke_end s) x \<and> area x)"

lemma stroke_meets_mono: "stroke_meets A s \<Longrightarrow> (\<And>x. A x \<Longrightarrow> B x) \<Longrightarrow> stroke_meets B s"
  unfolding stroke_meets_def by blast

lemma strictly_in_rect: "strictly_in r x \<Longrightarrow> in_rect r x"
  by (simp add: strictly_in_def in_rect_def)

lemma stroke_hits_sound: "stroke_hits r s \<Longrightarrow> proper r \<Longrightarrow> stroke_meets (in_rect r) s"
  unfolding stroke_hits_def stroke_meets_def by (rule hit_is_real)

lemma stroke_hits_complete: "stroke_meets (strictly_in r) s \<Longrightarrow> stroke_hits r s"
  unfolding stroke_hits_def stroke_meets_def using no_hit_missed by blast

lemma buffered_strict: "in_rect r x \<Longrightarrow> 0 < d \<Longrightarrow> strictly_in (buffered d r) x"
  by (auto simp: in_rect_def strictly_in_def buffered_def)

lemma classify_flags:
  "cn_is_cancelled (classify_entry_cancellation (Some b) strokes status d) \<longleftrightarrow> list_ex (stroke_hits (box_rect b)) strokes"
  "cn_is_ambiguous (classify_entry_cancellation (Some b) strokes status d) \<longleftrightarrow>
     \<not> list_ex (stroke_hits (box_rect b)) strokes \<and> list_ex (stroke_hits (buffered d (box_rect b))) strokes"
  by (auto simp: classify_entry_cancellation_def Let_def list_ex_iff filter_empty_conv)

lemma classify_status:
  "cn_entry_status (classify_entry_cancellation bbox strokes status d) =
     (let res = classify_entry_cancellation bbox strokes status d in
      if cn_is_cancelled res then (if status = ''superseded'' then ''superseded'' else ''cancelled'')
      else if cn_is_ambiguous res then ''unknown''
      else if status \<in> set VALID_ENTRY_STATUSES then status else ''unknown'')"
  by (auto simp: classify_entry_cancellation_def Let_def VALID_ENTRY_STATUSES_def split: option.splits)

text \<open>C10. No strike is missed and none is made up. For an entry with a box of non-negative size: a stroke
  that meets the box, in its border or inside, is always detected; whatever is detected comes within
  four pixels of the box. An entry is classified as cancelled whenever a stroke runs through the
  inside of its box, and only when one meets the box. The status becomes \<open>live\<close> only if it was.\<close>

theorem no_strike_missed:
  assumes "0 \<le> bx_w b" and "0 \<le> bx_h b"
  shows "(list_ex (stroke_meets (in_rect (box_rect b))) strokes \<longrightarrow> detect_strikethrough (Some b) strokes) \<and>
    (detect_strikethrough (Some b) strokes \<longrightarrow> list_ex (stroke_meets (in_rect (buffered 4 (box_rect b)))) strokes) \<and>
    (list_ex (stroke_meets (strictly_in (box_rect b))) strokes \<longrightarrow>
       cn_is_cancelled (classify_entry_cancellation (Some b) strokes status d)) \<and>
    (cn_is_cancelled (classify_entry_cancellation (Some b) strokes status d) \<longrightarrow>
       list_ex (stroke_meets (in_rect (box_rect b))) strokes) \<and>
    (cn_entry_status (classify_entry_cancellation bbox strokes status d) = ''live'' \<longrightarrow> status = ''live'')"
proof -
  let ?r = "box_rect b"
  have proper: "proper ?r" "proper (buffered 4 ?r)" using assms by (simp_all add: proper_def box_rect_def buffered_def)
  have detect: "detect_strikethrough (Some b) strokes \<longleftrightarrow>
      list_ex (stroke_hits ?r) strokes \<or> list_ex (stroke_hits (buffered 4 ?r)) strokes"
    by (auto simp: detect_strikethrough_def Let_def classify_flags)
  have "stroke_meets (in_rect ?r) s \<Longrightarrow> stroke_hits (buffered 4 ?r) s" for s
    by (intro stroke_hits_complete) (erule stroke_meets_mono, simp add: buffered_strict)
  then have 1: "list_ex (stroke_meets (in_rect ?r)) strokes \<longrightarrow> detect_strikethrough (Some b) strokes"
    unfolding detect by (auto simp: list_ex_iff)
  have "stroke_meets (in_rect ?r) s \<Longrightarrow> stroke_meets (in_rect (buffered 4 ?r)) s" for s
    by (erule stroke_meets_mono) (rule strictly_in_rect, simp add: buffered_strict)
  then have 2: "detect_strikethrough (Some b) strokes \<longrightarrow> list_ex (stroke_meets (in_rect (buffered 4 ?r))) strokes"
    unfolding detect using stroke_hits_sound proper by (auto simp: list_ex_iff)
  have "cn_entry_status (classify_entry_cancellation bbox strokes status d) = ''live'' \<longrightarrow> status = ''live''"
    by (subst classify_status) (simp add: Let_def)
  with 1 2 show ?thesis using stroke_hits_sound [OF _ proper(1)] stroke_hits_complete
    by (auto simp: classify_flags list_ex_iff)
qed

definition demo_stroke :: "point \<Rightarrow> point \<Rightarrow> stroke" where
  "demo_stroke p q = \<lparr>st_x1 = fst p, st_y1 = snd p, st_x2 = fst q, st_y2 = snd q, st_thickness = 1, st_confidence = 1\<rparr>"

definition demo_box :: real_bbox where
  "demo_box = \<lparr>bx_x = 100, bx_y = 100, bx_w = 80, bx_h = 20\<rparr>"

theorem no_strike_missed_witness:
  "detect_strikethrough (Some demo_box) [demo_stroke (90, 110) (200, 110)] \<and>
   cn_is_cancelled (classify_entry_cancellation (Some demo_box) [demo_stroke (90, 110) (200, 110)] ''live'' 4) \<and>
   \<not> detect_strikethrough (Some demo_box) [demo_stroke (90, 210) (200, 210)]"
proof -
  have size: "0 \<le> bx_w demo_box" "0 \<le> bx_h demo_box" by (simp_all add: demo_box_def)
  have "on_segment (90, 110) (200, 110) (145, 110)" unfolding on_segment_def by (intro exI [of _ "1 / 2"]) simp
  then have "stroke_meets (strictly_in (box_rect demo_box)) (demo_stroke (90, 110) (200, 110))"
    unfolding stroke_meets_def
    by (intro exI [of _ "(145, 110)"])
       (simp add: strictly_in_def demo_stroke_def stroke_start_def stroke_end_def box_rect_def demo_box_def)
  then have "list_ex (stroke_meets (strictly_in (box_rect demo_box))) [demo_stroke (90, 110) (200, 110)]"
    "list_ex (stroke_meets (in_rect (box_rect demo_box))) [demo_stroke (90, 110) (200, 110)]"
    using stroke_meets_mono [OF _ strictly_in_rect] by simp_all
  moreover have "\<not> list_ex (stroke_meets (in_rect (buffered 4 (box_rect demo_box)))) [demo_stroke (90, 210) (200, 210)]"
    by (simp add: stroke_meets_def in_rect_def on_segment_def demo_stroke_def stroke_start_def stroke_end_def
        box_rect_def demo_box_def buffered_def)
  ultimately show ?thesis using no_strike_missed [OF size] by blast
qed

text \<open>On the border the test depends on the direction in which the stroke was recorded, although the code
  calls it exact: a line along the top edge, longer than the edge, is a hit from left to right and
  none from right to left (it is still detected, as ambiguous).\<close>

lemma border_depends_on_direction:
  "stroke_hits (box_rect demo_box) (demo_stroke (200, 100) (90, 100)) \<noteq>
   stroke_hits (box_rect demo_box) (demo_stroke (90, 100) (200, 100))"
  by (simp add: stroke_hits_def line_intersects_rect_def in_rect_def rect_edges_def segments_cross_def ccw_def
      demo_stroke_def stroke_start_def stroke_end_def box_rect_def demo_box_def)

end
