(* ===== verification/Table_Extractor.thy ===== *)
theory Table_Extractor
  imports Strikethrough Calibration "HOL-Library.Product_Lexorder"
begin

text \<open>
  The OCR data structures (\<open>extraction/domain/ocr/interfaces.py\<close>) and the ruled-table extractor
  (\<open>extraction/domain/ocr/table_extractor.py\<close>): line clustering, the grid of cells, the placement of
  tokens, merged cells, and the result as tokens.
\<close>

section \<open>OCR results\<close>

record ocr_token =
  tk_text :: string
  tk_confidence :: real
  tk_bbox :: "real_bbox option"
  tk_top_k :: "(string \<times> real) list"

record ocr_result =
  or_page_id :: string
  or_tokens :: "ocr_token list"
  or_full_text :: string
  or_engine_id :: string
  or_model_version :: string
  or_config_version :: string

section \<open>Cells and tables\<close>

record table_cell =
  tc_row_index :: nat
  tc_col_index :: nat
  tc_bbox :: real_bbox
  tc_row_span :: nat
  tc_col_span :: nat
  tc_text :: string
  tc_tokens :: "ocr_token list"
  tc_confidence :: real

record table_structure =
  ts_table_id :: string
  ts_bbox :: real_bbox
  ts_num_rows :: nat
  ts_num_cols :: nat
  ts_cells :: "table_cell list"
  ts_confidence :: real

definition put_cell :: "nat \<Rightarrow> nat \<Rightarrow> table_cell option list list \<Rightarrow> table_cell \<Rightarrow> table_cell option list list" where
  "put_cell num_rows num_cols grid cell =
     foldl (\<lambda>g r. foldl (\<lambda>g c. g[r := (g ! r)[c := Some cell]]) g
                    [tc_col_index cell..<min num_cols (tc_col_index cell + tc_col_span cell)])
       grid [tc_row_index cell..<min num_rows (tc_row_index cell + tc_row_span cell)]"

definition to_grid :: "table_structure \<Rightarrow> table_cell option list list" where
  "to_grid t =
     foldl (put_cell (ts_num_rows t) (ts_num_cols t))
       (replicate (ts_num_rows t) (replicate (ts_num_cols t) None)) (ts_cells t)"

definition cell_label :: "table_cell \<Rightarrow> string" where
  "cell_label c = ''[R'' @ str_of_int (int (tc_row_index c)) @ ''C'' @ str_of_int (int (tc_col_index c)) @ '']''"

definition cell_token :: "table_cell \<Rightarrow> ocr_token" where
  "cell_token c =
     \<lparr>tk_text = cell_label c @ '' '' @ tc_text c, tk_confidence = tc_confidence c, tk_bbox = Some (tc_bbox c),
      tk_top_k = [(tc_text c, tc_confidence c)]\<rparr>"

definition to_ocr_result :: "table_structure \<Rightarrow> string \<Rightarrow> string \<Rightarrow> string \<Rightarrow> string \<Rightarrow> ocr_result" where
  "to_ocr_result t page_id engine_id model_version config_version =
     (let cells = filter (\<lambda>c. tc_text c \<noteq> []) (sort_key (\<lambda>c. (tc_row_index c, tc_col_index c)) (ts_cells t));
          tokens = map cell_token cells
      in \<lparr>or_page_id = page_id, or_tokens = tokens, or_full_text = join ''\<newline>'' (map tk_text tokens),
          or_engine_id = engine_id, or_model_version = model_version, or_config_version = config_version\<rparr>)"

section \<open>The extractor\<close>

definition axis_low :: "string \<Rightarrow> real_bbox \<Rightarrow> real" where
  "axis_low axis b = (if axis = ''y'' then bx_y b else bx_x b)"

definition axis_high :: "string \<Rightarrow> real_bbox \<Rightarrow> real" where
  "axis_high axis b = (if axis = ''y'' then bx_y b + bx_h b else bx_x b + bx_w b)"

definition token_boxes :: "ocr_token list \<Rightarrow> real_bbox list" where
  "token_boxes tokens = map (the \<circ> tk_bbox) (filter (\<lambda>t. tk_bbox t \<noteq> None) tokens)"

fun cluster_lines :: "real \<Rightarrow> real list \<Rightarrow> real list \<Rightarrow> real list" where
  "cluster_lines tolerance [] clustered = clustered"
| "cluster_lines tolerance (c # cs) clustered =
     cluster_lines tolerance cs
       (if clustered = [] \<or> c - last clustered \<ge> tolerance then clustered @ [c] else clustered)"

definition cluster_coordinates :: "real \<Rightarrow> real list \<Rightarrow> ocr_token list \<Rightarrow> string \<Rightarrow> real_bbox \<Rightarrow> real list" where
  \<comment> \<open>no explicit lines is the empty list\<close>
  "cluster_coordinates tolerance explicit tokens axis table_bbox =
     (let raw = (if explicit \<noteq> [] then explicit
                 else [axis_low axis table_bbox, axis_high axis table_bbox]
                      @ concat (map (\<lambda>b. [axis_low axis b, axis_high axis b]) (token_boxes tokens)));
          clustered = cluster_lines tolerance (sort (remdups raw)) []
      in if length clustered < 2 then [axis_low axis table_bbox, axis_high axis table_bbox] else clustered)"

definition min_default :: "real \<Rightarrow> real list \<Rightarrow> real" where
  "min_default d xs = (if xs = [] then d else Min (set xs))"

definition max_default :: "real \<Rightarrow> real list \<Rightarrow> real" where
  "max_default d xs = (if xs = [] then d else Max (set xs))"

definition bounding_table_box :: "ocr_token list \<Rightarrow> real_bbox" where
  "bounding_table_box tokens =
     (if tokens \<noteq> [] then
        (let boxes = token_boxes tokens;
             min_x = min_default 0 (map bx_x boxes);
             min_y = min_default 0 (map bx_y boxes);
             max_x = max_default 1000 (map (\<lambda>b. bx_x b + bx_w b) boxes);
             max_y = max_default 1000 (map (\<lambda>b. bx_y b + bx_h b) boxes)
         in \<lparr>bx_x = min_x, bx_y = min_y, bx_w = max_x - min_x, bx_h = max_y - min_y\<rparr>)
      else \<lparr>bx_x = 0, bx_y = 0, bx_w = 1000, bx_h = 1000\<rparr>)"

definition empty_cell :: "real list \<Rightarrow> real list \<Rightarrow> nat \<Rightarrow> nat \<Rightarrow> table_cell" where
  "empty_cell x_bounds y_bounds r c =
     \<lparr>tc_row_index = r, tc_col_index = c,
      tc_bbox = \<lparr>bx_x = x_bounds ! c, bx_y = y_bounds ! r, bx_w = x_bounds ! Suc c - x_bounds ! c,
                 bx_h = y_bounds ! Suc r - y_bounds ! r\<rparr>,
      tc_row_span = 1, tc_col_span = 1, tc_text = [], tc_tokens = [], tc_confidence = 1\<rparr>"

definition grid_cells :: "real list \<Rightarrow> real list \<Rightarrow> nat \<Rightarrow> nat \<Rightarrow> table_cell list" where
  "grid_cells x_bounds y_bounds num_rows num_cols =
     concat (map (\<lambda>r. map (empty_cell x_bounds y_bounds r) [0..<num_cols]) [0..<num_rows])"

definition start_point :: "real_bbox \<Rightarrow> point" where
  "start_point b = (bx_x b + min 5 (bx_w b / 2), bx_y b + min 5 (bx_h b / 2))"

fun place_token :: "ocr_token \<Rightarrow> point \<Rightarrow> table_cell list \<Rightarrow> table_cell list" where
  \<comment> \<open>to the first cell that contains the point, if any\<close>
  "place_token t p [] = []"
| "place_token t p (c # cs) =
     (if in_rect (box_rect (tc_bbox c)) p then c\<lparr>tc_tokens := tc_tokens c @ [t]\<rparr> # cs else c # place_token t p cs)"

definition place_if_boxed :: "table_cell list \<Rightarrow> ocr_token \<Rightarrow> table_cell list" where
  "place_if_boxed cells t =
     (case tk_bbox t of None \<Rightarrow> cells | Some b \<Rightarrow> place_token t (start_point b) cells)"

definition token_position :: "ocr_token \<Rightarrow> real \<times> real" where
  "token_position t = (case tk_bbox t of Some b \<Rightarrow> (bx_y b, bx_x b) | None \<Rightarrow> (0, 0))"

definition finish_cell :: "table_cell \<Rightarrow> table_cell" where
  "finish_cell c =
     (if tc_tokens c \<noteq> [] then
        (let tokens = sort_key token_position (tc_tokens c)
         in c\<lparr>tc_tokens := tokens, tc_text := join '' '' (map tk_text tokens),
              tc_confidence := round_digits 4 (sum_list (map tk_confidence tokens) / real (length tokens))\<rparr>)
      else c)"

definition associate_tokens_to_cells :: "ocr_token list \<Rightarrow> table_cell list \<Rightarrow> table_cell list" where
  "associate_tokens_to_cells tokens cells = map finish_cell (foldl place_if_boxed cells tokens)"

definition cols_spanned :: "table_cell \<Rightarrow> real list \<Rightarrow> real_bbox \<Rightarrow> nat" where
  "cols_spanned c x_bounds b =
     length (filter (\<lambda>x. bx_x (tc_bbox c) < x \<and> x < bx_x b + bx_w b) x_bounds)"

definition widen_cell :: "real list \<Rightarrow> table_cell \<Rightarrow> real_bbox \<Rightarrow> table_cell" where
  "widen_cell x_bounds c b =
     (if cols_spanned c x_bounds b > 0
      then c\<lparr>tc_col_span := max (tc_col_span c) (1 + cols_spanned c x_bounds b)\<rparr> else c)"

definition span_cell :: "real list \<Rightarrow> table_cell \<Rightarrow> table_cell" where
  "span_cell x_bounds c = foldl (widen_cell x_bounds) c (token_boxes (tc_tokens c))"

definition detect_merged_cells :: "table_cell list \<Rightarrow> real list \<Rightarrow> table_cell list" where
  "detect_merged_cells cells x_bounds = map (span_cell x_bounds) cells"

definition table_confidence :: "table_cell list \<Rightarrow> real" where
  "table_confidence cells =
     (let confs = map tc_confidence (filter (\<lambda>c. tc_tokens c \<noteq> []) cells)
      in if confs \<noteq> [] then sum_list confs / real (length confs) else 1)"

definition extract_table ::
  "env \<Rightarrow> real \<Rightarrow> ocr_token list \<Rightarrow> real_bbox option \<Rightarrow> real list \<Rightarrow> real list \<Rightarrow> string option
    \<Rightarrow> 'a world_scheme \<Rightarrow> table_structure \<times> 'a world_scheme"
where
  "extract_table E tolerance ocr_tokens table_bbox horizontal_lines vertical_lines table_id w =
     (let (t_id, w) = (if truthy table_id then (or_empty table_id, w)
                       else (let (u, w) = draw_uuid E w in (''tbl_'' @ take 8 (filter (\<lambda>c. c \<noteq> CHR ''-'') u), w)));
          box = (case table_bbox of Some b \<Rightarrow> b | None \<Rightarrow> bounding_table_box ocr_tokens);
          y_bounds = cluster_coordinates tolerance horizontal_lines ocr_tokens ''y'' box;
          x_bounds = cluster_coordinates tolerance vertical_lines ocr_tokens ''x'' box;
          num_rows = max 1 (length y_bounds - 1);
          num_cols = max 1 (length x_bounds - 1);
          cells = detect_merged_cells
                    (associate_tokens_to_cells ocr_tokens (grid_cells x_bounds y_bounds num_rows num_cols)) x_bounds
      in (\<lparr>ts_table_id = t_id, ts_bbox = box, ts_num_rows = num_rows, ts_num_cols = num_cols, ts_cells = cells,
           ts_confidence = round_digits 4 (table_confidence cells)\<rparr>, w))"

definition sample_token :: "string \<Rightarrow> real \<Rightarrow> real \<Rightarrow> real \<Rightarrow> ocr_token" where
  "sample_token text conf x width =
     \<lparr>tk_text = text, tk_confidence = conf, tk_bbox = Some \<lparr>bx_x = x, bx_y = 100, bx_w = width, bx_h = 30\<rparr>,
      tk_top_k = [(text, conf)]\<rparr>"

definition extract_table_cells ::
  "env \<Rightarrow> string \<Rightarrow> string \<Rightarrow> string \<Rightarrow> ocr_result option \<Rightarrow> real list \<Rightarrow> real list
    \<Rightarrow> 'a world_scheme \<Rightarrow> ocr_result \<times> 'a world_scheme"
where
  "extract_table_cells E page_id config_version model_version result horizontal_lines vertical_lines w =
     (let samples = [sample_token ''Survey 45/1'' 0.96 50 100, sample_token ''Share 1/2'' 0.94 160 80];
          input_tokens = (case result of Some r \<Rightarrow> if or_tokens r \<noteq> [] then or_tokens r else samples | None \<Rightarrow> samples);
          (table, w) = extract_table E 8 input_tokens None horizontal_lines vertical_lines None w
      in (to_ocr_result table page_id ''table_extractor'' model_version config_version, w))"

section \<open>Lemmas\<close>

subsection \<open>Lines\<close>

text \<open>Lines are in order, no two closer than the tolerance, and each coordinate is at a line or less than
  the tolerance after one.\<close>

lemma cluster_lines_props:
  assumes "sorted cs" and "sorted ls" and "0 < tolerance" and "\<And>l c. l \<in> set ls \<Longrightarrow> c \<in> set cs \<Longrightarrow> l \<le> c"
  shows "sorted (cluster_lines tolerance cs ls) \<and> set (cluster_lines tolerance cs ls) \<subseteq> set ls \<union> set cs \<and>
    (ls \<noteq> [] \<longrightarrow> hd (cluster_lines tolerance cs ls) = hd ls) \<and>
    (cs \<noteq> [] \<or> ls \<noteq> [] \<longrightarrow> cluster_lines tolerance cs ls \<noteq> []) \<and>
    (\<forall>c \<in> set cs. \<exists>l \<in> set (cluster_lines tolerance cs ls). l \<le> c \<and> c < l + tolerance) \<and>
    set ls \<subseteq> set (cluster_lines tolerance cs ls)"
  using assms
proof (induction tolerance cs ls rule: cluster_lines.induct)
  case (2 tolerance c cs ls)
  have srt: "sorted cs" "\<And>d. d \<in> set cs \<Longrightarrow> c \<le> d" using "2.prems"(1) by simp_all
  show ?case
  proof (cases "ls = [] \<or> c - last ls \<ge> tolerance")
    case True
    let ?r = "cluster_lines tolerance cs (ls @ [c])"
    have eq: "cluster_lines tolerance (c # cs) ls = ?r" using True by simp
    have ls: "sorted (ls @ [c])" using "2.prems"(2,4) by (simp add: sorted_append)
    have le: "\<And>l d. l \<in> set (ls @ [c]) \<Longrightarrow> d \<in> set cs \<Longrightarrow> l \<le> d" using "2.prems"(4) srt(2) by auto
    have IH: "sorted ?r" "set ?r \<subseteq> set (ls @ [c]) \<union> set cs" "hd ?r = hd (ls @ [c])" "?r \<noteq> []"
      "\<forall>d \<in> set cs. \<exists>l \<in> set ?r. l \<le> d \<and> d < l + tolerance" "set (ls @ [c]) \<subseteq> set ?r"
      using "2.IH" [unfolded if_P [OF True], OF srt(1) ls "2.prems"(3) le] by simp_all
    have "\<exists>l \<in> set ?r. l \<le> c \<and> c < l + tolerance" using IH(6) "2.prems"(3) by (intro bexI [of _ c]) simp_all
    then show ?thesis unfolding eq using IH by (simp add: subset_eq)
  next
    case False
    let ?r = "cluster_lines tolerance cs ls"
    have eq: "cluster_lines tolerance (c # cs) ls = ?r" using False by simp
    have le: "\<And>l d. l \<in> set ls \<Longrightarrow> d \<in> set cs \<Longrightarrow> l \<le> d" using "2.prems"(4) by auto
    have IH: "sorted ?r" "set ?r \<subseteq> set ls \<union> set cs" "hd ?r = hd ls" "?r \<noteq> []"
      "\<forall>d \<in> set cs. \<exists>l \<in> set ?r. l \<le> d \<and> d < l + tolerance" "set ls \<subseteq> set ?r"
      using "2.IH" [unfolded if_not_P [OF False], OF srt(1) "2.prems"(2,3) le] False by simp_all
    have "last ls \<in> set ls" using False by simp
    then have "\<exists>l \<in> set ?r. l \<le> c \<and> c < l + tolerance"
      using IH(6) False "2.prems"(4) by (intro bexI [of _ "last ls"]) auto
    then show ?thesis unfolding eq using IH False by (simp add: subset_eq)
  qed
qed simp

lemma sorted_first: "sorted xs \<Longrightarrow> xs \<noteq> [] \<Longrightarrow> x \<in> set xs \<Longrightarrow> hd xs \<le> (x :: real)"
  by (cases xs) auto

lemma interval_of:
  assumes "hd bs \<le> v" and "v \<le> last bs" and "2 \<le> length bs"
  shows "\<exists>i. Suc i < length bs \<and> bs ! i \<le> v \<and> v \<le> (bs ! Suc i :: real)"
  using assms
proof (induction bs)
  case (Cons b bs)
  show ?case
  proof (cases "length bs = 1 \<or> v \<le> hd bs")
    case True
    then have "v \<le> hd bs" using Cons.prems by (cases bs) (auto split: if_splits)
    then show ?thesis using Cons.prems by (intro exI [of _ 0]) (cases bs, auto)
  next
    case False
    then have "2 \<le> length bs" using Cons.prems(3) by simp
    then obtain i where "Suc i < length bs" "bs ! i \<le> v" "v \<le> bs ! Suc i"
      using Cons.IH Cons.prems False by (cases bs) auto
    then show ?thesis by (intro exI [of _ "Suc i"]) simp
  qed
qed simp

subsection \<open>Placement\<close>

definition cell_contains :: "point \<Rightarrow> table_cell \<Rightarrow> bool" where
  "cell_contains p c \<longleftrightarrow> in_rect (box_rect (tc_bbox c)) p"

definition placeable :: "table_cell list \<Rightarrow> ocr_token \<Rightarrow> bool" where
  "placeable cells t \<longleftrightarrow> (case tk_bbox t of None \<Rightarrow> False | Some b \<Rightarrow> list_ex (cell_contains (start_point b)) cells)"

definition table_tokens :: "table_cell list \<Rightarrow> ocr_token multiset" where
  "table_tokens cells = mset (concat (map tc_tokens cells))"

definition own_tokens :: "table_cell \<Rightarrow> bool" where
  \<comment> \<open>every token of the cell starts in it\<close>
  "own_tokens c \<longleftrightarrow> (\<forall>t \<in> set (tc_tokens c). \<exists>b. tk_bbox t = Some b \<and> cell_contains (start_point b) c)"

definition cell_frame :: "table_cell \<Rightarrow> nat \<times> nat \<times> real_bbox" where
  "cell_frame c = (tc_row_index c, tc_col_index c, tc_bbox c)"

lemma place_token_props:
  "map cell_frame (place_token t p cs) = map cell_frame cs"
  "table_tokens (place_token t p cs) = (if list_ex (cell_contains p) cs then add_mset t else id) (table_tokens cs)"
  by (induction cs) (auto simp: cell_contains_def table_tokens_def cell_frame_def)

lemma place_token_own:
  "list_all own_tokens cs \<Longrightarrow> tk_bbox t = Some b \<Longrightarrow> list_all own_tokens (place_token t (start_point b) cs)"
  by (induction cs) (auto simp: own_tokens_def cell_contains_def)

lemma list_ex_frame:
  "map cell_frame cs = map cell_frame ds \<Longrightarrow> list_ex (cell_contains p) cs \<longleftrightarrow> list_ex (cell_contains p) ds"
  by (induction cs ds rule: list_induct2') (auto simp: cell_frame_def cell_contains_def)

lemma place_all_props:
  assumes "list_all own_tokens cells"
  shows "map cell_frame (foldl place_if_boxed cells tokens) = map cell_frame cells \<and>
    table_tokens (foldl place_if_boxed cells tokens) = table_tokens cells + filter_mset (placeable cells) (mset tokens) \<and>
    list_all own_tokens (foldl place_if_boxed cells tokens)"
proof (induction tokens rule: rev_induct)
  case (snoc t tokens)
  let ?cs = "foldl place_if_boxed cells tokens"
  from snoc have IH: "map cell_frame ?cs = map cell_frame cells"
    "table_tokens ?cs = table_tokens cells + filter_mset (placeable cells) (mset tokens)" "list_all own_tokens ?cs" by simp_all
  show ?case
  proof (cases "tk_bbox t")
    case None
    then have "place_if_boxed ?cs t = ?cs" "\<not> placeable cells t" by (simp_all add: place_if_boxed_def placeable_def)
    then show ?thesis using IH by simp
  next
    case (Some b)
    then have "place_if_boxed ?cs t = place_token t (start_point b) ?cs"
      "placeable cells t \<longleftrightarrow> list_ex (cell_contains (start_point b)) ?cs"
      using list_ex_frame [OF IH(1), of "start_point b"] by (simp_all add: place_if_boxed_def placeable_def)
    then show ?thesis
      using IH place_token_props [of t "start_point b" ?cs] place_token_own [OF IH(3) Some] by simp
  qed
qed (use assms in simp)

lemma finish_cell_props:
  "cell_frame (finish_cell c) = cell_frame c" "mset (tc_tokens (finish_cell c)) = mset (tc_tokens c)"
  "own_tokens (finish_cell c) \<longleftrightarrow> own_tokens c"
  by (simp_all add: finish_cell_def cell_frame_def own_tokens_def cell_contains_def Let_def)

lemma span_cell_props:
  "cell_frame (span_cell xs c) = cell_frame c" "tc_tokens (span_cell xs c) = tc_tokens c"
  "tc_text (span_cell xs c) = tc_text c" "own_tokens (span_cell xs c) \<longleftrightarrow> own_tokens c"
  "tc_col_span c \<le> tc_col_span (span_cell xs c)" "tc_row_span (span_cell xs c) = tc_row_span c"
proof -
  have step: "cell_frame (widen_cell xs d b) = cell_frame d" "tc_tokens (widen_cell xs d b) = tc_tokens d"
    "tc_text (widen_cell xs d b) = tc_text d" "tc_row_span (widen_cell xs d b) = tc_row_span d"
    "tc_col_span d \<le> tc_col_span (widen_cell xs d b)" for d b
    by (simp_all add: widen_cell_def cell_frame_def)
  have *: "cell_frame (foldl (widen_cell xs) c bs) = cell_frame c \<and> tc_tokens (foldl (widen_cell xs) c bs) = tc_tokens c \<and>
      tc_text (foldl (widen_cell xs) c bs) = tc_text c \<and> tc_col_span c \<le> tc_col_span (foldl (widen_cell xs) c bs) \<and>
      tc_row_span (foldl (widen_cell xs) c bs) = tc_row_span c" for bs
    by (induction bs rule: rev_induct) (simp_all add: step order_trans [OF _ step(5)])
  then show "cell_frame (span_cell xs c) = cell_frame c" "tc_tokens (span_cell xs c) = tc_tokens c"
    "tc_text (span_cell xs c) = tc_text c" "tc_col_span c \<le> tc_col_span (span_cell xs c)"
    "tc_row_span (span_cell xs c) = tc_row_span c" by (simp_all add: span_cell_def)
  then show "own_tokens (span_cell xs c) \<longleftrightarrow> own_tokens c"
    by (simp add: own_tokens_def cell_contains_def cell_frame_def)
qed

lemma table_tokens_sum: "table_tokens cells = sum_list (map (mset \<circ> tc_tokens) cells)"
  by (induction cells) (simp_all add: table_tokens_def)

subsection \<open>The grid\<close>

lemma grid_covers:
  assumes "sorted xs" "sorted ys" "2 \<le> length xs" "2 \<le> length ys"
  shows "list_ex (cell_contains p) (grid_cells xs ys (length ys - 1) (length xs - 1)) \<longleftrightarrow>
     hd xs \<le> fst p \<and> fst p \<le> last xs \<and> hd ys \<le> snd p \<and> snd p \<le> last ys" (is "?L \<longleftrightarrow> ?R")
proof -
  have cell: "cell_contains p (empty_cell xs ys r c) \<longleftrightarrow>
      xs ! c \<le> fst p \<and> fst p \<le> xs ! Suc c \<and> ys ! r \<le> snd p \<and> snd p \<le> ys ! Suc r" for r c
    by (simp add: cell_contains_def empty_cell_def box_rect_def in_rect_def)
  have L: "?L \<longleftrightarrow> (\<exists>r < length ys - 1. \<exists>c < length xs - 1.
      xs ! c \<le> fst p \<and> fst p \<le> xs ! Suc c \<and> ys ! r \<le> snd p \<and> snd p \<le> ys ! Suc r)"
  proof -
    have "?L \<longleftrightarrow> (\<exists>r < length ys - 1. \<exists>c < length xs - 1. cell_contains p (empty_cell xs ys r c))"
    proof -
      have "(\<exists>x \<in> set (concat (map (\<lambda>r. map (f r) cs) rs)). P x) \<longleftrightarrow> (\<exists>r \<in> set rs. \<exists>c \<in> set cs. P (f r c))"
        for f :: "nat \<Rightarrow> nat \<Rightarrow> table_cell" and cs rs P by auto
      moreover have "(\<exists>r \<in> set [0..<n]. P r) \<longleftrightarrow> (\<exists>r < n. P r)" for n and P :: "nat \<Rightarrow> bool" by auto
      ultimately show ?thesis unfolding grid_cells_def list_ex_iff by simp
    qed
    then show ?thesis unfolding cell .
  qed
  have ends: "hd zs \<le> zs ! i \<and> zs ! i \<le> last zs" if "sorted zs" "i < length zs" for zs :: "real list" and i
    using that sorted_first [of zs "zs ! i"] by (cases "zs = []")
      (auto simp: last_conv_nth sorted_iff_nth_mono)
  show ?thesis
  proof
    assume ?L
    then obtain r c where rc: "r < length ys - 1" "c < length xs - 1" "xs ! c \<le> fst p" "fst p \<le> xs ! Suc c"
      "ys ! r \<le> snd p" "snd p \<le> ys ! Suc r" unfolding L by blast
    then have i: "c < length xs" "Suc c < length xs" "r < length ys" "Suc r < length ys" by simp_all
    show ?R
      using rc(3-6) ends [OF assms(1) i(1)] ends [OF assms(1) i(2)] ends [OF assms(2) i(3)] ends [OF assms(2) i(4)]
      by linarith
  next
    assume R: ?R
    obtain c where c: "Suc c < length xs" "xs ! c \<le> fst p" "fst p \<le> xs ! Suc c" using interval_of R assms(3) by blast
    obtain r where r: "Suc r < length ys" "ys ! r \<le> snd p" "snd p \<le> ys ! Suc r" using interval_of R assms(4) by blast
    show ?L unfolding L by (intro exI [of _ r] conjI exI [of _ c]) (use c r in simp_all)
  qed
qed

definition sized :: "real_bbox \<Rightarrow> bool" where
  "sized b \<longleftrightarrow> 0 \<le> bx_w b \<and> 0 \<le> bx_h b"

lemma axis_le: "sized b \<Longrightarrow> axis_low axis b \<le> axis_high axis b"
  by (simp add: axis_low_def axis_high_def sized_def)

lemma cluster_coordinates_props:
  assumes "0 < tolerance" and "sized box" and bs_def: "bs = cluster_coordinates tolerance explicit tokens axis box"
  shows "sorted bs" and "2 \<le> length bs"
    and "explicit = [] \<Longrightarrow> b \<in> set (box # token_boxes tokens) \<Longrightarrow> x \<in> {axis_low axis b, axis_high axis b} \<Longrightarrow>
      axis_low axis box \<le> x \<Longrightarrow> x \<le> axis_high axis box \<Longrightarrow> hd bs \<le> x \<and> x < last bs + tolerance"
proof -
  define raw where "raw = (if explicit \<noteq> [] then explicit
      else [axis_low axis box, axis_high axis box] @ concat (map (\<lambda>b. [axis_low axis b, axis_high axis b]) (token_boxes tokens)))"
  let ?c = "cluster_lines tolerance (sort (remdups raw)) []"
  have bs: "bs = (if length ?c < 2 then [axis_low axis box, axis_high axis box] else ?c)"
    by (simp add: bs_def cluster_coordinates_def raw_def)
  note p = cluster_lines_props [of "sort (remdups raw)" "[]" tolerance, simplified, OF assms(1)]
  show "sorted bs" "2 \<le> length bs" using p axis_le [OF assms(2)] by (simp_all add: bs)
  assume x: "explicit = []" "b \<in> set (box # token_boxes tokens)" "x \<in> {axis_low axis b, axis_high axis b}"
    "axis_low axis box \<le> x" "x \<le> axis_high axis box"
  then have "x \<in> set raw" by (auto simp: raw_def)
  then obtain l where l: "l \<in> set ?c" "l \<le> x" "x < l + tolerance" using p by blast
  show "hd bs \<le> x \<and> x < last bs + tolerance"
  proof (cases "length ?c < 2")
    case True
    then show ?thesis using x assms(1) by (simp add: bs)
  next
    case False
    then have "?c \<noteq> []" by auto
    then have "hd ?c \<le> l" "l \<le> last ?c" using sorted_first [of ?c l] p l(1) 
      by (auto simp: last_conv_nth in_set_conv_nth sorted_iff_nth_mono)
    then show ?thesis using l False by (simp add: bs)
  qed
qed

lemma bounding_box_covers:
  assumes "list_all sized (token_boxes tokens)" and "b \<in> set (token_boxes tokens)"
  shows "axis_low axis (bounding_table_box tokens) \<le> axis_low axis b"
    "axis_high axis b \<le> axis_high axis (bounding_table_box tokens)"
proof -
  have "tokens \<noteq> []" "token_boxes tokens \<noteq> []" using assms(2) by (auto simp: token_boxes_def filter_empty_conv)
  then show "axis_low axis (bounding_table_box tokens) \<le> axis_low axis b"
    "axis_high axis b \<le> axis_high axis (bounding_table_box tokens)"
    using assms(2)
    by (auto simp: axis_low_def axis_high_def bounding_table_box_def Let_def min_default_def max_default_def
        intro!: Min_le Max_ge)
qed

lemma bounding_box_sized:
  assumes "list_all sized (token_boxes tokens)"
  shows "sized (bounding_table_box tokens)"
proof (cases "token_boxes tokens")
  case (Cons b bs)
  then have b: "b \<in> set (token_boxes tokens)" by simp
  then have "sized b" using assms by (auto simp: list_all_iff)
  then have "axis_low axis (bounding_table_box tokens) \<le> axis_high axis (bounding_table_box tokens)" for axis
    using bounding_box_covers [OF assms b, of axis] axis_le [of b axis] by linarith
  from this [of "''x''"] this [of "''y''"] show ?thesis by (simp add: sized_def axis_low_def axis_high_def)
qed (simp add: bounding_table_box_def min_default_def max_default_def sized_def)

section \<open>Properties\<close>

definition starts_within :: "real list \<Rightarrow> real list \<Rightarrow> ocr_token \<Rightarrow> bool" where
  "starts_within xs ys t \<longleftrightarrow>
     (case tk_bbox t of None \<Rightarrow> False
      | Some b \<Rightarrow> hd xs \<le> fst (start_point b) \<and> fst (start_point b) \<le> last xs \<and>
                  hd ys \<le> snd (start_point b) \<and> snd (start_point b) \<le> last ys)"

lemma unplaced_near_end:
  assumes "0 < tolerance" and "list_all sized (token_boxes tokens)" and box: "box = bounding_table_box tokens"
    and xs: "xs = cluster_coordinates tolerance [] tokens ''x'' box" and ys: "ys = cluster_coordinates tolerance [] tokens ''y'' box"
    and "tk \<in> set tokens" and tk: "tk_bbox tk = Some b" and "\<not> starts_within xs ys tk"
  shows "fst (start_point b) > bx_x box + bx_w box - tolerance \<or> snd (start_point b) > bx_y box + bx_h box - tolerance"
proof -
  have sized: "sized box" unfolding box using assms(2) by (rule bounding_box_sized)
  note cx = cluster_coordinates_props [OF assms(1) sized xs]
  note cy = cluster_coordinates_props [OF assms(1) sized ys]
  have b: "b \<in> set (token_boxes tokens)" using assms(6) tk by (force simp: token_boxes_def)
  note cov = bounding_box_covers [OF assms(2) b, folded box]
  have sb: "sized b" using assms(2) b by (auto simp: list_all_iff)
  have st: "axis_low ''x'' b \<le> fst (start_point b)" "axis_low ''y'' b \<le> snd (start_point b)"
    using sb by (auto simp: axis_low_def start_point_def sized_def)
  have hi: "axis_low axis b \<le> axis_high axis box" for axis
    using axis_le [OF sb, of axis] cov(2) [of axis] by (rule order_trans)
  have first: "hd xs \<le> axis_low ''x'' b" "hd ys \<le> axis_low ''y'' b"
    using cx(3) [OF refl, of b "axis_low ''x'' b"] cy(3) [OF refl, of b "axis_low ''y'' b"] b cov(1) hi
    by simp_all
  have top: "axis_high ''x'' box < last xs + tolerance" "axis_high ''y'' box < last ys + tolerance"
    using cx(3) [OF refl, of box "axis_high ''x'' box"] cy(3) [OF refl, of box "axis_high ''y'' box"]
      axis_le [OF sized] by auto
  from tk assms(8) first st have "last xs < fst (start_point b) \<or> last ys < snd (start_point b)"
    by (auto simp: starts_within_def)
  then show ?thesis using top by (auto simp: axis_high_def)
qed

text \<open>C37. Cells keep their tokens. A table has the cells of the grid between its lines, row by row. Every
  token with a box that starts between the outer lines is in exactly one cell, once, and starts in
  that cell; every other token is in none. Without explicit lines a token with a box is left out only
  if it starts within the line tolerance of the right or the lower end of the table.\<close>

theorem cells_keep_tokens:
  assumes "extract_table E tolerance tokens table_bbox hs vs tid w = (t, w')"
    and "0 < tolerance" and "list_all sized (token_boxes tokens)" and "pred_option sized table_bbox"
  shows "\<exists>xs ys. sorted xs \<and> sorted ys \<and> 2 \<le> length xs \<and> 2 \<le> length ys \<and>
    ts_num_rows t = length ys - 1 \<and> ts_num_cols t = length xs - 1 \<and>
    map cell_frame (ts_cells t) = map cell_frame (grid_cells xs ys (ts_num_rows t) (ts_num_cols t)) \<and>
    mset (concat (map tc_tokens (ts_cells t))) = filter_mset (starts_within xs ys) (mset tokens) \<and>
    list_all own_tokens (ts_cells t) \<and>
    (hs = [] \<and> vs = [] \<and> table_bbox = None \<longrightarrow>
       (\<forall>tk \<in> set tokens. \<forall>b. tk_bbox tk = Some b \<and> \<not> starts_within xs ys tk \<longrightarrow>
          fst (start_point b) > bx_x (ts_bbox t) + bx_w (ts_bbox t) - tolerance \<or>
          snd (start_point b) > bx_y (ts_bbox t) + bx_h (ts_bbox t) - tolerance))"
proof -
  define box where "box = (case table_bbox of Some b \<Rightarrow> b | None \<Rightarrow> bounding_table_box tokens)"
  define ys where "ys = cluster_coordinates tolerance hs tokens ''y'' box"
  define xs where "xs = cluster_coordinates tolerance vs tokens ''x'' box"
  have sized: "sized box" using assms(3,4) bounding_box_sized by (auto simp: box_def split: option.splits)
  note cx = cluster_coordinates_props [OF assms(2) sized xs_def]
  note cy = cluster_coordinates_props [OF assms(2) sized ys_def]
  have dims: "max 1 (length ys - 1) = length ys - 1" "max 1 (length xs - 1) = length xs - 1"
    "max (Suc 0) (length ys - Suc 0) = length ys - Suc 0" "max (Suc 0) (length xs - Suc 0) = length xs - Suc 0"
    using cx(2) cy(2) by simp_all
  let ?g = "grid_cells xs ys (length ys - 1) (length xs - 1)"
  let ?placed = "foldl place_if_boxed ?g tokens"
  have t: "ts_num_rows t = length ys - 1" "ts_num_cols t = length xs - 1" "ts_bbox t = box"
    "ts_cells t = map (span_cell xs) (map finish_cell ?placed)"
    using assms(1) by (auto simp: extract_table_def Let_def dims box_def [symmetric] ys_def [symmetric] xs_def [symmetric]
        detect_merged_cells_def associate_tokens_to_cells_def split: prod.splits)
  have fresh: "list_all own_tokens ?g" "table_tokens ?g = {#}"
    by (auto simp: grid_cells_def list_all_iff own_tokens_def empty_cell_def table_tokens_def)
  note placed = place_all_props [OF fresh(1), of tokens]
  have frames: "map cell_frame (ts_cells t) = map cell_frame ?g"
    using placed unfolding t(4) by (simp add: comp_def span_cell_props finish_cell_props)
  have "table_tokens (ts_cells t) = table_tokens ?placed"
    unfolding t(4) table_tokens_sum by (simp add: comp_def span_cell_props finish_cell_props)
  moreover have "placeable ?g = starts_within xs ys"
    unfolding placeable_def starts_within_def grid_covers [OF cx(1) cy(1) cx(2) cy(2)] by (rule refl)
  ultimately have toks: "mset (concat (map tc_tokens (ts_cells t))) = filter_mset (starts_within xs ys) (mset tokens)"
    using placed fresh(2) by (simp add: table_tokens_def [symmetric])
  have own: "list_all own_tokens (ts_cells t)"
    using placed unfolding t(4) by (simp add: list_all_iff span_cell_props finish_cell_props)
  have lost: "fst (start_point b) > bx_x box + bx_w box - tolerance \<or> snd (start_point b) > bx_y box + bx_h box - tolerance"
    if "hs = []" "vs = []" "table_bbox = None" "tk \<in> set tokens" "tk_bbox tk = Some b" "\<not> starts_within xs ys tk" for tk b
    using unplaced_near_end [OF assms(2,3) _ _ _ that(4,5,6)] that(1-3) xs_def ys_def box_def by simp
  show ?thesis
    using cx(1,2) cy(1,2) t(1,2) frames toks own lost unfolding t(3)
    by (intro exI [of _ xs] exI [of _ ys]) (simp only: simp_thms conj_assoc, blast)
qed

definition demo_token :: "string \<Rightarrow> real \<Rightarrow> real \<Rightarrow> real \<Rightarrow> real \<Rightarrow> ocr_token" where
  "demo_token text x y width height =
     \<lparr>tk_text = text, tk_confidence = 0.9, tk_bbox = Some \<lparr>bx_x = x, bx_y = y, bx_w = width, bx_h = height\<rparr>, tk_top_k = []\<rparr>"

theorem cells_keep_tokens_witness:
  "\<exists>t w' xs ys. extract_table demo_env 8 [demo_token ''a'' 0 0 40 20, demo_token ''b'' 60 0 40 20] None [] [] None
       \<lparr>uuids_drawn = 0, clock_reads = 0\<rparr> = (t, w') \<and>
     mset (concat (map tc_tokens (ts_cells t))) =
       filter_mset (starts_within xs ys) (mset [demo_token ''a'' 0 0 40 20, demo_token ''b'' 60 0 40 20])"
proof -
  let ?ts = "[demo_token ''a'' 0 0 40 20, demo_token ''b'' 60 0 40 20]"
  obtain t w' where t: "extract_table demo_env 8 ?ts None [] [] None \<lparr>uuids_drawn = 0, clock_reads = 0\<rparr> = (t, w')"
    by fastforce
  have "list_all sized (token_boxes ?ts)" by (simp add: token_boxes_def demo_token_def sized_def)
  then obtain xs ys where "mset (concat (map tc_tokens (ts_cells t))) = filter_mset (starts_within xs ys) (mset ?ts)"
    using cells_keep_tokens [OF t] by fastforce
  with t show ?thesis by blast
qed

text \<open>A token that is lost. The last line found can lie below the tolerance short of the end of the table;
  here the first token ends at 100 and the second, four pixels high, lies between 101 and 105: no
  cell gets it, and its text is in no output.\<close>

lemma last_row_lost:
  "cluster_coordinates 8 [] [demo_token ''a'' 0 0 40 100, demo_token ''b'' 0 101 40 4] ''y''
     (bounding_table_box [demo_token ''a'' 0 0 40 100, demo_token ''b'' 0 101 40 4]) = [0, 100]"
  "snd (start_point (the (tk_bbox (demo_token ''b'' 0 101 40 4)))) = 103"
  by (simp_all add: cluster_coordinates_def bounding_table_box_def token_boxes_def demo_token_def axis_low_def
      axis_high_def min_default_def max_default_def start_point_def Let_def)

text \<open>Without an OCR result, or with an empty one, the extractor returns two readings of its own.\<close>

lemma sample_readings:
  "\<exists>r w'. extract_table_cells E page cv mv None [] [] w = (r, w') \<and>
     extract_table_cells E page cv mv (Some \<lparr>or_page_id = page, or_tokens = [], or_full_text = [], or_engine_id = [],
       or_model_version = [], or_config_version = []\<rparr>) [] [] w = (r, w')"
  by (simp add: extract_table_cells_def Let_def split: prod.splits)

end
