(* ===== verification/Text_Fields.thy ===== *)
theory Text_Fields
  imports Table_Extractor "HOL-Library.Sublist"
begin

text \<open>
  Field extraction: the part of Python's regular expressions the code uses, the normalisation of a
  field's text (\<open>extraction/domain/ocr/normalization.py\<close>), the classification of a line and the
  extractions of an OCR result (\<open>extraction/domain/ocr/field_extractor.py\<close>). Texts are ASCII where a
  pattern looks at them: other bytes are neither letters, digits nor spaces.
\<close>

section \<open>Regular expressions\<close>

text \<open>
  A match is an end position with the groups captured on the way. \<open>ends\<close> lists the matches that
  start at a position in the order in which a backtracking matcher tries them, so the first is the one
  \<open>re\<close> returns. Repetition is of single characters, which is all the patterns need.
\<close>

datatype regex =
    Any_Of "char \<Rightarrow> bool"
  | Empty_Match
  | Then regex regex
  | Or regex regex
  | Maybe regex
  | Many "char \<Rightarrow> bool"
  | Some_Of "char \<Rightarrow> bool"
  | Boundary
  | At_Start
  | At_End
  | Captured regex

type_synonym re_match = "nat \<times> (nat \<times> nat) list"

definition ascii_digit :: "char \<Rightarrow> bool" where
  "ascii_digit c \<longleftrightarrow> 48 \<le> (of_char c :: nat) \<and> (of_char c :: nat) \<le> 57"

definition ascii_letter :: "char \<Rightarrow> bool" where
  "ascii_letter c \<longleftrightarrow> 65 \<le> (of_char c :: nat) \<and> (of_char c :: nat) \<le> 90 \<or>
     97 \<le> (of_char c :: nat) \<and> (of_char c :: nat) \<le> 122"

definition word_char :: "char \<Rightarrow> bool" where
  "word_char c \<longleftrightarrow> ascii_digit c \<or> ascii_letter c \<or> c = CHR ''_''"

definition space_char :: "char \<Rightarrow> bool" where
  "space_char c \<longleftrightarrow> (of_char c :: nat) \<in> {9, 10, 11, 12, 13, 28, 29, 30, 31, 32}"

definition run_length :: "(char \<Rightarrow> bool) \<Rightarrow> string \<Rightarrow> nat \<Rightarrow> nat" where
  "run_length P s i = length (takeWhile P (drop i s))"

definition word_at :: "string \<Rightarrow> nat \<Rightarrow> bool" where
  "word_at s i \<longleftrightarrow> i < length s \<and> word_char (s ! i)"

primrec ends :: "regex \<Rightarrow> string \<Rightarrow> nat \<Rightarrow> re_match list" where
  "ends (Any_Of P) s i = (if i < length s \<and> P (s ! i) then [(Suc i, [])] else [])"
| "ends Empty_Match s i = [(i, [])]"
| "ends (Then a b) s i = concat (map (\<lambda>(j, cs). map (\<lambda>(k, ds). (k, cs @ ds)) (ends b s j)) (ends a s i))"
| "ends (Or a b) s i = ends a s i @ ends b s i"
| "ends (Maybe a) s i = ends a s i @ [(i, [])]"
| "ends (Many P) s i = map (\<lambda>j. (j, [])) (rev [i..<Suc (i + run_length P s i)])"
| "ends (Some_Of P) s i = map (\<lambda>j. (j, [])) (rev [Suc i..<Suc (i + run_length P s i)])"
| "ends Boundary s i = (if (0 < i \<and> word_at s (i - 1)) \<noteq> word_at s i then [(i, [])] else [])"
| "ends At_Start s i = (if i = 0 then [(i, [])] else [])"
| "ends At_End s i = (if i = length s \<or> Suc i = length s \<and> s ! i = CHR 0x0A then [(i, [])] else [])"
| "ends (Captured a) s i = map (\<lambda>(j, cs). (j, (i, j) # cs)) (ends a s i)"

fun first_match :: "regex \<Rightarrow> string \<Rightarrow> nat list \<Rightarrow> re_match option" where
  "first_match r s [] = None"
| "first_match r s (i # is) = (case ends r s i of [] \<Rightarrow> first_match r s is | m # ms \<Rightarrow> Some m)"

definition re_search :: "regex \<Rightarrow> string \<Rightarrow> string list option" where
  \<comment> \<open>the groups of the first match\<close>
  "re_search r s =
     map_option (\<lambda>(e, gs). map (\<lambda>(a, b). take (b - a) (drop a s)) gs) (first_match r s [0..<Suc (length s)])"

definition found :: "regex \<Rightarrow> string \<Rightarrow> bool" where
  "found r s \<longleftrightarrow> re_search r s \<noteq> None"

definition lit :: "string \<Rightarrow> regex" where
  "lit s = foldr (\<lambda>c. Then (Any_Of ((=) c))) s Empty_Match"

definition lit_any_case :: "string \<Rightarrow> regex" where
  \<comment> \<open>with \<open>re.IGNORECASE\<close>, for a lower-case literal\<close>
  "lit_any_case s = foldr (\<lambda>c. Then (Any_Of (\<lambda>d. lower_char d = c))) s Empty_Match"

definition one_of :: "(string \<Rightarrow> regex) \<Rightarrow> string list \<Rightarrow> regex" where
  "one_of f ws = (case rev (map f ws) of [] \<Rightarrow> Empty_Match | r # rs \<Rightarrow> foldl (\<lambda>acc x. Or x acc) r rs)"

definition in_order :: "regex list \<Rightarrow> regex" where
  "in_order rs = foldr Then rs Empty_Match"

abbreviation "digit \<equiv> Any_Of ascii_digit"
abbreviation "spaces \<equiv> Many space_char"
abbreviation "some_spaces \<equiv> Some_Of space_char"

fun collapse_spaces :: "bool \<Rightarrow> string \<Rightarrow> string" where
  \<comment> \<open>\<open>re.sub(r"\s+", " ", s)\<close>; the flag says whether the character before was a space\<close>
  "collapse_spaces after [] = []"
| "collapse_spaces after (c # cs) =
     (if space_char c then (if after then [] else '' '') @ collapse_spaces True cs else c # collapse_spaces False cs)"

section \<open>Normalisation\<close>

definition normalize_text :: "string \<Rightarrow> string option" where
  "normalize_text raw = (if raw = [] then None else Some (collapse_spaces False (strip raw)))"

definition get_unconstrained_value :: "string \<Rightarrow> string option" where
  "get_unconstrained_value raw = (if raw \<noteq> [] then Some (strip raw) else None)"

definition reference_char :: "char \<Rightarrow> bool" where
  "reference_char c \<longleftrightarrow> ascii_digit c \<or> ascii_letter c \<or> c = CHR ''/'' \<or> c = CHR ''-''"

definition numbered :: "string list \<Rightarrow> string list \<Rightarrow> regex" where
  \<comment> \<open>\<open>(?:keyword...)\s*(?:no\.?|word|#)?\s*([0-9a-zA-Z/\-]+)\<close>\<close>
  "numbered keywords words =
     in_order [one_of lit_any_case keywords, spaces,
       Maybe (Or (in_order [lit_any_case ''no'', Maybe (lit ''.'')]) (one_of lit_any_case words)), spaces,
       Captured (Some_Of reference_char)]"

definition fraction_re :: regex where
  "fraction_re = Captured (in_order [Some_Of ascii_digit, lit ''/'', Some_Of ascii_digit])"

definition area_re :: regex where
  "area_re = Captured (in_order [Some_Of (\<lambda>c. ascii_digit c \<or> c = CHR ''.''), spaces,
     Or (one_of lit_any_case [''hectare'', ''ha'', ''acre'', ''bigha'', ''biswa''])
      (Or (in_order [lit_any_case ''sq'', Maybe (lit ''.''), spaces, lit_any_case ''m''])
          (in_order [lit_any_case ''square meter'', Maybe (lit_any_case ''s'')]))])"

definition date_separator :: regex where
  "date_separator = Any_Of (\<lambda>c. c = CHR ''/'' \<or> c = CHR ''.'' \<or> c = CHR ''-'')"

definition day_first_re :: regex where
  "day_first_re = in_order [Captured (in_order [digit, digit]), date_separator, Captured (in_order [digit, digit]),
     date_separator, Captured (in_order [digit, digit, digit, digit])]"

definition year_first_re :: regex where
  "year_first_re = in_order [Captured (in_order [digit, digit, digit, digit]), date_separator,
     Captured (in_order [digit, digit]), date_separator, Captured (in_order [digit, digit])]"

definition three_groups :: "string list option \<Rightarrow> (string \<times> string \<times> string) option" where
  "three_groups gs = (case gs of Some [a, b, c] \<Rightarrow> Some (a, b, c) | _ \<Rightarrow> None)"

definition normalize_date :: "string \<Rightarrow> string option" where
  "normalize_date s =
     (case three_groups (re_search day_first_re s) of
        Some (d, m, y) \<Rightarrow> Some (y @ ''-'' @ m @ ''-'' @ d)
      | None \<Rightarrow> (case three_groups (re_search year_first_re s) of
                   Some (y, m, d) \<Rightarrow> Some (y @ ''-'' @ m @ ''-'' @ d) | None \<Rightarrow> None))"

definition group1 :: "regex \<Rightarrow> string \<Rightarrow> string option" where
  "group1 r s = (case re_search r s of Some (g # gs) \<Rightarrow> Some g | _ \<Rightarrow> None)"

definition field_pattern :: "string \<Rightarrow> string \<Rightarrow> string option" where
  "field_pattern field_name s =
     (if field_name = ''survey_number'' then group1 (numbered [''khasra'', ''survey'', ''plot'', ''gata''] [''num'', ''#'']) s
      else if field_name = ''khata_number'' then group1 (numbered [''khatauni'', ''khata'', ''account''] [''num'', ''#'']) s
      else if field_name = ''share_fraction'' then group1 fraction_re s
      else if field_name = ''area'' then map_option lower (group1 area_re s)
      else if field_name = ''mutation_reference'' then group1 (numbered [''mutation'', ''intakal'', ''order''] [''ref'', ''#'']) s
      else if field_name = ''date'' then normalize_date s
      else None)"

definition normalize_field_canonical :: "string \<Rightarrow> string \<Rightarrow> string option" where
  "normalize_field_canonical field_name raw =
     (if raw = [] then None
      else
        (let cleaned = strip raw
         in case field_pattern field_name cleaned of
              Some v \<Rightarrow> Some v | None \<Rightarrow> Some (collapse_spaces False cleaned)))"

section \<open>Classification\<close>

definition whole_words :: "regex list \<Rightarrow> regex" where
  \<comment> \<open>\<open>\b(?:...)\b\<close>\<close>
  "whole_words rs =
     in_order [Boundary, (case rev rs of [] \<Rightarrow> Empty_Match | x # xs \<Rightarrow> foldl (\<lambda>acc y. Or y acc) x xs), Boundary]"

definition spaced :: "string \<Rightarrow> regex \<Rightarrow> string \<Rightarrow> regex" where
  "spaced a gap b = in_order [lit a, gap, lit b]"

definition classify_field_name :: "string \<Rightarrow> string option \<Rightarrow> string" where
  "classify_field_name txt doc_type =
     (let lc = strip (lower txt)
      in if found (whole_words [lit ''mutation'', lit ''intakal'', spaced ''dakhil'' spaces ''kharij'',
                                spaced ''order'' spaces ''ref'']) lc
         then ''mutation_reference''
         else if found (whole_words [lit ''date'', lit ''dated'', spaced ''scanning'' spaces ''date'']) lc \<or>
                 found (in_order [Boundary, digit, digit, date_separator, digit, digit, date_separator,
                                  digit, digit, digit, digit, Boundary]) lc
         then ''date''
         else if found (whole_words [lit ''s/o'', lit ''w/o'', lit ''d/o'', lit ''c/o'', spaced ''son'' some_spaces ''of'',
                                spaced ''wife'' some_spaces ''of'', spaced ''daughter'' some_spaces ''of'',
                                spaced ''care'' some_spaces ''of'', lit ''late'']) lc
         then ''relationship''
         else if found (whole_words (map lit [''khasra'', ''survey'', ''plot'', ''gata''])) lc then ''survey_number''
         else if found (whole_words (map lit [''khatauni'', ''khata'', ''account'', ''khewat''])) lc then ''khata_number''
         else if found (whole_words (map lit [''area'', ''hectare'', ''ha'', ''acre'', ''bigha'', ''biswa'']
                                @ [spaced ''sq'' spaces ''m'', spaced ''square'' spaces ''meter''])) lc
         then ''area''
         else if found (whole_words ([lit ''classification'', spaced ''land'' spaces ''type'']
                                @ map lit [''chahi'', ''barani'', ''irrigated'', ''unirrigated'', ''abadi'', ''agricultural''])) lc
         then ''land_classification''
         else if found (whole_words (map lit [''share'', ''hissa'', ''fraction''])) lc then ''share_fraction''
         else if found (whole_words (map lit [''owner'', ''khatedar'', ''pattadar'', ''landowner'', ''nam'', ''name'',
                                ''shri'', ''smt''])) lc
         then ''owner_name''
         else if found (in_order [At_Start, Some_Of ascii_digit, lit ''/'', Some_Of ascii_digit, At_End]) lc \<and>
                 (doc_type = Some ''ror'' \<or> doc_type = Some ''khasra_khatauni'')
         then ''survey_number''
         else if found (in_order [At_Start, Some_Of ascii_digit, lit ''/'', Some_Of ascii_digit, At_End]) lc \<and>
                 doc_type = Some ''jamabandi''
         then ''share_fraction''
         else if found (in_order [At_Start, Some_Of ascii_digit, At_End]) lc \<and> doc_type = Some ''jamabandi''
         then ''khata_number''
         else ''text_line'')"

section \<open>Extractions\<close>

record extraction_item =
  \<comment> \<open>the dictionary of \<open>extraction.schema.json\<close>, as the extractor creates it\<close>
  ei_id :: string
  ei_page_id :: string
  ei_field_name :: string
  ei_raw_value :: string
  ei_canonical_value :: "string option"
  ei_unconstrained_value :: "string option"
  ei_bbox :: "real_bbox option"
  ei_engine :: string
  ei_model_version :: string
  ei_config_version :: string
  ei_token_confidence :: real
  ei_calibrated_confidence :: "real option"
  ei_novelty_score :: "real option"
  ei_routing_outcome :: "string option"
  ei_entry_status :: string
  ei_attestation_refs :: "string list"
  ei_top_k :: "(string \<times> real) list"

definition token_extraction :: "ocr_result \<Rightarrow> string \<Rightarrow> string option \<Rightarrow> ocr_token \<Rightarrow> string \<Rightarrow> extraction_item" where
  "token_extraction res page_id doc_type t xid =
     (let field_name = classify_field_name (tk_text t) doc_type
      in \<lparr>ei_id = xid, ei_page_id = page_id, ei_field_name = field_name, ei_raw_value = tk_text t,
          ei_canonical_value = normalize_field_canonical field_name (tk_text t),
          ei_unconstrained_value = get_unconstrained_value (tk_text t), ei_bbox = tk_bbox t,
          ei_engine = or_engine_id res, ei_model_version = or_model_version res,
          ei_config_version = or_config_version res, ei_token_confidence = tk_confidence t,
          ei_calibrated_confidence = None, ei_novelty_score = None, ei_routing_outcome = None,
          ei_entry_status = ''unknown'', ei_attestation_refs = [], ei_top_k = tk_top_k t\<rparr>)"

fun extract_tokens ::
  "env \<Rightarrow> ocr_result \<Rightarrow> string \<Rightarrow> string option \<Rightarrow> ocr_token list \<Rightarrow> 'a world_scheme
    \<Rightarrow> extraction_item list \<times> 'a world_scheme"
where
  "extract_tokens E res page_id doc_type [] w = ([], w)"
| "extract_tokens E res page_id doc_type (t # ts) w =
     (if tk_text t = [] \<or> strip (tk_text t) = [] then extract_tokens E res page_id doc_type ts w
      else
        (let (xid, w) = draw_uuid E w;
             (items, w) = extract_tokens E res page_id doc_type ts w
         in (token_extraction res page_id doc_type t xid # items, w)))"

definition extract_fields_for_doctype ::
  "env \<Rightarrow> ocr_result \<Rightarrow> string option \<Rightarrow> string option \<Rightarrow> 'a world_scheme \<Rightarrow> extraction_item list \<times> 'a world_scheme"
where
  "extract_fields_for_doctype E res page_id doc_type w =
     extract_tokens E res (or_else page_id (or_page_id res)) doc_type (or_tokens res) w"

section \<open>Lemmas\<close>

lemma ends_bounds: "(j, cs) \<in> set (ends r s i) \<Longrightarrow> i \<le> length s \<Longrightarrow> i \<le> j \<and> j \<le> length s"
proof (induction r arbitrary: i j cs)
  case (Then a b)
  then obtain k ds es where "(k, ds) \<in> set (ends a s i)" "(j, es) \<in> set (ends b s k)" by auto
  with Then.IH(1) [of k ds i] Then.IH(2) [of j es k] Then.prems(2) show ?case by linarith
next
  case (Many P)
  have "run_length P s i \<le> length s - i" using length_takeWhile_le [of P "drop i s"] by (simp add: run_length_def)
  with Many show ?case by auto
next
  case (Some_Of P)
  have "run_length P s i \<le> length s - i" using length_takeWhile_le [of P "drop i s"] by (simp add: run_length_def)
  with Some_Of show ?case by auto
qed (fastforce split: if_splits)+

lemma search_groups: "re_search r s = Some gs \<Longrightarrow> g \<in> set gs \<Longrightarrow> sublist g s"
proof -
  assume *: "re_search r s = Some gs" "g \<in> set gs"
  then obtain a b where "g = take (b - a) (drop a s)" by (auto simp: re_search_def)
  then show "sublist g s"
    by (metis append_take_drop_id sublist_appendI)
qed

lemma first_match_Some: "first_match r s is = Some m \<Longrightarrow> \<exists>i \<in> set is. m \<in> set (ends r s i)"
  by (induction r s "is" rule: first_match.induct) (auto split: list.splits intro: list.set_intros)

lemma group1_sublist: "group1 r s = Some g \<Longrightarrow> sublist g s"
  by (auto simp: group1_def split: option.splits list.splits dest: search_groups)

definition FIELD_NAMES :: "string list" where
  "FIELD_NAMES = [''mutation_reference'', ''date'', ''relationship'', ''survey_number'', ''khata_number'', ''area'',
     ''land_classification'', ''share_fraction'', ''owner_name'', ''text_line'']"

lemma if_mem: "a \<in> S \<Longrightarrow> b \<in> S \<Longrightarrow> (if c then a else b) \<in> S"
  by simp

lemma classify_known: "classify_field_name txt doc_type \<in> set FIELD_NAMES"
  unfolding classify_field_name_def Let_def by (intro if_mem) (simp_all add: FIELD_NAMES_def)

text \<open>What a canonical value may be: a piece of the text read, for an area in lower case, for a date its
  three parts put in order, or the whole text with its spaces collapsed.\<close>

definition supported_by :: "string \<Rightarrow> string \<Rightarrow> bool" where
  "supported_by s v \<longleftrightarrow> sublist v s \<or> (\<exists>u. sublist u s \<and> v = lower u) \<or>
     (\<exists>y m d. sublist y s \<and> sublist m s \<and> sublist d s \<and> v = y @ ''-'' @ m @ ''-'' @ d) \<or>
     v = collapse_spaces False s"

lemma three_groups_Some: "three_groups gs = Some (a, b, c) \<longleftrightarrow> gs = Some [a, b, c]"
  by (auto simp: three_groups_def split: option.splits list.splits)

lemma date_supported: "re_search r s = Some gs \<Longrightarrow> {y, m, d} \<subseteq> set gs \<Longrightarrow> supported_by s (y @ ''-'' @ m @ ''-'' @ d)"
  unfolding supported_by_def using search_groups [of r s gs] by (intro disjI2 disjI1) auto

lemma normalize_date_supported: "normalize_date s = Some v \<Longrightarrow> supported_by s v"
  unfolding normalize_date_def by (auto simp: three_groups_Some split: option.splits intro: date_supported [simplified])

lemma field_pattern_supported:
  assumes "field_pattern fn s = Some v"
  shows "supported_by s v"
proof (cases "fn = ''date''")
  case True
  then show ?thesis using assms normalize_date_supported by (simp add: field_pattern_def)
next
  case False
  then obtain r where "group1 r s = Some v \<or> (\<exists>u. group1 r s = Some u \<and> v = lower u)"
    using assms by (auto simp: field_pattern_def split: if_splits)
  then show ?thesis unfolding supported_by_def using group1_sublist by blast
qed

lemma canonical_supported:
  "raw \<noteq> [] \<Longrightarrow> \<exists>v. normalize_field_canonical fn raw = Some v \<and> supported_by (strip raw) v"
  using field_pattern_supported [of fn "strip raw"]
  by (cases "field_pattern fn (strip raw)") (auto simp: normalize_field_canonical_def supported_by_def)

definition readable :: "ocr_token \<Rightarrow> bool" where
  "readable t \<longleftrightarrow> tk_text t \<noteq> [] \<and> strip (tk_text t) \<noteq> []"

lemma extract_tokens_items:
  "extract_tokens E res pid dt ts w = (items, w') \<Longrightarrow>
     list_all2 (\<lambda>t x. \<exists>xid. x = token_extraction res pid dt t xid) (filter readable ts) items \<and>
     map ei_id items = map (uuid4 E) [uuids_drawn w..<uuids_drawn w'] \<and> uuids_drawn w \<le> uuids_drawn w'"
proof (induction E res pid dt ts w arbitrary: items w' rule: extract_tokens.induct)
  case (2 E res pid dt t ts w)
  show ?case
  proof (cases "readable t")
    case False
    then have "extract_tokens E res pid dt ts w = (items, w')" using "2.prems" by (auto simp: readable_def)
    with False "2.IH"(1) show ?thesis by (auto simp: readable_def)
  next
    case True
    let ?w = "w\<lparr>uuids_drawn := Suc (uuids_drawn w)\<rparr>"
    obtain rest where rest: "extract_tokens E res pid dt ts ?w = (rest, w')"
      "items = token_extraction res pid dt t (uuid4 E (uuids_drawn w)) # rest"
      using "2.prems" True by (auto simp: readable_def draw_uuid_def Let_def split: prod.splits)
    have "list_all2 (\<lambda>t x. \<exists>xid. x = token_extraction res pid dt t xid) (filter readable ts) rest \<and>
        map ei_id rest = map (uuid4 E) [uuids_drawn ?w..<uuids_drawn w'] \<and> uuids_drawn ?w \<le> uuids_drawn w'"
      using "2.IH"(2) [OF _ _ refl rest(1)] True unfolding readable_def by (simp add: draw_uuid_def)
    then show ?thesis using True unfolding rest(2) by (auto simp: token_extraction_def Let_def upt_conv_Cons)
  qed
qed simp

lemma token_extraction_fields [simp]:
  "ei_id (token_extraction res pid dt t xid) = xid" "ei_raw_value (token_extraction res pid dt t xid) = tk_text t"
  "ei_page_id (token_extraction res pid dt t xid) = pid" "ei_bbox (token_extraction res pid dt t xid) = tk_bbox t"
  "ei_entry_status (token_extraction res pid dt t xid) = ''unknown''"
  "ei_token_confidence (token_extraction res pid dt t xid) = tk_confidence t"
  "ei_canonical_value (token_extraction res pid dt t xid) =
     normalize_field_canonical (ei_field_name (token_extraction res pid dt t xid)) (tk_text t)"
  "ei_field_name (token_extraction res pid dt t xid) = classify_field_name (tk_text t) dt"
  by (simp_all add: token_extraction_def Let_def)

section \<open>Properties\<close>

definition faithful_item :: "extraction_item \<Rightarrow> bool" where
  "faithful_item x \<longleftrightarrow> ei_field_name x \<in> set FIELD_NAMES \<and> ei_entry_status x = ''unknown'' \<and>
     ei_calibrated_confidence x = None \<and> ei_routing_outcome x = None \<and>
     (case ei_canonical_value x of None \<Rightarrow> False | Some v \<Rightarrow> supported_by (strip (ei_raw_value x)) v)"

text \<open>C35. Nothing is made up from a reading. From an OCR result there is exactly one extraction for every
  token with text, in order, with the token's text unchanged as its raw value and the token's box and
  confidence; its field is one of the ten known, its entry status is \<open>unknown\<close>, it is neither
  calibrated nor routed, and its canonical value comes from the text read.\<close>

theorem fields_from_readings:
  assumes "extract_fields_for_doctype E res pid dt w = (items, w')"
  shows "map (\<lambda>x. (ei_raw_value x, ei_bbox x, ei_token_confidence x)) items =
      map (\<lambda>t. (tk_text t, tk_bbox t, tk_confidence t)) (filter readable (or_tokens res)) \<and>
    list_all faithful_item items \<and> list_all (\<lambda>x. ei_page_id x = or_else pid (or_page_id res)) items \<and>
    map ei_id items = map (uuid4 E) [uuids_drawn w..<uuids_drawn w']"
proof -
  from assms have items: "list_all2 (\<lambda>t x. \<exists>xid. x = token_extraction res (or_else pid (or_page_id res)) dt t xid)
      (filter readable (or_tokens res)) items"
    and ids: "map ei_id items = map (uuid4 E) [uuids_drawn w..<uuids_drawn w']"
    unfolding extract_fields_for_doctype_def by (auto dest: extract_tokens_items)
  have faithful: "faithful_item (token_extraction res p dt t xid)" if "readable t" for p t xid
    using canonical_supported [of "tk_text t" "classify_field_name (tk_text t) dt"] that classify_known
    by (auto simp: faithful_item_def readable_def) (simp_all add: token_extraction_def Let_def)
  have "list_all2 P (filter readable ts) xs \<Longrightarrow> list_all2 (\<lambda>t x. readable t \<and> P t x) (filter readable ts) xs" for P ts xs
    by (induction ts arbitrary: xs) (auto simp: list_all2_Cons1)
  note items = this [OF items]
  then have "map (\<lambda>x. (ei_raw_value x, ei_bbox x, ei_token_confidence x)) items =
      map (\<lambda>t. (tk_text t, tk_bbox t, tk_confidence t)) (filter readable (or_tokens res))"
    by (induction rule: list_all2_induct) auto
  moreover from items have "list_all faithful_item items \<and> list_all (\<lambda>x. ei_page_id x = or_else pid (or_page_id res)) items"
    by (induction rule: list_all2_induct) (auto simp: faithful)
  ultimately show ?thesis using ids by simp
qed

definition demo_result :: ocr_result where
  "demo_result = \<lparr>or_page_id = ''p1'', or_tokens = [demo_token ''Khasra No 45/1'' 0 0 90 20, demo_token ''  '' 0 30 90 20],
     or_full_text = [], or_engine_id = ''printed_ocr'', or_model_version = ''v1'', or_config_version = ''cfg''\<rparr>"

theorem fields_from_readings_witness:
  "\<exists>x w'. extract_fields_for_doctype demo_env demo_result None None \<lparr>uuids_drawn = 0, clock_reads = 0\<rparr> = ([x], w') \<and>
     ei_raw_value x = ''Khasra No 45/1'' \<and> faithful_item x"
proof -
  obtain items w' where r: "extract_fields_for_doctype demo_env demo_result None None \<lparr>uuids_drawn = 0, clock_reads = 0\<rparr> =
      (items, w')" by fastforce
  have "strip ''  '' = []" "strip ''Khasra No 45/1'' \<noteq> []" by code_simp+
  then have "filter readable (or_tokens demo_result) = [demo_token ''Khasra No 45/1'' 0 0 90 20]"
    by (simp add: demo_result_def readable_def demo_token_def)
  with fields_from_readings [OF r] obtain x where "items = [x]" "ei_raw_value x = ''Khasra No 45/1''" "faithful_item x"
    by (auto simp: demo_token_def)
  with r show ?thesis by blast
qed

text \<open>
  Readings the patterns get wrong. \<open>num\<close> is tried inside the word \<open>Number\<close>, and a colon after \<open>No\<close>
  makes the matcher take \<open>No\<close> itself for the number, so common spellings give a canonical survey
  number that is a piece of the label.
\<close>

definition survey_re :: regex where
  "survey_re = numbered [''khasra'', ''survey'', ''plot'', ''gata''] [''num'', ''#'']"

lemma survey_pattern: "group1 survey_re (strip raw) = Some v \<Longrightarrow> raw \<noteq> [] \<Longrightarrow>
    normalize_field_canonical ''survey_number'' raw = Some v"
  by (simp add: normalize_field_canonical_def field_pattern_def survey_re_def)

lemma survey_readings:
  "group1 survey_re (strip ''Plot Number 4'') = Some ''ber''"
  "group1 survey_re (strip ''Plot No: 4'') = Some ''No''"
  by code_simp+

lemma label_read_as_number:
  "normalize_field_canonical ''survey_number'' ''Plot Number 4'' = Some ''ber''"
  "normalize_field_canonical ''survey_number'' ''Plot No: 4'' = Some ''No''"
  by (simp_all add: survey_pattern survey_readings)

end
