(* ===== verification/Relationships.thy ===== *)
theory Relationships
  imports Text_Fields
begin

text \<open>
  Binding owners and shares to parcels (\<open>extraction/domain/ocr/relationship_extractor.py\<close>): the single
  parcel case, the vertical bands of a page with several parcels, and the owners above the first.
\<close>

section \<open>References and bindings\<close>

record entity_ref =
  er_extraction_id :: string
  er_field_name :: string
  er_raw_value :: string
  er_canonical_value :: "string option"
  er_bbox :: "real_bbox option"
  er_confidence :: real

record owner_ref = entity_ref +
  ow_relationship_label :: "string option"

record share_ref =
  sh_extraction_id :: string
  sh_raw_value :: string
  sh_canonical_value :: "string option"
  sh_numerator :: "int option"
  sh_denominator :: "int option"
  sh_bbox :: "real_bbox option"
  sh_confidence :: real

record parcel_binding =
  pb_binding_id :: string
  pb_page_id :: string
  pb_parcel :: "entity_ref option"
  pb_owners :: "owner_ref list"
  pb_share :: "share_ref option"
  pb_evidence_type :: string
  pb_confidence :: real
  pb_is_ambiguous :: bool

definition to_entity_ref :: "extraction_item \<Rightarrow> entity_ref" where
  "to_entity_ref x =
     \<lparr>er_extraction_id = ei_id x, er_field_name = ei_field_name x, er_raw_value = ei_raw_value x,
      er_canonical_value = ei_canonical_value x, er_bbox = ei_bbox x, er_confidence = ei_token_confidence x\<rparr>"

definition to_owner_ref :: "string option \<Rightarrow> extraction_item \<Rightarrow> owner_ref" where
  "to_owner_ref rel_label x =
     \<lparr>er_extraction_id = ei_id x, er_field_name = ''owner_name'', er_raw_value = ei_raw_value x,
      er_canonical_value = ei_canonical_value x, er_bbox = ei_bbox x, er_confidence = ei_token_confidence x,
      ow_relationship_label = rel_label\<rparr>"

definition decimal_value :: "string \<Rightarrow> int" where
  \<comment> \<open>\<open>int(s)\<close> of a string of decimal digits\<close>
  "decimal_value s = foldl (\<lambda>n c. 10 * n + (of_char c - 48)) 0 s"

definition parts_re :: regex where
  "parts_re = in_order [Captured (Some_Of ascii_digit), lit ''/'', Captured (Some_Of ascii_digit)]"

definition parse_fraction :: "string \<Rightarrow> int option \<times> int option" where
  "parse_fraction txt =
     (if txt = [] then (None, None)
      else
        (case re_search parts_re txt of
           Some [n, d] \<Rightarrow> if decimal_value d \<noteq> 0 then (Some (decimal_value n), Some (decimal_value d)) else (None, None)
         | _ \<Rightarrow> (None, None)))"

definition to_share_ref :: "extraction_item \<Rightarrow> share_ref" where
  "to_share_ref x =
     (let (n, d) = parse_fraction (if ei_raw_value x \<noteq> [] then ei_raw_value x else or_empty (ei_canonical_value x))
      in \<lparr>sh_extraction_id = ei_id x, sh_raw_value = ei_raw_value x, sh_canonical_value = ei_canonical_value x,
          sh_numerator = n, sh_denominator = d, sh_bbox = ei_bbox x, sh_confidence = ei_token_confidence x\<rparr>)"

definition y_center :: "real_bbox option \<Rightarrow> real" where
  "y_center bbox = (case bbox of None \<Rightarrow> 0 | Some b \<Rightarrow> bx_y b + bx_h b / 2)"

definition item_y :: "extraction_item \<Rightarrow> real" where
  "item_y x = y_center (ei_bbox x)"

fun nearest_relationship :: "real \<Rightarrow> extraction_item list \<Rightarrow> (real \<times> string) option \<Rightarrow> string option" where
  \<comment> \<open>the loop: the best so far is its distance and its text\<close>
  "nearest_relationship o_y [] best = map_option snd best"
| "nearest_relationship o_y (r # rs) best =
     (let dist = \<bar>o_y - item_y r\<bar>;
          closer = (case best of None \<Rightarrow> True | Some (d, v) \<Rightarrow> dist < d)
      in nearest_relationship o_y rs (if closer \<and> dist < 50 then Some (dist, ei_raw_value r) else best))"

definition find_nearest_relationship :: "extraction_item \<Rightarrow> extraction_item list \<Rightarrow> string option" where
  "find_nearest_relationship owner relationships = nearest_relationship (item_y owner) relationships None"

definition binding_confidence :: "entity_ref option \<Rightarrow> owner_ref list \<Rightarrow> share_ref option \<Rightarrow> real" where
  "binding_confidence parcel owners share =
     (let confs = (case parcel of Some p \<Rightarrow> [er_confidence p] | None \<Rightarrow> []) @ map er_confidence owners
                  @ (case share of Some s \<Rightarrow> [sh_confidence s] | None \<Rightarrow> [])
      in if confs = [] then 0 else round_digits 2 (sum_list confs / real (length confs)))"

section \<open>Bindings\<close>

definition items_of :: "string \<Rightarrow> extraction_item list \<Rightarrow> extraction_item list" where
  "items_of fn xs = filter (\<lambda>x. ei_field_name x = fn) xs"

definition single_parcel_bindings ::
  "env \<Rightarrow> string \<Rightarrow> extraction_item list \<Rightarrow> extraction_item list \<Rightarrow> extraction_item list \<Rightarrow> extraction_item list
    \<Rightarrow> 'a world_scheme \<Rightarrow> parcel_binding list \<times> 'a world_scheme"
where
  "single_parcel_bindings E page_id parcels owners relationships shares w =
     (let parcel_ref = (if parcels \<noteq> [] then Some (to_entity_ref (hd parcels)) else None);
          share_ref = (if shares \<noteq> [] then Some (to_share_ref (hd shares)) else None);
          rel_label = (if relationships \<noteq> [] then Some (ei_raw_value (hd relationships)) else None);
          owner_refs = map (to_owner_ref rel_label) owners;
          (bid, w) = draw_uuid E w
      in ([\<lparr>pb_binding_id = bid, pb_page_id = page_id, pb_parcel = parcel_ref, pb_owners = owner_refs,
            pb_share = share_ref,
            pb_evidence_type = (if parcel_ref \<noteq> None \<and> owner_refs \<noteq> [] then ''spatial_proximity'' else ''fallback''),
            pb_confidence = binding_confidence parcel_ref owner_refs share_ref,
            pb_is_ambiguous = (parcels = [] \<or> owners = [])\<rparr>], w))"

definition in_band :: "real \<Rightarrow> real option \<Rightarrow> extraction_item \<Rightarrow> bool" where
  "in_band p_y p_next_y x \<longleftrightarrow>
     p_y - 20 \<le> item_y x \<and> (case p_next_y of None \<Rightarrow> True | Some n \<Rightarrow> item_y x < n)"

definition owners_with_labels :: "extraction_item list \<Rightarrow> extraction_item list \<Rightarrow> owner_ref list" where
  "owners_with_labels relationships os = map (\<lambda>x. to_owner_ref (find_nearest_relationship x relationships) x) os"

definition band_binding ::
  "string \<Rightarrow> string \<Rightarrow> nat \<Rightarrow> real option \<Rightarrow> extraction_item list \<Rightarrow> extraction_item list \<Rightarrow> extraction_item list
    \<Rightarrow> extraction_item \<Rightarrow> parcel_binding"
where
  "band_binding bid page_id num_parcels p_next_y owners relationships shares p =
     (let band = in_band (item_y p) p_next_y;
          associated_owners = owners_with_labels relationships (filter band owners);
          associated_share = map_option to_share_ref (find band shares);
          p_ref = to_entity_ref p;
          conf = binding_confidence (Some p_ref) associated_owners associated_share;
          is_ambiguous = (associated_owners = [] \<or>
             num_parcels > 1 \<and> length associated_owners > 2 \<and> associated_share = None)
      in \<lparr>pb_binding_id = bid, pb_page_id = page_id, pb_parcel = Some p_ref, pb_owners = associated_owners,
          pb_share = associated_share,
          pb_evidence_type = (if \<not> is_ambiguous then ''section_header'' else ''fallback''),
          pb_confidence = (if \<not> is_ambiguous then conf else round_digits 2 (conf * 0.7)),
          pb_is_ambiguous = is_ambiguous\<rparr>)"

fun band_bindings ::
  "env \<Rightarrow> string \<Rightarrow> nat \<Rightarrow> extraction_item list \<Rightarrow> extraction_item list \<Rightarrow> extraction_item list \<Rightarrow> extraction_item list
    \<Rightarrow> 'a world_scheme \<Rightarrow> parcel_binding list \<times> 'a world_scheme"
where
  "band_bindings E page_id n owners relationships shares [] w = ([], w)"
| "band_bindings E page_id n owners relationships shares (p # ps) w =
     (let p_next_y = (case ps of [] \<Rightarrow> None | q # qs \<Rightarrow> Some (item_y q));
          (bid, w) = draw_uuid E w;
          b = band_binding bid page_id n p_next_y owners relationships shares p;
          (bs, w) = band_bindings E page_id n owners relationships shares ps w
      in (b # bs, w))"

definition multi_parcel_bindings ::
  "env \<Rightarrow> string \<Rightarrow> extraction_item list \<Rightarrow> extraction_item list \<Rightarrow> extraction_item list \<Rightarrow> extraction_item list
    \<Rightarrow> 'a world_scheme \<Rightarrow> parcel_binding list \<times> 'a world_scheme"
where
  "multi_parcel_bindings E page_id parcels owners relationships shares w =
     (let sorted_parcels = sort_key item_y parcels;
          (bindings, w) = band_bindings E page_id (length sorted_parcels) owners relationships shares sorted_parcels w;
          first_p_y = (if sorted_parcels \<noteq> [] then item_y (hd sorted_parcels) else 0);
          unassigned = owners_with_labels relationships (filter (\<lambda>x. item_y x < first_p_y - 20) owners)
      in if unassigned \<noteq> []
         then (let (bid, w) = draw_uuid E w
               in (bindings @ [\<lparr>pb_binding_id = bid, pb_page_id = page_id, pb_parcel = None, pb_owners = unassigned,
                     pb_share = None, pb_evidence_type = ''fallback'', pb_confidence = 0.5, pb_is_ambiguous = True\<rparr>], w))
         else (bindings, w))"

definition extract_relationships ::
  "env \<Rightarrow> extraction_item list \<Rightarrow> string option \<Rightarrow> 'a world_scheme \<Rightarrow> parcel_binding list \<times> 'a world_scheme"
where
  "extract_relationships E xs page_id w =
     (if xs = [] then ([], w)
      else
        (let target = or_else page_id (ei_page_id (hd xs));
             parcels = items_of ''survey_number'' xs;
             owners = items_of ''owner_name'' xs;
             relationships = items_of ''relationship'' xs;
             shares = items_of ''share_fraction'' xs
         in if length parcels \<le> 1 \<and> length owners \<le> 1
            then single_parcel_bindings E target parcels owners relationships shares w
            else multi_parcel_bindings E target parcels owners relationships shares w))"

section \<open>Lemmas\<close>

definition binds_owner :: "extraction_item \<Rightarrow> parcel_binding \<Rightarrow> bool" where
  "binds_owner x b \<longleftrightarrow> (\<exists>r \<in> set (pb_owners b). er_extraction_id r = ei_id x \<and> er_raw_value r = ei_raw_value x)"

lemma owners_with_labels_ids: "map er_extraction_id (owners_with_labels rs os) = map ei_id os"
  by (simp add: owners_with_labels_def to_owner_ref_def comp_def)

lemma binds_labelled: "x \<in> set os \<Longrightarrow> pb_owners b = owners_with_labels rs os \<Longrightarrow> binds_owner x b"
  by (force simp: binds_owner_def owners_with_labels_def to_owner_ref_def)

lemma band_bindings_parcels:
  "band_bindings E pid n os rs ss ps w = (bs, w') \<Longrightarrow> map pb_parcel bs = map (Some \<circ> to_entity_ref) ps"
  by (induction E pid n os rs ss ps w arbitrary: bs w' rule: band_bindings.induct)
     (auto simp: Let_def band_binding_def split: prod.splits)

text \<open>Bands of parcels in order leave no gap.\<close>

lemma band_bindings_owner:
  "band_bindings E pid n os rs ss ps w = (bs, w') \<Longrightarrow> sorted (map item_y ps) \<Longrightarrow> x \<in> set os \<Longrightarrow> ps \<noteq> [] \<Longrightarrow>
     item_y (hd ps) - 20 \<le> item_y x \<Longrightarrow> \<exists>b \<in> set bs. binds_owner x b"
proof (induction E pid n os rs ss ps w arbitrary: bs w' rule: band_bindings.induct)
  case (2 E pid n os rs ss p ps w)
  let ?next = "case ps of [] \<Rightarrow> None | q # qs \<Rightarrow> Some (item_y q)"
  obtain w2 bs' where bs: "band_bindings E pid n os rs ss ps (snd (draw_uuid E w)) = (bs', w2)"
    "bs = band_binding (fst (draw_uuid E w)) pid n ?next os rs ss p # bs'"
    using "2.prems"(1) by (auto simp: Let_def split: prod.splits)
  show ?case
  proof (cases "in_band (item_y p) ?next x")
    case True
    have "binds_owner x (band_binding (fst (draw_uuid E w)) pid n ?next os rs ss p)"
      by (rule binds_labelled [of _ "filter (in_band (item_y p) ?next) os"])
         (use True "2.prems"(3) in \<open>simp_all add: band_binding_def Let_def\<close>)
    then show ?thesis unfolding bs(2) by simp
  next
    case False
    with "2.prems"(5) obtain q qs where q: "ps = q # qs" "item_y q \<le> item_y x"
      by (auto simp: in_band_def split: list.splits)
    then have "\<exists>b \<in> set bs'. binds_owner x b"
      using "2.IH" [OF refl refl surjective_pairing [symmetric] refl bs(1)] "2.prems" by simp
    then show ?thesis unfolding bs(2) by simp
  qed
qed simp

text \<open>Where an owner bound to a parcel lies: not more than twenty pixels above it, and above every parcel
  further down; an owner bound to no parcel lies above all of them.\<close>

definition lies_in_band :: "extraction_item list \<Rightarrow> entity_ref option \<Rightarrow> real \<Rightarrow> bool" where
  "lies_in_band parcels parcel y \<longleftrightarrow>
     (case parcel of
        None \<Rightarrow> \<forall>q \<in> set parcels. y < item_y q - 20
      | Some p \<Rightarrow> y_center (er_bbox p) - 20 \<le> y \<and>
                  (\<forall>q \<in> set parcels. y_center (er_bbox p) < item_y q \<longrightarrow> y < item_y q))"

lemma y_center_parcel: "y_center (er_bbox (to_entity_ref p)) = item_y p"
  by (simp add: to_entity_ref_def item_y_def)

lemma band_bindings_members:
  "band_bindings E pid n os rs ss ps w = (bs, w') \<Longrightarrow> sorted (map item_y ps) \<Longrightarrow> b \<in> set bs \<Longrightarrow> r \<in> set (pb_owners b) \<Longrightarrow>
     \<exists>x \<in> set os. er_extraction_id r = ei_id x \<and> er_raw_value r = ei_raw_value x \<and>
       (\<exists>p \<in> set ps. pb_parcel b = Some (to_entity_ref p)) \<and> lies_in_band ps (pb_parcel b) (item_y x)"
proof (induction E pid n os rs ss ps w arbitrary: bs w' rule: band_bindings.induct)
  case (2 E pid n os rs ss p ps w)
  let ?next = "case ps of [] \<Rightarrow> None | q # qs \<Rightarrow> Some (item_y q)"
  obtain w2 bs' where bs: "band_bindings E pid n os rs ss ps (snd (draw_uuid E w)) = (bs', w2)"
    "bs = band_binding (fst (draw_uuid E w)) pid n ?next os rs ss p # bs'"
    using "2.prems"(1) by (auto simp: Let_def split: prod.splits)
  show ?case
  proof (cases "b \<in> set bs'")
    case True
    then obtain x q where x: "x \<in> set os" "er_extraction_id r = ei_id x" "er_raw_value r = ei_raw_value x"
      and q: "q \<in> set ps" "pb_parcel b = Some (to_entity_ref q)" "lies_in_band ps (pb_parcel b) (item_y x)"
      using "2.IH" [OF refl refl surjective_pairing [symmetric] refl bs(1)] "2.prems"(2,4) by auto
    have "item_y p \<le> item_y q" using "2.prems"(2) q(1) by simp
    with q have "lies_in_band (p # ps) (pb_parcel b) (item_y x)" by (simp add: lies_in_band_def y_center_parcel)
    with x q(1,2) show ?thesis by auto
  next
    case False
    then have b: "b = band_binding (fst (draw_uuid E w)) pid n ?next os rs ss p" using "2.prems"(3) bs(2) by simp
    then obtain x where x: "x \<in> set os" "er_extraction_id r = ei_id x" "er_raw_value r = ei_raw_value x"
      and band: "in_band (item_y p) ?next x"
      using "2.prems"(4) by (auto simp: band_binding_def Let_def owners_with_labels_def to_owner_ref_def)
    have "item_y x < item_y q" if "q \<in> set (p # ps)" "item_y p < item_y q" for q
    proof (cases ps)
      case Nil
      then show ?thesis using that by simp
    next
      case (Cons n ns)
      then have "item_y n \<le> item_y q" using that "2.prems"(2) by auto
      with band Cons show ?thesis by (simp add: in_band_def)
    qed
    moreover have "pb_parcel b = Some (to_entity_ref p)" by (simp add: b band_binding_def Let_def)
    ultimately show ?thesis using x band by (auto simp: lies_in_band_def y_center_parcel in_band_def)
  qed
qed simp

lemma single_parcel_binding:
  "single_parcel_bindings E pid ps os rs ss w = (bs, w') \<Longrightarrow>
     \<exists>b l. bs = [b] \<and> pb_parcel b = (if ps \<noteq> [] then Some (to_entity_ref (hd ps)) else None) \<and>
       pb_owners b = map (to_owner_ref l) os"
  by (rule exI [of _ "hd bs"], rule exI [of _ "if rs \<noteq> [] then Some (ei_raw_value (hd rs)) else None"])
     (auto simp: single_parcel_bindings_def Let_def split: prod.splits)

definition above_first :: "extraction_item list \<Rightarrow> extraction_item list \<Rightarrow> extraction_item list" where
  "above_first ps os =
     filter (\<lambda>x. item_y x < (if sort_key item_y ps \<noteq> [] then item_y (hd (sort_key item_y ps)) else 0) - 20) os"

lemma multi_parcel_parts:
  assumes "multi_parcel_bindings E pid ps os rs ss w = (bs, w')"
  shows "\<exists>bands v extra. band_bindings E pid (length (sort_key item_y ps)) os rs ss (sort_key item_y ps) w = (bands, v) \<and>
    bs = bands @ extra \<and> (above_first ps os = [] \<longrightarrow> extra = []) \<and>
    (above_first ps os \<noteq> [] \<longrightarrow>
       (\<exists>b. extra = [b] \<and> pb_parcel b = None \<and> pb_owners b = owners_with_labels rs (above_first ps os)))"
proof -
  obtain bands v where b: "band_bindings E pid (length (sort_key item_y ps)) os rs ss (sort_key item_y ps) w = (bands, v)"
    by fastforce
  have nonempty: "owners_with_labels rs xs = [] \<longleftrightarrow> xs = []" for xs by (simp add: owners_with_labels_def)
  have "bs = (if above_first ps os \<noteq> [] then bands @ [\<lparr>pb_binding_id = fst (draw_uuid E v), pb_page_id = pid,
      pb_parcel = None, pb_owners = owners_with_labels rs (above_first ps os), pb_share = None,
      pb_evidence_type = ''fallback'', pb_confidence = 0.5, pb_is_ambiguous = True\<rparr>] else bands)"
    using assms b nonempty [of "above_first ps os"]
    by (simp only: multi_parcel_bindings_def Let_def b prod.case above_first_def [symmetric] split: prod.splits)
       (auto split: if_splits)
  with b show ?thesis by (intro exI [of _ bands] exI [of _ v] exI [of _ "drop (length bands) bs"]) auto
qed

lemma map_filter_Some: "map g bs = map (Some \<circ> f) ps \<Longrightarrow> List.map_filter g bs = map f ps"
  by (induction ps arbitrary: bs) (auto simp: List.map_filter_def)

lemma single_parcel_bound:
  assumes "single_parcel_bindings E pid ps os rs ss w = (bs, w')" and "length ps \<le> 1"
  shows "mset (List.map_filter pb_parcel bs) = image_mset to_entity_ref (mset ps) \<and>
    (ps \<noteq> [] \<or> length os \<le> 1 \<longrightarrow> list_all (\<lambda>x. \<exists>b \<in> set bs. binds_owner x b) os) \<and>
    list_all (\<lambda>b. list_all (\<lambda>r. \<exists>x \<in> set os.
       er_extraction_id r = ei_id x \<and> er_raw_value r = ei_raw_value x) (pb_owners b)) bs"
proof -
  from assms(1) obtain b where b: "bs = [b]" "pb_parcel b = (if ps \<noteq> [] then Some (to_entity_ref (hd ps)) else None)"
    "\<exists>l. pb_owners b = map (to_owner_ref l) os"
    by (blast dest: single_parcel_binding)
  have one: "ps = [] \<or> (\<exists>p. ps = [p])" using assms(2) by (cases ps) auto
  have ex: "\<exists>y \<in> set os. ei_id x = ei_id y \<and> ei_raw_value x = ei_raw_value y" if "x \<in> set os" for x
    using that by blast
  have own: "list_all (\<lambda>r. \<exists>x \<in> set os. er_extraction_id r = ei_id x \<and> er_raw_value r = ei_raw_value x) (pb_owners b)"
    "list_all (\<lambda>x. binds_owner x b) os"
    using b(3) by (auto simp: list_all_iff to_owner_ref_def binds_owner_def ex)
  show ?thesis using one own b(2) unfolding b(1)
    by (auto simp: List.map_filter_def list_all_iff split: option.splits)
qed

lemma multi_parcel_bound:
  assumes "multi_parcel_bindings E pid ps os rs ss w = (bs, w')" and "\<not> (length ps \<le> 1 \<and> length os \<le> 1)"
  shows "mset (List.map_filter pb_parcel bs) = image_mset to_entity_ref (mset ps) \<and>
    (ps \<noteq> [] \<or> length os \<le> 1 \<longrightarrow> list_all (\<lambda>x. \<exists>b \<in> set bs. binds_owner x b) os) \<and>
    list_all (\<lambda>b. list_all (\<lambda>r. \<exists>x \<in> set os.
       er_extraction_id r = ei_id x \<and> er_raw_value r = ei_raw_value x \<and>
       lies_in_band ps (pb_parcel b) (item_y x)) (pb_owners b)) bs"
proof -
  let ?sp = "sort_key item_y ps"
  define above where "above = above_first ps os"
  obtain bands v extra where bands: "band_bindings E pid (length ?sp) os rs ss ?sp w = (bands, v)"
    and e: "bs = bands @ extra" "above = [] \<Longrightarrow> extra = []"
    "above \<noteq> [] \<Longrightarrow> \<exists>b. extra = [b] \<and> pb_parcel b = None \<and> pb_owners b = owners_with_labels rs above"
    using multi_parcel_parts [OF assms(1)] unfolding above_def by blast
  define first where "first = (if ?sp \<noteq> [] then item_y (hd ?sp) else 0)"
  have above_def: "above = filter (\<lambda>x. item_y x < first - 20) os" by (simp add: above_def above_first_def first_def)
  have none: "List.map_filter pb_parcel extra = []" "\<forall>b \<in> set extra. pb_parcel b = None"
    using e(2,3) by (cases "above = []"; auto simp: List.map_filter_def)+
  have "List.map_filter pb_parcel bands = map to_entity_ref ?sp"
    by (rule map_filter_Some) (rule band_bindings_parcels [OF bands])
  then have parcels: "mset (List.map_filter pb_parcel bs) = image_mset to_entity_ref (mset ps)"
    using none(1) unfolding e(1) by (simp add: List.map_filter_def)
  have bound: "\<exists>b \<in> set bs. binds_owner x b" if x: "x \<in> set os" "ps \<noteq> []" for x
  proof (cases "item_y x < first - 20")
    case True
    then have "x \<in> set above" using x(1) by (simp add: above_def)
    then obtain b where "extra = [b]" "pb_owners b = owners_with_labels rs above" using e(3) by fastforce
    with binds_labelled [OF \<open>x \<in> set above\<close>] show ?thesis by (simp add: e(1))
  next
    case False
    have "?sp \<noteq> []" using x(2) by (metis length_0_conv length_sort)
    with False have "item_y (hd ?sp) - 20 \<le> item_y x" by (simp add: first_def)
    with band_bindings_owner [OF bands sorted_sort_key x(1) \<open>?sp \<noteq> []\<close>] show ?thesis by (auto simp: e(1))
  qed
  have lowest: "first \<le> item_y q" if "q \<in> set ps" for q
  proof (cases ?sp)
    case Nil
    then show ?thesis using that by (metis emptyE list.set(1) set_sort)
  next
    case (Cons p qs)
    have "sorted (map item_y ?sp)" by simp
    moreover have "q \<in> set ?sp" using that by simp
    ultimately show ?thesis unfolding Cons by (auto simp: first_def Cons)
  qed
  have same: "lies_in_band ?sp o_parcel y \<longleftrightarrow> lies_in_band ps o_parcel y" for o_parcel y
    by (simp add: lies_in_band_def split: option.split)
  have "list_all (\<lambda>r. \<exists>x \<in> set os. er_extraction_id r = ei_id x \<and> er_raw_value r = ei_raw_value x \<and>
     lies_in_band ps (pb_parcel b) (item_y x)) (pb_owners b)" if "b \<in> set bs" for b
  proof (cases "b \<in> set bands")
    case True
    then show ?thesis using band_bindings_members [OF bands sorted_sort_key True]
      unfolding same by (fastforce simp: list_all_iff)
  next
    case False
    with that have "b \<in> set extra" by (simp add: e(1))
    then have "pb_parcel b = None" "pb_owners b = owners_with_labels rs above"
      using e(2,3) by (cases "above = []"; auto)+
    moreover have "lies_in_band ps None (item_y x)" if "x \<in> set above" for x
      using that lowest by (fastforce simp: lies_in_band_def above_def)
    ultimately show ?thesis by (auto simp: list_all_iff owners_with_labels_def to_owner_ref_def above_def)
  qed
  moreover have "ps \<noteq> [] \<or> length os \<le> 1 \<longrightarrow> list_all (\<lambda>x. \<exists>b \<in> set bs. binds_owner x b) os"
    using bound assms(2) by (auto simp: list_all_iff)
  ultimately show ?thesis using parcels by (simp add: list_all_iff)
qed

section \<open>Properties\<close>

text \<open>C38. Parcels and owners are bound. Every survey number read on a page is the parcel of exactly one
  binding, as read. If there is a survey number on the page, or at most one owner, every owner read
  is in some binding. Every owner of a binding was read on the page; and when the page has more than
  one survey number or more than one owner, an owner bound to a parcel lies no more than twenty
  pixels above it and above every parcel further down the page, and an owner bound to no parcel lies
  more than twenty pixels above all of them. (A lone owner is bound to a lone parcel wherever it is.)\<close>

theorem owners_are_bound:
  assumes "extract_relationships E xs pid w = (bs, w')" and "xs \<noteq> []"
  shows "mset (List.map_filter pb_parcel bs) = image_mset to_entity_ref (mset (items_of ''survey_number'' xs)) \<and>
    (items_of ''survey_number'' xs \<noteq> [] \<or> length (items_of ''owner_name'' xs) \<le> 1 \<longrightarrow>
       list_all (\<lambda>x. \<exists>b \<in> set bs. binds_owner x b) (items_of ''owner_name'' xs)) \<and>
    list_all (\<lambda>b. list_all (\<lambda>r. \<exists>x \<in> set (items_of ''owner_name'' xs).
       er_extraction_id r = ei_id x \<and> er_raw_value r = ei_raw_value x \<and>
       (length (items_of ''survey_number'' xs) \<le> 1 \<and> length (items_of ''owner_name'' xs) \<le> 1 \<or>
        lies_in_band (items_of ''survey_number'' xs) (pb_parcel b) (item_y x))) (pb_owners b)) bs"
proof (cases "length (items_of ''survey_number'' xs) \<le> 1 \<and> length (items_of ''owner_name'' xs) \<le> 1")
  case True
  then have "single_parcel_bindings E (or_else pid (ei_page_id (hd xs))) (items_of ''survey_number'' xs)
      (items_of ''owner_name'' xs) (items_of ''relationship'' xs) (items_of ''share_fraction'' xs) w = (bs, w')"
    using assms by (simp add: extract_relationships_def Let_def)
  from single_parcel_bound [OF this] True show ?thesis by simp
next
  case False
  then have "multi_parcel_bindings E (or_else pid (ei_page_id (hd xs))) (items_of ''survey_number'' xs)
      (items_of ''owner_name'' xs) (items_of ''relationship'' xs) (items_of ''share_fraction'' xs) w = (bs, w')"
    using assms by (auto simp: extract_relationships_def Let_def)
  from multi_parcel_bound [OF this False] show ?thesis by (simp only: False simp_thms) (elim conjE, assumption)
qed

definition demo_item :: "string \<Rightarrow> string \<Rightarrow> string \<Rightarrow> real \<Rightarrow> extraction_item" where
  "demo_item xid fn raw y = \<lparr>ei_id = xid, ei_page_id = ''p1'', ei_field_name = fn, ei_raw_value = raw,
     ei_canonical_value = Some raw, ei_unconstrained_value = Some raw,
     ei_bbox = Some \<lparr>bx_x = 0, bx_y = y, bx_w = 100, bx_h = 20\<rparr>, ei_engine = ''printed_ocr'', ei_model_version = ''v1'',
     ei_config_version = ''cfg'', ei_token_confidence = 0.9, ei_calibrated_confidence = None, ei_novelty_score = None,
     ei_routing_outcome = None, ei_entry_status = ''unknown'', ei_attestation_refs = [], ei_top_k = []\<rparr>"

theorem owners_are_bound_witness:
  "\<exists>bs w'. extract_relationships demo_env [demo_item ''s1'' ''survey_number'' ''45'' 100, demo_item ''o1'' ''owner_name'' ''A'' 130,
       demo_item ''s2'' ''survey_number'' ''46'' 300, demo_item ''o2'' ''owner_name'' ''B'' 330] None
       \<lparr>uuids_drawn = 0, clock_reads = 0\<rparr> = (bs, w') \<and>
     (\<exists>b \<in> set bs. binds_owner (demo_item ''o2'' ''owner_name'' ''B'' 330) b)"
proof -
  let ?xs = "[demo_item ''s1'' ''survey_number'' ''45'' 100, demo_item ''o1'' ''owner_name'' ''A'' 130,
       demo_item ''s2'' ''survey_number'' ''46'' 300, demo_item ''o2'' ''owner_name'' ''B'' 330]"
  obtain bs w' where r: "extract_relationships demo_env ?xs None \<lparr>uuids_drawn = 0, clock_reads = 0\<rparr> = (bs, w')"
    by fastforce
  have "items_of ''survey_number'' ?xs \<noteq> []" "demo_item ''o2'' ''owner_name'' ''B'' 330 \<in> set (items_of ''owner_name'' ?xs)"
    by (simp_all add: items_of_def demo_item_def)
  with owners_are_bound [OF r] show ?thesis using r by (fastforce simp: list_all_iff)
qed

text \<open>
  What goes wrong. With two owners and no survey number nothing is bound at all; and an owner up to
  twenty pixels above a parcel is bound to it as well as to the parcel before it, because the bands
  overlap.
\<close>

lemma owners_without_parcel_lost:
  "fst (extract_relationships E [demo_item ''o1'' ''owner_name'' ''A'' 130, demo_item ''o2'' ''owner_name'' ''B'' 330] pid w) = []"
  by (simp add: extract_relationships_def items_of_def demo_item_def multi_parcel_bindings_def owners_with_labels_def
      item_y_def y_center_def Let_def)

lemma owner_bound_twice:
  "in_band (item_y (demo_item ''s1'' ''survey_number'' ''45'' 100)) (Some (item_y (demo_item ''s2'' ''survey_number'' ''46'' 300)))
     (demo_item ''o1'' ''owner_name'' ''A'' 290)"
  "in_band (item_y (demo_item ''s2'' ''survey_number'' ''46'' 300)) None (demo_item ''o1'' ''owner_name'' ''A'' 290)"
  by (simp_all add: in_band_def item_y_def y_center_def demo_item_def)

end
