(* ===== verification/Record_Assembly.thy ===== *)
theory Record_Assembly
  imports Prelude "HOL-Library.AList" "HOL-Library.Multiset"
begin

text \<open>
  Assembly of a record from the extractions of several pages
  (\<open>extraction/domain/record_assembly.py\<close>): grouping by page, page order and gaps, merging of the
  fields with their readings and conflicts. The dictionaries of the code are records with one field
  for each key the code reads; \<open>None\<close> is a key that is missing. The text of the rationale is kept as
  the list of its lines, before they are formatted and joined.
\<close>

section \<open>Data\<close>

record reading =
  \<comment> \<open>an extraction, as far as assembly reads it\<close>
  rg_id :: "string option"
  rg_page_id :: "string option"
  rg_field_name :: "string option"
  rg_raw_value :: "string option"
  rg_canonical_value :: "string option"

record page_meta =
  pm_index :: "int option"
  pm_index_position :: "int option"
  pm_page_id :: "string option"
  pm_id :: "string option"
  pm_page_role :: "string option"
  pm_is_continuation :: bool
  pm_is_carried_forward :: bool

type_synonym page_group = "page_meta \<times> reading list"

datatype assembly_input = Flat "reading list" | Paged "reading list list"

record assembled_field =
  af_field_name :: string
  af_canonical_value :: "string option"
  af_source_extractions :: "reading list"
  af_is_conflicting :: bool
  af_conflicting_values :: "string list"

datatype rationale_line =
    Assembled_Line (rl_pages: nat) (rl_strategy: string)
  | Missing_Page_Line (rl_missing: "int list")
  | Conflict_Line (rl_field: string) (rl_values: "string list")
  | Duplicate_Line (rl_field: string) (rl_value: "string option") (rl_page: string) (rl_index: int)

datatype rationale = Override_Text string | Joined_Lines "rationale_line list"

record assembly_contract =
  as_contract_id :: string
  as_record_id :: string
  as_extraction_ids :: "string list"
  as_strategy :: string
  as_rationale :: rationale
  as_actor :: string

record assembled_record =
  ar_contract :: assembly_contract
  ar_fields :: "(string \<times> assembled_field) list"
  ar_page_order :: "string list"
  ar_missing_pages :: "int list"
  ar_has_conflicts :: bool

section \<open>Grouping by page\<close>

definition bare_meta :: "int \<Rightarrow> string option \<Rightarrow> page_meta" where
  "bare_meta index page_id =
     \<lparr>pm_index = Some index, pm_index_position = None, pm_page_id = page_id, pm_id = None, pm_page_role = None,
      pm_is_continuation = False, pm_is_carried_forward = False\<rparr>"

definition meta_page_id :: "string \<Rightarrow> page_meta \<Rightarrow> string" where
  \<comment> \<open>\<open>meta.get("page_id") or meta.get("id") or fallback\<close>\<close>
  "meta_page_id fallback m =
     (let p = or_str (pm_page_id m) (pm_id m) in if truthy p then or_empty p else fallback)"

definition reading_page :: "reading \<Rightarrow> string" where
  "reading_page r = (case rg_page_id r of Some p \<Rightarrow> p | None \<Rightarrow> ''default_page'')"

fun by_page :: "reading list \<Rightarrow> (string \<times> reading list) list \<Rightarrow> (string \<times> reading list) list" where
  "by_page [] groups = groups"
| "by_page (r # rs) groups =
     (let p = reading_page r
      in by_page rs (AList.update p ((case map_of groups p of Some g \<Rightarrow> g | None \<Rightarrow> []) @ [r]) groups))"

definition paged_groups :: "reading list list \<Rightarrow> page_meta list \<Rightarrow> page_group list" where
  "paged_groups page_lists metas =
     map (\<lambda>(i, rs).
            (if i < length metas then metas ! i
             else bare_meta (int i + 1)
                    (if rs \<noteq> [] then rg_page_id (hd rs) else Some (''page_'' @ str_of_int (int i + 1))), rs))
       (enumerate 0 page_lists)"

definition flat_groups :: "reading list \<Rightarrow> page_meta list \<Rightarrow> page_group list" where
  "flat_groups rs metas =
     (let groups = by_page rs []
      in if metas \<noteq> []
         then map (\<lambda>m. (m, case map_of groups (meta_page_id ''default_page'' m) of Some g \<Rightarrow> g | None \<Rightarrow> [])) metas
         else map (\<lambda>(i, p, g). (bare_meta (int i + 1) (Some p), g)) (enumerate 0 groups))"

definition group_index :: "page_group \<Rightarrow> int" where
  \<comment> \<open>\<open>int(meta.get("index") or meta.get("index_position") or 0)\<close>\<close>
  "group_index g =
     (case pm_index (fst g) of
        Some i \<Rightarrow> if i \<noteq> 0 then i else (case pm_index_position (fst g) of Some j \<Rightarrow> j | None \<Rightarrow> 0)
      | None \<Rightarrow> (case pm_index_position (fst g) of Some j \<Rightarrow> j | None \<Rightarrow> 0))"

definition page_groups :: "assembly_input \<Rightarrow> page_meta list \<Rightarrow> page_group list" where
  "page_groups extractions metas =
     sort_key group_index
       (case extractions of
          Flat rs \<Rightarrow> flat_groups rs metas
        | Paged [] \<Rightarrow> flat_groups [] metas
        | Paged (p # ps) \<Rightarrow> paged_groups (p # ps) metas)"

section \<open>Page order, gaps and strategy\<close>

record page_scan =
  sc_order :: "string list"
  sc_continuation :: bool
  sc_carried :: bool
  sc_missing :: "int list"
  sc_prev :: "int option"

definition scan_page :: "page_scan \<Rightarrow> page_group \<Rightarrow> page_scan" where
  "scan_page s g =
     (let m = fst g
      in \<lparr>sc_order = sc_order s @ [meta_page_id ''unknown_page'' m],
          sc_continuation = (sc_continuation s \<or> pm_is_continuation m \<or>
             pm_page_role m = Some ''continuation'' \<or> pm_page_role m = Some ''endorsement''),
          sc_carried = (sc_carried s \<or> pm_is_carried_forward m \<or> pm_page_role m = Some ''carried_forward''),
          sc_missing = sc_missing s @ (case (sc_prev s, pm_index m) of
             (Some p, Some i) \<Rightarrow> if i > p + 1 then [p + 1..i - 1] else [] | _ \<Rightarrow> []),
          sc_prev = (case pm_index m of Some i \<Rightarrow> Some i | None \<Rightarrow> sc_prev s)\<rparr>)"

definition scan_pages :: "page_group list \<Rightarrow> page_scan" where
  "scan_pages groups =
     foldl scan_page \<lparr>sc_order = [], sc_continuation = False, sc_carried = False, sc_missing = [], sc_prev = None\<rparr> groups"

definition ASSEMBLY_STRATEGIES :: "string list" where
  "ASSEMBLY_STRATEGIES = [''single_page'', ''continuation'', ''carried_forward'']"

definition detect_strategy :: "string option \<Rightarrow> page_scan \<Rightarrow> nat \<Rightarrow> string" where
  "detect_strategy strategy s num_pages =
     (if truthy strategy then or_empty strategy
      else if sc_carried s then ''carried_forward''
      else if sc_continuation s \<or> num_pages > 1 then ''continuation''
      else ''single_page'')"

section \<open>Merging the fields\<close>

record merge_state =
  mg_ids :: "string list"
  mg_fields :: "(string \<times> assembled_field) list"
  mg_conflicts :: bool
  mg_lines :: "rationale_line list"

definition canonical_or_raw :: "reading \<Rightarrow> string option" where
  "canonical_or_raw r = or_str (rg_canonical_value r) (rg_raw_value r)"

definition new_field :: "string \<Rightarrow> reading \<Rightarrow> assembled_field" where
  "new_field fn r =
     \<lparr>af_field_name = fn, af_canonical_value = canonical_or_raw r, af_source_extractions = [r],
      af_is_conflicting = False,
      af_conflicting_values = (if truthy (canonical_or_raw r) then [or_empty (canonical_or_raw r)] else [])\<rparr>"

definition conflicts_with :: "assembled_field \<Rightarrow> reading \<Rightarrow> bool" where
  "conflicts_with af r \<longleftrightarrow>
     truthy (canonical_or_raw r) \<and> or_empty (canonical_or_raw r) \<notin> set (af_conflicting_values af)"

definition add_reading :: "assembled_field \<Rightarrow> reading \<Rightarrow> assembled_field" where
  "add_reading af r =
     (let af' = af\<lparr>af_source_extractions := af_source_extractions af @ [r]\<rparr>
      in if conflicts_with af r
         then af'\<lparr>af_is_conflicting := True,
                  af_conflicting_values := af_conflicting_values af @ [or_empty (canonical_or_raw r)]\<rparr>
         else af')"

definition merge_reading :: "page_meta \<Rightarrow> merge_state \<Rightarrow> reading \<Rightarrow> merge_state" where
  "merge_reading m s r =
     (let s = (if truthy (rg_id r) \<and> or_empty (rg_id r) \<notin> set (mg_ids s)
               then s\<lparr>mg_ids := mg_ids s @ [or_empty (rg_id r)]\<rparr> else s);
          fn = or_empty (rg_field_name r)
      in if \<not> truthy (rg_field_name r) then s
         else
           (case map_of (mg_fields s) fn of
              None \<Rightarrow> s\<lparr>mg_fields := AList.update fn (new_field fn r) (mg_fields s)\<rparr>
            | Some af \<Rightarrow>
                s\<lparr>mg_fields := AList.update fn (add_reading af r) (mg_fields s),
                  mg_conflicts := (mg_conflicts s \<or> conflicts_with af r),
                  mg_lines := mg_lines s @
                    [if conflicts_with af r then Conflict_Line fn (af_conflicting_values (add_reading af r))
                     else Duplicate_Line fn (canonical_or_raw r) (meta_page_id ''unknown_page'' m)
                            (case pm_index m of Some i \<Rightarrow> i | None \<Rightarrow> 1)]\<rparr>))"

definition merge_page :: "merge_state \<Rightarrow> page_group \<Rightarrow> merge_state" where
  "merge_page s g = foldl (merge_reading (fst g)) s (snd g)"

section \<open>Assembly\<close>

definition assemble_multi_page_record ::
  "env \<Rightarrow> assembly_input \<Rightarrow> string option \<Rightarrow> string option \<Rightarrow> string option \<Rightarrow> string \<Rightarrow> page_meta list
    \<Rightarrow> 'a world_scheme \<Rightarrow> (exn + assembled_record) \<times> 'a world_scheme"
where
  \<comment> \<open>an absent \<open>pages_metadata\<close> is the empty list\<close>
  "assemble_multi_page_record E extractions record_id strategy rationale_override actor metas w =
     (let (rec_id, w) = (if truthy record_id then (or_empty record_id, w) else draw_uuid E w);
          groups = page_groups extractions metas;
          scan = scan_pages groups;
          detected = detect_strategy strategy scan (length groups)
      in if detected \<notin> set ASSEMBLY_STRATEGIES then (Inl (ValueError ''Invalid assembly strategy''), w)
         else
           (let start = [Assembled_Line (length groups) detected]
                  @ (if sc_missing scan \<noteq> [] then [Missing_Page_Line (sc_missing scan)] else []);
                merged = foldl merge_page \<lparr>mg_ids = [], mg_fields = [], mg_conflicts = False, mg_lines = start\<rparr> groups;
                (cid, w) = draw_uuid E w
            in (Inr \<lparr>ar_contract = \<lparr>as_contract_id = cid, as_record_id = rec_id, as_extraction_ids = mg_ids merged,
                       as_strategy = detected,
                       as_rationale = (if truthy rationale_override then Override_Text (or_empty rationale_override)
                                       else Joined_Lines (mg_lines merged)),
                       as_actor = actor\<rparr>,
                     ar_fields = mg_fields merged, ar_page_order = sc_order scan, ar_missing_pages = sc_missing scan,
                     ar_has_conflicts = mg_conflicts merged\<rparr>, w)))"

definition assemble ::
  "env \<Rightarrow> assembly_input \<Rightarrow> string option \<Rightarrow> string option \<Rightarrow> string option \<Rightarrow> string \<Rightarrow> page_meta list
    \<Rightarrow> 'a world_scheme \<Rightarrow> (exn + assembly_contract) \<times> 'a world_scheme"
where
  "assemble E extractions record_id strategy rationale actor metas w =
     (case assemble_multi_page_record E extractions record_id strategy rationale actor metas w of
        (Inl err, w) \<Rightarrow> (Inl err, w) | (Inr r, w) \<Rightarrow> (Inr (ar_contract r), w))"

section \<open>Lemmas\<close>

subsection \<open>One field\<close>

definition value_of :: "reading \<Rightarrow> string list" where
  "value_of r = (if truthy (canonical_or_raw r) then [or_empty (canonical_or_raw r)] else [])"

definition values_of :: "reading list \<Rightarrow> string set" where
  "values_of rs = set (concat (map value_of rs))"

lemma values_of_simps [simp]: "values_of [] = {}" "values_of (r # rs) = set (value_of r) \<union> values_of rs"
  "values_of (rs @ ss) = values_of rs \<union> values_of ss"
  by (simp_all add: values_of_def)

lemma conflicts_with_iff: "conflicts_with af r \<longleftrightarrow> \<not> set (value_of r) \<subseteq> set (af_conflicting_values af)"
  by (cases "truthy (canonical_or_raw r)") (simp_all add: conflicts_with_def value_of_def)

lemma add_reading_fields:
  "af_field_name (add_reading af r) = af_field_name af"
  "af_source_extractions (add_reading af r) = af_source_extractions af @ [r]"
  "af_canonical_value (add_reading af r) = af_canonical_value af"
  "af_is_conflicting (add_reading af r) \<longleftrightarrow> af_is_conflicting af \<or> conflicts_with af r"
  "af_conflicting_values (add_reading af r) =
     af_conflicting_values af @ (if conflicts_with af r then [or_empty (canonical_or_raw r)] else [])"
  by (simp_all add: add_reading_def Let_def)

definition merged_field :: "string \<Rightarrow> reading list \<Rightarrow> assembled_field option" where
  "merged_field fn rs = (case rs of [] \<Rightarrow> None | r # rest \<Rightarrow> Some (foldl add_reading (new_field fn r) rest))"

lemma merged_field_snoc:
  "merged_field fn (rs @ [r]) = Some (case merged_field fn rs of None \<Rightarrow> new_field fn r | Some af \<Rightarrow> add_reading af r)"
  by (cases rs) (simp_all add: merged_field_def)

lemma add_readings_props:
  "let af = foldl add_reading (new_field fn r) rest
   in af_field_name af = fn \<and> af_source_extractions af = r # rest \<and> af_canonical_value af = canonical_or_raw r \<and>
      distinct (af_conflicting_values af) \<and> set (af_conflicting_values af) = values_of (r # rest) \<and>
      (af_is_conflicting af \<longleftrightarrow> length (value_of r) < length (af_conflicting_values af))"
proof (induction rest rule: rev_induct)
  case Nil
  show ?case by (simp add: new_field_def value_of_def)
next
  case (snoc x rest)
  let ?af = "foldl add_reading (new_field fn r) rest"
  from snoc have IH: "af_field_name ?af = fn" "af_source_extractions ?af = r # rest"
    "af_canonical_value ?af = canonical_or_raw r" "distinct (af_conflicting_values ?af)"
    "set (af_conflicting_values ?af) = values_of (r # rest)"
    "af_is_conflicting ?af \<longleftrightarrow> length (value_of r) < length (af_conflicting_values ?af)" by (simp_all add: Let_def)
  have "set (value_of r) \<subseteq> set (af_conflicting_values ?af)" unfolding IH(5) by simp
  moreover have "distinct (value_of r)" by (simp add: value_of_def)
  ultimately have le: "length (value_of r) \<le> length (af_conflicting_values ?af)"
    by (metis IH(4) card_mono distinct_card finite_set)
  show ?case
  proof (cases "conflicts_with ?af x")
    case True
    then have "value_of x = [or_empty (canonical_or_raw x)]"
      "or_empty (canonical_or_raw x) \<notin> set (af_conflicting_values ?af)"
      by (simp_all add: conflicts_with_def value_of_def)
    then show ?thesis using True IH le unfolding Let_def foldl_append foldl_Cons foldl_Nil add_reading_fields
      by simp
  next
    case False
    then have "set (value_of x) \<subseteq> values_of (r # rest)" unfolding conflicts_with_iff IH(5) by simp
    then show ?thesis using False IH unfolding Let_def foldl_append foldl_Cons foldl_Nil add_reading_fields
      by auto
  qed
qed

subsection \<open>All fields\<close>

definition named :: "string \<Rightarrow> reading \<Rightarrow> bool" where
  "named fn r \<longleftrightarrow> rg_field_name r = Some fn \<and> fn \<noteq> []"

lemma merge_reading_fields:
  "map_of (mg_fields (merge_reading m s r)) fn =
     (if named fn r then Some (case map_of (mg_fields s) fn of None \<Rightarrow> new_field fn r | Some af \<Rightarrow> add_reading af r)
      else map_of (mg_fields s) fn)"
  by (auto simp: merge_reading_def named_def Let_def truthy_def or_empty_def AList.update_conv' split: option.splits if_splits)

lemma merge_reading_ids:
  "mg_ids (merge_reading m s r) =
     (if truthy (rg_id r) \<and> or_empty (rg_id r) \<notin> set (mg_ids s) then mg_ids s @ [or_empty (rg_id r)] else mg_ids s)"
  by (auto simp: merge_reading_def Let_def split: option.splits)

definition merge_all :: "merge_state \<Rightarrow> (page_meta \<times> reading) list \<Rightarrow> merge_state" where
  "merge_all = foldl (\<lambda>s (m, r). merge_reading m s r)"

definition located :: "page_group list \<Rightarrow> (page_meta \<times> reading) list" where
  "located groups = concat (map (\<lambda>g. map (Pair (fst g)) (snd g)) groups)"

lemma merge_page_eq: "merge_page s g = merge_all s (map (Pair (fst g)) (snd g))"
proof -
  have "foldl (merge_reading m) s rs = merge_all s (map (Pair m) rs)" for m rs
    by (induction rs arbitrary: s) (simp_all add: merge_all_def)
  then show ?thesis by (simp add: merge_page_def)
qed

lemma merge_pages_eq: "foldl merge_page s groups = merge_all s (located groups)"
  by (induction groups arbitrary: s) (simp_all add: merge_page_eq located_def merge_all_def)

lemma located_readings: "map snd (located groups) = concat (map snd groups)"
  by (induction groups) (simp_all add: located_def comp_def)

lemma merge_all_props:
  assumes "mg_ids s = []" and "mg_fields s = []" and "\<not> mg_conflicts s"
  shows "map_of (mg_fields (merge_all s ps)) fn = merged_field fn (filter (named fn) (map snd ps))"
    and "distinct (mg_ids (merge_all s ps))"
    and "set (mg_ids (merge_all s ps)) = {i. i \<noteq> [] \<and> Some i \<in> rg_id ` set (map snd ps)}"
proof (induction ps rule: rev_induct)
  case Nil
  show "map_of (mg_fields (merge_all s [])) fn = merged_field fn (filter (named fn) (map snd []))"
    "distinct (mg_ids (merge_all s []))" "set (mg_ids (merge_all s [])) = {i. i \<noteq> [] \<and> Some i \<in> rg_id ` set (map snd [])}"
    using assms by (simp_all add: merge_all_def merged_field_def)
next
  case (snoc p ps)
  obtain m r where p: "p = (m, r)" by (cases p)
  have step: "merge_all s (ps @ [p]) = merge_reading m (merge_all s ps) r" by (simp add: merge_all_def p)
  show "map_of (mg_fields (merge_all s (ps @ [p]))) fn = merged_field fn (filter (named fn) (map snd (ps @ [p])))"
    unfolding step merge_reading_fields using snoc(1) by (simp add: p merged_field_snoc)
  show "distinct (mg_ids (merge_all s (ps @ [p])))" unfolding step merge_reading_ids using snoc(2) by simp
  show "set (mg_ids (merge_all s (ps @ [p]))) = {i. i \<noteq> [] \<and> Some i \<in> rg_id ` set (map snd (ps @ [p]))}"
    unfolding step merge_reading_ids using snoc(3)
    by (cases "rg_id r") (auto simp: p truthy_def or_empty_def image_iff)
qed

lemma merge_all_conflicts:
  assumes "mg_fields s = []" and "\<not> mg_conflicts s"
  shows "mg_conflicts (merge_all s ps) \<longleftrightarrow>
    (\<exists>fn af. map_of (mg_fields (merge_all s ps)) fn = Some af \<and> af_is_conflicting af)"
proof (induction ps rule: rev_induct)
  case Nil
  then show ?case using assms by (simp add: merge_all_def)
next
  case (snoc p ps)
  obtain m r where p: "p = (m, r)" by (cases p)
  let ?s = "merge_all s ps"
  have step: "merge_all s (ps @ [p]) = merge_reading m ?s r" by (simp add: merge_all_def p)
  show ?case
  proof (cases "truthy (rg_field_name r)")
    case False
    then have "mg_fields (merge_reading m ?s r) = mg_fields ?s" "mg_conflicts (merge_reading m ?s r) = mg_conflicts ?s"
      by (simp_all add: merge_reading_def Let_def)
    with snoc show ?thesis unfolding step by simp
  next
    case True
    then obtain fn where fn: "named fn r" by (cases "rg_field_name r") (auto simp: named_def truthy_def)
    then have uniq: "named g r \<longleftrightarrow> g = fn" for g by (auto simp: named_def)
    have flds: "map_of (mg_fields (merge_reading m ?s r)) g =
        (if g = fn then Some (case map_of (mg_fields ?s) g of None \<Rightarrow> new_field g r | Some af \<Rightarrow> add_reading af r)
         else map_of (mg_fields ?s) g)" for g unfolding merge_reading_fields uniq by simp
    have conf: "mg_conflicts (merge_reading m ?s r) \<longleftrightarrow> mg_conflicts ?s \<or>
        (case map_of (mg_fields ?s) fn of None \<Rightarrow> False | Some af \<Rightarrow> conflicts_with af r)"
      using fn by (auto simp: merge_reading_def named_def Let_def truthy_def or_empty_def split: option.splits)
    have add: "af_is_conflicting (add_reading af r) \<longleftrightarrow> af_is_conflicting af \<or> conflicts_with af r" for af
      by (simp add: add_reading_fields)
    have new: "\<not> af_is_conflicting (new_field fn r)" by (simp add: new_field_def)
    have "(\<exists>g af. map_of (mg_fields (merge_reading m ?s r)) g = Some af \<and> af_is_conflicting af) \<longleftrightarrow>
        (\<exists>g af. g \<noteq> fn \<and> map_of (mg_fields ?s) g = Some af \<and> af_is_conflicting af) \<or>
        af_is_conflicting (case map_of (mg_fields ?s) fn of None \<Rightarrow> new_field fn r | Some af \<Rightarrow> add_reading af r)"
      by (auto simp: flds)
    moreover have "(\<exists>g af. map_of (mg_fields ?s) g = Some af \<and> af_is_conflicting af) \<longleftrightarrow>
        (\<exists>g af. g \<noteq> fn \<and> map_of (mg_fields ?s) g = Some af \<and> af_is_conflicting af) \<or>
        (case map_of (mg_fields ?s) fn of None \<Rightarrow> False | Some af \<Rightarrow> af_is_conflicting af)"
      by (cases "map_of (mg_fields ?s) fn") (simp_all, metis option.distinct(1), metis option.inject)
    ultimately show ?thesis unfolding step conf snoc
      by (cases "map_of (mg_fields ?s) fn") (auto simp: add new)
  qed
qed

subsection \<open>Gaps\<close>

lemma scan_snoc: "scan_pages (gs @ [g]) = scan_page (scan_pages gs) g"
  by (simp add: scan_pages_def)

definition indexes :: "page_group list \<Rightarrow> int list" where
  "indexes groups = map (the \<circ> pm_index \<circ> fst) groups"

definition all_indexed :: "page_group list \<Rightarrow> bool" where
  "all_indexed groups \<longleftrightarrow> list_all (\<lambda>g. pm_index (fst g) \<noteq> None) groups"

lemma scan_order: "length (sc_order (scan_pages gs)) = length gs"
  by (induction gs rule: rev_induct) (simp_all add: scan_snoc scan_page_def Let_def, simp add: scan_pages_def)

lemma sorted_le_last: "sorted xs \<Longrightarrow> x \<in> set xs \<Longrightarrow> x \<le> last (xs :: int list)"
  by (induction xs) auto

lemma scan_gaps:
  assumes "all_indexed gs" and "sorted (indexes gs)"
  shows "sc_prev (scan_pages gs) = (if gs = [] then None else Some (last (indexes gs))) \<and>
    distinct (sc_missing (scan_pages gs)) \<and> sorted (sc_missing (scan_pages gs)) \<and>
    set (sc_missing (scan_pages gs)) = {i. (\<exists>j\<in>set (indexes gs). j < i) \<and> (\<exists>j\<in>set (indexes gs). i < j) \<and> i \<notin> set (indexes gs)}"
  using assms
proof (induction gs rule: rev_induct)
  case Nil
  then show ?case by (simp add: scan_pages_def indexes_def)
next
  case (snoc g gs)
  let ?s = "scan_pages gs" and ?is = "indexes gs"
  obtain i where i: "pm_index (fst g) = Some i" using snoc.prems(1) by (auto simp: all_indexed_def)
  have idx: "indexes (gs @ [g]) = ?is @ [i]" by (simp add: indexes_def i)
  have srt: "sorted ?is" "\<And>j. j \<in> set ?is \<Longrightarrow> j \<le> i"
    using snoc.prems(2) unfolding idx by (auto simp: sorted_append)
  have IH: "sc_prev ?s = (if gs = [] then None else Some (last ?is))" "distinct (sc_missing ?s)" "sorted (sc_missing ?s)"
    "set (sc_missing ?s) = {i. (\<exists>j\<in>set ?is. j < i) \<and> (\<exists>j\<in>set ?is. i < j) \<and> i \<notin> set ?is}"
    using snoc.IH snoc.prems srt(1) by (simp_all add: all_indexed_def)
  have prev: "sc_prev (scan_pages (gs @ [g])) = Some i" by (simp add: scan_snoc scan_page_def Let_def i)
  show ?case
  proof (cases "gs = []")
    case True
    then show ?thesis by (simp add: scan_pages_def scan_page_def Let_def i indexes_def)
  next
    case False
    define p where "p = last ?is"
    have ne: "?is \<noteq> []" using False by (simp add: indexes_def)
    have p: "p \<in> set ?is" "\<And>j. j \<in> set ?is \<Longrightarrow> j \<le> p"
      using ne sorted_le_last [OF srt(1)] by (simp_all add: p_def)
    then have pi: "p \<le> i" using srt(2) by blast
    have miss: "sc_missing (scan_pages (gs @ [g])) = sc_missing ?s @ (if i > p + 1 then [p + 1..i - 1] else [])"
      using IH(1) False by (simp add: scan_snoc scan_page_def Let_def i p_def)
    have below: "j < p" if "j \<in> set (sc_missing ?s)" for j
      using that IH(4) p(2) by (auto intro: less_le_trans)
    have "distinct (sc_missing ?s @ (if i > p + 1 then [p + 1..i - 1] else []))"
      using IH(2) below by fastforce
    moreover have "sorted (sc_missing ?s @ (if i > p + 1 then [p + 1..i - 1] else []))"
      using IH(3) below by (fastforce simp: sorted_append)
    moreover have "set (sc_missing ?s @ (if i > p + 1 then [p + 1..i - 1] else [])) =
        {k. (\<exists>j\<in>set (?is @ [i]). j < k) \<and> (\<exists>j\<in>set (?is @ [i]). k < j) \<and> k \<notin> set (?is @ [i])}" (is "?L = ?R")
    proof (rule set_eqI)
      fix k
      consider "k < p" | "k = p" | "p < k" by linarith
      then show "k \<in> ?L \<longleftrightarrow> k \<in> ?R"
      proof cases
        case 1
        then have "k < i" using pi by simp
        with 1 p(1) show ?thesis by (auto simp: IH(4))
      next
        case 2
        then have "k \<notin> set (sc_missing ?s)" using below by blast
        with 2 p(1) show ?thesis by auto
      next
        case 3
        then have "k \<notin> set ?is" "\<not> (\<exists>j\<in>set ?is. k < j)" "k \<notin> set (sc_missing ?s)"
          using p(2) below by force+
        with 3 p(1) show ?thesis by auto
      qed
    qed
    ultimately show ?thesis unfolding prev miss idx by simp
  qed
qed

subsection \<open>Grouping\<close>

definition group_readings :: "(string \<times> reading list) list \<Rightarrow> reading multiset" where
  "group_readings groups = mset (concat (map snd groups))"

lemma group_readings_update:
  "group_readings (AList.update p ((case map_of groups p of Some g \<Rightarrow> g | None \<Rightarrow> []) @ [r]) groups) =
     add_mset r (group_readings groups)"
  by (induction groups) (auto simp: group_readings_def)

lemma by_page_readings: "group_readings (by_page rs groups) = mset rs + group_readings groups"
  by (induction rs groups rule: by_page.induct) (simp_all add: Let_def group_readings_update)

lemma concat_enumerate: "concat (map (\<lambda>(i, x). f x) (enumerate n xs)) = concat (map f xs)"
  by (induction xs arbitrary: n) simp_all

lemma readings_kept:
  assumes "metas = [] \<or> (\<exists>ps. extrs = Paged ps)"
  shows "mset (concat (map snd (page_groups extrs metas))) =
     (case extrs of Flat rs \<Rightarrow> mset rs | Paged ps \<Rightarrow> mset (concat ps))"
proof -
  have sorted: "mset (concat (map snd (sort_key group_index gs))) = mset (concat (map snd gs))" for gs :: "page_group list"
  proof -
    have "sum_mset (image_mset (mset \<circ> snd) (mset (sort_key group_index gs))) = sum_mset (image_mset (mset \<circ> snd) (mset gs))"
      by simp
    moreover have "mset (concat (map snd hs)) = sum_mset (image_mset (mset \<circ> snd) (mset hs))" for hs :: "page_group list"
      by (induction hs) simp_all
    ultimately show ?thesis by simp
  qed
  have flat: "mset (concat (map snd (flat_groups rs []))) = mset rs" for rs
    using by_page_readings [of rs "[]"] concat_enumerate [of snd 0 "by_page rs []"]
    by (simp add: flat_groups_def Let_def group_readings_def comp_def case_prod_unfold)
  have paged: "concat (map snd (paged_groups ps ms)) = concat ps" for ps ms
    using concat_enumerate [of id 0 ps] by (simp add: paged_groups_def comp_def case_prod_unfold)
  have none: "concat (map snd (flat_groups [] ms)) = []" for ms by (simp add: flat_groups_def Let_def)
  show ?thesis unfolding page_groups_def sorted
    using assms by (cases extrs) (auto simp: flat paged none split: list.splits)
qed

text \<open>The pages of a record and the readings on each, from the input alone: pages without metadata are
  numbered in the order in which they first appear.\<close>

definition first_seen :: "reading list \<Rightarrow> string list" where
  "first_seen rs = rev (remdups (rev (map reading_page rs)))"

definition page_of_readings :: "string \<Rightarrow> reading list \<Rightarrow> reading list" where
  "page_of_readings p rs = filter (\<lambda>r. reading_page r = p) rs"

definition input_pages :: "assembly_input \<Rightarrow> page_meta list \<Rightarrow> page_group list" where
  "input_pages extrs metas =
     (case extrs of
        Flat rs \<Rightarrow>
          if metas = [] then map (\<lambda>(i, p). (bare_meta (int i + 1) (Some p), page_of_readings p rs)) (enumerate 0 (first_seen rs))
          else map (\<lambda>m. (m, page_of_readings (meta_page_id ''default_page'' m) rs)) metas
      | Paged ps \<Rightarrow>
          if ps = [] then map (\<lambda>m. (m, [])) metas
          else map (\<lambda>i. (if i < length metas then metas ! i
                         else bare_meta (int i + 1)
                                (case ps ! i of r # _ \<Rightarrow> rg_page_id r | [] \<Rightarrow> Some (''page_'' @ str_of_int (int i + 1))), ps ! i))
                 [0..<length ps])"

definition given_readings :: "assembly_input \<Rightarrow> page_meta list \<Rightarrow> reading list" where
  \<comment> \<open>every reading, but with a list of pages for a flat input those of each listed page\<close>
  "given_readings extrs metas =
     (case extrs of
        Paged ps \<Rightarrow> concat ps
      | Flat rs \<Rightarrow> if metas = [] then rs
                   else concat (map (\<lambda>m. page_of_readings (meta_page_id ''default_page'' m) rs) metas))"

lemma update_keyed:
  "distinct qs \<Longrightarrow> AList.update p v (map (\<lambda>q. (q, f q)) qs) =
     (if p \<in> set qs then map (\<lambda>q. (q, if q = p then v else f q)) qs else map (\<lambda>q. (q, f q)) qs @ [(p, v)])"
  by (induction qs) (auto intro!: map_cong)

lemma map_of_keyed: "map_of (map (\<lambda>q. (q, f q)) qs) p = (if p \<in> set qs then Some (f p) else None)"
  by (induction qs) auto

lemma page_of_readings_none: "p \<notin> reading_page ` set rs \<Longrightarrow> page_of_readings p rs = []"
  by (induction rs) (auto simp: page_of_readings_def)

lemma set_first_seen: "set (first_seen rs) = reading_page ` set rs"
  by (simp add: first_seen_def)

lemma by_page_append: "by_page (rs @ ss) groups = by_page ss (by_page rs groups)"
  by (induction rs groups rule: by_page.induct) (simp_all add: Let_def)

lemma by_page_pages: "by_page rs [] = map (\<lambda>p. (p, page_of_readings p rs)) (first_seen rs)"
proof (induction rs rule: rev_induct)
  case Nil
  then show ?case by (simp add: first_seen_def)
next
  case (snoc r rs)
  let ?p = "reading_page r"
  have dist: "distinct (first_seen rs)" and mem: "set (first_seen rs) = reading_page ` set rs"
    by (simp_all add: first_seen_def)
  have seen: "first_seen (rs @ [r]) = (if ?p \<in> set (first_seen rs) then first_seen rs else first_seen rs @ [?p])"
    unfolding mem by (auto simp: first_seen_def)
  have none: "page_of_readings ?p rs = []" if "?p \<notin> set (first_seen rs)"
    using that unfolding mem by (rule page_of_readings_none)
  have page: "page_of_readings q (rs @ [r]) = (if q = ?p then page_of_readings q rs @ [r] else page_of_readings q rs)" for q
    by (simp add: page_of_readings_def)
  show ?case
    using none by (simp add: by_page_append snoc Let_def map_of_keyed update_keyed [OF dist] seen page)
      (auto intro!: map_cong)
qed

lemma enumerate_map: "enumerate n (map f xs) = map (\<lambda>(i, x). (i, f x)) (enumerate n xs)"
  by (induction xs arbitrary: n) simp_all

lemma flat_groups_pages: "flat_groups rs metas = input_pages (Flat rs) metas"
proof (cases "metas = []")
  case True
  then show ?thesis
    by (simp add: flat_groups_def input_pages_def by_page_pages enumerate_map comp_def case_prod_unfold)
next
  case False
  have "(case map_of (by_page rs []) p of Some g \<Rightarrow> g | None \<Rightarrow> []) = page_of_readings p rs" for p
    by (auto simp: by_page_pages map_of_keyed set_first_seen page_of_readings_none)
  with False show ?thesis by (simp add: flat_groups_def input_pages_def Let_def)
qed

lemma paged_groups_pages: "ps \<noteq> [] \<Longrightarrow> paged_groups ps metas = input_pages (Paged ps) metas"
  by (rule nth_equalityI)
     (auto simp: paged_groups_def input_pages_def nth_enumerate_eq neq_Nil_conv split: list.split)

lemma page_groups_pages: "page_groups extrs metas = sort_key group_index (input_pages extrs metas)"
proof (cases extrs)
  case (Flat rs)
  then show ?thesis by (simp add: page_groups_def flat_groups_pages)
next
  case (Paged ps)
  have "input_pages (Flat []) metas = input_pages (Paged []) metas"
    by (simp add: input_pages_def page_of_readings_def first_seen_def)
  with Paged show ?thesis
    by (cases ps) (simp_all add: page_groups_def flat_groups_pages paged_groups_pages)
qed

lemma mset_concat_sorted:
  "mset (concat (map snd (sort_key group_index gs))) = mset (concat (map snd gs))" for gs :: "page_group list"
proof -
  have "mset (concat (map snd hs)) = sum_mset (image_mset (mset \<circ> snd) (mset hs))" for hs :: "page_group list"
    by (induction hs) simp_all
  then show ?thesis by simp
qed

lemma given_readings_kept:
  "mset (concat (map snd (page_groups extrs metas))) = mset (given_readings extrs metas)"
proof (cases "metas = [] \<or> (\<exists>ps. extrs = Paged ps)")
  case True
  then show ?thesis using readings_kept [OF True] by (auto simp: given_readings_def split: assembly_input.splits)
next
  case False
  then obtain rs where "extrs = Flat rs" "metas \<noteq> []" by (cases extrs) auto
  then show ?thesis
    unfolding page_groups_pages mset_concat_sorted by (simp add: input_pages_def given_readings_def comp_def)
qed

lemma assemble_Inr:
  assumes "assemble_multi_page_record E extrs rid st ov actor metas w = (Inr r, w')"
  obtains lines where
    "ar_fields r = mg_fields (merge_all \<lparr>mg_ids = [], mg_fields = [], mg_conflicts = False, mg_lines = lines\<rparr>
       (located (page_groups extrs metas)))"
    "as_extraction_ids (ar_contract r) = mg_ids (merge_all \<lparr>mg_ids = [], mg_fields = [], mg_conflicts = False,
       mg_lines = lines\<rparr> (located (page_groups extrs metas)))"
    "ar_has_conflicts r \<longleftrightarrow> mg_conflicts (merge_all \<lparr>mg_ids = [], mg_fields = [], mg_conflicts = False,
       mg_lines = lines\<rparr> (located (page_groups extrs metas)))"
    "ar_missing_pages r = sc_missing (scan_pages (page_groups extrs metas))"
    "ar_page_order r = sc_order (scan_pages (page_groups extrs metas))"
    "as_strategy (ar_contract r) \<in> set ASSEMBLY_STRATEGIES"
  using assms that
  by (auto simp: assemble_multi_page_record_def Let_def merge_pages_eq split: prod.splits if_splits)

section \<open>Properties\<close>

text \<open>C36. Every reading is kept. The readings of an assembled record are the given ones, whatever pages
  they are on; only when a flat list comes with a list of pages, they are those of the listed pages.
  A field is there exactly if some such reading names it; it holds all of them that do, page by page
  in the order of the pages' indexes and in the given order on a page, its value is that of the first
  of them, its listed values are exactly the different ones read, and it is marked as conflicting
  exactly if there are more of these than the first reading accounts for; the record is marked
  exactly if a field is. The record's extraction ids are those of the readings, each once, and its
  strategy is one of the three allowed.\<close>

theorem every_reading_kept:
  assumes "assemble_multi_page_record E extrs rid st ov actor metas w = (Inr r, w')"
  shows "\<exists>kept. kept = concat (map snd (sort_key group_index (input_pages extrs metas))) \<and>
    mset kept = mset (given_readings extrs metas) \<and>
    (case map_of (ar_fields r) fn of
       None \<Rightarrow> filter (named fn) kept = []
     | Some af \<Rightarrow> \<exists>x xs. filter (named fn) kept = x # xs \<and>
         af_source_extractions af = x # xs \<and> af_field_name af = fn \<and> af_canonical_value af = canonical_or_raw x \<and>
         distinct (af_conflicting_values af) \<and> set (af_conflicting_values af) = values_of (x # xs) \<and>
         (af_is_conflicting af \<longleftrightarrow> (if truthy (canonical_or_raw x) then 1 else 0) < card (values_of (x # xs)))) \<and>
    (ar_has_conflicts r \<longleftrightarrow> (\<exists>g af. map_of (ar_fields r) g = Some af \<and> af_is_conflicting af)) \<and>
    distinct (as_extraction_ids (ar_contract r)) \<and>
    set (as_extraction_ids (ar_contract r)) =
      {i. i \<noteq> [] \<and> Some i \<in> rg_id ` set (given_readings extrs metas)} \<and>
    as_strategy (ar_contract r) \<in> {''single_page'', ''continuation'', ''carried_forward''}"
proof -
  let ?g = "page_groups extrs metas"
  obtain lines where r: "ar_fields r = mg_fields (merge_all \<lparr>mg_ids = [], mg_fields = [], mg_conflicts = False,
      mg_lines = lines\<rparr> (located ?g))"
    "as_extraction_ids (ar_contract r) = mg_ids (merge_all \<lparr>mg_ids = [], mg_fields = [], mg_conflicts = False,
       mg_lines = lines\<rparr> (located ?g))"
    "ar_has_conflicts r \<longleftrightarrow> mg_conflicts (merge_all \<lparr>mg_ids = [], mg_fields = [], mg_conflicts = False,
       mg_lines = lines\<rparr> (located ?g))"
    "as_strategy (ar_contract r) \<in> set ASSEMBLY_STRATEGIES"
    using assms by (rule assemble_Inr)
  have field: "map_of (ar_fields r) fn = merged_field fn (filter (named fn) (concat (map snd ?g)))"
    unfolding r(1) by (subst merge_all_props(1)) (simp_all add: located_readings)
  have "case map_of (ar_fields r) fn of
       None \<Rightarrow> filter (named fn) (concat (map snd ?g)) = []
     | Some af \<Rightarrow> \<exists>x xs. filter (named fn) (concat (map snd ?g)) = x # xs \<and>
         af_source_extractions af = x # xs \<and> af_field_name af = fn \<and> af_canonical_value af = canonical_or_raw x \<and>
         distinct (af_conflicting_values af) \<and> set (af_conflicting_values af) = values_of (x # xs) \<and>
         (af_is_conflicting af \<longleftrightarrow> (if truthy (canonical_or_raw x) then 1 else 0) < card (values_of (x # xs)))"
  proof (cases "filter (named fn) (concat (map snd ?g))")
    case (Cons x xs)
    let ?af = "foldl add_reading (new_field fn x) xs"
    note p = add_readings_props [of fn x xs, unfolded Let_def]
    then have "card (values_of (x # xs)) = length (af_conflicting_values ?af)" by (metis distinct_card)
    moreover have "length (value_of x) = (if truthy (canonical_or_raw x) then 1 else 0)" by (simp add: value_of_def)
    ultimately show ?thesis using p unfolding field Cons by (simp add: merged_field_def)
  qed (simp add: field merged_field_def)
  moreover have "ar_has_conflicts r \<longleftrightarrow> (\<exists>g af. map_of (ar_fields r) g = Some af \<and> af_is_conflicting af)"
    unfolding r(1,3) by (rule merge_all_conflicts) simp_all
  moreover have "distinct (as_extraction_ids (ar_contract r))" unfolding r(2) by (rule merge_all_props) simp_all
  moreover have "set (as_extraction_ids (ar_contract r)) = {i. i \<noteq> [] \<and> Some i \<in> rg_id ` set (concat (map snd ?g))}"
    unfolding r(2) by (subst merge_all_props(3)) (simp_all only: located_readings merge_state.select_convs simp_thms)
  moreover have "set (concat (map snd ?g)) = set (given_readings extrs metas)"
    using arg_cong [OF given_readings_kept, of set_mset] by simp
  ultimately show ?thesis using r(4) given_readings_kept [of extrs metas]
    by (intro exI [of _ "concat (map snd ?g)"] conjI)
       (simp_all only: page_groups_pages [symmetric], simp_all add: ASSEMBLY_STRATEGIES_def)
qed

definition demo_reading :: "string \<Rightarrow> string \<Rightarrow> string option \<Rightarrow> string \<Rightarrow> reading" where
  "demo_reading xid fn v page = \<lparr>rg_id = Some xid, rg_page_id = Some page, rg_field_name = Some fn, rg_raw_value = v,
     rg_canonical_value = None\<rparr>"

definition demo_meta :: "int \<Rightarrow> string \<Rightarrow> page_meta" where
  "demo_meta i page = bare_meta i (Some page)"

definition demo_assembly :: "assembly_input \<Rightarrow> page_meta list \<Rightarrow> (exn + assembled_record) \<times> world" where
  "demo_assembly extrs metas =
     assemble_multi_page_record demo_env extrs (Some ''rec'') None None ''system'' metas \<lparr>uuids_drawn = 0, clock_reads = 0\<rparr>"

lemma assemble_total:
  "\<exists>r w'. assemble_multi_page_record E extrs rid None ov actor metas w = (Inr r, w')"
  by (auto simp: assemble_multi_page_record_def Let_def detect_strategy_def ASSEMBLY_STRATEGIES_def truthy_def
      split: prod.splits)

theorem every_reading_kept_witness:
  "\<exists>r w' af. demo_assembly (Paged [[demo_reading ''x1'' ''area'' (Some ''2'') ''p1''], [demo_reading ''x2'' ''area'' (Some ''3'') ''p2'']])
       [demo_meta 2 ''p1'', demo_meta 1 ''p2''] = (Inr r, w') \<and>
     map_of (ar_fields r) ''area'' = Some af \<and> af_is_conflicting af \<and> af_canonical_value af = Some ''3''"
proof -
  let ?in = "Paged [[demo_reading ''x1'' ''area'' (Some ''2'') ''p1''], [demo_reading ''x2'' ''area'' (Some ''3'') ''p2'']]"
  let ?ms = "[demo_meta 2 ''p1'', demo_meta 1 ''p2'']"
  obtain r w' where r: "demo_assembly ?in ?ms = (Inr r, w')"
    using assemble_total unfolding demo_assembly_def by blast
  have g: "filter (named ''area'') (concat (map snd (sort_key group_index (input_pages ?in ?ms)))) =
      [demo_reading ''x2'' ''area'' (Some ''3'') ''p2'', demo_reading ''x1'' ''area'' (Some ''2'') ''p1'']"
    unfolding page_groups_pages [symmetric]
    by (simp add: page_groups_def paged_groups_def demo_meta_def bare_meta_def group_index_def named_def demo_reading_def)
  from every_reading_kept [OF r [unfolded demo_assembly_def], of "''area''"] g
  obtain af where "map_of (ar_fields r) ''area'' = Some af" "af_canonical_value af = Some ''3''" "af_is_conflicting af"
    by (cases "map_of (ar_fields r) ''area''")
       (auto simp: demo_reading_def canonical_or_raw_def or_str_def truthy_def value_of_def or_empty_def)
  with r show ?thesis by blast
qed

text \<open>Gaps are found exactly. When every page carries a positive index, the pages are put in the
  order of their indexes, each once, and the missing pages reported are exactly the indexes between
  the first and the last page that no page has, in order and each once; with the extractions given
  page by page, or with no page list at all, no extraction is lost on the way.\<close>

lemma gaps_found_exactly:
  assumes "assemble_multi_page_record E extrs rid st ov actor metas w = (Inr r, w')"
    and "all_indexed (page_groups extrs metas)" and "\<forall>i \<in> set (indexes (page_groups extrs metas)). 0 < i"
  shows "sorted (indexes (page_groups extrs metas)) \<and> length (ar_page_order r) = length (page_groups extrs metas) \<and>
    sorted (ar_missing_pages r) \<and> distinct (ar_missing_pages r) \<and>
    set (ar_missing_pages r) =
      {i. (\<exists>j\<in>set (indexes (page_groups extrs metas)). j < i) \<and> (\<exists>j\<in>set (indexes (page_groups extrs metas)). i < j) \<and>
          i \<notin> set (indexes (page_groups extrs metas))} \<and>
    (metas = [] \<or> (\<exists>ps. extrs = Paged ps) \<longrightarrow>
       mset (concat (map snd (page_groups extrs metas))) =
         (case extrs of Flat rs \<Rightarrow> mset rs | Paged ps \<Rightarrow> mset (concat ps)))"
proof -
  let ?g = "page_groups extrs metas"
  have "group_index g = the (pm_index (fst g))" if "g \<in> set ?g" for g
    using assms(2,3) that by (cases "pm_index (fst g)") (auto simp: all_indexed_def list_all_iff indexes_def group_index_def)
  then have "indexes ?g = map group_index ?g" unfolding indexes_def comp_def by (intro map_cong) simp_all
  moreover have "sorted (map group_index ?g)" unfolding page_groups_def by (rule sorted_sort_key)
  ultimately have s: "sorted (indexes ?g)" by simp
  from assms(1) have "ar_missing_pages r = sc_missing (scan_pages ?g)" "ar_page_order r = sc_order (scan_pages ?g)"
    by (auto elim: assemble_Inr)
  with s scan_gaps [OF assms(2) s] scan_order [of ?g] readings_kept [of metas extrs] show ?thesis by simp
qed

lemma gaps_found_exactly_example:
  "\<exists>r w'. demo_assembly (Paged [[demo_reading ''x1'' ''area'' (Some ''2'') ''p5''], []]) [demo_meta 5 ''p5'', demo_meta 2 ''p2''] =
       (Inr r, w') \<and> set (ar_missing_pages r) = {3, 4}"
proof -
  let ?in = "Paged [[demo_reading ''x1'' ''area'' (Some ''2'') ''p5''], []]"
  let ?ms = "[demo_meta 5 ''p5'', demo_meta 2 ''p2'']"
  obtain r w' where r: "demo_assembly ?in ?ms = (Inr r, w')"
    using assemble_total unfolding demo_assembly_def by blast
  have g: "page_groups ?in ?ms = [(demo_meta 2 ''p2'', []), (demo_meta 5 ''p5'', [demo_reading ''x1'' ''area'' (Some ''2'') ''p5''])]"
    by (simp add: page_groups_def paged_groups_def demo_meta_def bare_meta_def group_index_def)
  have i: "indexes (page_groups ?in ?ms) = [2, 5]" "all_indexed (page_groups ?in ?ms)"
    unfolding g by (simp_all add: indexes_def all_indexed_def demo_meta_def bare_meta_def)
  from gaps_found_exactly [OF r [unfolded demo_assembly_def] i(2), unfolded i(1)]
  have "set (ar_missing_pages r) = {k. (2 < k \<or> 5 < k) \<and> (k < 2 \<or> k < 5) \<and> k \<noteq> 2 \<and> k \<noteq> 5}" by auto
  also have "\<dots> = {3, 4}" by auto
  finally show ?thesis using r by blast
qed

text \<open>Two cases the code does not handle as its comments say. A field first read without a value and then
  with one is marked as conflicting, while its value stays empty; and extractions of a page that is
  not in \<open>pages_metadata\<close> are dropped without a trace.\<close>

lemma empty_first_reading_conflicts:
  assumes "canonical_or_raw x = None" and "canonical_or_raw y = Some v" and "v \<noteq> []"
  shows "af_is_conflicting (add_reading (new_field fn x) y)" "af_canonical_value (add_reading (new_field fn x) y) = None"
  using assms by (simp_all add: add_reading_fields new_field_def conflicts_with_def truthy_def or_empty_def)

lemma unlisted_page_dropped:
  "concat (map snd (page_groups (Flat [demo_reading ''x1'' ''area'' (Some ''2'') ''p9'']) [demo_meta 1 ''p1''])) = []"
  by (simp add: page_groups_def flat_groups_def demo_meta_def bare_meta_def demo_reading_def reading_page_def
      meta_page_id_def or_str_def truthy_def or_empty_def)

end
