(* ===== verification/Text_Lane.thy ===== *)
theory Text_Lane
  imports Relationships Record_Assembly Envelope Runner
begin

text \<open>
  The text lane of the extraction service: region routing and dispatch
  (\<open>extraction/domain/ocr/region_router.py\<close>), the two adapters (\<open>hwr_adapter.py\<close>,
  \<open>baidu_unlimited.py\<close>), the page pipeline (\<open>pipeline.py\<close>), the worker (\<open>workers/text_lane.py\<close>) and its
  publishers. An engine is a function of the img, the page and the configuration version; the HTTP
  call to a configured OCR endpoint is a parameter.
\<close>

section \<open>Regions\<close>

datatype logical_route = PRINTED_TEXT | HANDWRITTEN_TEXT | RULED_TABLE | NON_TEXT_MAP

record raw_region =
  \<comment> \<open>an entry of \<open>layout_regions\<close>\<close>
  rw_id :: "string option"
  rw_region_type :: "string option"
  rw_type :: "string option"
  rw_route :: "string option"
  rw_is_handwritten :: bool
  rw_is_table :: bool
  rw_is_map :: bool
  rw_x :: "real option"
  rw_y :: "real option"
  rw_w :: "real option"
  rw_h :: "real option"
  rw_confidence :: "real option"

record page_payload =
  pp_page_id :: "string option"
  pp_id :: "string option"
  pp_document_id :: "string option"
  pp_doc_type :: "string option"
  pp_page_role :: "string option"
  pp_image_bytes :: "string option"
  pp_layout_regions :: "raw_region list"
  pp_regions :: "raw_region list"
  pp_page_strokes :: "stroke list"
  pp_route :: "string list"

record logical_region =
  lr_region_id :: string
  lr_route :: logical_route
  lr_bbox :: real_bbox
  lr_confidence :: real

record routing_plan =
  rp_page_id :: string
  rp_regions :: "logical_region list"
  rp_fallback_applied :: bool
  rp_dominant_route :: logical_route

definition NO_PAGE_ID :: string where
  "NO_PAGE_ID = ''00000000-0000-0000-0000-000000000000''"

definition payload_page_id :: "'a page_payload_scheme \<Rightarrow> string" where
  "payload_page_id p = or_else (or_str (pp_page_id p) (pp_id p)) NO_PAGE_ID"

definition or_default :: "real \<Rightarrow> real option \<Rightarrow> real" where
  "or_default d x = (case x of Some v \<Rightarrow> v | None \<Rightarrow> d)"

definition region_route :: "raw_region \<Rightarrow> logical_route" where
  "region_route r =
     (let r_type = lower (or_empty (or_str (or_str (rw_region_type r) (rw_type r)) (rw_route r)))
      in if rw_is_map r \<or> r_type \<in> {''map'', ''cadastral_map'', ''fmb_sketch'', ''non_text'', ''diagram'', ''seal''}
         then NON_TEXT_MAP
         else if rw_is_table r \<or> r_type \<in> {''table'', ''ruled_table'', ''tabular_register'', ''grid''} then RULED_TABLE
         else if rw_is_handwritten r \<or> r_type \<in> {''handwritten'', ''hwr'', ''endorsement'', ''signature''}
         then HANDWRITTEN_TEXT
         else PRINTED_TEXT)"

definition classify_region :: "string \<Rightarrow> nat \<Rightarrow> raw_region \<Rightarrow> logical_region" where
  "classify_region page_id idx r =
     \<lparr>lr_region_id = or_else (rw_id r) (page_id @ ''_region_'' @ str_of_int (int idx + 1)),
      lr_route = region_route r,
      lr_bbox = \<lparr>bx_x = or_default 0 (rw_x r), bx_y = or_default 0 (rw_y r), bx_w = or_default 1000 (rw_w r),
                 bx_h = or_default 1000 (rw_h r)\<rparr>,
      lr_confidence = or_default 1 (rw_confidence r)\<rparr>"

fun route_counts :: "logical_region list \<Rightarrow> (logical_route \<times> int) list \<Rightarrow> (logical_route \<times> int) list" where
  "route_counts [] counts = counts"
| "route_counts (r # rs) counts =
     route_counts rs (AList.update (lr_route r)
       ((case map_of counts (lr_route r) of Some n \<Rightarrow> n | None \<Rightarrow> 0) + 1) counts)"

definition dominant_route :: "logical_region list \<Rightarrow> logical_route" where
  \<comment> \<open>sorted by count, largest first; the sort is stable\<close>
  "dominant_route regions =
     (if regions = [] then PRINTED_TEXT
      else fst (hd (sort_key (\<lambda>(r, n). - n) (route_counts regions []))))"

definition full_page :: real_bbox where
  "full_page = \<lparr>bx_x = 0, bx_y = 0, bx_w = 1000, bx_h = 1000\<rparr>"

definition one_region_plan :: "string \<Rightarrow> string \<Rightarrow> logical_route \<Rightarrow> real \<Rightarrow> bool \<Rightarrow> routing_plan" where
  "one_region_plan page_id tag rt conf fallback =
     \<lparr>rp_page_id = page_id,
      rp_regions = [\<lparr>lr_region_id = page_id @ tag, lr_route = rt, lr_bbox = full_page, lr_confidence = conf\<rparr>],
      rp_fallback_applied = fallback, rp_dominant_route = rt\<rparr>"

definition route_layout :: "page_payload \<Rightarrow> routing_plan" where
  \<comment> \<open>\<open>RegionRouter.route_page\<close>\<close>
  "route_layout p =
     (let page_id = payload_page_id p;
          explicit_regions = (if pp_layout_regions p \<noteq> [] then pp_layout_regions p else pp_regions p)
      in if explicit_regions \<noteq> []
         then (let regions = map (\<lambda>(i, r). classify_region page_id i r) (enumerate 0 explicit_regions)
               in \<lparr>rp_page_id = page_id, rp_regions = regions, rp_fallback_applied = False,
                   rp_dominant_route = dominant_route regions\<rparr>)
         else if pp_doc_type p = Some ''cadastral_map'' \<or> pp_doc_type p = Some ''fmb_sketch'' \<or>
                 pp_page_role p = Some ''map_sheet''
         then one_region_plan page_id ''_map_full'' NON_TEXT_MAP 0.95 False
         else if pp_page_role p = Some ''tabular_register''
         then one_region_plan page_id ''_table_full'' RULED_TABLE 0.9 False
         else if pp_page_role p = Some ''endorsement''
         then one_region_plan page_id ''_endorsement_hwr'' HANDWRITTEN_TEXT 0.85 False
         else one_region_plan page_id ''_printed_fallback'' PRINTED_TEXT 1 True)"

section \<open>Engines\<close>

type_synonym ocr_engine = "string \<Rightarrow> string \<Rightarrow> string \<Rightarrow> exn + ocr_result"

record hwr_adapter =
  hw_writer_cluster_id :: "string option"
  hw_model_version :: string
  hw_raise_on_unsupported :: bool

definition UNSUPPORTED_TEXT :: string where
  "UNSUPPORTED_TEXT = ''[UNSUPPORTED_HWR_REGION]''"

definition hwr_process_region ::
  "hwr_adapter \<Rightarrow> string \<Rightarrow> string \<Rightarrow> real_bbox option \<Rightarrow> string option \<Rightarrow> string \<Rightarrow> exn + ocr_result"
where
  "hwr_process_region a image_bytes page_id region_bbox writer_cluster_id config_version =
     (let cluster = or_str writer_cluster_id (hw_writer_cluster_id a);
          box = (case region_bbox of Some b \<Rightarrow> b | None \<Rightarrow> full_page)
      in if hw_raise_on_unsupported a then Inl (HWRNotImplementedError (or_else cluster ''default''))
         else Inr \<lparr>or_page_id = page_id,
                   or_tokens = [\<lparr>tk_text = UNSUPPORTED_TEXT, tk_confidence = 0, tk_bbox = Some box,
                                 tk_top_k = [(UNSUPPORTED_TEXT, 0)]\<rparr>],
                   or_full_text = UNSUPPORTED_TEXT, or_engine_id = ''hwr'', or_model_version = hw_model_version a,
                   or_config_version = config_version\<rparr>)"

definition hwr_process_image :: "hwr_adapter \<Rightarrow> ocr_engine" where
  "hwr_process_image a image_bytes page_id config_version =
     hwr_process_region a image_bytes page_id (Some full_page) None config_version"

definition default_hwr :: hwr_adapter where
  "default_hwr = \<lparr>hw_writer_cluster_id = None, hw_model_version = ''hwr-placeholder-v1'', hw_raise_on_unsupported = False\<rparr>"

definition get_writer_adapter :: "(string \<times> ocr_engine) list \<Rightarrow> ocr_engine \<Rightarrow> string option \<Rightarrow> ocr_engine" where
  "get_writer_adapter adapters default_adapter writer_cluster_id =
     (if truthy writer_cluster_id
      then (case map_of adapters (or_empty writer_cluster_id) of Some a \<Rightarrow> a | None \<Rightarrow> default_adapter)
      else default_adapter)"

record baidu_adapter =
  bd_endpoint_url :: "string option"
  bd_model_version :: string
  bd_allow_test_fallback :: bool
  bd_call_api :: ocr_engine \<comment> \<open>the request to the endpoint and the parsing of its answer\<close>

definition fallback_mock_extract :: "baidu_adapter \<Rightarrow> string \<Rightarrow> string \<Rightarrow> ocr_result" where
  "fallback_mock_extract a page_id config_version =
     \<lparr>or_page_id = page_id,
      or_tokens = [\<lparr>tk_text = ''Sample Land Record'', tk_confidence = 0.99,
                    tk_bbox = Some \<lparr>bx_x = 10, bx_y = 10, bx_w = 100, bx_h = 20\<rparr>,
                    tk_top_k = [(''Sample Land Record'', 0.99)]\<rparr>],
      or_full_text = ''Sample Land Record'', or_engine_id = ''printed_ocr'', or_model_version = bd_model_version a,
      or_config_version = config_version\<rparr>"

definition baidu_process_image :: "baidu_adapter \<Rightarrow> ocr_engine" where
  "baidu_process_image a image_bytes page_id config_version =
     (if image_bytes = [] then Inl (OCRProcessingError ''Image payload is empty'')
      else if \<not> truthy (bd_endpoint_url a)
      then (if bd_allow_test_fallback a then Inr (fallback_mock_extract a page_id config_version)
            else Inl (OCRConfigurationError ''Baidu Unlimited-OCR endpoint is not configured''))
      else bd_call_api a image_bytes page_id config_version)"

section \<open>Dispatch\<close>

definition bypass_result :: "string \<Rightarrow> string \<Rightarrow> ocr_result" where
  "bypass_result page_id config_version =
     \<lparr>or_page_id = page_id, or_tokens = [], or_full_text = [], or_engine_id = ''map_bypassed'',
      or_model_version = ''non-text-v1'', or_config_version = config_version\<rparr>"

type_synonym engine_map = "logical_route \<Rightarrow> ocr_engine option"

definition engine_or :: "ocr_engine \<Rightarrow> ocr_engine option \<Rightarrow> ocr_engine" where
  "engine_or d e = (case e of Some f \<Rightarrow> f | None \<Rightarrow> d)"

definition run_region ::
  "env \<Rightarrow> ocr_engine \<Rightarrow> engine_map \<Rightarrow> string \<Rightarrow> string \<Rightarrow> string \<Rightarrow> logical_region \<Rightarrow> 'a world_scheme
    \<Rightarrow> (exn + ocr_result) \<times> 'a world_scheme"
where
  \<comment> \<open>\<open>printed_default\<close> is the engine used when the map has none for printed text\<close>
  "run_region E printed_default engines img page_id config_version region w =
     (let printed_engine = engine_or printed_default (engines PRINTED_TEXT)
      in case lr_route region of
           NON_TEXT_MAP \<Rightarrow> (Inr (bypass_result page_id config_version), w)
         | RULED_TABLE \<Rightarrow>
             (case engines RULED_TABLE of
                Some tbl \<Rightarrow> (tbl img page_id config_version, w)
              | None \<Rightarrow>
                  (case engines PRINTED_TEXT of
                     Some p \<Rightarrow> (p img page_id config_version, w)
                   | None \<Rightarrow>
                       (let (r, w) = extract_table_cells E page_id config_version ''table-v1'' None [] [] w
                        in (Inr r, w))))
         | HANDWRITTEN_TEXT \<Rightarrow>
             (engine_or (hwr_process_image default_hwr) (engines HANDWRITTEN_TEXT) img page_id config_version, w)
         | PRINTED_TEXT \<Rightarrow> (printed_engine img page_id config_version, w))"

fun run_regions ::
  "env \<Rightarrow> ocr_engine \<Rightarrow> engine_map \<Rightarrow> string \<Rightarrow> string \<Rightarrow> string \<Rightarrow> logical_region list \<Rightarrow> 'a world_scheme
    \<Rightarrow> (exn + ocr_result list) \<times> 'a world_scheme"
where
  "run_regions E printed engines img page_id cv [] w = (Inr [], w)"
| "run_regions E printed engines img page_id cv (r # rs) w =
     (case run_region E printed engines img page_id cv r w of
        (Inl err, w) \<Rightarrow> (Inl err, w)
      | (Inr res, w) \<Rightarrow>
          (let (rest, w) = run_regions E printed engines img page_id cv rs w in (map_sum id ((#) res) rest, w)))"

definition dispatch_and_extract ::
  "env \<Rightarrow> ocr_engine \<Rightarrow> engine_map \<Rightarrow> page_payload \<Rightarrow> routing_plan \<Rightarrow> string \<Rightarrow> 'a world_scheme
    \<Rightarrow> (exn + ocr_result list) \<times> 'a world_scheme"
where
  "dispatch_and_extract E printed_default engines p plan config_version w =
     run_regions E printed_default engines (or_else (pp_image_bytes p) ''fake_image_bytes'') (rp_page_id plan)
       config_version (rp_regions plan) w"

section \<open>The page pipeline\<close>

fun fields_of_results ::
  "env \<Rightarrow> string \<Rightarrow> string option \<Rightarrow> ocr_result list \<Rightarrow> 'a world_scheme \<Rightarrow> extraction_item list \<times> 'a world_scheme"
where
  "fields_of_results E page_id doc_type [] w = ([], w)"
| "fields_of_results E page_id doc_type (r # rs) w =
     (if or_tokens r = [] then fields_of_results E page_id doc_type rs w
      else
        (let (items, w) = extract_fields_for_doctype E r (Some page_id) doc_type w;
             (rest, w) = fields_of_results E page_id doc_type rs w
         in (items @ rest, w)))"

definition process_page_text_with_relationships ::
  "env \<Rightarrow> ocr_engine \<Rightarrow> page_payload \<Rightarrow> work_envelope option \<Rightarrow> ocr_engine option \<Rightarrow> 'a world_scheme
    \<Rightarrow> (extraction_item list \<times> parcel_binding list) \<times> 'a world_scheme"
where
  "process_page_text_with_relationships E printed_default p work_env ocr_adapter w =
     (let page_id = payload_page_id p;
          config_version = (case work_env of Some e \<Rightarrow> if we_config_version e \<noteq> [] then we_config_version e else ''v1''
                            | None \<Rightarrow> ''v1'')
      in if \<not> truthy (pp_image_bytes p) then (([], []), w)
         else
           (let adapter = engine_or printed_default ocr_adapter;
                engines = (\<lambda>rt. if rt = PRINTED_TEXT then Some adapter
                                else if rt = HANDWRITTEN_TEXT then Some (hwr_process_image default_hwr) else None)
            in case dispatch_and_extract E printed_default engines p (route_layout p) config_version w of
                 (Inl err, w) \<Rightarrow> (([], []), w)
               | (Inr results, w) \<Rightarrow>
                   (let (items, w) = fields_of_results E page_id (pp_doc_type p) results w
                    in if items = [] then (([], []), w)
                       else (let (rels, w) = extract_relationships E items (Some page_id) w in ((items, rels), w)))))"

definition process_page_text ::
  "env \<Rightarrow> ocr_engine \<Rightarrow> page_payload \<Rightarrow> work_envelope option \<Rightarrow> ocr_engine option \<Rightarrow> 'a world_scheme
    \<Rightarrow> extraction_item list \<times> 'a world_scheme"
where
  "process_page_text E printed_default p work_env ocr_adapter w =
     (let ((items, rels), w) = process_page_text_with_relationships E printed_default p work_env ocr_adapter w
      in (items, w))"

section \<open>The worker\<close>

datatype lane_payload =
    Text_Items "extraction_item list"
  | Assembly_Items assembly_contract "extraction_item list"

record text_message =
  tm_trace_id :: "string option"
  tm_work_envelope :: "work_envelope option"
  tm_payload :: page_payload

record text_lane_success =
  tl_extractions_count :: nat
  tl_relationships :: "parcel_binding list"
  tl_text_lane_envelope :: "lane_payload emitted"
  tl_assembly_envelope :: "lane_payload emitted"

definition item_reading :: "extraction_item \<Rightarrow> reading" where
  \<comment> \<open>the keys of an extraction that assembly reads\<close>
  "item_reading x =
     \<lparr>rg_id = Some (ei_id x), rg_page_id = Some (ei_page_id x), rg_field_name = Some (ei_field_name x),
      rg_raw_value = Some (ei_raw_value x), rg_canonical_value = ei_canonical_value x\<rparr>"

definition settle_status :: "stroke list \<Rightarrow> extraction_item \<Rightarrow> extraction_item" where
  "settle_status page_strokes x =
     (let x = (if detect_strikethrough (ei_bbox x) page_strokes then x\<lparr>ei_entry_status := ''unknown''\<rparr> else x)
      in if ei_entry_status x \<notin> {''unknown'', ''cancelled'', ''superseded'', ''amended''}
         then x\<lparr>ei_entry_status := ''unknown''\<rparr> else x)"

definition publish_text_lane_result ::
  "env \<Rightarrow> extraction_item list \<Rightarrow> work_envelope option \<Rightarrow> string \<Rightarrow> 'a world_scheme \<Rightarrow> lane_payload emitted \<times> 'a world_scheme"
where
  "publish_text_lane_result E items work_env trace_id w =
     emit E ''TEXT_QUEUE'' ''text-lane'' (Text_Items items) work_env trace_id w"

definition publish_assembly ::
  "env \<Rightarrow> assembly_contract \<Rightarrow> extraction_item list \<Rightarrow> work_envelope option \<Rightarrow> string \<Rightarrow> 'a world_scheme
    \<Rightarrow> lane_payload emitted \<times> 'a world_scheme"
where
  "publish_assembly E contract items work_env trace_id w =
     emit E ''ASSEMBLY_QUEUE'' ''assembly'' (Assembly_Items contract items) work_env trace_id w"

definition text_lane_handle ::
  "env \<Rightarrow> ocr_engine \<Rightarrow> text_message \<Rightarrow> 'a world_scheme \<Rightarrow> (exn + text_lane_success) \<times> 'a world_scheme"
where
  \<comment> \<open>\<open>Inl\<close> is the dictionary with status \<open>error\<close>; the adapter is built with \<open>allow_test_fallback\<close>\<close>
  "text_lane_handle E adapter message w =
     (let p = tm_payload message;
          trace_id = or_else (tm_trace_id message)
            ((case pp_document_id p of Some d \<Rightarrow> d | None \<Rightarrow> ''doc'') @ '':'' @
             (case pp_page_id p of Some i \<Rightarrow> i | None \<Rightarrow> ''page''));
          page_id = payload_page_id p;
          p = (if pp_image_bytes p = None then p\<lparr>pp_image_bytes := Some ''fake_image_bytes''\<rparr> else p);
          (items, w) = process_page_text E adapter p (tm_work_envelope message) (Some adapter) w;
          (rels, w) = extract_relationships E items (Some page_id) w;
          items = map (settle_status (pp_page_strokes p)) items
      in case assemble E (Flat (map item_reading items)) None None
                (Some (''Assembled extractions for page '' @ page_id)) ''system'' [] w of
           (Inl err, w) \<Rightarrow> (Inl err, w)
         | (Inr contract, w) \<Rightarrow>
             (let (text_env, w) = publish_text_lane_result E items (tm_work_envelope message) trace_id w;
                  (asm_env, w) = publish_assembly E contract items (tm_work_envelope message) trace_id w
              in (Inr \<lparr>tl_extractions_count = length items, tl_relationships = rels,
                       tl_text_lane_envelope = text_env, tl_assembly_envelope = asm_env\<rparr>, w)))"

section \<open>Lemmas\<close>

subsection \<open>The dominant route\<close>

definition route_total :: "logical_route \<Rightarrow> logical_region list \<Rightarrow> int" where
  "route_total rt regions = int (length (filter (\<lambda>r. lr_route r = rt) regions))"

lemma route_counts_get:
  "map_of (route_counts rs counts) rt =
     (if rt \<in> lr_route ` set rs \<or> map_of counts rt \<noteq> None
      then Some ((case map_of counts rt of Some n \<Rightarrow> n | None \<Rightarrow> 0) + route_total rt rs) else None)"
  by (induction rs counts rule: route_counts.induct)
     (auto simp: route_total_def AList.update_conv' split: option.splits)

lemma distinct_route_counts: "distinct (map fst counts) \<Longrightarrow> distinct (map fst (route_counts rs counts))"
  by (induction rs counts rule: route_counts.induct) (simp_all add: AList.distinct_update)

lemma hd_sort_least: "xs \<noteq> [] \<Longrightarrow> hd (sort_key f xs) \<in> set xs \<and> (\<forall>x \<in> set xs. f (hd (sort_key f xs)) \<le> f x)"
proof -
  assume "xs \<noteq> []"
  then obtain y ys where s: "sort_key f xs = y # ys" by (metis length_0_conv length_sort list.exhaust)
  have "sorted (map f (y # ys))" unfolding s [symmetric] by (rule sorted_sort_key)
  moreover have "set xs = set (y # ys)" unfolding s [symmetric] by simp
  ultimately show ?thesis unfolding s by auto
qed

lemma dominant_route_most:
  assumes "regions \<noteq> []"
  shows "dominant_route regions \<in> lr_route ` set regions" and "route_total rt regions \<le> route_total (dominant_route regions) regions"
proof -
  let ?cs = "route_counts regions []"
  have get: "map_of ?cs r = (if r \<in> lr_route ` set regions then Some (route_total r regions) else None)" for r
    by (simp add: route_counts_get)
  have dist: "distinct (map fst ?cs)" by (simp add: distinct_route_counts)
  have "?cs \<noteq> []" using get [of "lr_route (hd regions)"] assms by auto
  then obtain n where h: "(dominant_route regions, n) \<in> set ?cs" "\<forall>x \<in> set ?cs. - n \<le> - snd x"
    using hd_sort_least [of ?cs "\<lambda>x. - snd x"] assms
    by (cases "hd (sort_key (\<lambda>x. - snd x) ?cs)") (auto simp: dominant_route_def split_def)
  from h(1) dist have d: "map_of ?cs (dominant_route regions) = Some n" by (simp add: map_of_is_SomeI)
  then show "dominant_route regions \<in> lr_route ` set regions" using get [of "dominant_route regions"] by (auto split: if_splits)
  have n: "n = route_total (dominant_route regions) regions" using d get by (auto split: if_splits)
  show "route_total rt regions \<le> route_total (dominant_route regions) regions"
  proof (cases "rt \<in> lr_route ` set regions")
    case True
    then have "(rt, route_total rt regions) \<in> set ?cs" using get [of rt] by (auto dest: map_of_SomeD)
    with h(2) show ?thesis unfolding n by auto
  next
    case False
    then have "filter (\<lambda>r. lr_route r = rt) regions = []" by (auto simp: filter_empty_conv)
    then show ?thesis by (simp add: route_total_def)
  qed
qed

subsection \<open>The pipeline\<close>

lemma fields_of_results_items:
  "fields_of_results E pid dt rs w = (items, w') \<Longrightarrow>
     map ei_raw_value items = map tk_text (filter readable (concat (map or_tokens rs))) \<and>
     list_all (\<lambda>x. ei_entry_status x = ''unknown'' \<and> ei_page_id x = or_else (Some pid) (ei_page_id x)) items"
proof (induction E pid dt rs w arbitrary: items w' rule: fields_of_results.induct)
  case (2 E pid dt r rs w)
  show ?case
  proof (cases "or_tokens r = []")
    case True
    then show ?thesis using "2.IH"(1) "2.prems" by simp
  next
    case False
    obtain xs v ys where x: "extract_fields_for_doctype E r (Some pid) dt w = (xs, v)"
      and y: "fields_of_results E pid dt rs v = (ys, w')" and items: "items = xs @ ys"
      using "2.prems" False by (auto split: prod.splits)
    have ys: "map ei_raw_value ys = map tk_text (filter readable (concat (map or_tokens rs)))"
      "list_all (\<lambda>x. ei_entry_status x = ''unknown'' \<and> ei_page_id x = or_else (Some pid) (ei_page_id x)) ys"
      using "2.IH"(2) [OF False x [symmetric] refl y] by simp_all
    have "list_all2 (\<lambda>t x. \<exists>xid. x = token_extraction r (or_else (Some pid) (or_page_id r)) dt t xid)
        (filter readable (or_tokens r)) xs"
      using x unfolding extract_fields_for_doctype_def by (auto dest: extract_tokens_items)
    then have "map ei_raw_value xs = map tk_text (filter readable (or_tokens r)) \<and>
        list_all (\<lambda>x. ei_entry_status x = ''unknown'' \<and> ei_page_id x = or_else (Some pid) (ei_page_id x)) xs"
      by (induction rule: list_all2_induct) (auto simp: or_else_def truthy_def or_empty_def)
    then show ?thesis using ys unfolding items by simp
  qed
qed simp

definition page_results ::
  "env \<Rightarrow> ocr_engine \<Rightarrow> page_payload \<Rightarrow> work_envelope option \<Rightarrow> 'a world_scheme \<Rightarrow> exn + ocr_result list"
where
  \<comment> \<open>what the engines return for the page, none for a page without an image\<close>
  "page_results E adapter p work_env w =
     (if \<not> truthy (pp_image_bytes p) then Inr []
      else fst (dispatch_and_extract E adapter
        (\<lambda>rt. if rt = PRINTED_TEXT then Some adapter
              else if rt = HANDWRITTEN_TEXT then Some (hwr_process_image default_hwr) else None)
        p (route_layout p)
        (case work_env of Some e \<Rightarrow> if we_config_version e \<noteq> [] then we_config_version e else ''v1'' | None \<Rightarrow> ''v1'') w))"

lemma process_page_text_items:
  assumes "process_page_text E adapter p work_env (Some adapter) w = (items, w')"
  shows "map ei_raw_value items =
      (case page_results E adapter p work_env w of
         Inl err \<Rightarrow> [] | Inr results \<Rightarrow> map tk_text (filter readable (concat (map or_tokens results))))"
    and "list_all (\<lambda>x. ei_entry_status x = ''unknown'') items"
proof -
  let ?res = "dispatch_and_extract E adapter
        (\<lambda>rt. if rt = PRINTED_TEXT then Some adapter
              else if rt = HANDWRITTEN_TEXT then Some (hwr_process_image default_hwr) else None)
        p (route_layout p)
        (case work_env of Some e \<Rightarrow> if we_config_version e \<noteq> [] then we_config_version e else ''v1'' | None \<Rightarrow> ''v1'') w"
  have "map ei_raw_value items =
      (case page_results E adapter p work_env w of
         Inl err \<Rightarrow> [] | Inr results \<Rightarrow> map tk_text (filter readable (concat (map or_tokens results)))) \<and>
      list_all (\<lambda>x. ei_entry_status x = ''unknown'') items"
  proof (cases "truthy (pp_image_bytes p)")
    case False
    then show ?thesis
      using assms by (simp add: process_page_text_def process_page_text_with_relationships_def page_results_def Let_def)
  next
    case True
    obtain out v where o: "?res = (out, v)" by fastforce
    show ?thesis
    proof (cases out)
      case (Inl err)
      then show ?thesis using assms True o
        by (simp add: process_page_text_def process_page_text_with_relationships_def page_results_def engine_or_def Let_def)
    next
      case (Inr results)
      obtain xs u where xs: "fields_of_results E (payload_page_id p) (pp_doc_type p) results v = (xs, u)" by fastforce
      have "items = xs" using assms True o Inr xs
        by (auto simp: process_page_text_def process_page_text_with_relationships_def engine_or_def Let_def
            split: prod.splits if_splits)
      with fields_of_results_items [OF xs] True o Inr show ?thesis
        by (auto simp: page_results_def list_all_iff)
    qed
  qed
  then show "map ei_raw_value items =
      (case page_results E adapter p work_env w of
         Inl err \<Rightarrow> [] | Inr results \<Rightarrow> map tk_text (filter readable (concat (map or_tokens results))))"
    "list_all (\<lambda>x. ei_entry_status x = ''unknown'') items" by simp_all
qed

subsection \<open>Engines answer for the page they were given\<close>

definition own_result :: "string \<Rightarrow> string \<Rightarrow> ocr_result \<Rightarrow> bool" where
  "own_result page_id cv r \<longleftrightarrow> or_page_id r = page_id \<and> or_config_version r = cv"

definition page_engines :: "ocr_engine \<Rightarrow> engine_map" where
  \<comment> \<open>the engines of the page pipeline\<close>
  "page_engines adapter =
     (\<lambda>rt. if rt = PRINTED_TEXT then Some adapter
           else if rt = HANDWRITTEN_TEXT then Some (hwr_process_image default_hwr) else None)"

lemma hwr_own_result: "hwr_process_image a img page_id cv = Inr r \<Longrightarrow> own_result page_id cv r"
  by (auto simp: hwr_process_image_def hwr_process_region_def own_result_def Let_def split: if_splits)

text \<open>What the pipeline expects of an engine adapter (\<open>OCREngineAdapter\<close>).\<close>

locale ocr_port =
  fixes engine :: ocr_engine
  assumes own: "engine img page_id cv = Inr r \<Longrightarrow> own_result page_id cv r"
begin

lemma run_region_own:
  "run_region E d (page_engines engine) img page_id cv region w = (Inr r, w') \<Longrightarrow> own_result page_id cv r"
  by (auto simp: run_region_def page_engines_def engine_or_def bypass_result_def own_result_def Let_def
      dest!: own hwr_own_result split: logical_route.splits)

lemma run_regions_own:
  "run_regions E d (page_engines engine) img page_id cv regions w = (Inr rs, w') \<Longrightarrow> list_all (own_result page_id cv) rs"
proof (induction regions arbitrary: rs w w')
  case (Cons region regions)
  obtain out v where o: "run_region E d (page_engines engine) img page_id cv region w = (out, v)" by fastforce
  obtain rest u where rest: "run_regions E d (page_engines engine) img page_id cv regions v = (rest, u)" by fastforce
  show ?case
    using Cons.prems o rest Cons.IH run_region_own by (cases out; cases rest) fastforce+
qed simp

end

interpretation hwr_port: ocr_port "hwr_process_image a" for a
  by unfold_locales (rule hwr_own_result)

lemma route_layout_page: "rp_page_id (route_layout p) = payload_page_id p"
  by (simp add: route_layout_def one_region_plan_def Let_def)

lemma settle_status_unknown: "ei_entry_status x = ''unknown'' \<Longrightarrow> ei_entry_status (settle_status s x) = ''unknown''"
  by (simp add: settle_status_def Let_def)

lemma settle_status_raw [simp]: "ei_raw_value (settle_status s x) = ei_raw_value x"
  by (simp add: settle_status_def Let_def)

lemma assemble_default_total: "\<exists>c w'. assemble E extrs rid None ov actor metas w = (Inr c, w')"
  using assemble_total [of E extrs rid ov actor metas w] by (auto simp: assemble_def)

section \<open>Properties\<close>

definition with_image :: "page_payload \<Rightarrow> page_payload" where
  "with_image p = (if pp_image_bytes p = None then p\<lparr>pp_image_bytes := Some ''fake_image_bytes''\<rparr> else p)"

lemma text_lane_handle_result:
  assumes "process_page_text E adapter (with_image (tm_payload msg)) (tm_work_envelope msg) (Some adapter) w = (items, v)"
  shows "\<exists>rels te ae z. text_lane_handle E adapter msg w =
      (Inr \<lparr>tl_extractions_count = length items, tl_relationships = rels,
        tl_text_lane_envelope = te, tl_assembly_envelope = ae\<rparr>, z) \<and>
      em_queue te = ''TEXT_QUEUE'' \<and> em_work_envelope te = tm_work_envelope msg \<and>
      em_payload te = Text_Items (map (settle_status (pp_page_strokes (with_image (tm_payload msg)))) items)"
proof -
  let ?p = "with_image (tm_payload msg)"
  obtain rels u where rels: "extract_relationships E items (Some (payload_page_id (tm_payload msg))) v = (rels, u)" by fastforce
  let ?items = "map (settle_status (pp_page_strokes ?p)) items"
  obtain c x where c: "assemble E (Flat (map item_reading ?items)) None None
      (Some (''Assembled extractions for page '' @ payload_page_id (tm_payload msg))) ''system'' [] u = (Inr c, x)"
    using assemble_default_total by blast
  define trace where "trace = or_else (tm_trace_id msg)
            ((case pp_document_id (tm_payload msg) of Some d \<Rightarrow> d | None \<Rightarrow> ''doc'') @ '':'' @
             (case pp_page_id (tm_payload msg) of Some i \<Rightarrow> i | None \<Rightarrow> ''page''))"
  obtain te y where te: "publish_text_lane_result E ?items (tm_work_envelope msg) trace x = (te, y)" by fastforce
  obtain ae z where ae: "publish_assembly E c ?items (tm_work_envelope msg) trace y = (ae, z)" by fastforce
  have "text_lane_handle E adapter msg w = (Inr \<lparr>tl_extractions_count = length items, tl_relationships = rels,
      tl_text_lane_envelope = te, tl_assembly_envelope = ae\<rparr>, z)"
    using assms rels c te ae by (simp add: text_lane_handle_def Let_def with_image_def trace_def)
  moreover have "em_queue te = ''TEXT_QUEUE''" "em_payload te = Text_Items ?items" "em_work_envelope te = tm_work_envelope msg"
    using te unfolding publish_text_lane_result_def using emit_fields by (metis fst_conv)+
  ultimately show ?thesis by blast
qed

text \<open>
  What a page says, told from the payload and the engine alone. A page names its regions, or has one whose kind
  its document type and role decide; a map region says nothing, a handwritten one says that it is not
  supported, every other one what the engine reads in the image.
\<close>

definition page_routes :: "page_payload \<Rightarrow> logical_route list" where
  "page_routes p =
     (if pp_layout_regions p \<noteq> [] then map region_route (pp_layout_regions p)
      else if pp_regions p \<noteq> [] then map region_route (pp_regions p)
      else if pp_doc_type p \<in> {Some ''cadastral_map'', Some ''fmb_sketch''} \<or> pp_page_role p = Some ''map_sheet''
      then [NON_TEXT_MAP]
      else if pp_page_role p = Some ''tabular_register'' then [RULED_TABLE]
      else if pp_page_role p = Some ''endorsement'' then [HANDWRITTEN_TEXT]
      else [PRINTED_TEXT])"

definition pinned_version :: "work_envelope option \<Rightarrow> string" where
  "pinned_version work_env =
     (case work_env of Some e \<Rightarrow> if we_config_version e \<noteq> [] then we_config_version e else ''v1'' | None \<Rightarrow> ''v1'')"

definition region_texts :: "exn + ocr_result \<Rightarrow> logical_route \<Rightarrow> exn + string list" where
  \<comment> \<open>of what the engine answers for the page\<close>
  "region_texts answer rt =
     (case rt of
        NON_TEXT_MAP \<Rightarrow> Inr []
      | HANDWRITTEN_TEXT \<Rightarrow> Inr [''[UNSUPPORTED_HWR_REGION]'']
      | _ \<Rightarrow> map_sum id (\<lambda>r. map tk_text (filter readable (or_tokens r))) answer)"

definition page_texts :: "ocr_engine \<Rightarrow> text_message \<Rightarrow> (exn + string list) list" where
  \<comment> \<open>a payload with no image stands for a fixed one, an empty image for no page\<close>
  "page_texts adapter msg =
     (let p = tm_payload msg;
          img = (case pp_image_bytes p of Some b \<Rightarrow> b | None \<Rightarrow> ''fake_image_bytes'')
      in if img = [] then []
         else map (region_texts (adapter img (payload_page_id p) (pinned_version (tm_work_envelope msg)))) (page_routes p))"

lemma unsupported_readable: "readable \<lparr>tk_text = UNSUPPORTED_TEXT, tk_confidence = c, tk_bbox = b, tk_top_k = k\<rparr>"
proof -
  have "strip ''[UNSUPPORTED_HWR_REGION]'' \<noteq> []" by code_simp
  then show ?thesis by (simp add: readable_def UNSUPPORTED_TEXT_def)
qed

lemma run_region_texts:
  "run_region E d (page_engines adapter) img page_id cv region w = (out, w') \<Longrightarrow>
     map_sum id (\<lambda>r. map tk_text (filter readable (or_tokens r))) out =
       region_texts (adapter img page_id cv) (lr_route region)"
  by (auto simp: run_region_def page_engines_def engine_or_def region_texts_def bypass_result_def
      hwr_process_image_def hwr_process_region_def default_hwr_def unsupported_readable
      UNSUPPORTED_TEXT_def [symmetric] split: logical_route.splits)

lemma run_regions_texts:
  "(case fst (run_regions E d (page_engines adapter) img page_id cv regions w) of
      Inl err \<Rightarrow> [] | Inr results \<Rightarrow> map tk_text (filter readable (concat (map or_tokens results)))) =
    (let answers = map (\<lambda>r. region_texts (adapter img page_id cv) (lr_route r)) regions
     in if list_ex isl answers then [] else concat (map projr answers)) \<and>
   isl (fst (run_regions E d (page_engines adapter) img page_id cv regions w)) =
     list_ex isl (map (\<lambda>r. region_texts (adapter img page_id cv) (lr_route r)) regions)"
proof (induction regions arbitrary: w)
  case (Cons region regions)
  obtain out v where o: "run_region E d (page_engines adapter) img page_id cv region w = (out, v)" by fastforce
  obtain rest u where rest: "run_regions E d (page_engines adapter) img page_id cv regions v = (rest, u)" by fastforce
  show ?case
    using o rest Cons.IH [of v] run_region_texts [OF o, symmetric]
    by (cases out; cases rest) (auto simp: Let_def split: if_splits)
qed simp

lemma route_layout_routes: "map lr_route (rp_regions (route_layout p)) = page_routes p"
proof -
  have "map (lr_route \<circ> (\<lambda>(i, r). classify_region pid i r)) (enumerate n rs) = map region_route rs" for pid n rs
    by (induction rs arbitrary: n) (simp_all add: classify_region_def Let_def)
  then show ?thesis by (simp add: route_layout_def page_routes_def one_region_plan_def Let_def)
qed

lemma page_results_texts:
  "(case page_results E adapter (with_image (tm_payload msg)) (tm_work_envelope msg) w of
      Inl err \<Rightarrow> [] | Inr results \<Rightarrow> map tk_text (filter readable (concat (map or_tokens results)))) =
    (if list_ex isl (page_texts adapter msg) then [] else concat (map projr (page_texts adapter msg)))"
proof -
  let ?p = "with_image (tm_payload msg)"
  let ?img = "case pp_image_bytes (tm_payload msg) of Some b \<Rightarrow> b | None \<Rightarrow> ''fake_image_bytes''"
  have img: "or_else (pp_image_bytes ?p) ''fake_image_bytes'' = ?img" "truthy (pp_image_bytes ?p)" if "?img \<noteq> []"
    using that by (auto simp: with_image_def or_else_def split: option.splits)
  have same: "payload_page_id ?p = payload_page_id (tm_payload msg)" "page_routes ?p = page_routes (tm_payload msg)"
    by (simp_all add: with_image_def payload_page_id_def page_routes_def)
  have routes: "map (\<lambda>r. f (lr_route r)) (rp_regions (route_layout ?p)) = map f (page_routes (tm_payload msg))"
    for f :: "logical_route \<Rightarrow> exn + string list"
    using arg_cong [OF route_layout_routes [of ?p], of "map f"] by (simp add: same comp_def)
  show ?thesis
  proof (cases "?img = []")
    case True
    then have "\<not> truthy (pp_image_bytes ?p)" by (auto simp: with_image_def split: option.splits)
    then show ?thesis using True by (simp add: page_results_def page_texts_def)
  next
    case False
    show ?thesis
      using run_regions_texts [of E adapter adapter ?img "payload_page_id (tm_payload msg)"
          "pinned_version (tm_work_envelope msg)" "rp_regions (route_layout ?p)" w] False img
      unfolding routes
      by (simp add: page_results_def page_texts_def dispatch_and_extract_def route_layout_page same
          pinned_version_def page_engines_def Let_def)
  qed
qed

text \<open>C9. A page is read as a whole or not at all, and the worker always succeeds. For every message and
  every engine the text lane returns a success and publishes one message of extractions under the
  pinned envelope, each with entry status \<open>unknown\<close>. When the engine fails on the page's image and any
  region of it is printed text or a table, there is no extraction, also none of the other regions;
  otherwise the extractions are, region by region and in order, the readable tokens of the engine for a
  region of printed text or a table, one marker for a handwritten region and nothing for a map. The
  engine is given the page's image and id and the pinned configuration version.\<close>

theorem text_lane_all_or_nothing:
  "\<exists>r w' items. text_lane_handle E adapter msg w = (Inr r, w') \<and>
     em_queue (tl_text_lane_envelope r) = ''TEXT_QUEUE'' \<and> em_payload (tl_text_lane_envelope r) = Text_Items items \<and>
     em_work_envelope (tl_text_lane_envelope r) = tm_work_envelope msg \<and>
     tl_extractions_count r = length items \<and> list_all (\<lambda>x. ei_entry_status x = ''unknown'') items \<and>
     map ei_raw_value items =
       (if list_ex isl (page_texts adapter msg) then [] else concat (map projr (page_texts adapter msg)))"
proof -
  let ?p = "with_image (tm_payload msg)"
  obtain items v where i: "process_page_text E adapter ?p (tm_work_envelope msg) (Some adapter) w = (items, v)" by fastforce
  let ?items = "map (settle_status (pp_page_strokes ?p)) items"
  have "list_all (\<lambda>x. ei_entry_status x = ''unknown'') ?items"
    using process_page_text_items(2) [OF i] by (simp add: list_all_iff settle_status_unknown)
  moreover have "map ei_raw_value ?items = map ei_raw_value items" by (simp add: comp_def)
  moreover obtain rels te ae z where r: "text_lane_handle E adapter msg w =
      (Inr \<lparr>tl_extractions_count = length items, tl_relationships = rels,
        tl_text_lane_envelope = te, tl_assembly_envelope = ae\<rparr>, z)" (is "_ = (Inr ?r, z)")
    and te: "em_queue te = ''TEXT_QUEUE''" "em_work_envelope te = tm_work_envelope msg" "em_payload te = Text_Items ?items"
    using text_lane_handle_result [OF i] by blast
  ultimately show ?thesis using process_page_text_items(1) [OF i]
    unfolding page_results_texts [symmetric, of adapter msg E w]
    by (intro exI [of _ ?r] exI [of _ z] exI [of _ ?items]) simp
qed

text \<open>
  At work: a page of a handwritten region, a map and two printed ones, read by an engine that returns one line
  and a blank, and the same page with an engine that fails.
\<close>

definition demo_text_region :: "string \<Rightarrow> raw_region" where
  "demo_text_region t = \<lparr>rw_id = None, rw_region_type = Some t, rw_type = None, rw_route = None,
     rw_is_handwritten = False, rw_is_table = False, rw_is_map = False, rw_x = None, rw_y = None, rw_w = None,
     rw_h = None, rw_confidence = None\<rparr>"

definition demo_text_message :: text_message where
  "demo_text_message = \<lparr>tm_trace_id = None, tm_work_envelope = None, tm_payload =
     \<lparr>pp_page_id = Some ''p1'', pp_id = None, pp_document_id = None, pp_doc_type = None, pp_page_role = None,
      pp_image_bytes = Some ''img'', pp_layout_regions = map demo_text_region [''Signature'', ''FMB_Sketch'', ''text'', ''grid''],
      pp_regions = [], pp_page_strokes = [], pp_route = []\<rparr>\<rparr>"

definition demo_engine :: "bool \<Rightarrow> ocr_engine" where
  "demo_engine works img page_id cv =
     (if \<not> works \<or> img \<noteq> ''img'' then Inl (OCRProcessingError ''timeout'')
      else Inr \<lparr>or_page_id = page_id, or_tokens = map (\<lambda>t. \<lparr>tk_text = t, tk_confidence = 0.9, tk_bbox = None, tk_top_k = []\<rparr>)
             [''Khasra 12'', '' ''], or_full_text = [], or_engine_id = ''printed_ocr'', or_model_version = ''m'',
             or_config_version = cv\<rparr>)"

lemma demo_page_texts:
  "page_texts (demo_engine works) demo_text_message =
     (let printed = (if works then Inr [''Khasra 12''] else Inl (OCRProcessingError ''timeout''))
      in [Inr [''[UNSUPPORTED_HWR_REGION]''], Inr [], printed, printed])"
proof -
  have "strip ''Khasra 12'' \<noteq> []" "strip '' '' = []" by code_simp+
  moreover have "map (region_route \<circ> demo_text_region) [''Signature'', ''FMB_Sketch'', ''text'', ''grid''] =
      [HANDWRITTEN_TEXT, NON_TEXT_MAP, PRINTED_TEXT, RULED_TABLE]" by code_simp
  ultimately show ?thesis
    by (simp add: page_texts_def page_routes_def demo_text_message_def region_texts_def demo_engine_def
        readable_def comp_def Let_def)
qed

definition demo_text_world :: world where
  "demo_text_world = \<lparr>uuids_drawn = 0, clock_reads = 0\<rparr>"

theorem text_lane_all_or_nothing_witness:
  "(\<exists>r w' items. text_lane_handle demo_env (demo_engine True) demo_text_message demo_text_world = (Inr r, w') \<and>
      em_payload (tl_text_lane_envelope r) = Text_Items items \<and>
      map ei_raw_value items = [''[UNSUPPORTED_HWR_REGION]'', ''Khasra 12'', ''Khasra 12'']) \<and>
   (\<exists>r w'. text_lane_handle demo_env (demo_engine False) demo_text_message demo_text_world = (Inr r, w') \<and>
      em_payload (tl_text_lane_envelope r) = Text_Items [])"
proof
  show "\<exists>r w' items. text_lane_handle demo_env (demo_engine True) demo_text_message demo_text_world = (Inr r, w') \<and>
      em_payload (tl_text_lane_envelope r) = Text_Items items \<and>
      map ei_raw_value items = [''[UNSUPPORTED_HWR_REGION]'', ''Khasra 12'', ''Khasra 12'']"
    using text_lane_all_or_nothing [of demo_env "demo_engine True" demo_text_message demo_text_world]
    by (auto simp: demo_page_texts Let_def)
  show "\<exists>r w'. text_lane_handle demo_env (demo_engine False) demo_text_message demo_text_world = (Inr r, w') \<and>
      em_payload (tl_text_lane_envelope r) = Text_Items []"
    using text_lane_all_or_nothing [of demo_env "demo_engine False" demo_text_message demo_text_world]
    by (auto simp: demo_page_texts Let_def)
qed

text \<open>
  The strokes of a page change nothing: what the worker does with an extraction that is struck through is to
  set its status to \<open>unknown\<close>, which every extraction has by then, so that the classification of
  \<open>strikethrough.py\<close> as cancelled reaches neither message.
\<close>

lemma strikes_have_no_effect: "ei_entry_status x = ''unknown'' \<Longrightarrow> settle_status strokes x = x"
  by (simp add: settle_status_def Let_def)

text \<open>
  Three more consequences. Without a configured endpoint the adapter the worker builds returns one sample
  line for any image; a failing engine is not reported, since the worker then returns a success with no
  extraction; and several printed regions of a page are read by as many runs over the whole image, so
  every line of the page is extracted as many times.
\<close>

lemma sample_line_read:
  "\<not> truthy (bd_endpoint_url a) \<Longrightarrow> bd_allow_test_fallback a \<Longrightarrow> img \<noteq> [] \<Longrightarrow>
     \<exists>t. baidu_process_image a img page_id cv = Inr \<lparr>or_page_id = page_id, or_tokens = [t],
       or_full_text = ''Sample Land Record'', or_engine_id = ''printed_ocr'', or_model_version = bd_model_version a,
       or_config_version = cv\<rparr>"
  by (simp add: baidu_process_image_def fallback_mock_extract_def)

lemma engine_failure_unreported:
  assumes "page_results E adapter (with_image (tm_payload msg)) (tm_work_envelope msg) w = Inl err"
  shows "\<exists>r w'. text_lane_handle E adapter msg w = (Inr r, w') \<and> tl_extractions_count r = 0"
proof -
  obtain items v where i: "process_page_text E adapter (with_image (tm_payload msg)) (tm_work_envelope msg) (Some adapter) w = (items, v)"
    by fastforce
  have "items = []" using process_page_text_items(1) [OF i] assms by simp
  moreover obtain rels te ae z where "text_lane_handle E adapter msg w =
      (Inr \<lparr>tl_extractions_count = length items, tl_relationships = rels,
        tl_text_lane_envelope = te, tl_assembly_envelope = ae\<rparr>, z)"
    using text_lane_handle_result [OF i] by blast
  ultimately show ?thesis by simp
qed

lemma printed_regions_repeat:
  assumes "list_all (\<lambda>r. lr_route r = PRINTED_TEXT) regions" and "engines PRINTED_TEXT = Some f"
    and "f img page_id cv = Inr res"
  shows "run_regions E d engines img page_id cv regions w = (Inr (replicate (length regions) res), w)"
  using assms by (induction regions) (simp_all add: run_region_def engine_or_def)

end
