(* ===== verification/Vectorize.thy ===== *)
theory Vectorize
  imports Text_Lane
begin

text \<open>
  The map side of the extraction service: georeferencing from control points
  (\<open>extraction/domain/georeference.py\<close>), the vectorised parcel boundaries, their labels and areas
  (\<open>vectorize.py\<close>) and the page pipeline (\<open>parcel_pipeline.py\<close>). Coordinates are reals. numpy's rank
  and least squares, and shapely, when it is installed, are parameters; without shapely the code's
  own geometry is used. Entries of a coordinate list are lists of numbers; those with fewer than two
  are skipped, as in the code.
\<close>

section \<open>Georeferencing\<close>

record gcp =
  gcp_pixel_x :: real
  gcp_pixel_y :: real
  gcp_geo_x :: real
  gcp_geo_y :: real

record raw_gcp =
  \<comment> \<open>an entry of the control points of a message\<close>
  rgc_pixel_x :: "real option"
  rgc_pixel_y :: "real option"
  rgc_geo_x :: "real option"
  rgc_geo_y :: "real option"

record raw_polygon =
  rp_coordinates :: "real list list"
  rp_pixel_coordinates :: "real list list"
  rp_is_closed :: "bool option"
  rp_boundary_id :: "string option"

record raw_bbox =
  rb_x :: "real option"
  rb_y :: "real option"
  rb_w :: "real option"
  rb_h :: "real option"

record survey_label =
  \<comment> \<open>\<open>sl_confidence\<close> is \<open>None\<close> when the key is absent\<close>
  sl_raw_value :: "string option"
  sl_canonical_value :: "string option"
  sl_text :: "string option"
  sl_geo_x :: "real option"
  sl_geo_y :: "real option"
  sl_bbox :: "raw_bbox option"
  sl_source_bbox :: "raw_bbox option"
  sl_x :: "real option"
  sl_y :: "real option"
  sl_confidence :: "real option option"
  sl_score :: "real option"
  sl_conflation_lineage_ref :: "string option"
  sl_lineage_id :: "string option"

record map_page = page_payload +
  mp_gcp_control_points :: "raw_gcp list"
  mp_control_points_list :: "raw_gcp list"
  mp_crs :: "string option"
  mp_origin_x :: "real option"
  mp_origin_y :: "real option"
  mp_pixel_scale :: "real option"
  mp_raw_polygons :: "raw_polygon list"
  mp_parcels :: "raw_polygon list"
  mp_allow_default_parcels :: "bool option"
  mp_conflation_lineage_ref :: "string option"
  mp_labels :: "survey_label list"
  mp_survey_labels :: "survey_label list"

record georef_result =
  gr_page_id :: string
  gr_transform_matrix :: "(real \<times> real \<times> real) \<times> (real \<times> real \<times> real)"
  gr_transform_type :: string
  gr_rmse :: real
  gr_crs :: string
  gr_control_points_count :: nat
  gr_gcps :: "gcp list"

record numpy =
  np_matrix_rank :: "(real \<times> real \<times> real) list \<Rightarrow> nat"
  np_lstsq :: "(real \<times> real \<times> real) list \<Rightarrow> real list \<Rightarrow> real \<times> real \<times> real"

definition affine_at :: "real \<times> real \<times> real \<Rightarrow> real \<Rightarrow> real \<Rightarrow> real" where
  "affine_at m x y = (case m of (a, b, c) \<Rightarrow> a * x + b * y + c)"

definition transform_point :: "georef_result \<Rightarrow> point \<Rightarrow> point" where
  "transform_point g p =
     (affine_at (fst (gr_transform_matrix g)) (fst p) (snd p), affine_at (snd (gr_transform_matrix g)) (fst p) (snd p))"

definition design_row :: "gcp \<Rightarrow> real \<times> real \<times> real" where
  "design_row g = (gcp_pixel_x g, gcp_pixel_y g, 1)"

definition squared_error :: "real \<times> real \<times> real \<Rightarrow> real \<times> real \<times> real \<Rightarrow> gcp \<Rightarrow> real" where
  "squared_error mx my g =
     (affine_at mx (gcp_pixel_x g) (gcp_pixel_y g) - gcp_geo_x g)\<^sup>2 +
     (affine_at my (gcp_pixel_x g) (gcp_pixel_y g) - gcp_geo_y g)\<^sup>2"

definition fit_affine_transform ::
  "numpy \<Rightarrow> gcp list \<Rightarrow> exn + ((real \<times> real \<times> real) \<times> (real \<times> real \<times> real)) \<times> real"
where
  "fit_affine_transform np gcps =
     (if length gcps < 3 then Inl (InsufficientControlPointsError (length gcps))
      else
        (let A = map design_row gcps; rank = np_matrix_rank np A
         in if rank < 3 then Inl (InsufficientControlPointsError rank)
            else
              (let mx = np_lstsq np A (map gcp_geo_x gcps);
                   my = np_lstsq np A (map gcp_geo_y gcps);
                   rmse = sqrt (sum_list (map (squared_error mx my) gcps) / length gcps)
               in Inr ((mx, my), round_digits 4 rmse))))"

definition gcp_of :: "raw_gcp \<Rightarrow> gcp" where
  "gcp_of g =
     \<lparr>gcp_pixel_x = or_default 0 (rgc_pixel_x g), gcp_pixel_y = or_default 0 (rgc_pixel_y g),
      gcp_geo_x = or_default 0 (rgc_geo_x g), gcp_geo_y = or_default 0 (rgc_geo_y g)\<rparr>"

definition corner_gcps :: "map_page \<Rightarrow> gcp list" where
  "corner_gcps p =
     (let offset_x = or_default 500000 (mp_origin_x p);
          offset_y = or_default 3000000 (mp_origin_y p);
          scale = or_default 1 (mp_pixel_scale p)
      in [\<lparr>gcp_pixel_x = 0, gcp_pixel_y = 0, gcp_geo_x = offset_x, gcp_geo_y = offset_y + 1000 * scale\<rparr>,
          \<lparr>gcp_pixel_x = 1000, gcp_pixel_y = 0, gcp_geo_x = offset_x + 1000 * scale,
           gcp_geo_y = offset_y + 1000 * scale\<rparr>,
          \<lparr>gcp_pixel_x = 1000, gcp_pixel_y = 1000, gcp_geo_x = offset_x + 1000 * scale, gcp_geo_y = offset_y\<rparr>,
          \<lparr>gcp_pixel_x = 0, gcp_pixel_y = 1000, gcp_geo_x = offset_x, gcp_geo_y = offset_y\<rparr>])"

definition georeference_map :: "numpy \<Rightarrow> map_page \<Rightarrow> string \<Rightarrow> bool \<Rightarrow> exn + georef_result" where
  "georeference_map np p default_crs allow_fallback =
     (let raw_gcps = (if mp_gcp_control_points p \<noteq> [] then mp_gcp_control_points p else mp_control_points_list p);
          gcps = map gcp_of raw_gcps
      in if length gcps < 3 \<and> \<not> allow_fallback then Inl (InsufficientControlPointsError (length gcps))
         else
           (let gcps = (if length gcps < 3 then corner_gcps p else gcps)
            in case fit_affine_transform np gcps of
                 Inl err \<Rightarrow> Inl err
               | Inr (m, rmse) \<Rightarrow>
                   Inr \<lparr>gr_page_id = payload_page_id p, gr_transform_matrix = m, gr_transform_type = ''affine'',
                        gr_rmse = rmse, gr_crs = or_else (mp_crs p) default_crs,
                        gr_control_points_count = length gcps, gr_gcps = gcps\<rparr>))"

definition DEFAULT_CRS :: string where
  "DEFAULT_CRS = ''EPSG:32643''"

section \<open>Geometry\<close>

record shapely =
  \<comment> \<open>\<open>Inl\<close> is the text of the error the library raised\<close>
  sh_valid :: "point list \<Rightarrow> string + bool"
  sh_area :: "point list \<Rightarrow> string + real"
  sh_contains_or_touches :: "point list \<Rightarrow> point \<Rightarrow> bool"
  sh_distance :: "point list \<Rightarrow> point \<Rightarrow> real"

definition clean_vertex :: "point list \<Rightarrow> real list \<Rightarrow> point list" where
  "clean_vertex cleaned p =
     (case p of
        x # y # _ \<Rightarrow>
          if cleaned = [] then [(x, y)]
          else (let prev = List.last cleaned;
                    dist_sq = (x - fst prev)\<^sup>2 + (y - snd prev)\<^sup>2
                in if dist_sq \<ge> 1 / 10 ^ 6 then cleaned @ [(x, y)] else cleaned)
      | _ \<Rightarrow> cleaned)"

definition clean_noisy_vertices :: "real list list \<Rightarrow> point list" where
  "clean_noisy_vertices coords = foldl clean_vertex [] coords"

fun shoelace_sum :: "point list \<Rightarrow> real" where
  "shoelace_sum (p # q # ps) = fst p * snd q - fst q * snd p + shoelace_sum (q # ps)"
| "shoelace_sum _ = 0"

definition shoelace_area :: "point list \<Rightarrow> real" where
  "shoelace_area coords = \<bar>shoelace_sum coords\<bar> / 2"

definition is_self_intersecting :: "point list \<Rightarrow> bool" where
  \<comment> \<open>\<open>_segments_cross\<close> is the test of \<open>strikethrough.py\<close>\<close>
  "is_self_intersecting coords =
     (let n = length coords - 1;
          edges = zip coords (tl coords)
      in if n < 4 then False
         else list_ex (\<lambda>i. list_ex (\<lambda>j. \<not> (i = 0 \<and> j = n - 1) \<and>
                segments_cross (fst (edges ! i)) (snd (edges ! i)) (fst (edges ! j)) (snd (edges ! j)))
              [i + 2..<n]) [0..<n])"

fun ray_cast :: "point \<Rightarrow> point \<Rightarrow> point list \<Rightarrow> bool \<Rightarrow> bool" where
  "ray_cast p p1 [] inside = inside"
| "ray_cast p p1 (p2 # ps) inside =
     (let crosses = snd p > min (snd p1) (snd p2) \<and> snd p \<le> max (snd p1) (snd p2) \<and> fst p \<le> max (fst p1) (fst p2);
          xinters = (snd p - snd p1) * (fst p2 - fst p1) / (snd p2 - snd p1) + fst p1
      in ray_cast p p2 ps
           (if crosses \<and> (fst p1 = fst p2 \<or> fst p \<le> xinters) then \<not> inside else inside))"

definition point_in_polygon_ring :: "point \<Rightarrow> point list \<Rightarrow> bool" where
  \<comment> \<open>the vertices in order, from the first to the first again\<close>
  "point_in_polygon_ring p coords = ray_cast p (hd coords) (coords @ [hd coords]) False"

definition segment_dist_sq :: "point \<Rightarrow> point \<Rightarrow> point \<Rightarrow> real" where
  "segment_dist_sq p p1 p2 =
     (let dx = fst p2 - fst p1; dy = snd p2 - snd p1
      in if dx = 0 \<and> dy = 0 then (fst p - fst p1)\<^sup>2 + (snd p - snd p1)\<^sup>2
         else
           (let t = max 0 (min 1 (((fst p - fst p1) * dx + (snd p - snd p1) * dy) / (dx * dx + dy * dy)));
                proj_x = fst p1 + t * dx;
                proj_y = snd p1 + t * dy
            in (fst p - proj_x)\<^sup>2 + (snd p - proj_y)\<^sup>2))"

fun min_dist_sq :: "point \<Rightarrow> point list \<Rightarrow> real option \<Rightarrow> real option" where
  \<comment> \<open>\<open>None\<close> is infinity\<close>
  "min_dist_sq p (p1 # p2 # ps) best =
     (let d = segment_dist_sq p p1 p2
      in min_dist_sq p (p2 # ps) (Some (case best of Some b \<Rightarrow> min b d | None \<Rightarrow> d)))"
| "min_dist_sq p _ best = best"

definition point_to_polygon_distance :: "point \<Rightarrow> point list \<Rightarrow> real option" where
  "point_to_polygon_distance p coords = map_option sqrt (min_dist_sq p coords None)"

definition validate_polygon_geometry :: "shapely option \<Rightarrow> point list \<Rightarrow> bool \<times> string" where
  "validate_polygon_geometry shp coords =
     (if length coords < 4 then (False, ''Broken or incomplete boundary (fewer than 4 ring coordinates).'')
      else if hd coords \<noteq> List.last coords then (False, ''Open/unclosed boundary ring.'')
      else if card (set (butlast coords)) < 3 then (False, ''Degenerate polygon (fewer than 3 distinct vertices).'')
      else case shp of
             Some s \<Rightarrow>
               (case sh_valid s coords of
                  Inl err \<Rightarrow> (False, ''Shapely validation error: '' @ err)
                | Inr v \<Rightarrow>
                    (if \<not> v then (False, ''Invalid or self-intersecting polygon geometry.'')
                     else case sh_area s coords of
                            Inl err \<Rightarrow> (False, ''Shapely validation error: '' @ err)
                          | Inr a \<Rightarrow> if a \<le> 0 then (False, ''Invalid or self-intersecting polygon geometry.'')
                                    else (True, ''Valid polygon geometry.'')))
           | None \<Rightarrow>
               if is_self_intersecting coords then (False, ''Self-intersecting (bowtie/crossing) polygon ring.'')
               else if shoelace_area coords \<le> 0 then (False, ''Degenerate zero-area polygon.'')
               else (True, ''Valid polygon geometry.''))"

section \<open>Boundaries\<close>

record parcel_item =
  \<comment> \<open>\<open>pi_polygon\<close> is the ring of the GeoJSON polygon\<close>
  pi_parcel_index :: nat
  pi_boundary_id :: string
  pi_is_valid :: bool
  pi_is_broken :: bool
  pi_polygon :: "point list option"
  pi_pixel_coordinates :: "real list list"
  pi_conflation_lineage_ref :: "string option"
  pi_validation_reason :: string

definition sample_square :: "real \<Rightarrow> raw_polygon" where
  "sample_square x =
     \<lparr>rp_coordinates = [[x, 100], [x + 200, 100], [x + 200, 300], [x, 300], [x, 100]],
      rp_pixel_coordinates = [], rp_is_closed = None, rp_boundary_id = None\<rparr>"

definition page_polygons :: "map_page \<Rightarrow> raw_polygon list" where
  "page_polygons p =
     (let raw = (if mp_raw_polygons p \<noteq> [] then mp_raw_polygons p else mp_parcels p)
      in if raw = [] \<and> mp_allow_default_parcels p \<noteq> Some False then [sample_square 100, sample_square 300] else raw)"

definition pixel_ring :: "raw_polygon \<Rightarrow> real list list" where
  "pixel_ring r = (if rp_coordinates r \<noteq> [] then rp_coordinates r else rp_pixel_coordinates r)"

definition geo_ring :: "georef_result \<Rightarrow> point list \<Rightarrow> point list" where
  "geo_ring g ps =
     (let geo = map (\<lambda>p. let q = transform_point g p in (round_digits 4 (fst q), round_digits 4 (snd q))) ps
      in if geo \<noteq> [] \<and> hd geo \<noteq> List.last geo then geo @ [hd geo] else geo)"

definition vectorize_one ::
  "shapely option \<Rightarrow> georef_result \<Rightarrow> string option \<Rightarrow> nat \<Rightarrow> raw_polygon \<Rightarrow> parcel_item option"
where
  "vectorize_one shp g lineage idx r =
     (let px_coords = pixel_ring r;
          boundary_id = or_else (rp_boundary_id r) (''boundary_'' @ str_of_nat (idx + 1));
          item = (\<lambda>valid broken ring reason.
                    \<lparr>pi_parcel_index = idx + 1, pi_boundary_id = boundary_id, pi_is_valid = valid,
                     pi_is_broken = broken, pi_polygon = ring, pi_pixel_coordinates = px_coords,
                     pi_conflation_lineage_ref = lineage, pi_validation_reason = reason\<rparr>)
      in if px_coords = [] then None
         else
           (let cleaned = clean_noisy_vertices px_coords
            in if rp_is_closed r = Some False \<or> length cleaned < 3
               then Some (item False True None ''Broken or open boundary without closing edge.'')
               else
                 (let ring = geo_ring g cleaned; (valid, reason) = validate_polygon_geometry shp ring
                  in if \<not> valid then Some (item False False None reason)
                     else Some (item True False (Some ring) ''Valid polygon geometry.''))))"

definition vectorize_parcels :: "shapely option \<Rightarrow> map_page \<Rightarrow> georef_result \<Rightarrow> parcel_item list" where
  "vectorize_parcels shp p g =
     List.map_filter (\<lambda>(idx, r). vectorize_one shp g (mp_conflation_lineage_ref p) idx r)
       (enumerate 0 (page_polygons p))"


section \<open>Survey labels\<close>

record prepared_label =
  pl_index :: nat
  pl_text :: string
  pl_pt :: point
  pl_confidence :: "real option"
  pl_bbox :: "raw_bbox option"
  pl_conflation_lineage_ref :: "string option"

definition bbox_centre :: "raw_bbox \<Rightarrow> point" where
  "bbox_centre b = (or_default 0 (rb_x b) + or_default 0 (rb_w b) / 2, or_default 0 (rb_y b) + or_default 0 (rb_h b) / 2)"

definition bbox_or :: "raw_bbox option \<Rightarrow> raw_bbox option \<Rightarrow> raw_bbox option" where
  \<comment> \<open>\<open>x or y\<close> of two dictionaries, an empty one being false\<close>
  "bbox_or x y =
     (case x of
        Some b \<Rightarrow> if rb_x b = None \<and> rb_y b = None \<and> rb_w b = None \<and> rb_h b = None then y else x
      | None \<Rightarrow> y)"

definition label_text :: "survey_label \<Rightarrow> string option" where
  "label_text l = or_str (or_str (sl_raw_value l) (sl_canonical_value l)) (sl_text l)"

definition label_point :: "georef_result option \<Rightarrow> survey_label \<Rightarrow> point option" where
  "label_point g l =
     (case (sl_geo_x l, sl_geo_y l) of
        (Some x, Some y) \<Rightarrow> Some (x, y)
      | _ \<Rightarrow>
        (case (sl_bbox l, g) of
           (Some b, Some gr) \<Rightarrow> Some (transform_point gr (bbox_centre b))
         | _ \<Rightarrow>
           (case (sl_x l, sl_y l) of
              (Some x, Some y) \<Rightarrow> Some (case g of Some gr \<Rightarrow> transform_point gr (x, y) | None \<Rightarrow> (x, y))
            | _ \<Rightarrow> map_option bbox_centre (sl_bbox l))))"

definition prepare_label :: "georef_result option \<Rightarrow> nat \<times> survey_label \<Rightarrow> prepared_label option" where
  "prepare_label g = (\<lambda>(idx, l).
     if \<not> truthy (label_text l) then None
     else case label_point g l of
            None \<Rightarrow> None
          | Some pt \<Rightarrow>
              Some \<lparr>pl_index = idx, pl_text = or_empty (label_text l), pl_pt = pt,
                    pl_confidence = (case sl_confidence l of Some c \<Rightarrow> c | None \<Rightarrow> sl_score l),
                    pl_bbox = bbox_or (sl_bbox l) (sl_source_bbox l),
                    pl_conflation_lineage_ref = or_str (sl_conflation_lineage_ref l) (sl_lineage_id l)\<rparr>)"

record label_match =
  \<comment> \<open>a label in or near a parcel; \<open>parcel_candidates\<close> and \<open>label_candidates\<close> are the list of them, read by
    parcel and by label\<close>
  lm_parcel :: nat
  lm_label :: prepared_label
  lm_distance :: real
  lm_inside :: bool

definition match_label :: "shapely option \<Rightarrow> real \<Rightarrow> nat \<Rightarrow> point list \<Rightarrow> prepared_label \<Rightarrow> label_match option" where
  "match_label shp max_nearby_distance p_idx coords l =
     (let (is_inside, dist) =
            (case shp of
               Some s \<Rightarrow> (sh_contains_or_touches s coords (pl_pt l), Some (sh_distance s coords (pl_pt l)))
             | None \<Rightarrow> (point_in_polygon_ring (pl_pt l) coords, point_to_polygon_distance (pl_pt l) coords))
      in if is_inside then Some \<lparr>lm_parcel = p_idx, lm_label = l, lm_distance = 0, lm_inside = True\<rparr>
         else case dist of
                Some d \<Rightarrow>
                  if d \<le> max_nearby_distance
                  then Some \<lparr>lm_parcel = p_idx, lm_label = l, lm_distance = d, lm_inside = False\<rparr> else None
              | None \<Rightarrow> None)"

definition parcel_matches ::
  "shapely option \<Rightarrow> real \<Rightarrow> prepared_label list \<Rightarrow> nat \<times> parcel_item \<Rightarrow> label_match list"
where
  "parcel_matches shp d ls = (\<lambda>(p_idx, item).
     case pi_polygon item of
       Some coords \<Rightarrow>
         if \<not> pi_is_valid item \<or> length coords < 3 then [] else List.map_filter (match_label shp d p_idx coords) ls
     | None \<Rightarrow> [])"

datatype binding_status = Unbound | Ambiguous | Bound

record bound_parcel = parcel_item +
  bp_bound_survey_no :: "string option"
  bp_label_confidence :: "real option"
  bp_label_bbox :: "raw_bbox option"
  bp_binding_status :: binding_status

definition bound_item ::
  "parcel_item \<Rightarrow> prepared_label option \<Rightarrow> binding_status \<Rightarrow> string option \<Rightarrow> bound_parcel"
where
  "bound_item item l st lineage =
     parcel_item.extend (item\<lparr>pi_conflation_lineage_ref := lineage\<rparr>)
       \<lparr>bp_bound_survey_no = map_option pl_text l,
        bp_label_confidence = (case l of Some x \<Rightarrow> pl_confidence x | None \<Rightarrow> None),
        bp_label_bbox = (case l of Some x \<Rightarrow> pl_bbox x | None \<Rightarrow> None), bp_binding_status = st\<rparr>"

definition candidate_pool :: "label_match list \<Rightarrow> label_match list" where
  "candidate_pool candidates =
     (let inside = filter lm_inside candidates in if inside \<noteq> [] then inside else candidates)"

definition competing_parcels :: "label_match list \<Rightarrow> label_match \<Rightarrow> label_match list" where
  "competing_parcels matches best =
     (let mine = filter (\<lambda>m. pl_index (lm_label m) = pl_index (lm_label best)) matches
      in if lm_inside best then filter lm_inside mine else mine)"

definition resolve_binding :: "label_match list \<Rightarrow> nat \<times> parcel_item \<Rightarrow> bound_parcel" where
  "resolve_binding matches = (\<lambda>(p_idx, item).
     let candidates = filter (\<lambda>m. lm_parcel m = p_idx) matches;
         lineage = pi_conflation_lineage_ref item
     in if candidates = [] then bound_item item None Unbound lineage
        else
          (let pool = candidate_pool candidates
           in if card (set (map (\<lambda>m. pl_text (lm_label m)) pool)) > 1 then bound_item item None Ambiguous lineage
              else
                (let best = hd (sort_key lm_distance pool); lbl = lm_label best
                 in if length (competing_parcels matches best) > 1
                    then bound_item item None Ambiguous (or_str lineage (pl_conflation_lineage_ref lbl))
                    else bound_item item (Some lbl) Bound (or_str (pl_conflation_lineage_ref lbl) lineage))))"

definition bind_survey_labels ::
  "shapely option \<Rightarrow> parcel_item list \<Rightarrow> survey_label list \<Rightarrow> georef_result option \<Rightarrow> real \<Rightarrow> bound_parcel list"
where
  "bind_survey_labels shp polygons labels g max_nearby_distance =
     (let prepared = List.map_filter (prepare_label g) (enumerate 0 labels);
          matches = concat (map (parcel_matches shp max_nearby_distance prepared) (enumerate 0 polygons))
      in map (resolve_binding matches) (enumerate 0 polygons))"

section \<open>Areas\<close>

definition upper_char :: "char \<Rightarrow> char" where
  "upper_char c = (let n = of_char c :: nat in if 97 \<le> n \<and> n \<le> 122 then char_of (n - 32) else c)"

definition GEOGRAPHIC_CRS_PATTERNS :: "string list" where
  "GEOGRAPHIC_CRS_PATTERNS =
     [''4326'', ''WGS84'', ''WGS-84'', ''OGC:CRS84'', ''4269'', ''NAD83'', ''GEOGCS'']"

definition is_geographic_crs :: "string \<Rightarrow> bool" where
  "is_geographic_crs crs =
     (crs \<noteq> [] \<and> list_ex (\<lambda>pat. sublist pat (map upper_char (strip crs))) GEOGRAPHIC_CRS_PATTERNS)"

definition radians :: "real \<Rightarrow> real" where
  "radians x = x * pi / 180"

definition geographic_to_metric_coords :: "point list \<Rightarrow> point list" where
  "geographic_to_metric_coords coords =
     (let R = 6371008.8;
          pts = (if hd coords = List.last coords \<and> length coords > 1 then butlast coords else coords);
          n = length pts
      in if n = 0 then coords
         else
           (let lon0 = sum_list (map fst pts) / n;
                lat0 = sum_list (map snd pts) / n;
                cos_lat0 = cos (radians lat0)
            in map (\<lambda>p. (radians (fst p - lon0) * R * cos_lat0, radians (snd p - lat0) * R)) coords))"

definition quantize_cents :: "real \<Rightarrow> string" where
  \<comment> \<open>of a non-negative number, half up, as text\<close>
  "quantize_cents x =
     (let c = nat \<lfloor>x * 100 + 1 / 2\<rfloor>
      in str_of_nat (c div 100) @ ''.'' @ pad_left 2 (str_of_nat (c mod 100)))"

definition compute_area :: "shapely option \<Rightarrow> point list \<Rightarrow> string \<Rightarrow> string" where
  "compute_area shp coords crs =
     (if length coords < 3 then ''0.00''
      else
        (let ring = (if hd coords \<noteq> List.last coords then coords @ [hd coords] else coords)
         in if \<not> fst (validate_polygon_geometry shp ring) then ''0.00''
            else
              (let metric = (if is_geographic_crs crs then geographic_to_metric_coords ring else ring);
                   raw_area = (case shp of
                                 Some s \<Rightarrow> (case sh_area s metric of Inr a \<Rightarrow> \<bar>a\<bar> | Inl err \<Rightarrow> shoelace_area metric)
                               | None \<Rightarrow> shoelace_area metric)
               in quantize_cents raw_area)))"

section \<open>The map page\<close>

record parcel_geometry =
  pg_id :: string
  pg_page_id :: string
  pg_polygon :: "point list"
  pg_crs :: string
  pg_area_computed :: string
  pg_control_points :: nat
  pg_georef_rmse :: real
  pg_transform_type :: string
  pg_ulpin_eligible :: bool
  pg_bound_survey_no :: "string option"
  pg_conflation_lineage_ref :: "string option"

definition ULPIN_RMSE_THRESHOLD :: real where
  "ULPIN_RMSE_THRESHOLD = 1.5"

fun parcel_geometries ::
  "env \<Rightarrow> shapely option \<Rightarrow> map_page \<Rightarrow> georef_result \<Rightarrow> bound_parcel list \<Rightarrow> 'a world_scheme
    \<Rightarrow> parcel_geometry list \<times> 'a world_scheme"
where
  "parcel_geometries E shp p g [] w = ([], w)"
| "parcel_geometries E shp p g (item # items) w =
     (if \<not> pi_is_valid item \<or> pi_polygon item = None
      then parcel_geometries E shp p g items w
      else
        (let ring = (case pi_polygon item of Some r \<Rightarrow> r | None \<Rightarrow> []);
             (gid, w) = draw_uuid E w;
             pg = \<lparr>pg_id = gid, pg_page_id = payload_page_id p, pg_polygon = ring, pg_crs = gr_crs g,
                   pg_area_computed = compute_area shp ring (gr_crs g),
                   pg_control_points = gr_control_points_count g, pg_georef_rmse = gr_rmse g,
                   pg_transform_type = gr_transform_type g,
                   pg_ulpin_eligible = (gr_rmse g \<le> ULPIN_RMSE_THRESHOLD),
                   pg_bound_survey_no = bp_bound_survey_no item,
                   pg_conflation_lineage_ref = mp_conflation_lineage_ref p\<rparr>;
             (rest, w) = parcel_geometries E shp p g items w
         in (pg # rest, w)))"

definition process_map_page ::
  "env \<Rightarrow> numpy \<Rightarrow> shapely option \<Rightarrow> map_page \<Rightarrow> 'a world_scheme \<Rightarrow> (exn + parcel_geometry list) \<times> 'a world_scheme"
where
  "process_map_page E np shp p w =
     (let labels = (if mp_labels p \<noteq> [] then mp_labels p else mp_survey_labels p)
      in case georeference_map np p DEFAULT_CRS True of
           Inl err \<Rightarrow> (Inl err, w)
         | Inr g \<Rightarrow>
             (let parcels = vectorize_parcels shp p g
              in if parcels = [] then (Inr [], w)
                 else
                   (let (gs, w) = parcel_geometries E shp p g (bind_survey_labels shp parcels labels (Some g) 50) w
                    in (Inr gs, w))))"


section \<open>Lemmas\<close>

subsection \<open>Bindings\<close>

lemma distinct_map_filter:
  assumes "distinct xs" and "\<And>x y v. x \<in> set xs \<Longrightarrow> y \<in> set xs \<Longrightarrow> f x = Some v \<Longrightarrow> f y = Some v \<Longrightarrow> x = y"
  shows "distinct (List.map_filter f xs)"
  using assms
proof (induction xs)
  case (Cons a xs)
  have "distinct (List.map_filter f xs)" using Cons by simp
  moreover have "v \<notin> set (List.map_filter f xs)" if "f a = Some v" for v
  proof
    assume "v \<in> set (List.map_filter f xs)"
    then obtain y where "y \<in> set xs" "f y = Some v" by (auto simp: List.map_filter_def)
    with Cons.prems(2) [of a y v] that Cons.prems(1) show False by auto
  qed
  ultimately show ?case by (simp add: List.map_filter_simps split: option.splits)
qed (simp add: List.map_filter_simps)

lemma set_map_filterD: "y \<in> set (List.map_filter f xs) \<Longrightarrow> \<exists>x \<in> set xs. f x = Some y"
  by (auto simp: List.map_filter_def)

definition chosen_match :: "label_match list \<Rightarrow> nat \<Rightarrow> label_match option" where
  \<comment> \<open>the match a parcel is bound by\<close>
  "chosen_match matches p_idx =
     (let candidates = filter (\<lambda>m. lm_parcel m = p_idx) matches;
          best = hd (sort_key lm_distance (candidate_pool candidates))
      in if candidates = [] \<or> card (set (map (\<lambda>m. pl_text (lm_label m)) (candidate_pool candidates))) > 1 \<or>
            length (competing_parcels matches best) > 1
         then None else Some best)"

lemma resolve_binding_chosen:
  "bp_bound_survey_no (resolve_binding matches x) = map_option (\<lambda>m. pl_text (lm_label m)) (chosen_match matches (fst x))"
  "bp_binding_status (resolve_binding matches x) = Bound \<longleftrightarrow> chosen_match matches (fst x) \<noteq> None"
  by (cases x; simp add: resolve_binding_def chosen_match_def bound_item_def Let_def parcel_item.defs)+

lemma chosen_match_props:
  assumes "chosen_match matches p = Some m"
  shows "m \<in> set matches" and "lm_parcel m = p" and "length (competing_parcels matches m) \<le> 1"
proof -
  let ?cs = "filter (\<lambda>m. lm_parcel m = p) matches"
  from assms have c: "?cs \<noteq> []" "m = hd (sort_key lm_distance (candidate_pool ?cs))"
    and "length (competing_parcels matches m) \<le> 1"
    by (auto simp: chosen_match_def Let_def split: if_splits)
  then show "length (competing_parcels matches m) \<le> 1" by simp
  have "candidate_pool ?cs \<noteq> []" "set (candidate_pool ?cs) \<subseteq> set ?cs"
    using c(1) by (auto simp: candidate_pool_def Let_def)
  with hd_sort_least [of "candidate_pool ?cs" lm_distance] c(2) have "m \<in> set ?cs" by auto
  then show "m \<in> set matches" "lm_parcel m = p" by simp_all
qed

lemma two_members: "x \<in> set xs \<Longrightarrow> y \<in> set xs \<Longrightarrow> x \<noteq> y \<Longrightarrow> 1 < length xs"
  by (cases xs; cases "tl xs") auto

lemma competing_two:
  assumes "m \<in> set matches" and "m' \<in> set matches" and "m \<noteq> m'"
    and "pl_index (lm_label m) = pl_index (lm_label m')"
  shows "1 < length (competing_parcels matches m) \<or> 1 < length (competing_parcels matches m')"
proof (cases "lm_inside m \<and> \<not> lm_inside m'")
  case True
  with assms have "1 < length (competing_parcels matches m')"
    by (intro two_members [of m _ m']) (auto simp: competing_parcels_def Let_def)
  then show ?thesis by simp
next
  case False
  with assms have "1 < length (competing_parcels matches m)"
    by (intro two_members [of m _ m']) (auto simp: competing_parcels_def Let_def)
  then show ?thesis by simp
qed

lemma chosen_inj:
  assumes "chosen_match matches p = Some m" and "chosen_match matches q = Some m'"
    and "pl_index (lm_label m) = pl_index (lm_label m')"
  shows "p = q"
proof (rule ccontr)
  note a = chosen_match_props [OF assms(1)] and b = chosen_match_props [OF assms(2)]
  assume "p \<noteq> q"
  then have "m \<noteq> m'" using a(2) b(2) by auto
  from competing_two [OF a(1) b(1) this assms(3)] a(3) b(3) show False by simp
qed

lemma prepare_label_text:
  assumes "l \<in> set (List.map_filter (prepare_label g) (enumerate 0 labels))"
  shows "pl_index l < length labels" and "label_text (labels ! pl_index l) = Some (pl_text l)"
proof -
  obtain i x where x: "(i, x) \<in> set (enumerate 0 labels)" "prepare_label g (i, x) = Some l"
    using set_map_filterD [OF assms] by auto
  then have "i < length labels" "x = labels ! i" by (auto simp: in_set_enumerate_eq)
  moreover have "pl_index l = i" "label_text x = Some (pl_text l)"
    using x(2) by (auto simp: prepare_label_def truthy_def split: option.splits if_splits)
  ultimately show "pl_index l < length labels" "label_text (labels ! pl_index l) = Some (pl_text l)" by simp_all
qed

lemma parcel_matches_label:
  "m \<in> set (parcel_matches shp d ls x) \<Longrightarrow> lm_label m \<in> set ls"
  by (cases x) (auto simp: parcel_matches_def match_label_def Let_def
      dest!: set_map_filterD split: option.splits if_splits prod.splits)

subsection \<open>Geometry\<close>

definition matrix_det :: "georef_result \<Rightarrow> real" where
  \<comment> \<open>the determinant of the linear part of the transformation\<close>
  "matrix_det g = (case gr_transform_matrix g of ((a, b, c), (d, e, f)) \<Rightarrow> a * e - b * d)"

lemma shoelace_sum_transform:
  assumes "gr_transform_matrix g = ((a, b, c), (d, e, f))" and "ps \<noteq> []"
  shows "shoelace_sum (map (transform_point g) ps) =
      (a * e - b * d) * shoelace_sum ps
      + f * (a * (fst (hd ps) - fst (List.last ps)) + b * (snd (hd ps) - snd (List.last ps)))
      - c * (d * (fst (hd ps) - fst (List.last ps)) + e * (snd (hd ps) - snd (List.last ps)))"
  using assms(2)
proof (induction ps rule: shoelace_sum.induct)
  case (1 p q ps)
  then show ?case by (simp add: transform_point_def affine_at_def assms(1) algebra_simps)
qed (auto simp: transform_point_def affine_at_def assms(1))

lemma clamp_nearest:
  fixes s t0 :: real
  assumes "0 \<le> s" and "s \<le> 1"
  shows "0 \<le> (s - max 0 (min 1 t0)) * (max 0 (min 1 t0) - t0)"
proof -
  consider "t0 < 0" | "0 \<le> t0 \<and> t0 \<le> 1" | "1 < t0" by linarith
  then show ?thesis
  proof cases
    case 1
    then show ?thesis using assms by (simp add: mult_nonneg_nonpos)
  next
    case 3
    then show ?thesis using assms by (simp add: mult_nonpos_nonpos)
  qed simp
qed


definition dist_sq :: "point \<Rightarrow> point \<Rightarrow> real" where
  "dist_sq p x = (fst p - fst x)\<^sup>2 + (snd p - snd x)\<^sup>2"

lemma segment_dist_sq_least:
  assumes "on_segment p1 p2 x"
  shows "segment_dist_sq p p1 p2 \<le> dist_sq p x"
proof -
  define dx dy u v where d: "dx = fst p2 - fst p1" "dy = snd p2 - snd p1" "u = fst p - fst p1" "v = snd p - snd p1"
  obtain s where s: "0 \<le> s" "s \<le> 1" "fst x = fst p1 + s * dx" "snd x = snd p1 + s * dy"
    using assms by (auto simp: on_segment_def d)
  have x: "dist_sq p x = (u - s * dx)\<^sup>2 + (v - s * dy)\<^sup>2" by (simp add: dist_sq_def s d algebra_simps)
  show ?thesis
  proof (cases "dx = 0 \<and> dy = 0")
    case True
    then show ?thesis unfolding x by (simp add: segment_dist_sq_def d)
  next
    case False
    define L t0 t where l: "L = dx * dx + dy * dy" "t0 = (u * dx + v * dy) / L" "t = max 0 (min 1 t0)"
    have L: "0 < L" using False by (simp add: l sum_squares_gt_zero_iff)
    have tL: "t0 * L = u * dx + v * dy" using L by (simp add: l(2))
    have "segment_dist_sq p p1 p2 = (u - t * dx)\<^sup>2 + (v - t * dy)\<^sup>2"
      using False by (simp add: segment_dist_sq_def Let_def d l algebra_simps)
    moreover have q: "(u - r * dx)\<^sup>2 + (v - r * dy)\<^sup>2 = u\<^sup>2 + v\<^sup>2 - 2 * r * (t0 * L) + r\<^sup>2 * L" for r
      unfolding tL by (simp add: l(1) power2_eq_square algebra_simps)
    moreover have "(u - s * dx)\<^sup>2 + (v - s * dy)\<^sup>2 - ((u - t * dx)\<^sup>2 + (v - t * dy)\<^sup>2) =
        L * (s - t)\<^sup>2 + 2 * (L * ((s - t) * (t - t0)))"
      unfolding q by (simp add: power2_eq_square algebra_simps)
    moreover have "0 \<le> L * (s - t)\<^sup>2 + 2 * (L * ((s - t) * (t - t0)))"
      using clamp_nearest [OF s(1,2), of t0] L unfolding l(3) by simp
    ultimately show ?thesis unfolding x by linarith
  qed
qed

lemma segment_dist_sq_attained: "\<exists>x. on_segment p1 p2 x \<and> segment_dist_sq p p1 p2 = dist_sq p x"
proof (cases "fst p2 - fst p1 = 0 \<and> snd p2 - snd p1 = 0")
  case True
  then have "on_segment p1 p2 p1" by (auto simp: on_segment_def intro: exI [of _ 0])
  then show ?thesis using True by (intro exI [of _ p1]) (simp add: segment_dist_sq_def dist_sq_def)
next
  case False
  let ?dx = "fst p2 - fst p1" and ?dy = "snd p2 - snd p1"
  define t where "t = max 0 (min 1 (((fst p - fst p1) * ?dx + (snd p - snd p1) * ?dy) / (?dx * ?dx + ?dy * ?dy)))"
  let ?x = "(fst p1 + t * ?dx, snd p1 + t * ?dy)"
  have "0 \<le> t" "t \<le> 1" by (simp_all add: t_def)
  then have "on_segment p1 p2 ?x" by (auto simp: on_segment_def)
  moreover have "segment_dist_sq p p1 p2 = dist_sq p ?x"
    using False by (simp add: segment_dist_sq_def dist_sq_def Let_def t_def)
  ultimately show ?thesis by blast
qed

lemma min_dist_sq_props:
  "min_dist_sq p ps best = Some d \<Longrightarrow>
     (best = Some d \<or> (\<exists>(a, b) \<in> set (zip ps (tl ps)). d = segment_dist_sq p a b)) \<and>
     (\<forall>b. best = Some b \<longrightarrow> d \<le> b) \<and> (\<forall>(a, b) \<in> set (zip ps (tl ps)). d \<le> segment_dist_sq p a b)"
proof (induction p ps best rule: min_dist_sq.induct)
  case (1 p p1 p2 ps best)
  let ?b = "case best of Some b \<Rightarrow> min b (segment_dist_sq p p1 p2) | None \<Rightarrow> segment_dist_sq p p1 p2"
  from "1.prems" have "min_dist_sq p (p2 # ps) (Some ?b) = Some d" by (simp add: Let_def)
  from "1.IH" [OF refl this] show ?case by (cases best) (auto simp: min_def split: if_splits)
qed auto

definition on_ring :: "point list \<Rightarrow> point \<Rightarrow> bool" where
  "on_ring coords x \<longleftrightarrow> list_ex (\<lambda>(a, b). on_segment a b x) (zip coords (tl coords))"

subsection \<open>Fitting\<close>

definition residual :: "(real \<times> real \<times> real) list \<Rightarrow> real list \<Rightarrow> real \<times> real \<times> real \<Rightarrow> real" where
  "residual A B m =
     sum_list (map2 (\<lambda>(x, y, z) b. (fst m * x + fst (snd m) * y + snd (snd m) * z - b)\<^sup>2) A B)"

definition least_squares :: "(real \<times> real \<times> real) list \<Rightarrow> real list \<Rightarrow> real \<times> real \<times> real \<Rightarrow> bool" where
  "least_squares A B m \<longleftrightarrow> (\<forall>m'. residual A B m \<le> residual A B m')"

definition lstsq_ok :: "numpy \<Rightarrow> gcp list \<Rightarrow> bool" where
  \<comment> \<open>numpy's least squares are the least for the two systems the code solves\<close>
  "lstsq_ok np gcps \<longleftrightarrow>
     (let A = map design_row gcps
      in least_squares A (map gcp_geo_x gcps) (np_lstsq np A (map gcp_geo_x gcps)) \<and>
         least_squares A (map gcp_geo_y gcps) (np_lstsq np A (map gcp_geo_y gcps)))"

lemma residual_design:
  "residual (map design_row gcps) (map h gcps) m =
     sum_list (map (\<lambda>c. (affine_at m (gcp_pixel_x c) (gcp_pixel_y c) - h c)\<^sup>2) gcps)"
  by (induction gcps) (auto simp: residual_def design_row_def affine_at_def split: prod.splits)

lemma residual_nonneg: "0 \<le> residual A B m"
  unfolding residual_def by (rule sum_list_nonneg) auto

lemma residual_zero_least: "residual A B m = 0 \<Longrightarrow> least_squares A B m"
  by (simp add: least_squares_def residual_nonneg)

lemma residual_zero_iff:
  "residual (map design_row gcps) (map h gcps) m = 0 \<longleftrightarrow>
     list_all (\<lambda>c. affine_at m (gcp_pixel_x c) (gcp_pixel_y c) = h c) gcps"
  unfolding residual_design by (subst sum_list_nonneg_eq_0_iff) (auto simp: list_all_iff)

lemma exact_fit:
  assumes "least_squares (map design_row gcps) (map h gcps) m"
    and "list_all (\<lambda>c. affine_at m' (gcp_pixel_x c) (gcp_pixel_y c) = h c) gcps"
  shows "list_all (\<lambda>c. affine_at m (gcp_pixel_x c) (gcp_pixel_y c) = h c) gcps"
  using assms residual_nonneg unfolding residual_zero_iff [symmetric] least_squares_def by (metis order_antisym)

definition affine_points :: "real \<times> real \<times> real \<Rightarrow> real \<times> real \<times> real \<Rightarrow> gcp list \<Rightarrow> bool" where
  \<comment> \<open>the control points lie on one affine map\<close>
  "affine_points mx my gcps \<longleftrightarrow>
     list_all (\<lambda>c. affine_at mx (gcp_pixel_x c) (gcp_pixel_y c) = gcp_geo_x c) gcps \<and>
     list_all (\<lambda>c. affine_at my (gcp_pixel_x c) (gcp_pixel_y c) = gcp_geo_y c) gcps"

lemma georeference_map_fit:
  assumes "georeference_map np p crs fb = Inr g"
  shows "fit_affine_transform np (gr_gcps g) = Inr (gr_transform_matrix g, gr_rmse g)"
    and "gr_control_points_count g = length (gr_gcps g)" and "3 \<le> length (gr_gcps g)"
proof -
  let ?raw = "map gcp_of (if mp_gcp_control_points p \<noteq> [] then mp_gcp_control_points p else mp_control_points_list p)"
  let ?gs = "if length ?raw < 3 then corner_gcps p else ?raw"
  from assms obtain m r where f: "fit_affine_transform np ?gs = Inr (m, r)"
    and g: "gr_gcps g = ?gs" "gr_transform_matrix g = m" "gr_rmse g = r" "gr_control_points_count g = length ?gs"
    unfolding georeference_map_def Let_def
    by (cases "fit_affine_transform np ?gs") (auto split: if_splits simp del: length_map)
  show "fit_affine_transform np (gr_gcps g) = Inr (gr_transform_matrix g, gr_rmse g)" using f g by simp
  show "gr_control_points_count g = length (gr_gcps g)" using g by simp
  show "3 \<le> length (gr_gcps g)" unfolding g(1) by (auto simp: corner_gcps_def Let_def)
qed

lemma exact_georeference:
  assumes "fit_affine_transform np gcps = Inr ((mx, my), r)" and "lstsq_ok np gcps" and "affine_points nx ny gcps"
  shows "r = 0" and "affine_points mx my gcps"
proof -
  from assms(1) have m: "mx = np_lstsq np (map design_row gcps) (map gcp_geo_x gcps)"
      "my = np_lstsq np (map design_row gcps) (map gcp_geo_y gcps)"
    and r: "r = round_digits 4 (sqrt (sum_list (map (squared_error mx my) gcps) / length gcps))"
    by (auto simp: fit_affine_transform_def Let_def split: if_splits)
  show a: "affine_points mx my gcps"
    using assms(2,3) exact_fit unfolding affine_points_def lstsq_ok_def Let_def m by blast
  have "sum_list (map (squared_error mx my) gcps) = 0"
    by (subst sum_list_nonneg_eq_0_iff) (use a in \<open>auto simp: affine_points_def squared_error_def list_all_iff\<close>)
  then show "r = 0" by (simp add: r round_digits_def Let_def)
qed


lemma on_ring_iff: "on_ring coords x \<longleftrightarrow> (\<exists>(a, b) \<in> set (zip coords (tl coords)). on_segment a b x)"
  by (simp add: on_ring_def list_ex_iff)

section \<open>Properties\<close>

text \<open>C11. No label names two parcels. Whatever the polygons, the labels, the georeference and the
  geometry library, the parcels are returned in order, and each is bound to at most one label of the
  page, whose text is its survey number; no label is bound to two of them, however many contain it or
  lie near it.\<close>

theorem label_binds_once:
  "\<exists>chosen. map bp_bound_survey_no (bind_survey_labels shp polygons labels g d) =
       map (\<lambda>c. Option.bind c (\<lambda>i. label_text (labels ! i))) chosen \<and>
     map (\<lambda>b. bp_binding_status b = Bound) (bind_survey_labels shp polygons labels g d) =
       map (\<lambda>c. c \<noteq> None) chosen \<and>
     length chosen = length polygons \<and> distinct (List.map_filter id chosen) \<and>
     set (List.map_filter id chosen) \<subseteq> {..<length labels}"
proof -
  let ?prepared = "List.map_filter (prepare_label g) (enumerate 0 labels)"
  let ?ms = "concat (map (parcel_matches shp d ?prepared) (enumerate 0 polygons))"
  define pick where "pick p = map_option (\<lambda>m. pl_index (lm_label m)) (chosen_match ?ms p)" for p
  let ?chosen = "map pick [0..<length polygons]"
  have prep: "lm_label m \<in> set ?prepared" if "chosen_match ?ms p = Some m" for p m
    using chosen_match_props(1) [OF that] by (auto dest: parcel_matches_label)
  have res: "bind_survey_labels shp polygons labels g d = map (resolve_binding ?ms) (enumerate 0 polygons)"
    by (simp add: bind_survey_labels_def Let_def)
  have idx: "map (\<lambda>x. h (fst x)) (enumerate 0 polygons) = map h [0..<length polygons]" for h :: "nat \<Rightarrow> 'b"
    by (metis (no_types, lifting) map_fst_enumerate map_map comp_apply map_cong plus_nat.add_0)
  have names: "map_option (\<lambda>m. pl_text (lm_label m)) (chosen_match ?ms p) =
      Option.bind (pick p) (\<lambda>i. label_text (labels ! i))" for p
    by (cases "chosen_match ?ms p") (simp_all add: pick_def prepare_label_text(2) [OF prep])
  have "map bp_bound_survey_no (bind_survey_labels shp polygons labels g d) =
      map (\<lambda>c. Option.bind c (\<lambda>i. label_text (labels ! i))) ?chosen"
    unfolding res using idx [of "\<lambda>p. Option.bind (pick p) (\<lambda>i. label_text (labels ! i))"]
    by (simp add: comp_def resolve_binding_chosen(1) names)
  moreover have "map (\<lambda>b. bp_binding_status b = Bound) (bind_survey_labels shp polygons labels g d) =
      map (\<lambda>c. c \<noteq> None) ?chosen"
    unfolding res using idx [of "\<lambda>p. pick p \<noteq> None"] by (simp add: comp_def resolve_binding_chosen(2) pick_def)
  moreover have "List.map_filter id ?chosen = List.map_filter pick [0..<length polygons]"
    by (simp add: List.map_filter_def filter_map comp_def)
  moreover have "distinct (List.map_filter pick [0..<length polygons])"
    by (rule distinct_map_filter) (auto simp: pick_def intro: chosen_inj)
  moreover have "set (List.map_filter pick [0..<length polygons]) \<subseteq> {..<length labels}"
    by (auto simp: pick_def dest!: set_map_filterD intro!: prepare_label_text(1) [OF prep])
  ultimately show ?thesis by (intro exI [of _ ?chosen]) simp
qed

text \<open>C39. Control points that lie on an affine map are reproduced exactly. When a page is
  georeferenced, from its own control points or from the sheet corners, and these points lie on some
  affine map, then, with a least squares solver that returns a least solution of the two systems it
  is given, the error is zero and the transformation takes every control point to its coordinates.\<close>

theorem georeference_exact:
  assumes "georeference_map np p crs allow_fallback = Inr g"
    and "lstsq_ok np (gr_gcps g)" and "affine_points nx ny (gr_gcps g)"
  shows "gr_rmse g = 0 \<and> gr_control_points_count g = length (gr_gcps g) \<and> 3 \<le> length (gr_gcps g) \<and>
    map (\<lambda>c. transform_point g (gcp_pixel_x c, gcp_pixel_y c)) (gr_gcps g) =
      map (\<lambda>c. (gcp_geo_x c, gcp_geo_y c)) (gr_gcps g)"
proof -
  note f = georeference_map_fit [OF assms(1)]
  obtain mx my where m: "gr_transform_matrix g = (mx, my)" by (rule prod.exhaust)
  note e = exact_georeference [OF f(1) [unfolded m] assms(2,3)]
  then show ?thesis using f(2,3) by (auto simp: affine_points_def list_all_iff transform_point_def m)
qed

definition three_point_fit :: "(real \<times> real \<times> real) list \<Rightarrow> real list \<Rightarrow> real \<times> real \<times> real" where
  \<comment> \<open>the map through the first three points\<close>
  "three_point_fit A B =
     (case (A, B) of
        ((x1, y1, _) # (x2, y2, _) # (x3, y3, _) # _, b1 # b2 # b3 # _) \<Rightarrow>
          (let det = (x2 - x1) * (y3 - y1) - (x3 - x1) * (y2 - y1);
               a = ((b2 - b1) * (y3 - y1) - (b3 - b1) * (y2 - y1)) / det;
               b = ((x2 - x1) * (b3 - b1) - (x3 - x1) * (b2 - b1)) / det
           in (a, b, b1 - a * x1 - b * y1))
      | _ \<Rightarrow> (0, 0, 0))"

definition demo_numpy :: numpy where
  "demo_numpy = \<lparr>np_matrix_rank = (\<lambda>A. 3), np_lstsq = three_point_fit\<rparr>"

definition demo_map :: map_page where
  "demo_map =
     \<lparr>pp_page_id = Some ''page'', pp_id = None, pp_document_id = Some ''doc'', pp_doc_type = Some ''fmb_sketch'',
      pp_page_role = None, pp_image_bytes = None, pp_layout_regions = [], pp_regions = [], pp_page_strokes = [],
      pp_route = [], mp_gcp_control_points = [], mp_control_points_list = [], mp_crs = None, mp_origin_x = None,
      mp_origin_y = None, mp_pixel_scale = None, mp_raw_polygons = [], mp_parcels = [],
      mp_allow_default_parcels = None, mp_conflation_lineage_ref = None, mp_labels = [], mp_survey_labels = []\<rparr>"

definition demo_gcp :: "real \<Rightarrow> real \<Rightarrow> real \<Rightarrow> real \<Rightarrow> raw_gcp" where
  "demo_gcp x y gx gy =
     \<lparr>rgc_pixel_x = Some x, rgc_pixel_y = Some y, rgc_geo_x = Some gx, rgc_geo_y = Some gy\<rparr>"

definition surveyed_map :: map_page where
  "surveyed_map = demo_map\<lparr>mp_gcp_control_points :=
     [demo_gcp 0 0 10 20, demo_gcp 100 0 110 20, demo_gcp 0 50 10 70, demo_gcp 100 50 110 70]\<rparr>"

lemma surveyed_map_fit:
  "georeference_map demo_numpy surveyed_map DEFAULT_CRS True =
     Inr \<lparr>gr_page_id = ''page'', gr_transform_matrix = ((1, 0, 10), (0, 1, 20)), gr_transform_type = ''affine'',
          gr_rmse = 0, gr_crs = DEFAULT_CRS, gr_control_points_count = 4,
          gr_gcps = map gcp_of (mp_gcp_control_points surveyed_map)\<rparr>"
  by (simp add: georeference_map_def surveyed_map_def demo_map_def demo_gcp_def fit_affine_transform_def demo_numpy_def
      three_point_fit_def design_row_def gcp_of_def or_default_def squared_error_def affine_at_def round_digits_def
      payload_page_id_def or_str_def or_else_def Let_def)

theorem georeference_exact_witness:
  "map (\<lambda>c. transform_point (projr (georeference_map demo_numpy surveyed_map DEFAULT_CRS True))
       (gcp_pixel_x c, gcp_pixel_y c)) (map gcp_of (mp_gcp_control_points surveyed_map)) =
     [(10, 20), (110, 20), (10, 70), (110, 70)]"
proof -
  let ?gs = "map gcp_of (mp_gcp_control_points surveyed_map)"
  let ?g = "\<lparr>gr_page_id = ''page'', gr_transform_matrix = ((1, 0, 10), (0, 1, 20)), gr_transform_type = ''affine'',
          gr_rmse = 0, gr_crs = DEFAULT_CRS, gr_control_points_count = 4, gr_gcps = ?gs\<rparr>"
  have a: "affine_points (1, 0, 10) (0, 1, 20) (gr_gcps ?g)"
    by (simp add: affine_points_def surveyed_map_def demo_gcp_def gcp_of_def or_default_def affine_at_def)
  have "lstsq_ok demo_numpy (gr_gcps ?g)"
    unfolding lstsq_ok_def Let_def
    by (intro conjI residual_zero_least)
       (simp_all add: residual_def design_row_def surveyed_map_def demo_gcp_def gcp_of_def or_default_def demo_numpy_def
        three_point_fit_def Let_def)
  from georeference_exact [OF surveyed_map_fit this a]
  show ?thesis by (simp add: surveyed_map_fit) (simp add: surveyed_map_def demo_gcp_def gcp_of_def or_default_def)
qed

text \<open>Areas follow the georeference. The shoelace area of a closed ring taken through the
  transformation is the area of the ring times the absolute determinant of the transformation,
  whatever the ring, its orientation and the offset of the map.\<close>

lemma area_scales:
  assumes "ring \<noteq> []" and "hd ring = List.last ring"
  shows "shoelace_area (map (transform_point g) ring) = \<bar>matrix_det g\<bar> * shoelace_area ring"
proof -
  obtain a b c d e f where m: "gr_transform_matrix g = ((a, b, c), (d, e, f))" by (metis prod.collapse)
  show ?thesis using shoelace_sum_transform [OF m assms(1)] assms(2)
    by (simp add: shoelace_area_def matrix_det_def m abs_mult)
qed

definition demo_ring :: "point list" where
  "demo_ring = [(100, 100), (300, 100), (300, 300), (100, 300), (100, 100)]"

definition demo_georef :: georef_result where
  "demo_georef = \<lparr>gr_page_id = ''page'', gr_transform_matrix = ((2, 0, 10), (0, - 3, 20)), gr_transform_type = ''affine'',
     gr_rmse = 0, gr_crs = DEFAULT_CRS, gr_control_points_count = 4, gr_gcps = []\<rparr>"

lemma area_scales_example:
  "shoelace_area (map (transform_point demo_georef) demo_ring) = 6 * 40000"
proof -
  have "demo_ring \<noteq> []" "hd demo_ring = List.last demo_ring" by (simp_all add: demo_ring_def)
  from area_scales [OF this, of demo_georef] show ?thesis
    by (simp add: matrix_det_def demo_georef_def) (simp add: shoelace_area_def demo_ring_def)
qed

text \<open>C40. The distance of a label from a parcel is the distance from the nearest point of its ring:
  there is a point of the ring at that distance and none closer.\<close>

theorem nearest_on_ring:
  "point_to_polygon_distance p coords = Some d \<Longrightarrow>
     (\<exists>x. on_ring coords x \<and> d = sqrt (dist_sq p x)) \<and> (\<forall>x. on_ring coords x \<longrightarrow> d \<le> sqrt (dist_sq p x))"
proof -
  assume "point_to_polygon_distance p coords = Some d"
  then obtain s where s: "min_dist_sq p coords None = Some s" "d = sqrt s"
    by (auto simp: point_to_polygon_distance_def)
  note m = min_dist_sq_props [OF s(1)]
  obtain a b where ab: "(a, b) \<in> set (zip coords (tl coords))" "s = segment_dist_sq p a b" using m by auto
  obtain x where "on_segment a b x" "s = dist_sq p x" using segment_dist_sq_attained [of a b p] ab(2) by auto
  with ab(1) have "\<exists>x. on_ring coords x \<and> d = sqrt (dist_sq p x)" unfolding on_ring_iff s(2) by blast
  moreover have "d \<le> sqrt (dist_sq p x)" if "on_ring coords x" for x
  proof -
    from that obtain a b where "(a, b) \<in> set (zip coords (tl coords))" "on_segment a b x" unfolding on_ring_iff by blast
    then have "s \<le> dist_sq p x" using m segment_dist_sq_least [of a b x p] by fastforce
    then show ?thesis by (simp add: s(2))
  qed
  ultimately show ?thesis by blast
qed

theorem nearest_on_ring_witness:
  "point_to_polygon_distance (200, 50) demo_ring = Some 50 \<and> \<not> on_ring demo_ring (200, 60)"
proof -
  have d: "point_to_polygon_distance (200, 50) demo_ring = Some 50"
    by (simp add: point_to_polygon_distance_def demo_ring_def segment_dist_sq_def Let_def)
  have "sqrt (dist_sq (200, 50) (200, 60)) = 10" by (simp add: dist_sq_def)
  with nearest_on_ring [OF d] d show ?thesis by fastforce
qed


section \<open>Where there is nothing to survey\<close>

text \<open>
  The header of \<open>georeference.py\<close> says not to fabricate coordinates and that of \<open>vectorize.py\<close> not to
  invent boundaries. The page pipeline leaves both fallbacks on: a page with fewer than three control
  points is placed by four made-up sheet corners, whose error is zero, so every parcel of it passes the
  accuracy gate for a parcel number; and a page without a polygon yields two sample parcels.
\<close>

lemma corners_affine:
  "affine_points (or_default 1 (mp_pixel_scale p), 0, or_default 500000 (mp_origin_x p))
     (0, - or_default 1 (mp_pixel_scale p), or_default 3000000 (mp_origin_y p) + 1000 * or_default 1 (mp_pixel_scale p))
     (corner_gcps p)"
  by (simp add: affine_points_def corner_gcps_def Let_def affine_at_def)

lemma parcel_geometries_eligible:
  "gr_rmse g \<le> ULPIN_RMSE_THRESHOLD \<Longrightarrow> list_all pg_ulpin_eligible (fst (parcel_geometries E shp p g items w))"
  by (induction items arbitrary: w) (auto simp: Let_def split_beta)

lemma no_control_points_eligible:
  assumes "length (if mp_gcp_control_points p \<noteq> [] then mp_gcp_control_points p else mp_control_points_list p) < 3"
    and "lstsq_ok np (corner_gcps p)" and "process_map_page E np shp p w = (Inr gs, w')"
  shows "list_all pg_ulpin_eligible gs"
proof -
  obtain g where g: "georeference_map np p DEFAULT_CRS True = Inr g"
    using assms(3) unfolding process_map_page_def by (cases "georeference_map np p DEFAULT_CRS True") (auto simp: Let_def)
  have c: "gr_gcps g = corner_gcps p"
    using g assms(1) unfolding georeference_map_def Let_def
    by (cases "fit_affine_transform np (corner_gcps p)") (auto split: if_splits)
  obtain mx my where m: "gr_transform_matrix g = (mx, my)" by (rule prod.exhaust)
  have "gr_rmse g = 0"
    using exact_georeference(1) [OF georeference_map_fit(1) [OF g, unfolded m] _ corners_affine [of p, folded c]]
      assms(2) by (simp add: c)
  then have "gr_rmse g \<le> ULPIN_RMSE_THRESHOLD" by (simp add: ULPIN_RMSE_THRESHOLD_def)
  note e = parcel_geometries_eligible [OF this]
  have "gs = [] \<or> (\<exists>items. gs = fst (parcel_geometries E shp p g items w))"
    using assms(3) g by (auto simp: process_map_page_def Let_def split_beta split: if_splits)
  with e show ?thesis by auto
qed

lemma demo_map_fit:
  "georeference_map demo_numpy demo_map DEFAULT_CRS True =
     Inr \<lparr>gr_page_id = ''page'', gr_transform_matrix = ((1, 0, 500000), (0, - 1, 3001000)),
          gr_transform_type = ''affine'', gr_rmse = 0, gr_crs = DEFAULT_CRS, gr_control_points_count = 4,
          gr_gcps = corner_gcps demo_map\<rparr>"
  by (simp add: georeference_map_def demo_map_def fit_affine_transform_def demo_numpy_def corner_gcps_def
      three_point_fit_def design_row_def or_default_def squared_error_def affine_at_def round_digits_def
      payload_page_id_def or_str_def or_else_def Let_def)

definition demo_square :: "real \<Rightarrow> point list" where
  "demo_square x = [(x, 3000900), (x + 200, 3000900), (x + 200, 3000700), (x, 3000700), (x, 3000900)]"

lemma demo_boundaries:
  "map (\<lambda>i. (pi_is_valid i, pi_polygon i))
     (vectorize_parcels None demo_map (projr (georeference_map demo_numpy demo_map DEFAULT_CRS True))) =
   [(True, Some (demo_square 500100)), (True, Some (demo_square 500300))]"
  unfolding demo_map_fit by code_simp

lemma demo_square_area:
  "compute_area None (demo_square 500100) DEFAULT_CRS = ''40000.00''"
  "compute_area None (demo_square 500300) DEFAULT_CRS = ''40000.00''"
proof -
  have crs: "is_geographic_crs DEFAULT_CRS = False" by code_simp
  have "fst (validate_polygon_geometry None (demo_square 500100)) \<and> fst (validate_polygon_geometry None (demo_square 500300)) \<and>
      shoelace_area (demo_square 500100) = 40000 \<and> shoelace_area (demo_square 500300) = 40000"
    by code_simp
  moreover have "quantize_cents 40000 = ''40000.00''"
    by (simp add: quantize_cents_def digits_of.simps pad_left_def char_of_def bit_0 Let_def)
  moreover have "length (demo_square x) = 5" "hd (demo_square x) = List.last (demo_square x)" for x
    by (simp_all add: demo_square_def)
  ultimately show "compute_area None (demo_square 500100) DEFAULT_CRS = ''40000.00''"
    "compute_area None (demo_square 500300) DEFAULT_CRS = ''40000.00''"
    by (simp_all add: compute_area_def crs)
qed

lemma bind_no_labels:
  "bind_survey_labels shp items [] g d = map (\<lambda>i. bound_item i None Unbound (pi_conflation_lineage_ref i)) items"
proof -
  have "concat (map (parcel_matches shp d []) xs) = []" for xs
    by (auto simp: parcel_matches_def List.map_filter_simps split: option.splits)
  then show ?thesis
    by (simp add: bind_survey_labels_def resolve_binding_def List.map_filter_simps Let_def split_def comp_def)
       (metis (no_types, lifting) map_snd_enumerate map_map comp_apply map_cong)
qed

lemma invented_parcels:
  "\<exists>gs w'. process_map_page demo_env demo_numpy None demo_map empty_db = (Inr gs, w') \<and>
     map (\<lambda>g. (pg_polygon g, pg_area_computed g, pg_control_points g, pg_ulpin_eligible g)) gs =
       [(demo_square 500100, ''40000.00'', 4, True), (demo_square 500300, ''40000.00'', 4, True)]"
proof -
  obtain i j where v: "vectorize_parcels None demo_map (projr (georeference_map demo_numpy demo_map DEFAULT_CRS True)) = [i, j]"
    and ij: "pi_is_valid i" "pi_polygon i = Some (demo_square 500100)" "pi_is_valid j" "pi_polygon j = Some (demo_square 500300)"
    using demo_boundaries by auto
  have labels: "mp_labels demo_map = []" "mp_survey_labels demo_map = []" by (simp_all add: demo_map_def)
  show ?thesis
    unfolding process_map_page_def labels using v ij
    by (simp add: demo_map_fit bind_no_labels bound_item_def parcel_item.defs demo_square_area
        ULPIN_RMSE_THRESHOLD_def Let_def split_beta)
qed

lemma rectangle_contains:
  assumes "x1 < x2" and "y1 < y2"
  shows "point_in_polygon_ring (x, y) [(x1, y1), (x2, y1), (x2, y2), (x1, y2), (x1, y1)] \<longleftrightarrow>
    x1 < x \<and> x \<le> x2 \<and> y1 < y \<and> y \<le> y2"
  using assms by (auto simp: point_in_polygon_ring_def Let_def)

end
