(* ===== verification/Map_Lane.thy ===== *)
theory Map_Lane
  imports Vectorize
begin

text \<open>
  The map lane worker (\<open>extraction/workers/map_lane.py\<close>), its publisher
  (\<open>publishers/assembly_publisher.py\<close>) and the consumer that sends a triaged page to the two lanes
  (\<open>workers/triage_consumer.py\<close>).
\<close>

section \<open>The map lane\<close>

record map_lane_success =
  ml_parcel_geometries_count :: nat
  ml_map_lane_envelope :: "parcel_geometry list emitted"

record page_message =
  pm_trace_id :: "string option"
  pm_work_envelope :: "work_envelope option"
  pm_payload :: map_page

definition publish_map_lane_result ::
  "env \<Rightarrow> parcel_geometry list \<Rightarrow> work_envelope option \<Rightarrow> string \<Rightarrow> 'a world_scheme
    \<Rightarrow> parcel_geometry list emitted \<times> 'a world_scheme"
where
  "publish_map_lane_result E geometries work_env trace_id w =
     emit E ''MAP_QUEUE'' ''map-lane'' geometries work_env trace_id w"

definition map_lane_handle ::
  "env \<Rightarrow> numpy \<Rightarrow> shapely option \<Rightarrow> page_message \<Rightarrow> 'a world_scheme
    \<Rightarrow> (exn + map_lane_success) \<times> 'a world_scheme"
where
  \<comment> \<open>\<open>Inl\<close> is the dictionary with status \<open>error\<close>\<close>
  "map_lane_handle E np shp message w =
     (let p = pm_payload message;
          trace_id = or_else (pm_trace_id message)
            ((case pp_document_id p of Some d \<Rightarrow> d | None \<Rightarrow> ''map_doc'') @ '':'' @
             (case pp_page_id p of Some i \<Rightarrow> i | None \<Rightarrow> ''map_page''))
      in case process_map_page E np shp p w of
           (Inl err, w) \<Rightarrow> (Inl err, w)
         | (Inr gs, w) \<Rightarrow>
             (let (envelope, w) = publish_map_lane_result E gs (pm_work_envelope message) trace_id w
              in (Inr \<lparr>ml_parcel_geometries_count = length gs, ml_map_lane_envelope = envelope\<rparr>, w)))"

section \<open>The consumer of triaged pages\<close>

definition should_route_text :: "map_page \<Rightarrow> bool" where
  "should_route_text p \<longleftrightarrow>
     ''text'' \<in> set (pp_route p) \<or>
     pp_page_role p \<in> {Some ''text'', Some ''tabular_register'', Some ''endorsement''} \<or>
     (pp_route p = [] \<and> pp_page_role p \<noteq> Some ''map_sheet'' \<and>
      pp_doc_type p \<notin> {Some ''cadastral_map'', Some ''fmb_sketch''})"

definition should_route_map :: "map_page \<Rightarrow> bool" where
  "should_route_map p \<longleftrightarrow>
     ''map'' \<in> set (pp_route p) \<or> pp_page_role p = Some ''map_sheet'' \<or>
     pp_doc_type p \<in> {Some ''cadastral_map'', Some ''fmb_sketch''} \<or>
     ''non_text_map'' \<in> set (pp_route p) \<or> ''map_lane'' \<in> set (pp_route p)"

record lane_results =
  lr_text_lane :: "(exn + text_lane_success) option"
  lr_map_lane :: "(exn + map_lane_success) option"

definition triage_consume ::
  "env \<Rightarrow> ocr_engine \<Rightarrow> numpy \<Rightarrow> shapely option \<Rightarrow> page_message \<Rightarrow> 'a world_scheme \<Rightarrow> lane_results \<times> 'a world_scheme"
where
  "triage_consume E adapter np shp message w =
     (let p = pm_payload message;
          (text_result, w) =
            (if should_route_text p
             then (let (r, w) = text_lane_handle E adapter
                         \<lparr>tm_trace_id = pm_trace_id message, tm_work_envelope = pm_work_envelope message,
                          tm_payload = page_payload.truncate p\<rparr> w
                   in (Some r, w))
             else (None, w));
          (map_result, w) =
            (if should_route_map p then (let (r, w) = map_lane_handle E np shp message w in (Some r, w)) else (None, w))
      in (\<lparr>lr_text_lane = text_result, lr_map_lane = map_result\<rparr>, w))"

section \<open>Lemmas\<close>

lemma triage_consume_lanes:
  "lr_text_lane (fst (triage_consume E adapter np shp msg w)) = None \<longleftrightarrow> \<not> should_route_text (pm_payload msg)"
  "lr_map_lane (fst (triage_consume E adapter np shp msg w)) = None \<longleftrightarrow> \<not> should_route_map (pm_payload msg)"
  by (auto simp: triage_consume_def Let_def split: prod.splits)

lemma map_lane_handle_published:
  "map_lane_handle E np shp msg w = (Inr r, w') \<Longrightarrow>
     em_queue (ml_map_lane_envelope r) = ''MAP_QUEUE'' \<and>
     em_work_envelope (ml_map_lane_envelope r) = pm_work_envelope msg \<and>
     (\<exists>v. process_map_page E np shp (pm_payload msg) w = (Inr (em_payload (ml_map_lane_envelope r)), v)) \<and>
     ml_parcel_geometries_count r = length (em_payload (ml_map_lane_envelope r))"
  by (auto simp: map_lane_handle_def publish_map_lane_result_def Let_def split: sum.splits prod.splits)
     (metis emit_fields(1,2,3) fst_conv)+

section \<open>Properties\<close>

text \<open>Triage and the consumer agree on the lanes. A page that triage queues for some lane, whose message
  names no route, is given by the consumer to exactly the lanes triage chose: the text lane runs when
  it was queued for text, the map lane when it was queued for maps.\<close>

lemma lanes_agree:
  assumes "lane_for (pp_doc_type (pm_payload msg)) (pp_page_role (pm_payload msg)) \<noteq> []"
    and "pp_route (pm_payload msg) = []"
  shows "(lr_text_lane (fst (triage_consume E adapter np shp msg w)) \<noteq> None \<longleftrightarrow>
      ''TEXT_QUEUE'' \<in> set (lane_for (pp_doc_type (pm_payload msg)) (pp_page_role (pm_payload msg)))) \<and>
    (lr_map_lane (fst (triage_consume E adapter np shp msg w)) \<noteq> None \<longleftrightarrow>
      ''MAP_QUEUE'' \<in> set (lane_for (pp_doc_type (pm_payload msg)) (pp_page_role (pm_payload msg))))"
  using assms unfolding triage_consume_lanes
  by (auto simp: should_route_text_def should_route_map_def lane_for_def split: if_splits)

definition demo_page_message :: page_message where
  "demo_page_message = \<lparr>pm_trace_id = None, pm_work_envelope = None, pm_payload = demo_map\<rparr>"

lemma lanes_agree_example:
  "lr_text_lane (fst (triage_consume demo_env (\<lambda>i p c. Inl (OCRProcessingError ''down'')) demo_numpy None
       demo_page_message empty_db)) = None \<and>
   lr_map_lane (fst (triage_consume demo_env (\<lambda>i p c. Inl (OCRProcessingError ''down'')) demo_numpy None
       demo_page_message empty_db)) \<noteq> None"
proof -
  have "lane_for (pp_doc_type (pm_payload demo_page_message)) (pp_page_role (pm_payload demo_page_message)) = [''MAP_QUEUE'']"
    "pp_route (pm_payload demo_page_message) = []"
    by (simp_all add: demo_page_message_def demo_map_def lane_for_def)
  with lanes_agree [of demo_page_message] show ?thesis by simp
qed

text \<open>
  The two do not agree on the other pages: one triage queues nowhere, because it is blank or has no known
  role, is read as text when it reaches the consumer; and a message whose route names no known lane is
  dropped when its role and type say nothing.
\<close>

lemma unqueued_read_as_text:
  "lane_for None None = []" "pp_route p = [] \<Longrightarrow> pp_page_role p = None \<Longrightarrow> pp_doc_type p = None \<Longrightarrow> should_route_text p"
  "lane_for None (Some ''blank'') = []"
  "pp_route p = [] \<Longrightarrow> pp_page_role p = Some ''blank'' \<Longrightarrow> pp_doc_type p = None \<Longrightarrow> should_route_text p"
  by (simp_all add: lane_for_def should_route_text_def)

lemma unknown_route_dropped:
  "pp_route p = [''printed''] \<Longrightarrow> pp_page_role p = None \<Longrightarrow> pp_doc_type p = None \<Longrightarrow>
     \<not> should_route_text p \<and> \<not> should_route_map p"
  by (simp add: should_route_text_def should_route_map_def)

text \<open>
  The message triage queues for a page holds no image. The text lane then reads the bytes of a placeholder,
  and without a configured endpoint its adapter answers with the sample line: that line becomes the
  extraction of the page.
\<close>

lemma triaged_page_read_as_sample:
  assumes "pp_image_bytes (tm_payload msg) = None" and "pp_layout_regions (tm_payload msg) = []"
    and "pp_regions (tm_payload msg) = []" and "pp_page_role (tm_payload msg) = Some ''text''"
    and "pp_doc_type (tm_payload msg) = None"
    and "\<not> truthy (bd_endpoint_url a)" and "bd_allow_test_fallback a"
  shows "\<exists>r w' items. text_lane_handle E (baidu_process_image a) msg w = (Inr r, w') \<and>
    em_payload (tl_text_lane_envelope r) = Text_Items items \<and> map ei_raw_value items = [''Sample Land Record'']"
proof -
  let ?p = "with_image (tm_payload msg)"
  obtain items v where i: "process_page_text E (baidu_process_image a) ?p (tm_work_envelope msg)
      (Some (baidu_process_image a)) w = (items, v)" by fastforce
  have p: "pp_image_bytes ?p = Some ''fake_image_bytes''" "pp_layout_regions ?p = []" "pp_regions ?p = []"
    "pp_page_role ?p = Some ''text''" "pp_doc_type ?p = None"
    using assms by (simp_all add: with_image_def)
  have "\<exists>cv. page_results E (baidu_process_image a) ?p (tm_work_envelope msg) w =
      Inr [fallback_mock_extract a (payload_page_id ?p) cv]"
    using assms(6,7) by (auto simp: page_results_def p dispatch_and_extract_def route_layout_def one_region_plan_def
        run_region_def engine_or_def baidu_process_image_def or_else_def Let_def)
  moreover have "strip ''Sample Land Record'' \<noteq> []" by code_simp
  ultimately have "map ei_raw_value items = [''Sample Land Record'']"
    using process_page_text_items(1) [OF i] by (auto simp: fallback_mock_extract_def readable_def)
  moreover obtain rels te ae z where "text_lane_handle E (baidu_process_image a) msg w =
      (Inr \<lparr>tl_extractions_count = length items, tl_relationships = rels,
        tl_text_lane_envelope = te, tl_assembly_envelope = ae\<rparr>, z)" (is "_ = (Inr ?r, z)")
    and "em_payload te = Text_Items (map (settle_status (pp_page_strokes ?p)) items)"
    using text_lane_handle_result [OF i] by blast
  ultimately show ?thesis
    by (intro exI [of _ ?r] exI [of _ z] exI [of _ "map (settle_status (pp_page_strokes ?p)) items"]) (simp add: comp_def)
qed

end
