(* ===== verification/Baidu_Ocr.thy ===== *)
theory Baidu_Ocr
  imports Text_Lane
begin

text \<open>
  The adapter of the printed-text engine (\<open>extraction/domain/ocr/baidu_unlimited.py\<close>): its configuration,
  the call of the endpoint and the reading of its answer. The HTTP request is a parameter: it fails with
  the text of an error, returns a body that is not JSON, or returns a JSON value.
\<close>

section \<open>JSON values\<close>

datatype json =
    JNull
  | JBool bool
  | JNum real
  | JStr string
  | JList "json list"
  | JDict "(string \<times> json) list"

fun jtruthy :: "json \<Rightarrow> bool" where
  "jtruthy JNull = False"
| "jtruthy (JBool b) = b"
| "jtruthy (JNum x) = (x \<noteq> 0)"
| "jtruthy (JStr s) = (s \<noteq> [])"
| "jtruthy (JList xs) = (xs \<noteq> [])"
| "jtruthy (JDict d) = (d \<noteq> [])"

definition jget :: "string \<Rightarrow> (string \<times> json) list \<Rightarrow> json" where
  \<comment> \<open>\<open>d.get(key)\<close>\<close>
  "jget key d = (case map_of d key of Some v \<Rightarrow> v | None \<Rightarrow> JNull)"

definition jor :: "json \<Rightarrow> json \<Rightarrow> json" where
  "jor x y = (if jtruthy x then x else y)"

definition first_of :: "string \<Rightarrow> string \<Rightarrow> string \<Rightarrow> (string \<times> json) list \<Rightarrow> json" where
  \<comment> \<open>\<open>d.get(a) or d.get(b) or d.get(c)\<close>\<close>
  "first_of a b c d = jor (jor (jget a d) (jget b d)) (jget c d)"

section \<open>Numbers\<close>

definition number_of :: "string \<Rightarrow> real" where
  "number_of ds = foldl (\<lambda>acc c. 10 * acc + real (of_char c - 48)) 0 ds"

definition split_digits :: "string \<Rightarrow> string \<times> string" where
  "split_digits s = (takeWhile ascii_digit s, dropWhile ascii_digit s)"

definition exponent_of :: "string \<Rightarrow> real option" where
  "exponent_of s =
     (case s of
        [] \<Rightarrow> Some 1
      | e # rest \<Rightarrow>
          if e \<noteq> CHR ''e'' \<and> e \<noteq> CHR ''E'' then None
          else
            (let neg = (rest \<noteq> [] \<and> hd rest = CHR ''-'');
                 ds = (if rest \<noteq> [] \<and> (hd rest = CHR ''-'' \<or> hd rest = CHR ''+'') then tl rest else rest)
             in if ds = [] \<or> \<not> list_all ascii_digit ds then None
                else Some (if neg then 1 / 10 ^ digits_value ds else 10 ^ digits_value ds)))"

definition unsigned_float :: "string \<Rightarrow> real option" where
  "unsigned_float s =
     (let (whole, rest) = split_digits s;
          (fraction, rest) = (if rest \<noteq> [] \<and> hd rest = CHR ''.'' then split_digits (tl rest) else ([], rest))
      in if whole = [] \<and> fraction = [] then None
         else map_option (\<lambda>e. (number_of whole + number_of fraction / 10 ^ length fraction) * e) (exponent_of rest))"

definition float_of_string :: "string \<Rightarrow> real option" where
  \<comment> \<open>\<open>float(s)\<close> of a decimal literal; \<open>None\<close> is \<open>ValueError\<close>\<close>
  "float_of_string s =
     (case strip s of
        [] \<Rightarrow> None
      | c # cs \<Rightarrow>
          if c = CHR ''-'' then map_option uminus (unsigned_float cs)
          else if c = CHR ''+'' then unsigned_float cs else unsigned_float (c # cs))"

fun float_of_json :: "json \<Rightarrow> exn + real" where
  "float_of_json (JNum x) = Inr x"
| "float_of_json (JBool b) = Inr (if b then 1 else 0)"
| "float_of_json (JStr s) =
     (case float_of_string s of Some x \<Rightarrow> Inr x | None \<Rightarrow> Inl (ValueError ''could not convert string to float''))"
| "float_of_json _ = Inl (TypeError ''float() argument must be a string or a real number'')"

section \<open>Secrets\<close>

function replace_all :: "string \<Rightarrow> string \<Rightarrow> string \<Rightarrow> string" where
  \<comment> \<open>\<open>s.replace(key, new)\<close> for a non-empty key\<close>
  "replace_all key new s =
     (if key = [] \<or> s = [] then s
      else if take (length key) s = key then new @ replace_all key new (drop (length key) s)
      else hd s # replace_all key new (tl s))"
  by pat_completeness auto
termination replace_all
  by (relation "measure (\<lambda>(key, new, s). length s)") auto

declare replace_all.simps [simp del]

definition secret_name_at :: "string \<Rightarrow> string option" where
  \<comment> \<open>a name, in any case, followed by \<open>=\<close> and a character of a value\<close>
  "secret_name_at s =
     (case filter (\<lambda>n. lower (take (length n) s) = n \<and>
             (case drop (length n) s of c # v # _ \<Rightarrow> c = CHR ''='' \<and> v \<noteq> CHR ''&'' \<and> v \<noteq> CHR '' '' | _ \<Rightarrow> False))
           [''access_token'', ''api_key'', ''secret_key''] of
        [] \<Rightarrow> None
      | n # _ \<Rightarrow> Some (take (length n) s))"

function redact_values :: "string \<Rightarrow> string" where
  "redact_values s =
     (if s = [] then []
      else case secret_name_at s of
             Some n \<Rightarrow>
               n @ ''=[REDACTED]'' @
               redact_values (dropWhile (\<lambda>c. c \<noteq> CHR ''&'' \<and> c \<noteq> CHR '' '') (drop (Suc (length n)) s))
           | None \<Rightarrow> hd s # redact_values (tl s))"
  by pat_completeness auto
termination redact_values
proof (relation "measure length")
  fix s :: string and n
  assume "s \<noteq> []"
  have "length (dropWhile (\<lambda>c. c \<noteq> CHR ''&'' \<and> c \<noteq> CHR '' '') (drop (Suc (length n)) s)) \<le> length (drop (Suc (length n)) s)"
    by (rule length_dropWhile_le)
  also have "\<dots> < length s" using \<open>s \<noteq> []\<close> by simp
  finally show "(dropWhile (\<lambda>c. c \<noteq> CHR ''&'' \<and> c \<noteq> CHR '' '') (drop (Suc (length n)) s), s) \<in> measure length" by simp
qed auto

declare redact_values.simps [simp del]

record baidu_config =
  bc_endpoint_url :: "string option"
  bc_api_key :: "string option"
  bc_secret_key :: "string option"
  bc_model_version :: string
  bc_allow_test_fallback :: bool

definition new_baidu_config ::
  "environ \<Rightarrow> string option \<Rightarrow> string option \<Rightarrow> string option \<Rightarrow> string \<Rightarrow> bool \<Rightarrow> baidu_config"
where
  "new_baidu_config os_environ endpoint_url api_key secret_key model_version allow_test_fallback =
     \<lparr>bc_endpoint_url = or_str endpoint_url (os_environ ''BAIDU_OCR_ENDPOINT''),
      bc_api_key = or_str api_key (os_environ ''BAIDU_OCR_API_KEY''),
      bc_secret_key = or_str secret_key (os_environ ''BAIDU_OCR_SECRET_KEY''),
      bc_model_version = model_version, bc_allow_test_fallback = allow_test_fallback\<rparr>"

definition sanitize_secrets :: "baidu_config \<Rightarrow> string \<Rightarrow> string" where
  "sanitize_secrets a s =
     (let s = (if truthy (bc_api_key a) then replace_all (or_empty (bc_api_key a)) ''[REDACTED_API_KEY]'' s else s);
          s = (if truthy (bc_secret_key a) then replace_all (or_empty (bc_secret_key a)) ''[REDACTED_SECRET_KEY]'' s else s)
      in redact_values s)"

section \<open>The answer\<close>

definition location_number :: "string \<Rightarrow> string \<Rightarrow> (string \<times> json) list \<Rightarrow> exn + real" where
  \<comment> \<open>\<open>float(loc.get(a, loc.get(b, 0.0)))\<close>\<close>
  "location_number a b loc =
     float_of_json (case map_of loc a of Some v \<Rightarrow> v
                    | None \<Rightarrow> (case map_of loc b of Some v \<Rightarrow> v | None \<Rightarrow> JNum 0))"

fun all_numbers :: "(exn + real) list \<Rightarrow> exn + real list" where
  "all_numbers [] = Inr []"
| "all_numbers (Inl err # xs) = Inl err"
| "all_numbers (Inr x # xs) = map_sum id ((#) x) (all_numbers xs)"

definition box_of :: "(exn + real) list \<Rightarrow> exn + real_bbox option" where
  "box_of numbers =
     (case all_numbers numbers of
        Inl err \<Rightarrow> Inl (OCRResponseParseError ''Invalid numeric location values'')
      | Inr [x, y, w, h] \<Rightarrow> Inr (Some \<lparr>bx_x = x, bx_y = y, bx_w = w, bx_h = h\<rparr>)
      | Inr _ \<Rightarrow> Inr None)"

definition parse_location :: "(string \<times> json) list \<Rightarrow> exn + real_bbox option" where
  "parse_location item =
     (let loc = first_of ''location'' ''bbox'' ''box'' item
      in if \<not> jtruthy loc then Inr None
         else case loc of
                JDict d \<Rightarrow> box_of [location_number ''left'' ''x'' d, location_number ''top'' ''y'' d,
                                   location_number ''width'' ''w'' d, location_number ''height'' ''h'' d]
              | JList xs \<Rightarrow> if length xs \<ge> 4 then box_of (map float_of_json (take 4 xs)) else Inr None
              | _ \<Rightarrow> Inr None)"

definition item_confidence :: "(string \<times> json) list \<Rightarrow> exn + real" where
  "item_confidence item =
     (case first_of ''probability'' ''confidence'' ''score'' item of
        JDict d \<Rightarrow> float_of_json (case map_of d ''average'' of Some v \<Rightarrow> v | None \<Rightarrow> JNum 0.95)
      | JNum x \<Rightarrow> Inr x
      | JBool b \<Rightarrow> Inr (if b then 1 else 0)
      | _ \<Rightarrow> Inr 0.95)"

definition parse_token :: "json \<Rightarrow> exn + ocr_token" where
  "parse_token v =
     (case v of
        JDict item \<Rightarrow>
          (case first_of ''words'' ''text'' ''label'' item of
             JStr s \<Rightarrow>
               (case item_confidence item of
                  Inl err \<Rightarrow> Inl err
                | Inr confidence \<Rightarrow>
                    (case parse_location item of
                       Inl err \<Rightarrow> Inl err
                     | Inr box \<Rightarrow>
                         Inr \<lparr>tk_text = s, tk_confidence = confidence, tk_bbox = box, tk_top_k = [(s, confidence)]\<rparr>))
           | _ \<Rightarrow> Inl (OCRResponseParseError ''Missing text string in token''))
      | _ \<Rightarrow> Inl (OCRResponseParseError ''Malformed token item''))"

fun parse_tokens :: "json list \<Rightarrow> exn + ocr_token list" where
  "parse_tokens [] = Inr []"
| "parse_tokens (v # vs) =
     (case parse_token v of Inl err \<Rightarrow> Inl err | Inr t \<Rightarrow> map_sum id ((#) t) (parse_tokens vs))"

definition error_code_set :: "(string \<times> json) list \<Rightarrow> bool" where
  \<comment> \<open>\<open>"error_code" in data and data["error_code"] != 0\<close>\<close>
  "error_code_set d =
     (case map_of d ''error_code'' of None \<Rightarrow> False | Some v \<Rightarrow> v \<noteq> JNum 0 \<and> v \<noteq> JBool False)"

definition error_message :: "baidu_config \<Rightarrow> (string \<times> json) list \<Rightarrow> string" where
  \<comment> \<open>of an \<open>error_msg\<close> that is text\<close>
  "error_message a d =
     sanitize_secrets a (case map_of d ''error_msg'' of Some (JStr s) \<Rightarrow> s | _ \<Rightarrow> ''Unknown error'')"

definition parse_baidu_response :: "baidu_config \<Rightarrow> json \<Rightarrow> string \<Rightarrow> string \<Rightarrow> exn + ocr_result" where
  "parse_baidu_response a data page_id config_version =
     (case data of
        JDict d \<Rightarrow>
          if error_code_set d then Inl (OCRProcessingError (''Baidu OCR API error: '' @ error_message a d))
          else
            (case first_of ''words_result'' ''tokens'' ''predictions'' d of
               JList raw_items \<Rightarrow>
                 (case parse_tokens raw_items of
                    Inl err \<Rightarrow> Inl err
                  | Inr tokens \<Rightarrow>
                      Inr \<lparr>or_page_id = page_id, or_tokens = tokens, or_full_text = join [CHR 0x0A] (map tk_text tokens),
                           or_engine_id = ''printed_ocr'', or_model_version = bc_model_version a,
                           or_config_version = config_version\<rparr>)
             | _ \<Rightarrow> Inl (OCRResponseParseError ''Response missing valid words_result, tokens, or predictions array''))
      | _ \<Rightarrow> Inl (OCRResponseParseError ''Response body must be a JSON object''))"

section \<open>The call\<close>

datatype http_answer = Call_Failed string | Not_Json string | Json_Body json

type_synonym http_post = "string \<Rightarrow> string option \<Rightarrow> string \<Rightarrow> string \<Rightarrow> http_answer"
  \<comment> \<open>the endpoint, the key sent, the image and the page; the image is sent in base64\<close>

definition call_baidu_api :: "http_post \<Rightarrow> baidu_config \<Rightarrow> ocr_engine" where
  "call_baidu_api post a image_bytes page_id config_version =
     (case post (or_empty (bc_endpoint_url a)) (if truthy (bc_api_key a) then bc_api_key a else None) image_bytes page_id of
        Call_Failed err \<Rightarrow> Inl (OCRProcessingError (''Baidu OCR call failed: '' @ sanitize_secrets a err))
      | Not_Json err \<Rightarrow>
          Inl (OCRResponseParseError (''Failed to parse JSON response from Baidu OCR: '' @ sanitize_secrets a err))
      | Json_Body data \<Rightarrow> parse_baidu_response a data page_id config_version)"

definition adapter_of :: "http_post \<Rightarrow> baidu_config \<Rightarrow> baidu_adapter" where
  \<comment> \<open>the adapter the text lane dispatches to\<close>
  "adapter_of post a =
     \<lparr>bd_endpoint_url = bc_endpoint_url a, bd_model_version = bc_model_version a,
      bd_allow_test_fallback = bc_allow_test_fallback a, bd_call_api = call_baidu_api post a\<rparr>"


section \<open>Lemmas\<close>

lemma parse_tokens_all2:
  "parse_tokens vs = Inr ts \<Longrightarrow> list_all2 (\<lambda>v t. parse_token v = Inr t) vs ts"
proof (induction vs arbitrary: ts)
  case (Cons v vs)
  then show ?case
    by (cases "parse_token v"; cases "parse_tokens vs") auto
qed simp

lemma parse_token_Inr:
  "parse_token v = Inr t \<longleftrightarrow>
     (\<exists>item. v = JDict item \<and> first_of ''words'' ''text'' ''label'' item = JStr (tk_text t) \<and>
        item_confidence item = Inr (tk_confidence t) \<and> parse_location item = Inr (tk_bbox t) \<and>
        tk_top_k t = [(tk_text t, tk_confidence t)])"
  by (cases v; cases t) (auto simp: parse_token_def split: json.splits sum.splits)

section \<open>Properties\<close>

definition the_number :: "json \<Rightarrow> real \<Rightarrow> bool" where
  \<comment> \<open>the number a JSON number or a literal in a string stands for\<close>
  "the_number v x \<longleftrightarrow> v = JNum x \<or> (\<exists>s. v = JStr s \<and> float_of_string s = Some x) \<or> (\<exists>b. v = JBool b \<and> x = of_bool b)"

definition side_is :: "(string \<times> json) list \<Rightarrow> string \<Rightarrow> string \<Rightarrow> real \<Rightarrow> bool" where
  \<comment> \<open>a side of the box under its long name, else under its short one, else zero\<close>
  "side_is d a b x \<longleftrightarrow>
     (case (map_of d a, map_of d b) of
        (Some v, _) \<Rightarrow> the_number v x | (None, Some v) \<Rightarrow> the_number v x | (None, None) \<Rightarrow> x = 0)"

definition says_box :: "json \<Rightarrow> real_bbox option \<Rightarrow> bool" where
  "says_box loc box \<longleftrightarrow>
     (case loc of
        JDict d \<Rightarrow>
          if d = [] then box = None
          else (\<exists>x y w h. side_is d ''left'' ''x'' x \<and> side_is d ''top'' ''y'' y \<and> side_is d ''width'' ''w'' w \<and>
                  side_is d ''height'' ''h'' h \<and> box = Some \<lparr>bx_x = x, bx_y = y, bx_w = w, bx_h = h\<rparr>)
      | JList (a # b # c # d # rest) \<Rightarrow>
          (\<exists>x y w h. the_number a x \<and> the_number b y \<and> the_number c w \<and> the_number d h \<and>
             box = Some \<lparr>bx_x = x, bx_y = y, bx_w = w, bx_h = h\<rparr>)
      | _ \<Rightarrow> box = None)"

definition says_confidence :: "json \<Rightarrow> real \<Rightarrow> bool" where
  "says_confidence p c \<longleftrightarrow>
     (case p of
        JNum x \<Rightarrow> c = x
      | JBool b \<Rightarrow> c = of_bool b
      | JDict d \<Rightarrow> (case map_of d ''average'' of Some v \<Rightarrow> the_number v c | None \<Rightarrow> c = 0.95)
      | _ \<Rightarrow> c = 0.95)"

definition chosen :: "string list \<Rightarrow> (string \<times> json) list \<Rightarrow> json" where
  \<comment> \<open>the first of the names whose value is true in Python, else the last one's\<close>
  "chosen names item =
     (case filter (\<lambda>v. jtruthy v) (map (\<lambda>n. jget n item) names) of v # _ \<Rightarrow> v | [] \<Rightarrow> jget (List.last names) item)"

definition says :: "json \<Rightarrow> ocr_token \<Rightarrow> bool" where
  \<comment> \<open>the token states what the item of the answer states\<close>
  "says v t \<longleftrightarrow> (\<exists>item. v = JDict item \<and>
     chosen [''words'', ''text'', ''label''] item = JStr (tk_text t) \<and>
     says_confidence (chosen [''probability'', ''confidence'', ''score''] item) (tk_confidence t) \<and>
     says_box (chosen [''location'', ''bbox'', ''box''] item) (tk_bbox t) \<and>
     tk_top_k t = [(tk_text t, tk_confidence t)])"

lemma first_of_chosen: "first_of a b c item = chosen [a, b, c] item"
  by (auto simp: first_of_def jor_def chosen_def)

lemma float_of_json_number: "float_of_json v = Inr x \<Longrightarrow> the_number v x"
  by (cases v) (auto simp: the_number_def split: option.splits)

lemma location_number_side: "location_number a b d = Inr x \<Longrightarrow> side_is d a b x"
  by (auto simp: location_number_def side_is_def dest: float_of_json_number split: option.splits)

lemma item_confidence_says:
  "item_confidence item = Inr c \<Longrightarrow> says_confidence (chosen [''probability'', ''confidence'', ''score''] item) c"
  unfolding item_confidence_def first_of_chosen
  by (auto simp: says_confidence_def dest: float_of_json_number split: json.splits option.splits)

lemma all_numbers_four:
  "all_numbers [a, b, c, d] = Inr ns \<Longrightarrow> \<exists>x y w h. a = Inr x \<and> b = Inr y \<and> c = Inr w \<and> d = Inr h \<and> ns = [x, y, w, h]"
  by (cases a; cases b; cases c; cases d) auto

lemma box_of_four:
  "box_of [a, b, c, d] = Inr box \<Longrightarrow>
     \<exists>x y w h. a = Inr x \<and> b = Inr y \<and> c = Inr w \<and> d = Inr h \<and> box = Some \<lparr>bx_x = x, bx_y = y, bx_w = w, bx_h = h\<rparr>"
  by (cases "all_numbers [a, b, c, d]") (auto simp: box_of_def dest!: all_numbers_four)

lemma parse_location_says:
  assumes "parse_location item = Inr box"
  shows "says_box (chosen [''location'', ''bbox'', ''box''] item) box"
proof (cases "chosen [''location'', ''bbox'', ''box''] item")
  case (JDict d)
  then show ?thesis
    using assms unfolding parse_location_def first_of_chosen
    by (auto simp: says_box_def Let_def dest!: box_of_four location_number_side split: if_splits)
next
  case (JList xs)
  show ?thesis
  proof (cases "length xs \<ge> 4")
    case True
    then obtain a b c d rest where "xs = a # b # c # d # rest"
      by (auto simp: numeral_eq_Suc Suc_le_length_iff)
    then show ?thesis
      using assms JList unfolding parse_location_def first_of_chosen
      by (auto simp: says_box_def Let_def dest!: box_of_four float_of_json_number)
  next
    case False
    then have "box = None"
      using assms JList unfolding parse_location_def first_of_chosen by (auto simp: Let_def split: if_splits)
    with False JList show ?thesis by (auto simp: says_box_def split: list.splits)
  qed
qed (use assms in \<open>auto simp: parse_location_def first_of_chosen says_box_def Let_def split: if_splits\<close>)

lemma parse_token_says: "parse_token v = Inr t \<Longrightarrow> says v t"
  unfolding parse_token_Inr says_def first_of_chosen
  using item_confidence_says parse_location_says by blast

text \<open>C12. What the engine answered is what is read. When the endpoint is configured and the adapter returns
  a result for an image, the endpoint answered with a JSON object without an error code, and the result
  has one token for each item of the first non-empty array of the answer, in order: its text; its
  probability, a number or the average of an object, 0.95 when it states none (a zero counts as none, except under \<open>score\<close>); and
  its box, of an object with left, top, width and height (or x, y, w and h) or of a list of four numbers,
  none when it states none. The result stands under the page, model and configuration version asked for,
  and the full text is the texts line by line.\<close>

theorem tokens_say_the_answer:
  assumes "truthy (bc_endpoint_url a)"
    and "baidu_process_image (adapter_of post a) img page_id config_version = Inr r"
  shows "\<exists>d items.
    post (or_empty (bc_endpoint_url a)) (if truthy (bc_api_key a) then bc_api_key a else None) img page_id =
      Json_Body (JDict d) \<and>
    \<not> error_code_set d \<and> first_of ''words_result'' ''tokens'' ''predictions'' d = JList items \<and>
    list_all2 says items (or_tokens r) \<and> or_page_id r = page_id \<and> or_model_version r = bc_model_version a \<and>
    or_config_version r = config_version \<and> or_full_text r = join [CHR 0x0A] (map tk_text (or_tokens r))"
proof -
  have "call_baidu_api post a img page_id config_version = Inr r"
    using assms by (simp add: baidu_process_image_def adapter_of_def split: if_splits)
  then obtain data where post: "post (or_empty (bc_endpoint_url a)) (if truthy (bc_api_key a) then bc_api_key a else None)
      img page_id = Json_Body data" and p: "parse_baidu_response a data page_id config_version = Inr r"
    unfolding call_baidu_api_def by (auto split: http_answer.splits)
  then obtain d items ts where d: "data = JDict d" "\<not> error_code_set d"
      "first_of ''words_result'' ''tokens'' ''predictions'' d = JList items"
    and ts: "parse_tokens items = Inr ts"
    and r: "r = \<lparr>or_page_id = page_id, or_tokens = ts, or_full_text = join [CHR 0x0A] (map tk_text ts),
        or_engine_id = ''printed_ocr'', or_model_version = bc_model_version a, or_config_version = config_version\<rparr>"
    unfolding parse_baidu_response_def by (auto split: json.splits if_splits sum.splits)
  have "list_all2 says items ts"
    using parse_tokens_all2 [OF ts] by (rule list_all2_mono) (rule parse_token_says)
  with post d r show ?thesis by (intro exI [of _ d] exI [of _ items]) simp
qed

text \<open>Pages are not mixed: with the adapter for the printed text, whatever the endpoint answers, all results
  of a page are under its own id and the configuration version of its envelope.\<close>

lemma baidu_own_result:
  "baidu_process_image (adapter_of post a) img page_id cv = Inr r \<Longrightarrow> own_result page_id cv r"
  by (auto simp: baidu_process_image_def adapter_of_def fallback_mock_extract_def call_baidu_api_def
      parse_baidu_response_def own_result_def
      split: if_splits http_answer.splits json.splits sum.splits)

interpretation baidu_port: ocr_port "baidu_process_image (adapter_of post a)" for post a
  by unfold_locales (rule baidu_own_result)

lemma pages_not_mixed:
  assumes "page_results E (baidu_process_image (adapter_of post a)) p work_env w = Inr rs"
  shows "list_all (\<lambda>r. or_page_id r = payload_page_id p) rs"
proof (cases "truthy (pp_image_bytes p)")
  case True
  let ?adapter = "baidu_process_image (adapter_of post a)"
  let ?cv = "case work_env of Some e \<Rightarrow> if we_config_version e \<noteq> [] then we_config_version e else ''v1'' | None \<Rightarrow> ''v1''"
  let ?run = "run_regions E ?adapter (page_engines ?adapter) (or_else (pp_image_bytes p) ''fake_image_bytes'')
      (payload_page_id p) ?cv (rp_regions (route_layout p)) w"
  have "fst ?run = Inr rs"
    using assms True unfolding page_results_def dispatch_and_extract_def page_engines_def route_layout_page by simp
  then have "?run = (Inr rs, snd ?run)" by (simp add: prod_eq_iff)
  from baidu_port.run_regions_own [OF this] show ?thesis by (simp add: own_result_def list_all_iff)
qed (use assms in \<open>simp add: page_results_def\<close>)

definition demo_answer :: json where
  "demo_answer = JDict [(''words_result'', JList
     [JDict [(''words'', JStr ''Khasra No 12''), (''probability'', JNum 0.7),
             (''location'', JList [JNum 10, JNum 20, JNum 100, JNum 15])],
      JDict [(''words'', JStr ''Share 1/2''), (''probability'', JDict [(''average'', JNum 0.9)]),
             (''location'', JDict [(''left'', JNum 10), (''top'', JNum 40), (''w'', JNum 80), (''height'', JNum 15)])]])]"

definition demo_baidu :: baidu_config where
  "demo_baidu = \<lparr>bc_endpoint_url = Some ''http://ocr'', bc_api_key = Some ''key'', bc_secret_key = None,
     bc_model_version = ''v7'', bc_allow_test_fallback = False\<rparr>"

lemma demo_answer_read:
  "baidu_process_image (adapter_of (\<lambda>url key img p. Json_Body demo_answer) demo_baidu) ''img'' ''page'' ''v1'' =
     Inr \<lparr>or_page_id = ''page'', or_tokens =
        [\<lparr>tk_text = ''Khasra No 12'', tk_confidence = 0.7, tk_bbox = Some \<lparr>bx_x = 10, bx_y = 20, bx_w = 100, bx_h = 15\<rparr>,
          tk_top_k = [(''Khasra No 12'', 0.7)]\<rparr>,
         \<lparr>tk_text = ''Share 1/2'', tk_confidence = 0.9, tk_bbox = Some \<lparr>bx_x = 10, bx_y = 40, bx_w = 80, bx_h = 15\<rparr>,
          tk_top_k = [(''Share 1/2'', 0.9)]\<rparr>],
        or_full_text = ''Khasra No 12'' @ [CHR 0x0A] @ ''Share 1/2'', or_engine_id = ''printed_ocr'',
        or_model_version = ''v7'', or_config_version = ''v1''\<rparr>"
  by (simp add: baidu_process_image_def adapter_of_def demo_baidu_def call_baidu_api_def demo_answer_def
      parse_baidu_response_def error_code_set_def first_of_def jor_def jget_def parse_token_def item_confidence_def
      parse_location_def box_of_def location_number_def)

theorem tokens_say_the_answer_witness:
  "\<exists>d items. demo_answer = JDict d \<and> first_of ''words_result'' ''tokens'' ''predictions'' d = JList items \<and>
     length items = 2 \<and> list_all2 says items
       (or_tokens (projr (baidu_process_image (adapter_of (\<lambda>url key img p. Json_Body demo_answer) demo_baidu)
          ''img'' ''page'' ''v1'')))"
proof -
  have "truthy (bc_endpoint_url demo_baidu)" by (simp add: demo_baidu_def)
  from tokens_say_the_answer [OF this demo_answer_read] obtain d items where
    d: "demo_answer = JDict d" "first_of ''words_result'' ''tokens'' ''predictions'' d = JList items"
    and s: "list_all2 says items (or_tokens (projr (baidu_process_image
        (adapter_of (\<lambda>url key img p. Json_Body demo_answer) demo_baidu) ''img'' ''page'' ''v1'')))"
    by (auto simp: demo_answer_read)
  then have "length items = 2" using list_all2_lengthD [OF s] by (simp add: demo_answer_read)
  with d s show ?thesis by blast
qed

text \<open>
  Three readings that are not what the engine said. A probability of zero, the engine's least certainty, is
  taken for a missing one and becomes 0.95; an answer without a line, a blank page, is an error; and one
  line without a text makes the whole answer an error.
\<close>

lemma zero_confidence_becomes_high:
  "parse_token (JDict [(''words'', JStr s), (''probability'', JNum 0)]) =
     (if s = [] then Inl (OCRResponseParseError ''Missing text string in token'')
      else Inr \<lparr>tk_text = s, tk_confidence = 0.95, tk_bbox = None, tk_top_k = [(s, 0.95)]\<rparr>)"
  by (simp add: parse_token_def first_of_def jor_def jget_def item_confidence_def parse_location_def)

lemma blank_page_is_an_error:
  "parse_baidu_response a (JDict [(''words_result'', JList [])]) page_id cv =
     Inl (OCRResponseParseError ''Response missing valid words_result, tokens, or predictions array'')"
  by (simp add: parse_baidu_response_def error_code_set_def first_of_def jor_def jget_def)

lemma textless_line_fails_all:
  assumes "parse_token v = Inl err"
  shows "\<exists>e. parse_tokens (us @ v # vs) = Inl e"
  using assms
proof (induction us)
  case (Cons u us)
  then show ?case by (cases "parse_token u") auto
qed simp

subsection \<open>Redaction\<close>

lemma redact_secret:
  "redact_values (''see api_key='' @ v # vs) = ''see api_key=[REDACTED]'' @
     redact_values (dropWhile (\<lambda>c. c \<noteq> CHR ''&'' \<and> c \<noteq> CHR '' '') (v # vs))"
  if "v \<noteq> CHR ''&''" "v \<noteq> CHR '' ''"
  using that by (simp add: redact_values.simps secret_name_at_def lower_def lower_char_def)

end
