(* ===== verification/Spec2Isabelle.thy ===== *)
theory Spec2Isabelle
  imports Audit_Verify Records_Api Config Upkeep Runner Decision_Flow Map_Lane Baidu_Ocr
begin

text \<open>
  The land record digitisation pipeline: scanned registers and maps become records whose every value has
  an audited history. A document is received once and split into pages; triage pins the versions
  of the models a page is read with and queues it for the text and the map lane; the lanes turn
  it into extractions, records and parcels; the calibration pipeline decides, field by field,
  between automatic acceptance and review; the decision engine carries the decision out once;
  officers review and correct under a maker-checker rule; a publication gate appends versions of
  a record; every step leaves an entry in a hash-chained log that is anchored outside.

  The model is a shallow embedding of the Python code, one theory per component. An operation
  takes the environment \<open>env\<close> (clock, random ids, digests), its arguments and a state, and returns an
  error or a value with the next state; a database transaction is a \<open>session\<close>, committed or rolled
  back. A table is the list of its rows, a dictionary an association list, an exception a
  constructor of \<open>exn\<close>, a \<open>float\<close> a real number, text its UTF-8 bytes.
\<close>

section \<open>Theories\<close>

text \<open>
  \<^item> \<open>Prelude\<close>: Python values, environment, exceptions, queries over rows, sessions.
  \<^item> \<open>Audit_Chain\<close>, \<open>Audit_Merkle\<close>, \<open>Audit_Verify\<close> (\<open>libs/audit\<close>, \<open>backend/cli/verify_chain.py\<close>): the
    sharded hash chain, the Merkle root over its heads, the two anchors behind the locale
    \<open>witness_port\<close>, and the verification a command line runs. Appends keep every shard verifying;
    equal heads mean equal histories or a collision; a root read back from the anchor store
    verifies, and a log that verifies against an anchored root is the anchored one.
  \<^item> \<open>Object_Store\<close> (\<open>libs/storage\<close>): content-addressed stores behind the locale \<open>object_store\<close>, interpreted on
    the file system driver; stored bytes never change and come back as they were put.
  \<^item> \<open>Queue\<close>, \<open>Outbox\<close>, \<open>Envelope\<close> (\<open>libs/queue\<close>, \<open>outbox\<close>, \<open>envelope\<close>, \<open>observability\<close>): the broker port as the
    locales \<open>publisher\<close> and \<open>queue_port\<close>, interpreted on the in-memory broker; the relay; pinning.
    Nothing is marked dispatched that was not published, enough drains publish everything, and an
    envelope is pinned once.
  \<^item> \<open>Entities\<close>, \<open>Audit_Log\<close> (\<open>backend/models/entities.py\<close>, \<open>domain/audit_log.py\<close>): the tables with their
    CHECK constraints and the entries each operation writes.
  \<^item> \<open>Triage\<close>, \<open>Decision\<close>, \<open>Runner\<close> (\<open>domain/triage.py\<close>, \<open>decision.py\<close>, \<open>page_lifecycle.py\<close>, \<open>workers/\<close>): routing of
    pages, the five outcomes of a decision, and the loop that consumes a queue, retries and
    dead-letters. A decision takes effect once, whatever is redelivered; a message is lost by no
    failure.
  \<^item> \<open>Edit_Distance\<close>, \<open>Review\<close> (\<open>correction.py\<close>, \<open>review_session.py\<close>, \<open>review_workflow.py\<close>, \<open>api/review_tasks.py\<close>):
    corrections and the maker-checker rule over runs of the step relation \<open>review_step\<close>.
  \<^item> \<open>Publication\<close>, \<open>Upkeep\<close> (\<open>completeness.py\<close>, \<open>conflict_register.py\<close>, \<open>publication_gate.py\<close>,
    \<open>publication.py\<close>, \<open>rescan.py\<close>, \<open>fixity.py\<close>, \<open>dashboard.py\<close>): when a record may be published, its versions,
    and the upkeep of the stored copies.
  \<^item> \<open>Access\<close>, \<open>Provenance\<close>, \<open>Records_Api\<close> (\<open>access_control.py\<close>, \<open>libs/masking\<close>, \<open>preprocessing.py\<close>,
    \<open>provenance.py\<close>, \<open>api/records.py\<close>): who sees what; masked answers do not depend on personal data.
  \<^item> \<open>Ingest\<close> (\<open>ingest.py\<close>, \<open>page_split.py\<close>, \<open>drop_folder_watcher.py\<close>): custody in two stores (locales
    \<open>stream_store\<close>, \<open>two_copies\<close>) and the split into pages.
  \<^item> \<open>Config\<close> (\<open>config_versions.py\<close>, \<open>libs/config_client\<close>, \<open>closed_sets.py\<close>): effective-dated configuration, the
    client's cache as a refinement of the table, and the closed sets.
  \<^item> \<open>Calibration\<close>, \<open>Novelty\<close>, \<open>Cold_Start\<close>, \<open>Decision_Flow\<close> (\<open>modelwork/domain/calibration\<close>): the learned
    calibrator with its training, the novelty detector, the ramp of a new model as the step
    relation \<open>ramp_step\<close>, and the flow from an extraction to the published decision. Automatic
    acceptance happens exactly under its conditions and only after the evidence of the ramp.
  \<^item> \<open>Strikethrough\<close>, \<open>Table_Extractor\<close>, \<open>Text_Fields\<close>, \<open>Relationships\<close>, \<open>Record_Assembly\<close>
    (\<open>extraction/domain\<close>): crossed-out entries, ruled tables, fields and their normalisation,
    owners and parcels, and records over several pages. No reading is lost or made up by them,
    outside the cases stated beside the theorems.
  \<^item> \<open>Text_Lane\<close>, \<open>Baidu_Ocr\<close> (\<open>extraction/domain/ocr\<close>, \<open>workers/text_lane.py\<close>): region routing, the engines behind
    the locale \<open>ocr_port\<close>, interpreted on both adapters of the code, the reading of an engine's
    answer, and the worker.
  \<^item> \<open>Vectorize\<close>, \<open>Map_Lane\<close> (\<open>georeference.py\<close>, \<open>vectorize.py\<close>, \<open>parcel_pipeline.py\<close>, \<open>workers/map_lane.py\<close>,
    \<open>triage_consumer.py\<close>): control points, boundaries, survey labels, areas, and the consumer
    that hands a triaged page to the lanes.
\<close>

section \<open>What is shown, and under which assumptions\<close>

text \<open>
  The properties are the theorems whose text starts with \<open>C\<close> and a number; each with hypotheses is
  followed by a theorem \<open>_witness\<close> that applies it to a concrete state. The lemmas that end a theory,
  after a text that says so, prove where the code does something other than what it or its comments
  say.

  Assumptions are named in the statements. Digests: \<open>hexdigest_ok\<close> (they are hexadecimal, without
  \<open>|\<close>) and, as an alternative in the conclusion, \<open>collision\<close> on the finitely many strings hashed.
  Random ids: injectivity where rows are told apart by them. The clock: monotone where the order of a
  log depends on it. Brokers and stores: the laws of the locales. numpy: \<open>lstsq_ok\<close>, the
  solution returned is a least one; nothing is assumed of its rank and nothing of shapely.

  All loops of the code that are modelled end, and are functions of HOL; a worker's loop and a
  drain take the number of rounds as an argument, and the theorems say how many suffice (the
  deliveries left to a message, the pending rows by the size of a batch). Training runs the number of
  iterations the code is given.
\<close>

section \<open>Not modelled\<close>

text \<open>
  \<^item> The servers and libraries behind a port: PostgreSQL (a transaction is atomic; row locks and
    unique constraints are modelled where the code relies on them), Redis and NATS drivers, S3,
    the timestamping authority, HTTP, image decoding, numpy and shapely. They are parameters.
  \<^item> The OCR model server (\<open>services/ocr_service\<close>) and, for handwriting, any real engine: the code
    has none. Its adapter and its answers are modelled.
  \<^item> Rounding of floating point: a \<open>float\<close> is a real. \<open>round\<close> is to the nearest, ties to even, on the
    real value. Infinities and not-a-number do not occur.
  \<^item> Text beyond ASCII in the regular expressions of the field extractor and in \<open>lower\<close>, \<open>upper\<close> and
    \<open>float\<close>; texts of log lines and of most error messages.
  \<^item> Tables without a reader or writer in the modelled code (\<open>ParcelGeometry\<close>, \<open>MutationEvent\<close>,
    \<open>ModelVersion\<close>, \<open>WriterCluster\<close>, \<open>LegacyRecordRef\<close>), the SQL of the migrations, process start,
    settings and the wiring of routes and of the anchor store; the stubs of \<open>modelwork\<close> (workers, learning
    loop) and of \<open>services/validation\<close>, whose handlers raise \<open>NotImplementedError\<close>.
  \<^item> Messages whose parts have other types than the contracts say, except in the answers of the OCR
    engine, which are read from an untyped value as in the code.
\<close>

end
